(* ===== verification/DFS_Prelude.thy ===== *)
theory DFS_Prelude
  imports Main "HOL-Library.AList" "HOL-Library.Char_ord" "HOL-Library.List_Lexorder"
    "HOL-Library.Multiset" "HOL-Library.Word"
begin

text \<open>
  What the components of the distributed file store share.

  \<^item> The types of the model: bytes, instants, errors and results.
  \<^item> Go maps as association lists with distinct keys. The order of the list is the order in
    which a \<open>range\<close> loop meets the entries; Go leaves that order open, so nothing of the
    development fixes it, and the listings whose answer must not depend on it are shown
    not to.
  \<^item> \<open>sort.Slice\<close> as insertion sort with the comparison of the call. The library function
    promises a permutation in which no later element is less than an earlier one; the locale
    \<open>sort_less\<close> shows that for a strict order that is total on the elements there is only
    one such list, so the choice of algorithm is immaterial.
  \<^item> The decimal notation of \<open>fmt.Sprintf\<close> with \<open>%d\<close> and \<open>%06d\<close>, and the
    injectivity facts on which the object names and the task names rest.
\<close>

section \<open>Types of the model\<close>

type_synonym byte = "8 word"

text \<open>
  An instant is a number of nanoseconds since the zero \<open>time.Time\<close>, so \<open>IsZero\<close> is
  equality with 0; a \<open>time.Duration\<close> is a number of nanoseconds. A Go \<open>uint64\<close> is a
  64-bit word.
\<close>

type_synonym instant = int
type_synonym duration = int
type_synonym uint64 = "64 word"
type_synonym 'v gomap = "(string \<times> 'v) list"

text \<open>
  The sentinel errors of the package, the library errors its branches test for, and
  \<open>ErrOther\<close> for every other error value, carried by its message. \<open>Panic\<close> is a Go run
  time panic.
\<close>

datatype error =
    ErrMetadataNotFound
  | ErrReplicaNotFound
  | ErrNoHealthyNodes
  | ErrPrimaryUnavailable
  | ErrTaskNotFound
  | ErrFileDeleted
  | ErrNoReadableReplicas
  | ErrNoPendingTasks
  | ErrChecksumMismatch
  | ErrShortWrite
  | ErrNotExist
  | ENOTDIR
  | EISDIR
  | ENOTEMPTY
  | ErrOther string
  | Panic string

type_synonym 'a result = "error + 'a"

text \<open>
  The text of an error value, \<open>err.Error()\<close>, without the operation and path that the \<open>os\<close>
  package puts in front of it.
\<close>

fun errorMessage :: "error \<Rightarrow> string" where
  "errorMessage ErrMetadataNotFound = ''metadata not found''"
| "errorMessage ErrReplicaNotFound = ''replica not found''"
| "errorMessage ErrNoHealthyNodes = ''no healthy nodes available''"
| "errorMessage ErrPrimaryUnavailable = ''primary replica is not available''"
| "errorMessage ErrTaskNotFound = ''replication task not found''"
| "errorMessage ErrFileDeleted = ''file is deleted''"
| "errorMessage ErrNoReadableReplicas = ''no readable replicas available''"
| "errorMessage ErrNoPendingTasks = ''no pending replication tasks''"
| "errorMessage ErrChecksumMismatch = ''object checksum mismatch''"
| "errorMessage ErrShortWrite = ''short write''"
| "errorMessage ErrNotExist = ''file does not exist''"
| "errorMessage ENOTDIR = ''not a directory''"
| "errorMessage EISDIR = ''is a directory''"
| "errorMessage ENOTEMPTY = ''directory not empty''"
| "errorMessage (ErrOther msg) = msg"
| "errorMessage (Panic msg) = msg"

text \<open>
  An error that no branch of the package produces itself: a failure of the disk, the
  database or the network below it.
\<close>

definition io_error :: "error \<Rightarrow> bool" where
  "io_error e \<longleftrightarrow> (\<exists>msg. e = ErrOther msg)"

named_theorems gm_simps "reading and writing association lists that stand for Go maps"
named_theorems sort_simps "membership and length of sorted lists"
named_theorems naming "injectivity of generated names"

text \<open>
  Agreement of an implementation of an interface with its reference. A read returns the
  reference value or fails below; a write does what the reference does, answer and abstract
  state, or fails below and leaves the abstract state as it was. Either way the
  representation invariant is kept.
\<close>

definition read_ok :: "'a result \<Rightarrow> 'a \<Rightarrow> bool" where
  "read_ok r v \<longleftrightarrow> r = Inr v \<or> (\<exists>e. r = Inl e \<and> io_error e)"

definition write_ok ::
  "('s \<Rightarrow> bool) \<Rightarrow> ('s \<Rightarrow> 'a) \<Rightarrow> 's \<Rightarrow> 'r result \<times> 's \<Rightarrow> 'r result \<times> 'a \<Rightarrow> bool" where
  "write_ok ivar abst s w ref \<longleftrightarrow> ivar (snd w) \<and>
     (fst w = fst ref \<and> abst (snd w) = snd ref \<or>
      (\<exists>e. fst w = Inl e \<and> io_error e \<and> abst (snd w) = abst s))"

lemma read_okE [case_names Value Failure]:
  assumes "read_ok r v"
  obtains (Value) "r = Inr v" | (Failure) e where "r = Inl e" and "io_error e"
  using assms by (auto simp: read_ok_def)

lemma write_okE [case_names Done Failure]:
  assumes "write_ok ivar abst s w ref"
  obtains (Done) s' where "w = (fst ref, s')" and "ivar s'" and "abst s' = snd ref"
    | (Failure) e s' where "w = (Inl e, s')" and "io_error e" and "ivar s'" and "abst s' = abst s"
  using assms by (cases w) (auto simp: write_ok_def)

lemma read_ok_Inr [simp]: "read_ok (Inr v) w \<longleftrightarrow> v = w"
  by (auto simp: read_ok_def)

section \<open>Sequencing fallible steps\<close>

text \<open>The early return on an error, and a loop that returns on the first one.\<close>

definition bind_result :: "'a result \<Rightarrow> ('a \<Rightarrow> 'b result) \<Rightarrow> 'b result" where
  "bind_result r f = (case r of Inl e \<Rightarrow> Inl e | Inr v \<Rightarrow> f v)"

fun map_result :: "('a \<Rightarrow> 'b result) \<Rightarrow> 'a list \<Rightarrow> 'b list result" where
  "map_result f [] = Inr []"
| "map_result f (x # xs) = bind_result (f x) (\<lambda>y. bind_result (map_result f xs) (\<lambda>ys. Inr (y # ys)))"

lemma bind_result_simps [simp]: "bind_result (Inl e) f = Inl e" "bind_result (Inr v) f = f v"
  by (simp_all add: bind_result_def)

lemma map_result_Inr: "(\<And>x. x \<in> set xs \<Longrightarrow> f x = Inr (g x)) \<Longrightarrow> map_result f xs = Inr (map g xs)"
  by (induction xs) auto

lemma bind_result_eq_Inr: "bind_result r f = Inr w \<longleftrightarrow> (\<exists>v. r = Inr v \<and> f v = Inr w)"
  by (cases r) auto

lemma bind_result_eq_Inl: "bind_result r f = Inl e \<longleftrightarrow> r = Inl e \<or> (\<exists>v. r = Inr v \<and> f v = Inl e)"
  by (cases r) auto

section \<open>Lists, options and pairs\<close>

lemma split_last_unique [naming]:
  assumes "x @ c # y = x' @ c # y'" and "c \<notin> set y" and "c \<notin> set y'"
  shows "x = x' \<and> y = y'"
  using assms
proof (induction x arbitrary: x')
  case Nil
  then show ?case by (cases x') auto
next
  case (Cons a x)
  then show ?case by (cases x') auto
qed

lemma distinct_map_filter_fst:
  "distinct (map fst xs) \<Longrightarrow> distinct (map fst (filter P xs))"
  by (induction xs) auto

lemma Inl_Inr_cases [case_names Inl Inr]:
  obtains (Inl) e where "r = Inl e" | (Inr) v where "r = Inr v"
  by (cases r) auto

text \<open>\<open>strings.HasPrefix\<close>.\<close>

definition HasPrefix :: "string \<Rightarrow> string \<Rightarrow> bool" where
  "HasPrefix s pre \<longleftrightarrow> take (length pre) s = pre"

section \<open>Go maps\<close>

text \<open>Reading is \<open>map_of\<close>, \<open>m[k] = v\<close> is \<open>AList.update\<close>, \<open>len(m)\<close> is \<open>length\<close>.\<close>

abbreviation gm_get :: "'v gomap \<Rightarrow> string \<Rightarrow> 'v option" where
  "gm_get \<equiv> map_of"

abbreviation gm_put :: "string \<Rightarrow> 'v \<Rightarrow> 'v gomap \<Rightarrow> 'v gomap" where
  "gm_put \<equiv> AList.update"

definition gm_keys :: "'v gomap \<Rightarrow> string list" where
  "gm_keys m = map fst m"

definition gm_vals :: "'v gomap \<Rightarrow> 'v list" where
  "gm_vals m = map snd m"

definition gm_wf :: "'v gomap \<Rightarrow> bool" where
  "gm_wf m \<longleftrightarrow> distinct (map fst m)"

text \<open>A \<open>range\<close> loop that assigns a new value to every entry it visits.\<close>

definition gm_update_all :: "(string \<Rightarrow> 'v \<Rightarrow> 'v) \<Rightarrow> 'v gomap \<Rightarrow> 'v gomap" where
  "gm_update_all f m = map (\<lambda>(k, v). (k, f k v)) m"

text \<open>
  Every value of the map satisfies a property, under its key. Well-formedness of the
  components' tables is stated with it.
\<close>

definition gm_all :: "(string \<Rightarrow> 'v \<Rightarrow> bool) \<Rightarrow> 'v gomap \<Rightarrow> bool" where
  "gm_all P m \<longleftrightarrow> (\<forall>(k, v) \<in> set m. P k v)"

lemma gm_get_put [simp, gm_simps]:
  "gm_get (gm_put k v m) k' = (if k' = k then Some v else gm_get m k')"
  by (simp add: update_conv')

lemma gm_wf_empty [simp]: "gm_wf []"
  by (simp add: gm_wf_def)

lemma gm_wf_put [simp, intro]: "gm_wf m \<Longrightarrow> gm_wf (gm_put k v m)"
  by (simp add: gm_wf_def distinct_update)

lemma gm_keys_put [gm_simps]: "set (gm_keys (gm_put k v m)) = insert k (set (gm_keys m))"
  by (auto simp: gm_keys_def dom_map_of_conv_image_fst [symmetric] update_conv')

lemma gm_wf_update_all [simp]: "gm_wf (gm_update_all f m) = gm_wf m"
  by (simp add: gm_wf_def gm_update_all_def comp_def case_prod_beta)

lemma gm_get_update_all [simp, gm_simps]:
  "gm_get (gm_update_all f m) k = map_option (f k) (gm_get m k)"
  by (induction m) (auto simp: gm_update_all_def)

lemma gm_keys_update_all [simp, gm_simps]: "gm_keys (gm_update_all f m) = gm_keys m"
  by (simp add: gm_keys_def gm_update_all_def comp_def case_prod_beta)

lemma gm_get_Some_iff [gm_simps]: "gm_wf m \<Longrightarrow> gm_get m k = Some v \<longleftrightarrow> (k, v) \<in> set m"
  by (simp add: gm_wf_def)

lemma gm_get_None_iff [gm_simps]: "gm_get m k = None \<longleftrightarrow> k \<notin> set (gm_keys m)"
  by (simp add: gm_keys_def map_of_eq_None_iff)

lemma gm_get_keys [gm_simps]: "k \<in> set (gm_keys m) \<longleftrightarrow> (\<exists>v. gm_get m k = Some v)"
  using gm_get_None_iff [of m k] by (cases "gm_get m k") auto

lemma gm_all_empty [simp]: "gm_all P []"
  by (simp add: gm_all_def)

lemma gm_all_iff: "gm_wf m \<Longrightarrow> gm_all P m \<longleftrightarrow> (\<forall>k v. gm_get m k = Some v \<longrightarrow> P k v)"
  by (auto simp: gm_all_def gm_get_Some_iff)

lemma gm_allD: "gm_all P m \<Longrightarrow> gm_get m k = Some v \<Longrightarrow> P k v"
  by (auto simp: gm_all_def dest: map_of_SomeD)

lemma gm_all_put [simp, intro]:
  assumes "gm_wf m" and "gm_all P m" and "P k v"
  shows "gm_all P (gm_put k v m)"
  using assms by (simp add: gm_all_iff)

lemma gm_all_update_all [simp, intro]:
  assumes "gm_all P m" and "\<And>k v. P k v \<Longrightarrow> P k (f k v)"
  shows "gm_all P (gm_update_all f m)"
  using assms by (auto simp: gm_all_def gm_update_all_def)

lemma gm_vals_in [gm_simps]:
  "gm_wf m \<Longrightarrow> v \<in> set (gm_vals m) \<longleftrightarrow> (\<exists>k. gm_get m k = Some v)"
  by (force simp: gm_vals_def gm_get_Some_iff)

text \<open>Where each value carries its key, the values' keys are the keys of the map.\<close>

lemma gm_vals_keys [gm_simps]: "gm_all (\<lambda>k v. f v = k) m \<Longrightarrow> map f (gm_vals m) = gm_keys m"
  by (auto simp: gm_all_def gm_vals_def gm_keys_def)

lemma gm_vals_distinct:
  "gm_wf m \<Longrightarrow> gm_all (\<lambda>k v. f v = k) m \<Longrightarrow> distinct (map f (filter P (gm_vals m)))"
  by (rule distinct_map_filter) (simp add: gm_vals_keys gm_keys_def gm_wf_def)

lemma gm_vals_own_key:
  assumes "gm_wf m" and "gm_all (\<lambda>k v. f v = k) m"
  shows "v \<in> set (gm_vals m) \<longleftrightarrow> gm_get m (f v) = Some v"
  using assms gm_allD [OF assms(2)] by (auto simp: gm_vals_in)

lemma gm_put_length [gm_simps]:
  "length (gm_put k v m) = (if gm_get m k = None then Suc (length m) else length m)"
  by (induction m) auto

text \<open>A loop that assigns under each key of a list a value computed from the key.\<close>

lemma gm_fold_put [gm_simps]:
  assumes "gm_wf acc"
  shows "gm_wf (fold (\<lambda>n. gm_put n (g n)) ns acc)"
    and "gm_get (fold (\<lambda>n. gm_put n (g n)) ns acc) k =
           (if k \<in> set ns then Some (g k) else gm_get acc k)"
  using assms by (induction ns arbitrary: acc) auto

text \<open>
  Copying a map entry by entry, as \<open>cloneFileMetadata\<close> does, gives the same entries.
\<close>

definition gm_clone :: "'v gomap \<Rightarrow> 'v gomap" where
  "gm_clone m = fold (\<lambda>(k, v) acc. gm_put k v acc) m []"

lemma gm_put_fresh: "k \<notin> set (map fst m) \<Longrightarrow> gm_put k v m = m @ [(k, v)]"
  by (induction m) auto

lemma fold_put_append:
  "distinct (map fst (acc @ m)) \<Longrightarrow> fold (\<lambda>(k, v) acc. gm_put k v acc) m acc = acc @ m"
proof (induction m arbitrary: acc)
  case Nil
  then show ?case by simp
next
  case (Cons e m)
  obtain k v where e: "e = (k, v)" by (cases e)
  from Cons.prems e have "gm_put k v acc = acc @ [(k, v)]"
    by (intro gm_put_fresh) auto
  with Cons e show ?case by simp
qed

lemma gm_clone_id [simp]: "gm_wf m \<Longrightarrow> gm_clone m = m"
  by (simp add: gm_clone_def gm_wf_def fold_put_append)

text \<open>The counting loop \<open>stats[k]++\<close> over a list of map keys.\<close>

definition go_tally :: "'k list \<Rightarrow> ('k \<times> nat) list" where
  "go_tally ks =
     fold (\<lambda>k stats. AList.update k (Suc (case map_of stats k of None \<Rightarrow> 0 | Some n \<Rightarrow> n)) stats) ks []"

lemma go_tally_gen:
  "map_of (fold (\<lambda>k stats. AList.update k (Suc (case map_of stats k of None \<Rightarrow> 0 | Some n \<Rightarrow> n)) stats)
             ks acc) k =
   (if k \<in> set ks then Some (count_list ks k + (case map_of acc k of None \<Rightarrow> 0 | Some n \<Rightarrow> n))
    else map_of acc k)"
  by (induction ks arbitrary: acc) (auto simp: update_conv' split: option.splits)

lemma go_tally_count:
  "map_of (go_tally ks) k = (if k \<in> set ks then Some (count_list ks k) else None)"
  by (simp add: go_tally_def go_tally_gen)

section \<open>Sorting with the comparison of the call\<close>

fun go_insert :: "('a \<Rightarrow> 'a \<Rightarrow> bool) \<Rightarrow> 'a \<Rightarrow> 'a list \<Rightarrow> 'a list" where
  "go_insert lt x [] = [x]"
| "go_insert lt x (y # ys) =
     (if lt y x then y # go_insert lt x ys else x # y # ys)"

definition go_sort :: "('a \<Rightarrow> 'a \<Rightarrow> bool) \<Rightarrow> 'a list \<Rightarrow> 'a list" where
  "go_sort lt xs = foldr (go_insert lt) xs []"

lemma mset_go_insert [simp]: "mset (go_insert lt x xs) = add_mset x (mset xs)"
  by (induction xs) auto

lemma go_sort_Nil [simp]: "go_sort lt [] = []"
  by (simp add: go_sort_def)

lemma go_sort_Cons [simp]: "go_sort lt (x # xs) = go_insert lt x (go_sort lt xs)"
  by (simp add: go_sort_def)

lemma mset_go_sort [simp, sort_simps]: "mset (go_sort lt xs) = mset xs"
  by (induction xs) auto

lemma set_go_sort [simp, sort_simps]: "set (go_sort lt xs) = set xs"
  by (metis mset_go_sort set_mset_mset)

lemma length_go_sort [simp, sort_simps]: "length (go_sort lt xs) = length xs"
  by (metis mset_go_sort size_mset)

lemma go_sort_eq_Nil [simp, sort_simps]: "go_sort lt xs = [] \<longleftrightarrow> xs = []"
  by (metis length_0_conv length_go_sort)

lemma distinct_map_go_sort [simp, sort_simps]:
  "distinct (map f (go_sort lt xs)) = distinct (map f xs)"
  by (metis mset_go_sort mset_map mset_eq_imp_distinct_iff)

text \<open>
  The contract of a comparison function: a strict order in which two elements that are not
  ordered either way have the same key.
\<close>

locale sort_less =
  fixes lt :: "'a \<Rightarrow> 'a \<Rightarrow> bool" and key :: "'a \<Rightarrow> 'b"
  assumes irrefl: "\<not> lt x x"
    and trans: "lt x y \<Longrightarrow> lt y z \<Longrightarrow> lt x z"
    and total: "\<not> lt x y \<Longrightarrow> \<not> lt y x \<Longrightarrow> key x = key y"
begin

lemma asym: "lt x y \<Longrightarrow> \<not> lt y x"
  using irrefl trans by blast

lemma sorted_go_insert:
  assumes "sorted_wrt lt xs" and "key x \<notin> key ` set xs"
  shows "sorted_wrt lt (go_insert lt x xs)"
  using assms
proof (induction xs)
  case Nil
  then show ?case by simp
next
  case (Cons y ys)
  have sets: "set (go_insert lt x ys) = insert x (set ys)"
    by (metis mset_go_insert set_mset_add_mset_insert set_mset_mset)
  show ?case
  proof (cases "lt y x")
    case True
    with Cons sets show ?thesis by auto
  next
    case False
    with Cons.prems(2) total have "lt x y" by auto
    with Cons.prems(1) False trans show ?thesis by auto
  qed
qed

lemma sorted_go_sort: "distinct (map key xs) \<Longrightarrow> sorted_wrt lt (go_sort lt xs)"
  by (induction xs) (auto intro!: sorted_go_insert)

text \<open>There is one sorted arrangement: any algorithm that sorts returns this list.\<close>

lemma sorted_unique:
  assumes "sorted_wrt lt xs" and "sorted_wrt lt ys" and "set xs = set ys"
  shows "xs = ys"
  using assms
proof (induction xs arbitrary: ys)
  case Nil
  then show ?case by simp
next
  case (Cons x xs)
  then obtain y ys' where ys: "ys = y # ys'" by (cases ys) auto
  from Cons.prems ys have "x = y"
    by (metis asym list.set_intros(1) set_ConsD sorted_wrt.simps(2))
  moreover from Cons.prems ys irrefl have "x \<notin> set xs" and "y \<notin> set ys'" by auto
  ultimately have "set xs = set ys'" using Cons.prems(3) ys by auto
  with Cons ys \<open>x = y\<close> show ?case by simp
qed

lemma go_sort_perm:
  assumes "distinct (map key xs)" and "mset xs = mset ys"
  shows "go_sort lt xs = go_sort lt ys"
proof (rule sorted_unique)
  show "sorted_wrt lt (go_sort lt xs)" using assms(1) by (rule sorted_go_sort)
  from assms have "distinct (map key ys)" by (metis mset_map mset_eq_imp_distinct_iff)
  then show "sorted_wrt lt (go_sort lt ys)" by (rule sorted_go_sort)
  show "set (go_sort lt xs) = set (go_sort lt ys)"
    using mset_eq_setD [OF assms(2)] by simp
qed

lemma go_sort_head_least:
  assumes "distinct (map key xs)" and "go_sort lt xs = y # ys" and "x \<in> set xs"
  shows "x = y \<or> lt y x"
proof -
  from assms(1) have "sorted_wrt lt (go_sort lt xs)" by (rule sorted_go_sort)
  moreover from assms(2,3) have "x \<in> set (y # ys)" by (metis set_go_sort)
  ultimately show ?thesis using assms(2) by auto
qed

end

text \<open>Comparison by a key of an ordered type is such a function.\<close>

definition less_by :: "('a \<Rightarrow> 'b::linorder) \<Rightarrow> 'a \<Rightarrow> 'a \<Rightarrow> bool" where
  "less_by f x y \<longleftrightarrow> f x < f y"

interpretation by_key: sort_less "less_by f" f for f :: "'a \<Rightarrow> 'b::linorder"
  by unfold_locales (auto simp: less_by_def)

lemma sorted_wrt_less_by: "sorted_wrt (less_by f) xs \<longleftrightarrow> sorted_wrt (<) (map f xs)"
  by (simp add: less_by_def [abs_def] sorted_wrt_map)

section \<open>Decimal notation\<close>

definition digit_char :: "nat \<Rightarrow> char" where
  "digit_char d = char_of (48 + d)"

fun dec :: "nat \<Rightarrow> string" where
  "dec n = (if n < 10 then [digit_char n] else dec (n div 10) @ [digit_char (n mod 10)])"

declare dec.simps [simp del]

text \<open>\<open>%0wd\<close> of a number that is not negative: zeros on the left up to the width.\<close>

definition pad_zero :: "nat \<Rightarrow> string \<Rightarrow> string" where
  "pad_zero w s = replicate (w - length s) (CHR ''0'') @ s"

text \<open>Reading decimal digits back; used to show that the notation loses nothing.\<close>

definition digit_val :: "char \<Rightarrow> nat" where
  "digit_val c = of_char c - 48"

definition undec :: "string \<Rightarrow> nat" where
  "undec s = fold (\<lambda>c n. 10 * n + digit_val c) s 0"

definition is_digit :: "char \<Rightarrow> bool" where
  "is_digit c \<longleftrightarrow> (48::nat) \<le> of_char c \<and> of_char c \<le> (57::nat)"

lemma of_char_digit_char [simp]: "d < 10 \<Longrightarrow> of_char (digit_char d) = 48 + d"
  by (simp add: digit_char_def)

lemma digit_val_char [simp]: "d < 10 \<Longrightarrow> digit_val (digit_char d) = d"
  by (simp add: digit_val_def)

lemma is_digit_char [simp]: "d < 10 \<Longrightarrow> is_digit (digit_char d)"
  by (simp add: is_digit_def)

lemma dec_digits: "c \<in> set (dec n) \<Longrightarrow> is_digit c"
proof (induction n rule: dec.induct)
  case (1 n)
  then show ?case by (subst (asm) (2) dec.simps) (auto split: if_splits)
qed

lemma undec_snoc: "undec (s @ [c]) = 10 * undec s + digit_val c"
  by (simp add: undec_def)

lemma undec_dec [simp]: "undec (dec n) = n"
proof (induction n rule: dec.induct)
  case (1 n)
  show ?case
  proof (cases "n < 10")
    case True
    then show ?thesis by (subst dec.simps) (simp add: undec_def)
  next
    case False
    with 1 show ?thesis by (subst dec.simps) (simp add: undec_snoc)
  qed
qed

lemma undec_pad [simp]: "undec (pad_zero w s) = undec s"
proof -
  have "fold (\<lambda>c n. 10 * n + digit_val c) (replicate k (CHR ''0'')) 0 = 0" for k
    by (induction k) (auto simp: digit_val_def)
  then show ?thesis by (simp add: undec_def pad_zero_def)
qed

lemma dec_inject [simp, naming]: "dec m = dec n \<longleftrightarrow> m = n"
  by (metis undec_dec)

lemma pad_zero_dec_inject [naming]: "pad_zero w (dec m) = pad_zero w (dec n) \<Longrightarrow> m = n"
  by (metis undec_dec undec_pad)

lemma not_digit_in_dec [naming]: "\<not> is_digit c \<Longrightarrow> c \<notin> set (dec n)"
  using dec_digits by blast

lemma not_digit_in_pad [naming]: "\<not> is_digit c \<Longrightarrow> c \<notin> set (pad_zero w (dec n))"
  by (auto simp: pad_zero_def is_digit_def dest: dec_digits)

lemma punctuation_not_digit [simp]:
  "\<not> is_digit (CHR '':'')" "\<not> is_digit (CHR ''.'')" "\<not> is_digit (CHR ''v'')" "\<not> is_digit (CHR ''-'')"
  by (simp_all add: is_digit_def)

end
