(* ===== verification/Http_Paths.thy ===== *)
theory Http_Paths
  imports DFS_Prelude
begin

text \<open>
  The parts of \<open>net/url\<close>, \<open>strings\<close> and \<open>strconv\<close> that \<open>http_api.go\<close>,
  \<open>http_object_store.go\<close> and \<open>main.go\<close> of \<open>src/distributed-fs\<close> use to put a key into a URL
  and to get it out again: escaping of a path segment, splitting a URL, reading a query, and
  decimal numbers.

  Shown here: unescaping undoes escaping; what a URL built from a node's address, an escaped key
  and a version is split into; and that unescaping a second time gives the key exactly if it has
  no percent sign, or fails or gives another key.
\<close>

section \<open>Strings\<close>

definition TrimPrefix :: "string \<Rightarrow> string \<Rightarrow> string" where
  "TrimPrefix s pre = (if HasPrefix s pre then drop (length pre) s else s)"

definition HasSuffix :: "string \<Rightarrow> string \<Rightarrow> bool" where
  "HasSuffix s suf \<longleftrightarrow> length suf \<le> length s \<and> drop (length s - length suf) s = suf"

definition TrimSuffix :: "string \<Rightarrow> string \<Rightarrow> string" where
  "TrimSuffix s suf = (if HasSuffix s suf then take (length s - length suf) s else s)"

text \<open>\<open>TrimRight(s, "/")\<close>.\<close>

definition TrimRightSlash :: "string \<Rightarrow> string" where
  "TrimRightSlash s = rev (dropWhile (\<lambda>c. c = CHR ''/'') (rev s))"

fun Contains :: "string \<Rightarrow> string \<Rightarrow> bool" where
  "Contains [] sub \<longleftrightarrow> sub = []"
| "Contains (c # cs) sub \<longleftrightarrow> HasPrefix (c # cs) sub \<or> Contains cs sub"

text \<open>\<open>strings.Cut\<close> at a character: what stands before the first one, and after it if there is one.\<close>

definition Cut :: "char \<Rightarrow> string \<Rightarrow> string \<times> string option" where
  "Cut c s = (takeWhile (\<lambda>x. x \<noteq> c) s,
     case dropWhile (\<lambda>x. x \<noteq> c) s of [] \<Rightarrow> None | _ # rest \<Rightarrow> Some rest)"

fun split_at :: "char \<Rightarrow> string \<Rightarrow> string list" where
  "split_at c [] = [[]]"
| "split_at c (x # xs) =
     (if x = c then [] # split_at c xs else (x # hd (split_at c xs)) # tl (split_at c xs))"

lemma HasPrefix_append [simp]: "HasPrefix (pre @ s) pre"
  by (simp add: HasPrefix_def)

lemma TrimPrefix_append [simp]: "TrimPrefix (pre @ s) pre = s"
  by (simp add: TrimPrefix_def)

lemma HasSuffix_append [simp]: "HasSuffix (s @ suf) suf" "TrimSuffix (s @ suf) suf = s"
  by (simp_all add: HasSuffix_def TrimSuffix_def)

lemma HasSuffix_iff: "HasSuffix s suf \<longleftrightarrow> (\<exists>a. s = a @ suf)"
  by (metis HasSuffix_append(1) HasSuffix_def append_take_drop_id)

lemma Contains_pair_append:
  "Contains (a @ b) [c, d] \<longleftrightarrow>
     Contains a [c, d] \<or> Contains b [c, d] \<or> (a \<noteq> [] \<and> b \<noteq> [] \<and> last a = c \<and> hd b = d)"
proof (induction a)
  case (Cons x a)
  then show ?case by (cases a; cases b) (auto simp: HasPrefix_def)
qed simp

lemma Cut_append [simp]: "c \<notin> set a \<Longrightarrow> Cut c (a @ c # b) = (a, Some b)"
  by (induction a) (auto simp: Cut_def)

lemma Cut_none [simp]: "c \<notin> set a \<Longrightarrow> Cut c a = (a, None)"
  by (induction a) (auto simp: Cut_def)

lemma split_at_single [simp]: "c \<notin> set s \<Longrightarrow> split_at c s = [s]"
  by (induction s) auto

section \<open>Escaping\<close>

text \<open>The bytes that \<open>PathEscape\<close> leaves alone: letters, digits and a few marks.\<close>

definition shouldEscape :: "char \<Rightarrow> bool" where
  "shouldEscape c =
     (let b = (of_char c :: nat) in
      \<not> (97 \<le> b \<and> b \<le> 122 \<or> 65 \<le> b \<and> b \<le> 90 \<or> 48 \<le> b \<and> b \<le> 57 \<or> c \<in> set ''-_.~$&+:=@''))"

definition upperhex :: "nat \<Rightarrow> char" where
  "upperhex n = (if n < 10 then char_of (48 + n) else char_of (55 + n))"

definition unhex :: "char \<Rightarrow> nat option" where
  "unhex c =
     (let b = of_char c in
      if 48 \<le> b \<and> b \<le> 57 then Some (b - 48)
      else if 97 \<le> b \<and> b \<le> 102 then Some (b - 87)
      else if 65 \<le> b \<and> b \<le> 70 then Some (b - 55)
      else None)"

definition escape_char :: "char \<Rightarrow> string" where
  "escape_char c =
     (if shouldEscape c then [CHR ''%'', upperhex (of_char c div 16), upperhex (of_char c mod 16)] else [c])"

definition PathEscape :: "string \<Rightarrow> string" where
  "PathEscape s = concat (map escape_char s)"

definition EscapeError :: error where
  "EscapeError = ErrOther ''invalid URL escape''"

text \<open>\<open>PathUnescape\<close>, which is also how the path of a URL is decoded.\<close>

fun PathUnescape :: "string \<Rightarrow> string result" where
  "PathUnescape [] = Inr []"
| "PathUnescape (c # cs) =
     (if c = CHR ''%'' then
        (case cs of
           h # l # rest \<Rightarrow>
             (case (unhex h, unhex l) of
                (Some a, Some b) \<Rightarrow> bind_result (PathUnescape rest) (\<lambda>s. Inr (char_of (16 * a + b) # s))
              | _ \<Rightarrow> Inl EscapeError)
         | _ \<Rightarrow> Inl EscapeError)
      else bind_result (PathUnescape cs) (\<lambda>s. Inr (c # s)))"

lemma unhex_upperhex [simp]: "n < 16 \<Longrightarrow> unhex (upperhex n) = Some n"
  by (auto simp: unhex_def upperhex_def Let_def)

lemma percent_escaped [simp]: "shouldEscape (CHR ''%'')"
  by (simp add: shouldEscape_def)

lemma char_digits: "char_of (16 * (of_char c div 16) + of_char c mod 16 :: nat) = c"
  by simp

lemma of_char_div16: "(of_char c :: nat) div 16 < 16"
  by (rule less_mult_imp_div_less) simp

lemma PathUnescape_escape_char:
  "PathUnescape (escape_char c @ s) = bind_result (PathUnescape s) (\<lambda>r. Inr (c # r))"
  using of_char_div16 [of c] char_digits [of c] by (auto simp: escape_char_def)

lemma PathUnescape_PathEscape [simp]: "PathUnescape (PathEscape s) = Inr s"
  by (induction s) (simp_all add: PathEscape_def PathUnescape_escape_char)

text \<open>A path that needs no unescaping, and one whose characters are all kept.\<close>

lemma PathUnescape_plain [simp]: "CHR ''%'' \<notin> set s \<Longrightarrow> PathUnescape s = Inr s"
  by (induction s) auto

lemma PathUnescape_append_plain:
  "CHR ''%'' \<notin> set a \<Longrightarrow> PathUnescape (a @ b) = bind_result (PathUnescape b) (\<lambda>r. Inr (a @ r))"
  by (induction a) (auto simp: bind_result_def split: sum.split)

lemma PathUnescape_length: "PathUnescape s = Inr t \<Longrightarrow> length t \<le> length s \<and> (length t = length s \<longrightarrow> CHR ''%'' \<notin> set s)"
  by (induction s arbitrary: t rule: PathUnescape.induct)
    (fastforce simp: bind_result_eq_Inr split: if_splits list.splits option.splits)+

lemma PathUnescape_id_iff: "PathUnescape s = Inr s \<longleftrightarrow> CHR ''%'' \<notin> set s"
  using PathUnescape_length [of s s] by auto

lemma PathEscape_chars: "c \<in> set (PathEscape s) \<Longrightarrow> c = CHR ''%'' \<or> \<not> shouldEscape c"
proof -
  have "\<not> shouldEscape (upperhex n)" if "n < 16" for n
    using that by (auto simp: shouldEscape_def upperhex_def Let_def)
  then show "c \<in> set (PathEscape s) \<Longrightarrow> ?thesis"
    using of_char_div16 by (auto simp: PathEscape_def escape_char_def split: if_splits)
qed

lemma PathEscape_no_delim: "c \<in> set ''/?#'' \<Longrightarrow> c \<notin> set (PathEscape s)"
  using PathEscape_chars [of c s] by (auto simp: shouldEscape_def)

section \<open>URLs\<close>

text \<open>
  \<open>url.Parse\<close> of an absolute URL as the HTTP client and the server see it together: the origin
  (scheme and host) the request goes to, the unescaped path, and the raw query. The fragment is
  dropped. A URL without a scheme is refused by the client; the host is resolved by the network.
\<close>

definition parse_url :: "string \<Rightarrow> (string \<times> string \<times> string) result" where
  "parse_url u =
     (let u1 = fst (Cut (CHR ''#'') u);
          (u2, query) = Cut (CHR ''?'') u1;
          (scheme, rest) = Cut (CHR '':'') u2
      in case rest of
           Some (CHR ''/'' # CHR ''/'' # r) \<Rightarrow>
             (let host = takeWhile (\<lambda>c. c \<noteq> CHR ''/'') r;
                  path = dropWhile (\<lambda>c. c \<noteq> CHR ''/'') r
              in bind_result (PathUnescape path) (\<lambda>p.
                   Inr (scheme @ ''://'' @ host, p, case query of None \<Rightarrow> [] | Some q \<Rightarrow> q)))
         | _ \<Rightarrow> Inl (ErrOther ''unsupported protocol scheme''))"

text \<open>An address of the form \<open>scheme://host\<close>.\<close>

definition is_origin :: "string \<Rightarrow> bool" where
  "is_origin orig \<longleftrightarrow> (\<exists>scheme host. orig = scheme @ ''://'' @ host \<and>
     set scheme \<inter> set ''/?#:'' = {} \<and> set host \<inter> set ''/?#'' = {})"

lemma parse_url_origin:
  assumes "is_origin orig" and "path = CHR ''/'' # path'" and "set path \<inter> set ''?#'' = {}"
    and "CHR ''#'' \<notin> set query"
  shows "parse_url (orig @ path @ ''?'' @ query) = bind_result (PathUnescape path) (\<lambda>p. Inr (orig, p, query))"
    and "parse_url (orig @ path) = bind_result (PathUnescape path) (\<lambda>p. Inr (orig, p, []))"
proof -
  from assms(1) obtain scheme host where o: "orig = scheme @ ''://'' @ host"
    and s: "set scheme \<inter> set ''/?#:'' = {}" and h: "set host \<inter> set ''/?#'' = {}"
    by (auto simp: is_origin_def)
  let ?v = "scheme @ '':'' @ ''//'' @ host @ path"
  let ?u = "?v @ CHR ''?'' # query"
  have hash: "CHR ''#'' \<notin> set ?u" "CHR ''#'' \<notin> set ?v" using s h assms(3,4) by auto
  have u: "orig @ path @ ''?'' @ query = ?u" "orig @ path = ?v" by (simp_all add: o)
  have noq: "CHR ''?'' \<notin> set ?v" using s h assms(3) by auto
  have q: "Cut (CHR ''?'') ?u = (?v, Some query)" "Cut (CHR ''?'') ?v = (?v, None)"
    using Cut_append [OF noq, of query] Cut_none [OF noq] by simp_all
  have c: "Cut (CHR '':'') ?v = (scheme, Some (''//'' @ host @ path))"
    using s Cut_append [of "CHR '':''" scheme "''//'' @ host @ path"] by auto
  have "takeWhile (\<lambda>c. c \<noteq> CHR ''/'') (host @ path) = host" "dropWhile (\<lambda>c. c \<noteq> CHR ''/'') (host @ path) = path"
    using h assms(2) by (induction host) auto
  then show "parse_url (orig @ path @ ''?'' @ query) = bind_result (PathUnescape path) (\<lambda>p. Inr (orig, p, query))"
    and "parse_url (orig @ path) = bind_result (PathUnescape path) (\<lambda>p. Inr (orig, p, []))"
    unfolding u parse_url_def Cut_none [OF hash(1)] Cut_none [OF hash(2)] fst_conv Let_def q prod.case c
    by (simp_all add: o)
qed

section \<open>Queries and numbers\<close>

text \<open>\<open>Query().Get(name)\<close>: the first pair of that name, pairs that do not decode left out.\<close>

fun plus_space :: "string \<Rightarrow> string" where
  "plus_space [] = []"
| "plus_space (c # cs) = (if c = CHR ''+'' then CHR '' '' else c) # plus_space cs"

definition query_pair :: "string \<Rightarrow> (string \<times> string) option" where
  "query_pair piece =
     (if piece = [] \<or> CHR '';'' \<in> set piece then None
      else
        let (k, v) = Cut (CHR ''='') piece
        in case (PathUnescape (plus_space k), PathUnescape (plus_space (case v of None \<Rightarrow> [] | Some x \<Rightarrow> x))) of
             (Inr key, Inr val) \<Rightarrow> Some (key, val)
           | _ \<Rightarrow> None)"

definition Query_Get :: "string \<Rightarrow> string \<Rightarrow> string" where
  "Query_Get query name =
     (case map_of (List.map_filter query_pair (split_at (CHR ''&'') query)) name of None \<Rightarrow> [] | Some v \<Rightarrow> v)"

text \<open>\<open>ParseUint(s, 10, 64)\<close>.\<close>

definition ParseUint :: "string \<Rightarrow> uint64 result" where
  "ParseUint s =
     (if s = [] \<or> \<not> list_all is_digit s then Inl (ErrOther ''invalid syntax'')
      else if 2 ^ 64 \<le> undec s then Inl (ErrOther ''value out of range'')
      else Inr (of_nat (undec s)))"

lemma dec_nonempty [simp]: "dec n \<noteq> []"
  by (subst dec.simps) simp

lemma ParseUint_dec [simp]: "ParseUint (dec (unat v)) = Inr v"
proof -
  have "unat v < 2 ^ LENGTH(64)" by (rule unsigned_less)
  moreover have "list_all is_digit (dec (unat v))" by (auto simp: list_all_iff dec_digits)
  ultimately show ?thesis by (simp add: ParseUint_def)
qed

lemma plus_space_id: "CHR ''+'' \<notin> set s \<Longrightarrow> plus_space s = s"
  by (induction s) auto

lemma Query_Get_version: "Query_Get (''version='' @ dec n) ''version'' = dec n"
proof -
  have d: "c \<notin> set (dec n)" if "\<not> is_digit c" for c using that by (rule not_digit_in_dec)
  have amp: "CHR ''&'' \<notin> set (''version='' @ dec n)" and semi: "CHR '';'' \<notin> set (''version='' @ dec n)"
    and plus: "CHR ''+'' \<notin> set (dec n)" and pct: "CHR ''%'' \<notin> set (dec n)"
    using d by (auto simp: is_digit_def)
  have cut: "Cut (CHR ''='') (''version='' @ dec n) = (''version'', Some (dec n))"
    using Cut_append [of "CHR ''=''" "''version''" "dec n"] by simp
  have "query_pair (''version='' @ dec n) = Some (''version'', dec n)"
    using semi unfolding query_pair_def cut by (simp add: plus_space_id [OF plus] PathUnescape_plain [OF pct])
  then show ?thesis
    unfolding Query_Get_def split_at_single [OF amp] by (simp add: List.map_filter_def)
qed

end
