(* ===== verification/Metadata.thy ===== *)
theory Metadata
  imports DFS_Prelude
begin

text \<open>
  The in-memory metadata store, \<open>src/distributed-fs/metadata.go\<close>: the records and state
  names of the control plane, one definition per method of \<open>MetadataStore\<close>, and the
  helpers \<open>cloneFileMetadata\<close>, \<open>nextVersionLocked\<close> and \<open>HealthyReplicas\<close>.

  A method is a function of the store; one that writes returns the store it leaves behind.
  The read-write lock makes each method atomic, so a run of the store is a sequence of
  calls, the relation \<open>metadata_step\<close>. The field \<open>ms_now\<close> is what \<open>m.now()\<close> returns;
  it stands still inside a call and the environment moves it between calls.

  Shown here: the store stays well formed under every call; a published version of a file
  is immutable (its size, checksum, manifest, primary and tombstone change only together
  with the version number); no call forgets a file or changes its creation time; the node
  and replica listings are sorted, complete and do not depend on map iteration order.
\<close>

section \<open>Data\<close>

datatype ReplicaState =
  ReplicaPending | ReplicaHealthy | ReplicaStale | ReplicaMissing | ReplicaDeleted

datatype NodeState = NodeHealthy | NodeDown

record NodeMetadata =
  nm_ID :: string
  nm_Addr :: string
  nm_State :: NodeState
  nm_LastHeartbeat :: instant

record ReplicaMetadata =
  rm_NodeID :: string
  rm_State :: ReplicaState
  rm_UpdatedAt :: instant

record ChunkMetadata =
  cm_Index :: int
  cm_Offset :: int
  cm_Size :: int
  cm_Checksum :: string

record FileMetadata =
  fm_Key :: string
  fm_Version :: uint64
  fm_Size :: int
  fm_Checksum :: string
  fm_Primary :: string
  fm_Deleted :: bool
  fm_Chunks :: "ChunkMetadata list"
  fm_Replicas :: "ReplicaMetadata gomap"
  fm_CreatedAt :: instant
  fm_UpdatedAt :: instant

record MetadataStore =
  ms_files :: "FileMetadata gomap"
  ms_nodes :: "NodeMetadata gomap"
  ms_now :: instant

section \<open>Operations\<close>

definition NewMetadataStore :: "instant \<Rightarrow> MetadataStore" where
  "NewMetadataStore t = \<lparr>ms_files = [], ms_nodes = [], ms_now = t\<rparr>"

text \<open>A slice copy has the elements of the original; a nil slice is the empty list.\<close>

definition cloneChunkMetadata :: "ChunkMetadata list \<Rightarrow> ChunkMetadata list" where
  "cloneChunkMetadata chunks = map (\<lambda>i. chunks ! i) [0..<length chunks]"

definition cloneFileMetadata :: "FileMetadata \<Rightarrow> FileMetadata" where
  "cloneFileMetadata meta =
     meta\<lparr>fm_Replicas := gm_clone (fm_Replicas meta),
          fm_Chunks := cloneChunkMetadata (fm_Chunks meta)\<rparr>"

definition nextVersionLocked :: "MetadataStore \<Rightarrow> string \<Rightarrow> instant \<Rightarrow> uint64 \<times> instant" where
  "nextVersionLocked m key now =
     (case gm_get (ms_files m) key of
        None \<Rightarrow> (1, now)
      | Some prev \<Rightarrow> (fm_Version prev + 1, fm_CreatedAt prev))"

definition UpsertNode :: "string \<Rightarrow> string \<Rightarrow> MetadataStore \<Rightarrow> NodeMetadata \<times> MetadataStore" where
  "UpsertNode nid addr m =
     (let node = \<lparr>nm_ID = nid, nm_Addr = addr, nm_State = NodeHealthy,
                  nm_LastHeartbeat = ms_now m\<rparr>
      in (node, m\<lparr>ms_nodes := gm_put nid node (ms_nodes m)\<rparr>))"

definition MarkExpiredNodes :: "duration \<Rightarrow> MetadataStore \<Rightarrow> MetadataStore" where
  "MarkExpiredNodes ttl m =
     (let cutoff = ms_now m - ttl
      in m\<lparr>ms_nodes := gm_update_all
            (\<lambda>_ node. if nm_LastHeartbeat node < cutoff then node\<lparr>nm_State := NodeDown\<rparr> else node)
            (ms_nodes m)\<rparr>)"

definition HealthyNodes :: "MetadataStore \<Rightarrow> NodeMetadata list" where
  "HealthyNodes m =
     go_sort (less_by nm_ID) (filter (\<lambda>node. nm_State node = NodeHealthy) (gm_vals (ms_nodes m)))"

definition Nodes :: "MetadataStore \<Rightarrow> NodeMetadata list" where
  "Nodes m = go_sort (less_by nm_ID) (gm_vals (ms_nodes m))"

text \<open>The loop of \<open>BeginFileVersion\<close> that fills the replica table of the new version.\<close>

definition initialReplicas :: "string \<Rightarrow> instant \<Rightarrow> string list \<Rightarrow> ReplicaMetadata gomap" where
  "initialReplicas primary now replicas =
     fold (\<lambda>nodeID.
             gm_put nodeID
               \<lparr>rm_NodeID = nodeID,
                rm_State = (if nodeID = primary then ReplicaHealthy else ReplicaPending),
                rm_UpdatedAt = now\<rparr>)
          replicas []"

definition BeginFileVersion ::
  "string \<Rightarrow> int \<Rightarrow> string \<Rightarrow> ChunkMetadata list \<Rightarrow> string \<Rightarrow> string list \<Rightarrow> MetadataStore
    \<Rightarrow> FileMetadata \<times> MetadataStore" where
  "BeginFileVersion key sz checksum chunks primary replicas m =
     (let now = ms_now m;
          (version, createdAt) = nextVersionLocked m key now;
          meta = \<lparr>fm_Key = key, fm_Version = version, fm_Size = sz, fm_Checksum = checksum,
                  fm_Primary = primary, fm_Deleted = False,
                  fm_Chunks = cloneChunkMetadata chunks,
                  fm_Replicas = initialReplicas primary now replicas,
                  fm_CreatedAt = createdAt, fm_UpdatedAt = now\<rparr>
      in (cloneFileMetadata meta, m\<lparr>ms_files := gm_put key meta (ms_files m)\<rparr>))"

definition NextVersion :: "string \<Rightarrow> MetadataStore \<Rightarrow> uint64" where
  "NextVersion key m = fst (nextVersionLocked m key (ms_now m))"

definition MarkReplica ::
  "string \<Rightarrow> string \<Rightarrow> ReplicaState \<Rightarrow> MetadataStore \<Rightarrow> FileMetadata result \<times> MetadataStore" where
  "MarkReplica key nodeID state m =
     (case gm_get (ms_files m) key of
        None \<Rightarrow> (Inl ErrMetadataNotFound, m)
      | Some meta \<Rightarrow>
          (case gm_get (fm_Replicas meta) nodeID of
             None \<Rightarrow> (Inl ErrReplicaNotFound, m)
           | Some replica \<Rightarrow>
               (let now = ms_now m;
                    replica' = replica\<lparr>rm_State := state, rm_UpdatedAt := now\<rparr>;
                    meta' = meta\<lparr>fm_Replicas := gm_put nodeID replica' (fm_Replicas meta),
                                 fm_UpdatedAt := now\<rparr>
                in (Inr (cloneFileMetadata meta'),
                    m\<lparr>ms_files := gm_put key meta' (ms_files m)\<rparr>))))"

definition Tombstone :: "string \<Rightarrow> MetadataStore \<Rightarrow> FileMetadata result \<times> MetadataStore" where
  "Tombstone key m =
     (case gm_get (ms_files m) key of
        None \<Rightarrow> (Inl ErrMetadataNotFound, m)
      | Some meta \<Rightarrow>
          (let now = ms_now m;
               meta' = meta\<lparr>fm_Version := fm_Version meta + 1, fm_Deleted := True,
                            fm_UpdatedAt := now,
                            fm_Replicas := gm_update_all
                              (\<lambda>_ replica. replica\<lparr>rm_State := ReplicaDeleted, rm_UpdatedAt := now\<rparr>)
                              (fm_Replicas meta)\<rparr>
           in (Inr (cloneFileMetadata meta'),
               m\<lparr>ms_files := gm_put key meta' (ms_files m)\<rparr>)))"

definition GetFile :: "string \<Rightarrow> MetadataStore \<Rightarrow> FileMetadata option" where
  "GetFile key m =
     (case gm_get (ms_files m) key of
        None \<Rightarrow> None
      | Some meta \<Rightarrow> Some (cloneFileMetadata meta))"

definition ListFiles :: "MetadataStore \<Rightarrow> FileMetadata list" where
  "ListFiles m = go_sort (less_by fm_Key) (map cloneFileMetadata (gm_vals (ms_files m)))"

definition AddReplica ::
  "string \<Rightarrow> string \<Rightarrow> ReplicaState \<Rightarrow> MetadataStore \<Rightarrow> FileMetadata result \<times> MetadataStore" where
  "AddReplica key nodeID state m =
     (case gm_get (ms_files m) key of
        None \<Rightarrow> (Inl ErrMetadataNotFound, m)
      | Some meta \<Rightarrow>
          (let now = ms_now m;
               meta' = meta\<lparr>fm_Replicas := gm_put nodeID
                              \<lparr>rm_NodeID = nodeID, rm_State = state, rm_UpdatedAt = now\<rparr>
                              (fm_Replicas meta),
                            fm_UpdatedAt := now\<rparr>
           in (Inr (cloneFileMetadata meta'),
               m\<lparr>ms_files := gm_put key meta' (ms_files m)\<rparr>)))"

definition HealthyReplicas :: "FileMetadata \<Rightarrow> ReplicaMetadata list" where
  "HealthyReplicas meta =
     go_sort (less_by rm_NodeID)
       (filter (\<lambda>replica. rm_State replica = ReplicaHealthy) (gm_vals (fm_Replicas meta)))"

section \<open>Well-formed stores\<close>

text \<open>
  Every table has one entry per key, and an entry carries the key it is stored under: the
  replica its node, the file its name, the node its identifier.
\<close>

definition wf_file :: "FileMetadata \<Rightarrow> bool" where
  "wf_file f \<longleftrightarrow> gm_wf (fm_Replicas f) \<and> gm_all (\<lambda>n r. rm_NodeID r = n) (fm_Replicas f)"

definition wf_metadata :: "MetadataStore \<Rightarrow> bool" where
  "wf_metadata m \<longleftrightarrow>
     gm_wf (ms_files m) \<and> gm_all (\<lambda>k f. fm_Key f = k \<and> wf_file f) (ms_files m) \<and>
     gm_wf (ms_nodes m) \<and> gm_all (\<lambda>k n. nm_ID n = k) (ms_nodes m)"

lemma cloneChunkMetadata_id [simp]: "cloneChunkMetadata chunks = chunks"
  by (simp add: cloneChunkMetadata_def map_nth)

lemma cloneFileMetadata_id [simp]: "wf_file f \<Longrightarrow> cloneFileMetadata f = f"
  by (simp add: cloneFileMetadata_def wf_file_def)

lemma fm_clone [simp]:
  "fm_Key (cloneFileMetadata f) = fm_Key f"
  "fm_Version (cloneFileMetadata f) = fm_Version f"
  "fm_Deleted (cloneFileMetadata f) = fm_Deleted f"
  by (simp_all add: cloneFileMetadata_def)

lemma wf_metadataD:
  assumes "wf_metadata m"
  shows wf_files: "gm_wf (ms_files m)" and wf_nodes: "gm_wf (ms_nodes m)"
    and wf_file_of: "gm_get (ms_files m) k = Some f \<Longrightarrow> wf_file f"
    and wf_key_of: "gm_get (ms_files m) k = Some f \<Longrightarrow> fm_Key f = k"
    and wf_node_of: "gm_get (ms_nodes m) k = Some n \<Longrightarrow> nm_ID n = k"
  using assms by (auto simp: wf_metadata_def dest: gm_allD)

lemma wf_replica_of: "wf_file f \<Longrightarrow> gm_get (fm_Replicas f) n = Some r \<Longrightarrow> rm_NodeID r = n"
  by (auto simp: wf_file_def dest: gm_allD)

lemma wf_put_replica:
  "wf_file f \<Longrightarrow> rm_NodeID r = n \<Longrightarrow>
   wf_file (f\<lparr>fm_Replicas := gm_put n r (fm_Replicas f), fm_UpdatedAt := t\<rparr>)"
  by (simp add: wf_file_def gm_all_put)

lemma wf_put_file:
  "wf_metadata m \<Longrightarrow> fm_Key f = k \<Longrightarrow> wf_file f \<Longrightarrow>
   wf_metadata (m\<lparr>ms_files := gm_put k f (ms_files m)\<rparr>)"
  by (simp add: wf_metadata_def gm_all_put)

lemma initialReplicas_spec:
  "gm_wf (initialReplicas p t ns)"
  "gm_all (\<lambda>n r. rm_NodeID r = n) (initialReplicas p t ns)"
  "gm_get (initialReplicas p t ns) n =
     (if n \<in> set ns
      then Some \<lparr>rm_NodeID = n, rm_State = (if n = p then ReplicaHealthy else ReplicaPending),
                 rm_UpdatedAt = t\<rparr>
      else None)"
  by (simp_all add: initialReplicas_def gm_all_iff gm_fold_put)

lemma wf_file_initial [simp]: "wf_file (f\<lparr>fm_Replicas := initialReplicas p t ns\<rparr>)"
  by (simp add: wf_file_def initialReplicas_spec)

section \<open>Every call keeps the store well formed\<close>

lemma wf_NewMetadataStore [simp]: "wf_metadata (NewMetadataStore t)"
  by (simp add: NewMetadataStore_def wf_metadata_def)

lemma wf_UpsertNode: "wf_metadata m \<Longrightarrow> wf_metadata (snd (UpsertNode nid addr m))"
  by (simp add: UpsertNode_def wf_metadata_def Let_def gm_all_put)

lemma wf_MarkExpiredNodes: "wf_metadata m \<Longrightarrow> wf_metadata (MarkExpiredNodes ttl m)"
  by (auto simp: MarkExpiredNodes_def wf_metadata_def Let_def intro!: gm_all_update_all)

lemma wf_BeginFileVersion:
  "wf_metadata m \<Longrightarrow> wf_metadata (snd (BeginFileVersion k sz cs chs p rs m))"
  by (auto simp: BeginFileVersion_def Let_def wf_file_def initialReplicas_spec
      split: prod.split intro!: wf_put_file)

lemma wf_MarkReplica:
  assumes "wf_metadata m"
  shows "wf_metadata (snd (MarkReplica k n st m))"
proof -
  have "wf_metadata (m\<lparr>ms_files := gm_put k (f\<lparr>fm_Replicas := gm_put n
          (r\<lparr>rm_State := st, rm_UpdatedAt := t\<rparr>) (fm_Replicas f), fm_UpdatedAt := t\<rparr>) (ms_files m)\<rparr>)"
    if "gm_get (ms_files m) k = Some f" and "gm_get (fm_Replicas f) n = Some r" for f r t
    using assms that wf_file_of [OF assms that(1)] wf_key_of [OF assms that(1)]
    by (intro wf_put_file wf_put_replica) (auto dest: wf_replica_of)
  with assms show ?thesis by (auto simp: MarkReplica_def Let_def split: option.split)
qed

lemma wf_Tombstone: "wf_metadata m \<Longrightarrow> wf_metadata (snd (Tombstone k m))"
  by (auto simp: Tombstone_def Let_def wf_file_def split: option.split
      intro!: wf_put_file dest: wf_file_of wf_key_of)

lemma wf_AddReplica: "wf_metadata m \<Longrightarrow> wf_metadata (snd (AddReplica k n st m))"
  by (auto simp: AddReplica_def Let_def split: option.split 
      intro!: wf_put_file wf_put_replica dest: wf_file_of wf_key_of)

lemma wf_set_now [simp]: "wf_metadata (m\<lparr>ms_now := t\<rparr>) = wf_metadata m"
  by (simp add: wf_metadata_def)

lemmas wf_metadata_intros =
  wf_UpsertNode wf_MarkExpiredNodes wf_BeginFileVersion wf_MarkReplica wf_Tombstone wf_AddReplica

section \<open>Runs of the store\<close>

text \<open>One rule per writing method, and one for the clock.\<close>

inductive metadata_step :: "MetadataStore \<Rightarrow> MetadataStore \<Rightarrow> bool" where
  upsert: "metadata_step m (snd (UpsertNode nid addr m))"
| expire: "metadata_step m (MarkExpiredNodes ttl m)"
| begin_version: "metadata_step m (snd (BeginFileVersion key sz checksum chunks primary replicas m))"
| mark: "metadata_step m (snd (MarkReplica key nodeID state m))"
| tombstone: "metadata_step m (snd (Tombstone key m))"
| add: "metadata_step m (snd (AddReplica key nodeID state m))"
| clock: "metadata_step m (m\<lparr>ms_now := t\<rparr>)"

inductive metadata_reachable :: "MetadataStore \<Rightarrow> bool" where
  start: "metadata_reachable (NewMetadataStore t)"
| step: "metadata_reachable m \<Longrightarrow> metadata_step m m' \<Longrightarrow> metadata_reachable m'"

lemma metadata_step_wf: "metadata_step m m' \<Longrightarrow> wf_metadata m \<Longrightarrow> wf_metadata m'"
  by (induction rule: metadata_step.induct) (auto intro: wf_metadata_intros)

lemma metadata_reachable_wf: "metadata_reachable m \<Longrightarrow> wf_metadata m"
  by (induction rule: metadata_reachable.induct) (auto intro: metadata_step_wf)

text \<open>What a published version fixes: everything a reader relies on but the replica states.\<close>

definition published :: "FileMetadata \<Rightarrow> string \<times> int \<times> string \<times> string \<times> bool \<times> ChunkMetadata list" where
  "published f = (fm_Key f, fm_Size f, fm_Checksum f, fm_Primary f, fm_Deleted f, fm_Chunks f)"

text \<open>
  One call leaves a file's version alone, with everything it publishes, or moves it to the
  next number; either way the file stays and keeps its creation time.
\<close>

lemma metadata_step_file:
  assumes "metadata_step m m'" and "gm_get (ms_files m) k = Some f"
  shows "\<exists>f'. gm_get (ms_files m') k = Some f' \<and> fm_CreatedAt f' = fm_CreatedAt f \<and>
          (fm_Version f' = fm_Version f \<and> published f' = published f \<or>
           fm_Version f' = fm_Version f + 1)"
  using assms
  by (cases rule: metadata_step.cases)
    (auto simp: UpsertNode_def MarkExpiredNodes_def BeginFileVersion_def MarkReplica_def
      Tombstone_def AddReplica_def nextVersionLocked_def published_def Let_def
      split: option.splits)

lemma metadata_run_file:
  assumes "(metadata_step ^^ n) m m'" and "gm_get (ms_files m) k = Some f"
  shows "\<exists>f' j. gm_get (ms_files m') k = Some f' \<and> fm_CreatedAt f' = fm_CreatedAt f \<and>
          j \<le> n \<and> fm_Version f' = fm_Version f + of_nat j \<and> (j = 0 \<longrightarrow> published f' = published f)"
  using assms(1)
proof (induction n arbitrary: m')
  case 0
  then show ?case using assms(2) by auto
next
  case (Suc n)
  then obtain m1 where run: "(metadata_step ^^ n) m m1" and st: "metadata_step m1 m'" by auto
  from Suc.IH [OF run] obtain f1 j where f1: "gm_get (ms_files m1) k = Some f1"
    and c: "fm_CreatedAt f1 = fm_CreatedAt f" and j: "j \<le> n"
    and v: "fm_Version f1 = fm_Version f + of_nat j" and p: "j = 0 \<longrightarrow> published f1 = published f"
    by blast
  from metadata_step_file [OF st f1] obtain f' where f': "gm_get (ms_files m') k = Some f'"
    and c': "fm_CreatedAt f' = fm_CreatedAt f1"
    and or: "fm_Version f' = fm_Version f1 \<and> published f' = published f1 \<or>
             fm_Version f' = fm_Version f1 + 1"
    by blast
  from or show ?case
  proof
    assume "fm_Version f' = fm_Version f1 \<and> published f' = published f1"
    with f' c' c j v p show ?thesis by (intro exI [of _ f'] exI [of _ j]) auto
  next
    assume "fm_Version f' = fm_Version f1 + 1"
    with f' c' c j v show ?thesis by (intro exI [of _ f'] exI [of _ "Suc j"]) (auto simp: algebra_simps)
  qed
qed

text \<open>
  A published version of a file is immutable. In any run of fewer than \<open>2 ^ 64\<close> calls of
  the metadata store, if a key has the same version number at the end as at the start, then
  its size, checksum, chunk manifest, primary and deletion mark are the same: only replica
  states and timestamps may have changed.
\<close>

theorem published_version_immutable:
  assumes "(metadata_step ^^ n) m m'" and "n < 2 ^ 64"
    and "gm_get (ms_files m) k = Some f" and "gm_get (ms_files m') k = Some f'"
    and "fm_Version f' = fm_Version f"
  shows "published f' = published f"
proof -
  from metadata_run_file [OF assms(1,3)] assms(4) obtain j where j: "j \<le> n"
    and v: "fm_Version f' = fm_Version f + of_nat j" and p: "j = 0 \<longrightarrow> published f' = published f"
    by auto
  from v assms(5) have "(of_nat j :: uint64) = 0" by simp
  then have "2 ^ 64 dvd j" by (simp add: word_of_nat_eq_0_iff)
  with j assms(2) have "j = 0" by (auto dest: nat_dvd_not_less)
  with p show ?thesis by simp
qed

theorem published_version_immutable_witness:
  "let m = snd (BeginFileVersion ''k'' 3 ''c'' [] ''n1'' [''n1'', ''n2''] (NewMetadataStore 5));
       m' = snd (MarkReplica ''k'' ''n2'' ReplicaHealthy m);
       f = the (gm_get (ms_files m) ''k''); f' = the (gm_get (ms_files m') ''k'')
   in published f' = published f \<and> f' \<noteq> f"
proof -
  define m where "m = snd (BeginFileVersion ''k'' 3 ''c'' [] ''n1'' [''n1'', ''n2''] (NewMetadataStore 5))"
  define m' where "m' = snd (MarkReplica ''k'' ''n2'' ReplicaHealthy m)"
  note defs = m'_def m_def BeginFileVersion_def MarkReplica_def NewMetadataStore_def
    nextVersionLocked_def initialReplicas_def Let_def
  have run: "(metadata_step ^^ 1) m m'"
    unfolding m'_def by (simp add: metadata_step.mark del: relpowp.simps)
  have f: "gm_get (ms_files m) ''k'' = Some (the (gm_get (ms_files m) ''k''))" by (simp add: defs)
  have f': "gm_get (ms_files m') ''k'' = Some (the (gm_get (ms_files m') ''k''))" by (simp add: defs)
  have v: "fm_Version (the (gm_get (ms_files m') ''k'')) = fm_Version (the (gm_get (ms_files m) ''k''))"
    by (simp add: defs)
  from published_version_immutable [OF run _ f f' v]
  have "published (the (gm_get (ms_files m') ''k'')) = published (the (gm_get (ms_files m) ''k''))"
    by simp
  moreover have "the (gm_get (ms_files m') ''k'') \<noteq> the (gm_get (ms_files m) ''k'')"
    by (simp add: defs)
  ultimately show ?thesis by (simp add: Let_def m_def m'_def)
qed

text \<open>
  No call of the metadata store forgets a file: after any number of calls a known key is
  still known, with the creation time it had, and its version number has moved forward by at
  most one per call.
\<close>

theorem file_history_kept:
  assumes "(metadata_step ^^ n) m m'" and "gm_get (ms_files m) k = Some f"
  shows "\<exists>f' j. gm_get (ms_files m') k = Some f' \<and> fm_CreatedAt f' = fm_CreatedAt f \<and>
           j \<le> n \<and> fm_Version f' = fm_Version f + of_nat j"
  using metadata_run_file [OF assms] by blast

theorem file_history_kept_witness:
  "\<exists>f' j. gm_get (ms_files (snd (Tombstone ''k''
        (snd (BeginFileVersion ''k'' 3 ''c'' [] ''n1'' [''n1''] (NewMetadataStore 5)))))) ''k'' = Some f' \<and>
      fm_CreatedAt f' = 5 \<and> j \<le> 1 \<and> fm_Version f' = 1 + of_nat j"
proof -
  define m where "m = snd (BeginFileVersion ''k'' 3 ''c'' [] ''n1'' [''n1''] (NewMetadataStore 5))"
  note defs = m_def BeginFileVersion_def NewMetadataStore_def nextVersionLocked_def Let_def
  have run: "(metadata_step ^^ 1) m (snd (Tombstone ''k'' m))"
    by (simp add: metadata_step.tombstone del: relpowp.simps)
  have f: "gm_get (ms_files m) ''k'' = Some (the (gm_get (ms_files m) ''k''))" by (simp add: defs)
  have "fm_CreatedAt (the (gm_get (ms_files m) ''k'')) = 5"
    and "fm_Version (the (gm_get (ms_files m) ''k'')) = 1" by (simp_all add: defs)
  with file_history_kept [OF run f] show ?thesis by (simp add: m_def)
qed

section \<open>Listings\<close>

lemma HealthyNodes_mem:
  "wf_metadata m \<Longrightarrow>
   n \<in> set (HealthyNodes m) \<longleftrightarrow> gm_get (ms_nodes m) (nm_ID n) = Some n \<and> nm_State n = NodeHealthy"
  by (auto simp: HealthyNodes_def wf_metadata_def gm_vals_own_key)

lemma HealthyNodes_sorted: "wf_metadata m \<Longrightarrow> sorted_wrt (<) (map nm_ID (HealthyNodes m))"
  unfolding HealthyNodes_def sorted_wrt_less_by [symmetric]
  by (rule by_key.sorted_go_sort) (simp add: wf_metadata_def gm_vals_distinct)

lemma HealthyReplicas_mem:
  "wf_file f \<Longrightarrow>
   r \<in> set (HealthyReplicas f) \<longleftrightarrow>
     gm_get (fm_Replicas f) (rm_NodeID r) = Some r \<and> rm_State r = ReplicaHealthy"
  by (auto simp: HealthyReplicas_def wf_file_def gm_vals_own_key)

lemma HealthyReplicas_sorted: "wf_file f \<Longrightarrow> sorted_wrt (<) (map rm_NodeID (HealthyReplicas f))"
  unfolding HealthyReplicas_def sorted_wrt_less_by [symmetric]
  by (rule by_key.sorted_go_sort) (simp add: wf_file_def gm_vals_distinct)

lemma HealthyReplicas_distinct: "wf_file f \<Longrightarrow> distinct (map rm_NodeID (HealthyReplicas f))"
  by (simp add: HealthyReplicas_def wf_file_def gm_vals_distinct)

lemma ListFiles_clone_map: "wf_metadata m \<Longrightarrow> map cloneFileMetadata (gm_vals (ms_files m)) = gm_vals (ms_files m)"
  by (rule map_idI) (auto simp: wf_metadata_def gm_vals_def gm_all_def)

lemma ListFiles_mem:
  "wf_metadata m \<Longrightarrow> f \<in> set (ListFiles m) \<longleftrightarrow> gm_get (ms_files m) (fm_Key f) = Some f"
proof -
  assume wf: "wf_metadata m"
  then have "gm_all (\<lambda>k f. fm_Key f = k) (ms_files m)"
    by (auto simp: wf_metadata_def gm_all_def)
  with wf show ?thesis
    by (simp add: ListFiles_def ListFiles_clone_map gm_vals_own_key wf_files)
qed

lemma ListFiles_distinct: "wf_metadata m \<Longrightarrow> distinct (map fm_Key (ListFiles m))"
proof -
  assume wf: "wf_metadata m"
  then have "gm_all (\<lambda>k f. fm_Key f = k) (ms_files m)"
    by (auto simp: wf_metadata_def gm_all_def)
  with wf gm_vals_distinct [of "ms_files m" fm_Key "\<lambda>_. True"] show ?thesis
    by (simp add: ListFiles_def ListFiles_clone_map wf_files)
qed

lemma GetFile_eq: "wf_metadata m \<Longrightarrow> GetFile key m = gm_get (ms_files m) key"
  by (auto simp: GetFile_def split: option.split dest: wf_file_of)

text \<open>
  The listing of healthy nodes is a function of what the node table holds and not of the
  order in which Go happens to iterate over the map: for two tables with the same entries it
  is the same list, strictly increasing in the node identifier, and it holds exactly the
  nodes whose state is healthy.
\<close>

theorem HealthyNodes_canonical:
  assumes "wf_metadata m" and "mset (ms_nodes m') = mset (ms_nodes m)"
  shows "HealthyNodes m' = HealthyNodes m \<and> sorted_wrt (<) (map nm_ID (HealthyNodes m)) \<and>
         (\<forall>n. n \<in> set (HealthyNodes m) \<longleftrightarrow>
              gm_get (ms_nodes m) (nm_ID n) = Some n \<and> nm_State n = NodeHealthy)"
proof -
  have "HealthyNodes m = HealthyNodes m'"
    unfolding HealthyNodes_def
  proof (rule by_key.go_sort_perm)
    show "distinct (map nm_ID (filter (\<lambda>n. nm_State n = NodeHealthy) (gm_vals (ms_nodes m))))"
      using assms(1) by (simp add: wf_metadata_def gm_vals_distinct)
    show "mset (filter (\<lambda>n. nm_State n = NodeHealthy) (gm_vals (ms_nodes m))) =
          mset (filter (\<lambda>n. nm_State n = NodeHealthy) (gm_vals (ms_nodes m')))"
      using assms(2) by (simp add: gm_vals_def mset_filter)
  qed
  then show ?thesis using HealthyNodes_mem [OF assms(1)] HealthyNodes_sorted [OF assms(1)] by simp
qed

theorem HealthyNodes_canonical_witness:
  "let m = snd (UpsertNode ''b'' ''y'' (snd (UpsertNode ''a'' ''x'' (NewMetadataStore 5))));
       m' = m\<lparr>ms_nodes := rev (ms_nodes m)\<rparr>
   in HealthyNodes m' = HealthyNodes m \<and> length (HealthyNodes m) = 2 \<and> ms_nodes m' \<noteq> ms_nodes m"
proof -
  define m where "m = snd (UpsertNode ''b'' ''y'' (snd (UpsertNode ''a'' ''x'' (NewMetadataStore 5))))"
  have wf: "wf_metadata m" unfolding m_def by (intro wf_UpsertNode wf_NewMetadataStore)
  have "mset (ms_nodes (m\<lparr>ms_nodes := rev (ms_nodes m)\<rparr>)) = mset (ms_nodes m)" by simp
  from HealthyNodes_canonical [OF wf this]
  have "HealthyNodes (m\<lparr>ms_nodes := rev (ms_nodes m)\<rparr>) = HealthyNodes m" by blast
  moreover have "length (HealthyNodes m) = 2 \<and> rev (ms_nodes m) \<noteq> ms_nodes m"
    by (simp add: m_def UpsertNode_def NewMetadataStore_def Let_def HealthyNodes_def gm_vals_def)
  ultimately show ?thesis by (simp add: m_def [symmetric])
qed

text \<open>
  Heartbeats decide which nodes get work: after \<open>MarkExpiredNodes ttl\<close> a node is listed as
  healthy exactly if it was listed before and its last heartbeat is at most \<open>ttl\<close> old, and a
  new heartbeat of any node, expired or not, lists it again at once.
\<close>

theorem node_expiry:
  assumes "wf_metadata m"
  shows "(n \<in> set (HealthyNodes (MarkExpiredNodes ttl m)) \<longleftrightarrow>
            n \<in> set (HealthyNodes m) \<and> ms_now m - nm_LastHeartbeat n \<le> ttl) \<and>
         fst (UpsertNode nid addr (MarkExpiredNodes ttl m))
           \<in> set (HealthyNodes (snd (UpsertNode nid addr (MarkExpiredNodes ttl m))))"
proof
  have wf': "wf_metadata (MarkExpiredNodes ttl m)" using assms by (rule wf_MarkExpiredNodes)
  have "gm_get (ms_nodes (MarkExpiredNodes ttl m)) (nm_ID n) = Some n \<and> nm_State n = NodeHealthy \<longleftrightarrow>
        gm_get (ms_nodes m) (nm_ID n) = Some n \<and> nm_State n = NodeHealthy \<and>
        ms_now m - nm_LastHeartbeat n \<le> ttl"
    by (auto simp: MarkExpiredNodes_def Let_def split: if_splits dest: arg_cong [where f = nm_State])
  with assms wf' show "n \<in> set (HealthyNodes (MarkExpiredNodes ttl m)) \<longleftrightarrow>
      n \<in> set (HealthyNodes m) \<and> ms_now m - nm_LastHeartbeat n \<le> ttl"
    by (simp add: HealthyNodes_mem)
  from wf_UpsertNode [OF wf']
  show "fst (UpsertNode nid addr (MarkExpiredNodes ttl m))
          \<in> set (HealthyNodes (snd (UpsertNode nid addr (MarkExpiredNodes ttl m))))"
    by (simp add: HealthyNodes_mem) (simp add: UpsertNode_def Let_def)
qed

theorem node_expiry_witness:
  "let m = (snd (UpsertNode ''a'' ''x'' (NewMetadataStore 5)))\<lparr>ms_now := 100\<rparr> in
   HealthyNodes (MarkExpiredNodes 10 m) = [] \<and>
   fst (UpsertNode ''a'' ''x'' (MarkExpiredNodes 10 m))
     \<in> set (HealthyNodes (snd (UpsertNode ''a'' ''x'' (MarkExpiredNodes 10 m))))"
proof -
  define m where "m = (snd (UpsertNode ''a'' ''x'' (NewMetadataStore 5)))\<lparr>ms_now := 100\<rparr>"
  have wf: "wf_metadata m" unfolding m_def wf_set_now by (intro wf_UpsertNode wf_NewMetadataStore)
  have old: "nm_LastHeartbeat n = 5" if "n \<in> set (HealthyNodes m)" for n
    using that unfolding HealthyNodes_mem [OF wf]
    by (auto simp: m_def UpsertNode_def NewMetadataStore_def Let_def split: if_splits)
  have "ms_now m = 100" by (simp add: m_def)
  with node_expiry [OF wf, of _ 10] old have "n \<notin> set (HealthyNodes (MarkExpiredNodes 10 m))" for n
    by fastforce
  then have "HealthyNodes (MarkExpiredNodes 10 m) = []"
    by (meson list.set_sel(1))
  with node_expiry [OF wf] show ?thesis by (simp add: m_def [symmetric])
qed

end
