(* ===== verification/Replication.thy ===== *)
theory Replication
  imports Metadata
begin

text \<open>
  Replica placement and the in-memory replication queue,
  \<open>src/distributed-fs/replication.go\<close>: the planner that chooses primary and secondaries, the
  tasks derived from a file's metadata, the task life cycle with leases, retries and
  back-off, and the queue that stores the tasks by identifier.

  Shown here: what the planner returns and when it fails; which replicas get a task; that
  task identifiers name one copy; that the queue never overwrites a task, offers exactly the
  runnable ones in order, starts no task more than five times and leaves no expired lease
  behind; the bounds of the back-off and the attempt counts for which it is exact.
\<close>

section \<open>Data\<close>

datatype ReplicationTaskState =
    ReplicationTaskPending
  | ReplicationTaskRunning
  | ReplicationTaskDone
  | ReplicationTaskFailed
  | ReplicationTaskDead

definition nanosecondsPerSecond :: int where
  "nanosecondsPerSecond = 1000000000"

definition defaultReplicaCount :: int where
  "defaultReplicaCount = 3"

definition defaultReplicationTaskLease :: duration where
  "defaultReplicationTaskLease = 30 * nanosecondsPerSecond"

definition defaultReplicationTaskMaxAttempts :: int where
  "defaultReplicationTaskMaxAttempts = 5"

definition defaultReplicationTaskMaxBackoff :: duration where
  "defaultReplicationTaskMaxBackoff = 60 * nanosecondsPerSecond"

record ReplicaPlan =
  pl_Primary :: NodeMetadata
  pl_Replicas :: "NodeMetadata list"

record ReplicationTask =
  rt_ID :: string
  rt_Key :: string
  rt_Version :: uint64
  rt_Checksum :: string
  rt_Chunks :: "ChunkMetadata list"
  rt_Source :: string
  rt_Target :: string
  rt_State :: ReplicationTaskState
  rt_Attempts :: int
  rt_LastError :: string
  rt_RunAfter :: instant
  rt_LeaseUntil :: instant
  rt_CreatedAt :: instant
  rt_UpdatedAt :: instant

record ReplicationPlanner =
  rp_ReplicaCount :: int

record MemoryReplicationTaskQueue =
  mq_tasks :: "ReplicationTask gomap"
  mq_now :: instant

section \<open>Placement\<close>

definition NewReplicationPlanner :: "int \<Rightarrow> ReplicationPlanner" where
  "NewReplicationPlanner replicaCount =
     \<lparr>rp_ReplicaCount = (if replicaCount = 0 then defaultReplicaCount else replicaCount)\<rparr>"

text \<open>\<open>make\<close> of a slice with a negative length and index 0 of an empty slice panic.\<close>

definition Plan :: "ReplicationPlanner \<Rightarrow> NodeMetadata list \<Rightarrow> ReplicaPlan result" where
  "Plan p nodes =
     (let healthy = filter (\<lambda>node. nm_State node = NodeHealthy) nodes
      in if healthy = [] then Inl ErrNoHealthyNodes
         else
           let sorted_healthy = go_sort (less_by nm_ID) healthy;
               count = (if int (length sorted_healthy) < rp_ReplicaCount p
                        then int (length sorted_healthy) else rp_ReplicaCount p)
           in if count < 0 then Inl (Panic ''runtime error: makeslice: len out of range'')
              else
                let replicas = take (nat count) sorted_healthy
                in case replicas of
                     [] \<Rightarrow> Inl (Panic ''runtime error: index out of range'')
                   | primary # _ \<Rightarrow> Inr \<lparr>pl_Primary = primary, pl_Replicas = replicas\<rparr>)"

section \<open>Tasks\<close>

definition replicationTaskID :: "string \<Rightarrow> uint64 \<Rightarrow> string \<Rightarrow> string \<Rightarrow> string" where
  "replicationTaskID key version source target =
     key @ '':'' @ dec (unat version) @ '':'' @ source @ '':'' @ target"

text \<open>The task literal that \<open>TasksForFile\<close> and both repair loops build.\<close>

definition newReplicationTask ::
  "FileMetadata \<Rightarrow> string \<Rightarrow> string \<Rightarrow> instant \<Rightarrow> instant \<Rightarrow> ReplicationTask" where
  "newReplicationTask meta source target createdAt updatedAt =
     \<lparr>rt_ID = replicationTaskID (fm_Key meta) (fm_Version meta) source target,
      rt_Key = fm_Key meta, rt_Version = fm_Version meta, rt_Checksum = fm_Checksum meta,
      rt_Chunks = cloneChunkMetadata (fm_Chunks meta),
      rt_Source = source, rt_Target = target, rt_State = ReplicationTaskPending,
      rt_Attempts = 0, rt_LastError = '''', rt_RunAfter = 0, rt_LeaseUntil = 0,
      rt_CreatedAt = createdAt, rt_UpdatedAt = updatedAt\<rparr>"

text \<open>The body of the loop of \<open>TasksForFile\<close>: \<open>None\<close> where it continues.\<close>

definition taskForReplica :: "FileMetadata \<Rightarrow> instant \<Rightarrow> string \<Rightarrow> ReplicationTask option" where
  "taskForReplica meta now nodeID =
     (if nodeID = fm_Primary meta then None
      else case gm_get (fm_Replicas meta) nodeID of
             None \<Rightarrow> None
           | Some replica \<Rightarrow>
               if rm_State replica \<noteq> ReplicaPending \<and> rm_State replica \<noteq> ReplicaStale \<and>
                  rm_State replica \<noteq> ReplicaMissing
               then None
               else Some (newReplicationTask meta (fm_Primary meta) nodeID now now))"

definition TasksForFile :: "FileMetadata \<Rightarrow> instant \<Rightarrow> ReplicationTask list result" where
  "TasksForFile meta now =
     (if fm_Primary meta = '''' then Inl ErrPrimaryUnavailable
      else if gm_get (fm_Replicas meta) (fm_Primary meta) = None then Inl ErrPrimaryUnavailable
      else Inr (List.map_filter (taskForReplica meta now) (sort (gm_keys (fm_Replicas meta)))))"

definition readyToRun :: "ReplicationTask \<Rightarrow> instant \<Rightarrow> bool" where
  "readyToRun task now \<longleftrightarrow> rt_RunAfter task = 0 \<or> \<not> now < rt_RunAfter task"

text \<open>
  \<open>time.Second * time.Duration(1<<attempts)\<close> in 64-bit arithmetic: the shift drops bits past
  the width and the product wraps around.
\<close>

definition replicationBackoff :: "int \<Rightarrow> duration" where
  "replicationBackoff attempts =
     (let attempts' = (if attempts < 1 then 1 else attempts);
          backoff = sint (word_of_int nanosecondsPerSecond * push_bit (nat attempts') 1 :: 64 word)
      in if defaultReplicationTaskMaxBackoff < backoff then defaultReplicationTaskMaxBackoff
         else backoff)"

definition failReplicationTask ::
  "ReplicationTask \<Rightarrow> instant \<Rightarrow> error option \<Rightarrow> ReplicationTask" where
  "failReplicationTask task now cause =
     (let task1 = task\<lparr>rt_LeaseUntil := 0,
                       rt_LastError := (case cause of None \<Rightarrow> '''' | Some e \<Rightarrow> errorMessage e)\<rparr>;
          task2 = (if defaultReplicationTaskMaxAttempts \<le> rt_Attempts task1
                   then task1\<lparr>rt_State := ReplicationTaskDead, rt_RunAfter := 0\<rparr>
                   else task1\<lparr>rt_State := ReplicationTaskPending,
                              rt_RunAfter := now + replicationBackoff (rt_Attempts task1)\<rparr>)
      in task2\<lparr>rt_UpdatedAt := now\<rparr>)"

definition expireReplicationTask :: "ReplicationTask \<Rightarrow> instant \<Rightarrow> ReplicationTask" where
  "expireReplicationTask task now =
     (let task1 = task\<lparr>rt_LeaseUntil := 0, rt_LastError := ''replication task lease expired''\<rparr>;
          task2 = (if defaultReplicationTaskMaxAttempts \<le> rt_Attempts task1
                   then task1\<lparr>rt_State := ReplicationTaskDead, rt_RunAfter := 0\<rparr>
                   else task1\<lparr>rt_State := ReplicationTaskPending, rt_RunAfter := now\<rparr>)
      in task2\<lparr>rt_UpdatedAt := now\<rparr>)"

text \<open>The comparison of \<open>sortReplicationTasks\<close>.\<close>

definition task_less :: "ReplicationTask \<Rightarrow> ReplicationTask \<Rightarrow> bool" where
  "task_less a b \<longleftrightarrow>
     (if rt_RunAfter a \<noteq> rt_RunAfter b
      then if rt_RunAfter a = 0 then True
           else if rt_RunAfter b = 0 then False
           else rt_RunAfter a < rt_RunAfter b
      else rt_ID a < rt_ID b)"

definition sortReplicationTasks :: "ReplicationTask list \<Rightarrow> ReplicationTask list" where
  "sortReplicationTasks tasks = go_sort task_less tasks"

interpretation task_order: sort_less task_less "\<lambda>t. (rt_RunAfter t, rt_ID t)"
  by unfold_locales (auto simp: task_less_def split: if_splits)

section \<open>The in-memory queue\<close>

definition NewMemoryReplicationTaskQueue :: "instant \<Rightarrow> MemoryReplicationTaskQueue" where
  "NewMemoryReplicationTaskQueue t = \<lparr>mq_tasks = [], mq_now = t\<rparr>"

fun Enqueue :: "ReplicationTask list \<Rightarrow> MemoryReplicationTaskQueue \<Rightarrow> MemoryReplicationTaskQueue" where
  "Enqueue [] q = q"
| "Enqueue (task # tasks) q =
     (if gm_get (mq_tasks q) (rt_ID task) \<noteq> None then Enqueue tasks q
      else Enqueue tasks (q\<lparr>mq_tasks := gm_put (rt_ID task) task (mq_tasks q)\<rparr>))"

definition Pending :: "MemoryReplicationTaskQueue \<Rightarrow> ReplicationTask list" where
  "Pending q =
     sortReplicationTasks
       (filter (\<lambda>task. rt_State task = ReplicationTaskPending \<and> readyToRun task (mq_now q))
          (gm_vals (mq_tasks q)))"

definition MarkRunning ::
  "string \<Rightarrow> MemoryReplicationTaskQueue \<Rightarrow> ReplicationTask result \<times> MemoryReplicationTaskQueue" where
  "MarkRunning tid q =
     (case gm_get (mq_tasks q) tid of
        None \<Rightarrow> (Inl ErrTaskNotFound, q)
      | Some task \<Rightarrow>
          (let now = mq_now q;
               task' = task\<lparr>rt_State := ReplicationTaskRunning, rt_Attempts := rt_Attempts task + 1,
                            rt_LeaseUntil := now + defaultReplicationTaskLease, rt_UpdatedAt := now\<rparr>
           in (Inr task', q\<lparr>mq_tasks := gm_put tid task' (mq_tasks q)\<rparr>)))"

definition MarkDone ::
  "string \<Rightarrow> MemoryReplicationTaskQueue \<Rightarrow> ReplicationTask result \<times> MemoryReplicationTaskQueue" where
  "MarkDone tid q =
     (case gm_get (mq_tasks q) tid of
        None \<Rightarrow> (Inl ErrTaskNotFound, q)
      | Some task \<Rightarrow>
          (let task' = task\<lparr>rt_State := ReplicationTaskDone, rt_LeaseUntil := 0, rt_RunAfter := 0,
                            rt_LastError := '''', rt_UpdatedAt := mq_now q\<rparr>
           in (Inr task', q\<lparr>mq_tasks := gm_put tid task' (mq_tasks q)\<rparr>)))"

definition MarkFailed ::
  "string \<Rightarrow> error option \<Rightarrow> MemoryReplicationTaskQueue
    \<Rightarrow> ReplicationTask result \<times> MemoryReplicationTaskQueue" where
  "MarkFailed tid cause q =
     (case gm_get (mq_tasks q) tid of
        None \<Rightarrow> (Inl ErrTaskNotFound, q)
      | Some task \<Rightarrow>
          (let task' = failReplicationTask task (mq_now q) cause
           in (Inr task', q\<lparr>mq_tasks := gm_put tid task' (mq_tasks q)\<rparr>)))"

text \<open>The condition under which the loop of \<open>RequeueExpiredRunning\<close> does not continue.\<close>

definition leaseExpired :: "ReplicationTask \<Rightarrow> instant \<Rightarrow> bool" where
  "leaseExpired task now \<longleftrightarrow>
     \<not> (rt_State task \<noteq> ReplicationTaskRunning \<or> rt_LeaseUntil task = 0 \<or> now < rt_LeaseUntil task)"

definition RequeueExpiredRunning ::
  "MemoryReplicationTaskQueue \<Rightarrow> ReplicationTask list \<times> MemoryReplicationTaskQueue" where
  "RequeueExpiredRunning q =
     (let now = mq_now q
      in (sortReplicationTasks
            (map (\<lambda>task. expireReplicationTask task now)
               (filter (\<lambda>task. leaseExpired task now) (gm_vals (mq_tasks q)))),
          q\<lparr>mq_tasks := gm_update_all
               (\<lambda>_ task. if leaseExpired task now then expireReplicationTask task now else task)
               (mq_tasks q)\<rparr>))"

definition Stats :: "MemoryReplicationTaskQueue \<Rightarrow> (ReplicationTaskState \<times> nat) list" where
  "Stats q = go_tally (map rt_State (gm_vals (mq_tasks q)))"

section \<open>Back-off\<close>

lemma backoff_product:
  assumes "n \<le> 33"
  shows "sint (word_of_int nanosecondsPerSecond * push_bit n 1 :: 64 word) = nanosecondsPerSecond * 2 ^ n"
proof -
  have "(2::int) ^ n \<le> 2 ^ 33" using assms by (intro power_increasing) auto
  then have small: "nanosecondsPerSecond * 2 ^ n < 2 ^ 63" by (simp add: nanosecondsPerSecond_def)
  have "word_of_int nanosecondsPerSecond * push_bit n 1 = (word_of_int (nanosecondsPerSecond * 2 ^ n) :: 64 word)"
    by (simp add: push_bit_eq_mult nanosecondsPerSecond_def)
  then have "sint (word_of_int nanosecondsPerSecond * push_bit n 1 :: 64 word) =
      signed_take_bit 63 (nanosecondsPerSecond * 2 ^ n)"
    by (simp only: sint_sbintrunc') simp
  also have "\<dots> = nanosecondsPerSecond * 2 ^ n"
  proof (rule signed_take_bit_int_eq_self)
    have "0 \<le> nanosecondsPerSecond * 2 ^ n" by (simp add: nanosecondsPerSecond_def)
    then show "- (2 ^ 63) \<le> nanosecondsPerSecond * 2 ^ n" by (rule order_trans [rotated]) simp
  qed (use small in simp)
  finally show ?thesis .
qed

lemma replicationBackoff_eq:
  assumes "attempts \<le> 33"
  shows "replicationBackoff attempts =
           min defaultReplicationTaskMaxBackoff (nanosecondsPerSecond * 2 ^ nat (max 1 attempts))"
proof -
  have "nat (if attempts < 1 then 1 else attempts) = nat (max 1 attempts)" by simp
  moreover have "nat (max 1 attempts) \<le> 33" using assms by simp
  ultimately show ?thesis
    by (simp only: replicationBackoff_def Let_def backoff_product) (simp add: min_def)
qed

text \<open>
  C20. Back-off is exact and bounded where the queue uses it. For up to 33 attempts, far past
  the five a task gets, the delay before the next try is two to the number of attempts in
  seconds, cut at one minute, so it lies between two seconds and one minute and never
  shrinks from one attempt to the next.
\<close>

theorem replicationBackoff_bounds:
  assumes "attempts \<le> 33"
  shows "replicationBackoff attempts =
           min defaultReplicationTaskMaxBackoff (nanosecondsPerSecond * 2 ^ nat (max 1 attempts)) \<and>
         2 * nanosecondsPerSecond \<le> replicationBackoff attempts \<and>
         replicationBackoff attempts \<le> defaultReplicationTaskMaxBackoff \<and>
         replicationBackoff (attempts - 1) \<le> replicationBackoff attempts"
proof -
  have two: "(2::int) ^ 1 \<le> 2 ^ nat (max 1 attempts)" by (intro power_increasing) auto
  have mono: "nanosecondsPerSecond * 2 ^ nat (max 1 (attempts - 1)) \<le>
      nanosecondsPerSecond * 2 ^ nat (max 1 attempts)"
    by (intro mult_left_mono power_increasing) (auto simp: nanosecondsPerSecond_def)
  have "replicationBackoff (attempts - 1) =
      min defaultReplicationTaskMaxBackoff (nanosecondsPerSecond * 2 ^ nat (max 1 (attempts - 1)))"
    using assms by (intro replicationBackoff_eq) simp
  with mono have "replicationBackoff (attempts - 1) \<le> replicationBackoff attempts"
    using replicationBackoff_eq [OF assms] by linarith
  with assms two show ?thesis
    by (simp add: replicationBackoff_eq nanosecondsPerSecond_def defaultReplicationTaskMaxBackoff_def)
qed

theorem replicationBackoff_bounds_witness:
  "replicationBackoff 3 = 8 * nanosecondsPerSecond \<and> replicationBackoff 6 = 60 * nanosecondsPerSecond"
  using replicationBackoff_bounds [of 3] replicationBackoff_bounds [of 6]
  by (simp add: nanosecondsPerSecond_def defaultReplicationTaskMaxBackoff_def)

section \<open>What the planner returns\<close>

lemma Plan_eq:
  assumes "0 < rp_ReplicaCount p"
  shows "Plan p nodes =
    (let hs = go_sort (less_by nm_ID) (filter (\<lambda>n. nm_State n = NodeHealthy) nodes);
         rs = take (nat (rp_ReplicaCount p)) hs
     in if hs = [] then Inl ErrNoHealthyNodes
        else Inr \<lparr>pl_Primary = hd rs, pl_Replicas = rs\<rparr>)"
proof -
  let ?hs = "go_sort (less_by nm_ID) (filter (\<lambda>n. nm_State n = NodeHealthy) nodes)"
  have take_eq: "take (nat (if int (length ?hs) < rp_ReplicaCount p then int (length ?hs)
      else rp_ReplicaCount p)) ?hs = take (nat (rp_ReplicaCount p)) ?hs"
    by (cases "int (length ?hs) < rp_ReplicaCount p") auto
  have nonneg: "\<not> (if int (length ?hs) < rp_ReplicaCount p then int (length ?hs) else rp_ReplicaCount p) < 0"
    using assms by simp
  show ?thesis
  proof (cases "filter (\<lambda>n. nm_State n = NodeHealthy) nodes = []")
    case True
    then show ?thesis by (simp only: Plan_def Let_def if_True) simp
  next
    case False
    then have "take (nat (rp_ReplicaCount p)) ?hs \<noteq> []" using assms by simp
    then obtain r rs where rs: "take (nat (rp_ReplicaCount p)) ?hs = r # rs"
      by (cases "take (nat (rp_ReplicaCount p)) ?hs") auto
    from False nonneg show ?thesis
      by (simp only: Plan_def Let_def if_False take_eq rs list.case go_sort_eq_Nil list.sel)
  qed
qed

lemma sorted_take_before_drop:
  assumes "sorted_wrt P xs" and "x \<in> set (take k xs)" and "y \<in> set (drop k xs)"
  shows "P x y"
  using assms sorted_wrt_append [of P "take k xs" "drop k xs"] by simp

text \<open>
  Placement. With a positive replica count and distinct node identifiers, \<open>Plan\<close> fails
  with \<open>ErrNoHealthyNodes\<close> exactly if no node is healthy; otherwise it returns as many healthy
  nodes as asked for, or all of them if there are fewer, in increasing order of identifier,
  each smaller than every healthy node left out, and the primary is the first of them.
\<close>

theorem Plan_correct:
  assumes "0 < rp_ReplicaCount p" and "distinct (map nm_ID nodes)"
  shows "case Plan p nodes of
           Inl e \<Rightarrow> e = ErrNoHealthyNodes \<and> filter (\<lambda>n. nm_State n = NodeHealthy) nodes = []
         | Inr pl \<Rightarrow>
             pl_Replicas pl \<noteq> [] \<and> pl_Primary pl = hd (pl_Replicas pl) \<and>
             set (pl_Replicas pl) \<subseteq> {n \<in> set nodes. nm_State n = NodeHealthy} \<and>
             sorted_wrt (<) (map nm_ID (pl_Replicas pl)) \<and>
             length (pl_Replicas pl) =
               min (nat (rp_ReplicaCount p)) (length (filter (\<lambda>n. nm_State n = NodeHealthy) nodes)) \<and>
             (\<forall>x y. x \<in> set (pl_Replicas pl) \<and> y \<in> set nodes \<and> nm_State y = NodeHealthy \<and>
                    y \<notin> set (pl_Replicas pl) \<longrightarrow> nm_ID x < nm_ID y)"
proof -
  let ?hs = "go_sort (less_by nm_ID) (filter (\<lambda>n. nm_State n = NodeHealthy) nodes)"
  let ?k = "nat (rp_ReplicaCount p)"
  have sorted: "sorted_wrt (less_by nm_ID) ?hs"
    using assms(2) by (intro by_key.sorted_go_sort distinct_map_filter)
  then have "sorted_wrt (less_by nm_ID) (take ?k ?hs)" by (rule sorted_wrt_take)
  moreover have "less_by nm_ID x y" if "x \<in> set (take ?k ?hs)" and "y \<in> set ?hs"
    and "y \<notin> set (take ?k ?hs)" for x y
  proof -
    from that(2,3) have "y \<in> set (drop ?k ?hs)"
      by (metis UnE append_take_drop_id set_append)
    with sorted that(1) show ?thesis by (rule sorted_take_before_drop)
  qed
  moreover have "set (take ?k ?hs) \<subseteq> set ?hs" by (rule set_take_subset)
  ultimately show ?thesis
    using assms(1) unfolding Plan_eq [OF assms(1)]
    by (auto simp: Let_def sorted_wrt_less_by [symmetric] less_by_def)
qed

theorem Plan_correct_witness:
  "\<exists>pl. Plan (NewReplicationPlanner 2)
      [\<lparr>nm_ID = ''c'', nm_Addr = '''', nm_State = NodeHealthy, nm_LastHeartbeat = 1\<rparr>,
       \<lparr>nm_ID = ''a'', nm_Addr = '''', nm_State = NodeDown, nm_LastHeartbeat = 1\<rparr>,
       \<lparr>nm_ID = ''b'', nm_Addr = '''', nm_State = NodeHealthy, nm_LastHeartbeat = 1\<rparr>] = Inr pl \<and>
    length (pl_Replicas pl) = 2 \<and> pl_Primary pl = hd (pl_Replicas pl)"
  using Plan_correct [of "NewReplicationPlanner 2"
      "[\<lparr>nm_ID = ''c'', nm_Addr = '''', nm_State = NodeHealthy, nm_LastHeartbeat = 1\<rparr>,
        \<lparr>nm_ID = ''a'', nm_Addr = '''', nm_State = NodeDown, nm_LastHeartbeat = 1\<rparr>,
        \<lparr>nm_ID = ''b'', nm_Addr = '''', nm_State = NodeHealthy, nm_LastHeartbeat = 1\<rparr>]"]
  by (auto simp: NewReplicationPlanner_def split: sum.splits)

section \<open>Which replicas get a task\<close>

lemma newReplicationTask_sel [simp]:
  "rt_ID (newReplicationTask f src tgt c u) = replicationTaskID (fm_Key f) (fm_Version f) src tgt"
  "rt_Key (newReplicationTask f src tgt c u) = fm_Key f"
  "rt_Version (newReplicationTask f src tgt c u) = fm_Version f"
  "rt_Checksum (newReplicationTask f src tgt c u) = fm_Checksum f"
  "rt_Chunks (newReplicationTask f src tgt c u) = fm_Chunks f"
  "rt_Source (newReplicationTask f src tgt c u) = src"
  "rt_Target (newReplicationTask f src tgt c u) = tgt"
  "rt_State (newReplicationTask f src tgt c u) = ReplicationTaskPending"
  "rt_Attempts (newReplicationTask f src tgt c u) = 0"
  "rt_RunAfter (newReplicationTask f src tgt c u) = 0"
  "rt_LeaseUntil (newReplicationTask f src tgt c u) = 0"
  by (simp_all add: newReplicationTask_def)

definition needs_copy :: "FileMetadata \<Rightarrow> string \<Rightarrow> bool" where
  "needs_copy f n \<longleftrightarrow> n \<noteq> fm_Primary f \<and>
     (\<exists>r. gm_get (fm_Replicas f) n = Some r \<and>
          rm_State r \<in> {ReplicaPending, ReplicaStale, ReplicaMissing})"

lemma taskForReplica_eq:
  "taskForReplica f now n =
     (if needs_copy f n then Some (newReplicationTask f (fm_Primary f) n now now) else None)"
  by (auto simp: taskForReplica_def needs_copy_def split: option.split)

lemma map_filter_if:
  "List.map_filter (\<lambda>x. if P x then Some (g x) else None) xs = map g (filter P xs)"
  by (induction xs) (auto simp: List.map_filter_def)

lemma TasksForFile_eq:
  "TasksForFile f now =
     (if fm_Primary f = '''' \<or> gm_get (fm_Replicas f) (fm_Primary f) = None
      then Inl ErrPrimaryUnavailable
      else Inr (map (\<lambda>n. newReplicationTask f (fm_Primary f) n now now)
                  (filter (needs_copy f) (sort (gm_keys (fm_Replicas f))))))"
  by (simp add: TasksForFile_def taskForReplica_eq [abs_def] map_filter_if)

lemma TasksForFile_targets:
  assumes "TasksForFile f now = Inr tasks"
  shows "n \<in> rt_Target ` set tasks \<longleftrightarrow> needs_copy f n"
  using assms by (auto simp: TasksForFile_eq needs_copy_def gm_get_keys image_iff split: if_splits)

text \<open>
  Publishing a version queues exactly the copies it lacks. When \<open>TasksForFile\<close> succeeds,
  the targets of its tasks, in increasing order and without repetition, are the replicas
  other than the primary that are pending, stale or missing; each task copies the file's
  current version with its checksum and manifest from the primary, and starts out pending
  and untried.
\<close>

theorem TasksForFile_exact:
  assumes "wf_file f" and "TasksForFile f now = Inr tasks"
  shows "sorted_wrt (<) (map rt_Target tasks) \<and>
         (\<forall>n. n \<in> rt_Target ` set tasks \<longleftrightarrow>
              n \<noteq> fm_Primary f \<and>
              (\<exists>r. gm_get (fm_Replicas f) n = Some r \<and>
                   rm_State r \<in> {ReplicaPending, ReplicaStale, ReplicaMissing})) \<and>
         (\<forall>t \<in> set tasks. rt_Source t = fm_Primary f \<and> rt_Key t = fm_Key f \<and>
            rt_Version t = fm_Version f \<and> rt_Checksum t = fm_Checksum f \<and>
            rt_Chunks t = fm_Chunks f \<and> rt_State t = ReplicationTaskPending \<and> rt_Attempts t = 0)"
proof -
  let ?ns = "filter (needs_copy f) (sort (gm_keys (fm_Replicas f)))"
  from assms(2) have tasks: "tasks = map (\<lambda>n. newReplicationTask f (fm_Primary f) n now now) ?ns"
    by (simp add: TasksForFile_eq split: if_splits)
  have "distinct (gm_keys (fm_Replicas f))"
    using assms(1) by (simp add: wf_file_def gm_wf_def gm_keys_def)
  then have "sorted_wrt (<) ?ns"
    by (intro sorted_wrt_filter) (simp add: strict_sorted_iff)
  then have "sorted_wrt (<) (map rt_Target tasks)" by (simp add: tasks comp_def)
  moreover have "\<forall>t \<in> set tasks. rt_Source t = fm_Primary f \<and> rt_Key t = fm_Key f \<and>
      rt_Version t = fm_Version f \<and> rt_Checksum t = fm_Checksum f \<and>
      rt_Chunks t = fm_Chunks f \<and> rt_State t = ReplicationTaskPending \<and> rt_Attempts t = 0"
    by (simp add: tasks)
  ultimately show ?thesis
    using TasksForFile_targets [OF assms(2), unfolded needs_copy_def] by blast
qed

theorem TasksForFile_exact_witness:
  "\<exists>tasks. TasksForFile
      (fst (BeginFileVersion ''k'' 3 ''c'' [] ''n1'' [''n1'', ''n3'', ''n2''] (NewMetadataStore 5))) 7 = Inr tasks \<and>
    sorted_wrt (<) (map rt_Target tasks) \<and> ''n2'' \<in> rt_Target ` set tasks \<and> ''n1'' \<notin> rt_Target ` set tasks"
proof -
  define f where "f = fst (BeginFileVersion ''k'' 3 ''c'' [] ''n1'' [''n1'', ''n3'', ''n2''] (NewMetadataStore 5))"
  note defs = f_def BeginFileVersion_def NewMetadataStore_def nextVersionLocked_def
    initialReplicas_def Let_def cloneFileMetadata_def gm_clone_def
  have wf: "wf_file f" by (simp add: defs wf_file_def gm_wf_def gm_all_def)
  have "fm_Primary f = ''n1''" "gm_get (fm_Replicas f) ''n1'' \<noteq> None" by (simp_all add: defs)
  then obtain tasks where t: "TasksForFile f 7 = Inr tasks" by (simp add: TasksForFile_eq)
  have "\<exists>r. gm_get (fm_Replicas f) ''n2'' = Some r \<and> rm_State r = ReplicaPending"
    by (simp add: defs)
  with TasksForFile_exact [OF wf t] \<open>fm_Primary f = ''n1''\<close> t show ?thesis
    by (auto simp: f_def)
qed

section \<open>Task identifiers\<close>

text \<open>
  A task identifier names one copy: for node identifiers without a colon, two tasks with
  the same identifier have the same key, version, source and target. The key itself may hold
  colons.
\<close>

theorem replicationTaskID_inject:
  assumes "replicationTaskID k v s t = replicationTaskID k' v' s' t'"
    and "CHR '':'' \<notin> set s" and "CHR '':'' \<notin> set t"
    and "CHR '':'' \<notin> set s'" and "CHR '':'' \<notin> set t'"
  shows "k = k' \<and> v = v' \<and> s = s' \<and> t = t'"
proof -
  let ?c = "CHR '':''"
  have "(k @ ?c # dec (unat v) @ ?c # s) @ ?c # t = (k' @ ?c # dec (unat v') @ ?c # s') @ ?c # t'"
    using assms(1) by (simp add: replicationTaskID_def)
  from split_last_unique [OF this assms(3,5)]
  have "t = t'" and "(k @ ?c # dec (unat v)) @ ?c # s = (k' @ ?c # dec (unat v')) @ ?c # s'" by auto
  from split_last_unique [OF this(2) assms(2,4)]
  have "s = s'" and "k @ ?c # dec (unat v) = k' @ ?c # dec (unat v')" by auto
  from split_last_unique [OF this(2)] have "k = k'" and "dec (unat v) = dec (unat v')"
    by (simp_all add: not_digit_in_dec)
  with \<open>t = t'\<close> \<open>s = s'\<close> show ?thesis by (simp add: word_unat_eq_iff)
qed

theorem replicationTaskID_inject_witness:
  "replicationTaskID ''a:1'' 2 ''n1'' ''n2'' \<noteq> replicationTaskID ''a'' 2 ''n1'' ''n2''"
proof
  assume "replicationTaskID ''a:1'' 2 ''n1'' ''n2'' = replicationTaskID ''a'' 2 ''n1'' ''n2''"
  from replicationTaskID_inject [OF this] show False by simp
qed

section \<open>The queue\<close>

text \<open>Every task is stored under its own identifier.\<close>

definition wf_queue :: "MemoryReplicationTaskQueue \<Rightarrow> bool" where
  "wf_queue q \<longleftrightarrow> gm_wf (mq_tasks q) \<and> gm_all (\<lambda>k t. rt_ID t = k) (mq_tasks q)"

lemma wf_queue_ID: "wf_queue q \<Longrightarrow> gm_get (mq_tasks q) k = Some t \<Longrightarrow> rt_ID t = k"
  by (auto simp: wf_queue_def dest: gm_allD)

lemma wf_queue_put:
  "wf_queue q \<Longrightarrow> rt_ID t = k \<Longrightarrow> wf_queue (q\<lparr>mq_tasks := gm_put k t (mq_tasks q)\<rparr>)"
  by (simp add: wf_queue_def gm_all_put)

lemma failReplicationTask_sel [simp]:
  "rt_ID (failReplicationTask t now e) = rt_ID t"
  "rt_Key (failReplicationTask t now e) = rt_Key t"
  "rt_Target (failReplicationTask t now e) = rt_Target t"
  "rt_Attempts (failReplicationTask t now e) = rt_Attempts t"
  "rt_LeaseUntil (failReplicationTask t now e) = 0"
  "rt_State (failReplicationTask t now e) =
     (if defaultReplicationTaskMaxAttempts \<le> rt_Attempts t then ReplicationTaskDead
      else ReplicationTaskPending)"
  "rt_RunAfter (failReplicationTask t now e) =
     (if defaultReplicationTaskMaxAttempts \<le> rt_Attempts t then 0
      else now + replicationBackoff (rt_Attempts t))"
  by (simp_all add: failReplicationTask_def Let_def)

lemma expireReplicationTask_sel [simp]:
  "rt_ID (expireReplicationTask t now) = rt_ID t"
  "rt_Attempts (expireReplicationTask t now) = rt_Attempts t"
  "rt_LeaseUntil (expireReplicationTask t now) = 0"
  "rt_State (expireReplicationTask t now) =
     (if defaultReplicationTaskMaxAttempts \<le> rt_Attempts t then ReplicationTaskDead
      else ReplicationTaskPending)"
  "rt_RunAfter (expireReplicationTask t now) =
     (if defaultReplicationTaskMaxAttempts \<le> rt_Attempts t then 0 else now)"
  by (simp_all add: expireReplicationTask_def Let_def)

lemma wf_NewQueue [simp]: "wf_queue (NewMemoryReplicationTaskQueue t)"
  by (simp add: NewMemoryReplicationTaskQueue_def wf_queue_def)

lemma wf_Enqueue: "wf_queue q \<Longrightarrow> wf_queue (Enqueue ts q)"
  by (induction ts q rule: Enqueue.induct) (auto intro: wf_queue_put)

lemma wf_MarkRunning: "wf_queue q \<Longrightarrow> wf_queue (snd (MarkRunning tid q))"
  by (auto simp: MarkRunning_def Let_def wf_queue_ID split: option.split intro!: wf_queue_put)

lemma wf_MarkDone: "wf_queue q \<Longrightarrow> wf_queue (snd (MarkDone tid q))"
  by (auto simp: MarkDone_def Let_def wf_queue_ID split: option.split intro!: wf_queue_put)

lemma wf_MarkFailed: "wf_queue q \<Longrightarrow> wf_queue (snd (MarkFailed tid e q))"
  by (auto simp: MarkFailed_def Let_def wf_queue_ID split: option.split intro!: wf_queue_put)

lemma wf_Requeue: "wf_queue q \<Longrightarrow> wf_queue (snd (RequeueExpiredRunning q))"
  by (auto simp: RequeueExpiredRunning_def Let_def wf_queue_def intro!: gm_all_update_all)

lemmas wf_queue_intros = wf_Enqueue wf_MarkRunning wf_MarkDone wf_MarkFailed wf_Requeue

lemma mq_now_Enqueue [simp]: "mq_now (Enqueue ts q) = mq_now q"
  by (induction ts q rule: Enqueue.induct) auto

lemma gm_get_Enqueue:
  "gm_get (mq_tasks (Enqueue ts q)) i =
     (case gm_get (mq_tasks q) i of Some t \<Rightarrow> Some t | None \<Rightarrow> List.find (\<lambda>t. rt_ID t = i) ts)"
  by (induction ts q rule: Enqueue.induct) (auto split: option.splits)

lemma Pending_mem:
  "wf_queue q \<Longrightarrow>
   t \<in> set (Pending q) \<longleftrightarrow>
     gm_get (mq_tasks q) (rt_ID t) = Some t \<and> rt_State t = ReplicationTaskPending \<and>
     readyToRun t (mq_now q)"
  by (auto simp: Pending_def sortReplicationTasks_def wf_queue_def gm_vals_own_key)

lemma distinct_pair: "distinct (map g xs) \<Longrightarrow> distinct (map (\<lambda>x. (f x, g x)) xs)"
  by (induction xs) auto

lemma Pending_sorted: "wf_queue q \<Longrightarrow> sorted_wrt task_less (Pending q)"
  unfolding Pending_def sortReplicationTasks_def
  by (rule task_order.sorted_go_sort) (simp add: distinct_pair gm_vals_distinct wf_queue_def)

text \<open>
  The queue offers exactly the runnable tasks. \<open>Pending\<close> lists, without repetition, the
  stored tasks that are pending and whose start time has come, first those that never
  failed, then by start time and identifier; two queues that hold the same tasks and read
  the same clock list the same, whatever the iteration order of the map.
\<close>

theorem Pending_exact:
  assumes "wf_queue q" and "mset (mq_tasks q') = mset (mq_tasks q)" and "mq_now q' = mq_now q"
  shows "Pending q' = Pending q \<and> sorted_wrt task_less (Pending q) \<and> distinct (Pending q) \<and>
         (\<forall>t. t \<in> set (Pending q) \<longleftrightarrow>
              gm_get (mq_tasks q) (rt_ID t) = Some t \<and> rt_State t = ReplicationTaskPending \<and>
              (rt_RunAfter t = 0 \<or> rt_RunAfter t \<le> mq_now q))"
proof -
  let ?P = "\<lambda>t. rt_State t = ReplicationTaskPending \<and> readyToRun t (mq_now q)"
  have ids: "distinct (map rt_ID (filter ?P (gm_vals (mq_tasks q))))"
    using assms(1) by (simp add: wf_queue_def gm_vals_distinct)
  have "mset (filter ?P (gm_vals (mq_tasks q))) = mset (filter ?P (gm_vals (mq_tasks q')))"
    using assms(2) by (simp add: gm_vals_def mset_filter)
  with ids have "Pending q = Pending q'"
    unfolding Pending_def sortReplicationTasks_def assms(3)
    by (intro task_order.go_sort_perm distinct_pair)
  moreover have "distinct (Pending q)"
    using ids distinct_map_go_sort [of rt_ID task_less] unfolding Pending_def sortReplicationTasks_def
    by (metis distinct_map)
  moreover have "readyToRun t (mq_now q) \<longleftrightarrow> rt_RunAfter t = 0 \<or> rt_RunAfter t \<le> mq_now q" for t
    by (simp add: readyToRun_def not_less)
  ultimately show ?thesis
    using Pending_sorted [OF assms(1)] Pending_mem [OF assms(1)] by simp
qed

theorem Pending_exact_witness:
  "let f = fst (BeginFileVersion ''k'' 3 ''c'' [] ''n1'' [''n1'', ''n2'', ''n3''] (NewMetadataStore 5));
       q = Enqueue [newReplicationTask f ''n1'' ''n3'' 7 7, newReplicationTask f ''n1'' ''n2'' 7 7]
             (NewMemoryReplicationTaskQueue 7);
       q' = q\<lparr>mq_tasks := rev (mq_tasks q)\<rparr>
   in Pending q' = Pending q \<and> newReplicationTask f ''n1'' ''n2'' 7 7 \<in> set (Pending q)"
proof -
  define f where "f = fst (BeginFileVersion ''k'' 3 ''c'' [] ''n1'' [''n1'', ''n2'', ''n3''] (NewMetadataStore 5))"
  define q where "q = Enqueue [newReplicationTask f ''n1'' ''n3'' 7 7, newReplicationTask f ''n1'' ''n2'' 7 7]
             (NewMemoryReplicationTaskQueue 7)"
  have wf: "wf_queue q" unfolding q_def by (intro wf_Enqueue wf_NewQueue)
  have "gm_get (mq_tasks q) (replicationTaskID (fm_Key f) (fm_Version f) ''n1'' ''n2'') =
      Some (newReplicationTask f ''n1'' ''n2'' 7 7)"
    by (simp add: q_def gm_get_Enqueue NewMemoryReplicationTaskQueue_def replicationTaskID_def)
  with Pending_exact [OF wf, of "q\<lparr>mq_tasks := rev (mq_tasks q)\<rparr>"] show ?thesis
    unfolding Let_def f_def [symmetric] q_def [symmetric] by simp
qed

text \<open>
  Enqueueing is safe to repeat. A task already in the queue is never overwritten, not
  even by a task with the same identifier in another state; a task with a new identifier
  enters as it is; nothing else changes; and enqueueing the same tasks again does nothing.
\<close>

theorem Enqueue_idempotent:
  "(\<forall>i t. gm_get (mq_tasks q) i = Some t \<longrightarrow> gm_get (mq_tasks (Enqueue ts q)) i = Some t) \<and>
   (\<forall>i. gm_get (mq_tasks q) i = None \<longrightarrow>
        gm_get (mq_tasks (Enqueue ts q)) i = List.find (\<lambda>t. rt_ID t = i) ts) \<and>
   Enqueue ts (Enqueue ts q) = Enqueue ts q"
proof -
  have "Enqueue us q' = q'" if "\<forall>t \<in> set us. gm_get (mq_tasks q') (rt_ID t) \<noteq> None" for us q'
    using that by (induction us q' rule: Enqueue.induct) auto
  moreover have "gm_get (mq_tasks (Enqueue ts q)) (rt_ID t) \<noteq> None" if "t \<in> set ts" for t
  proof -
    have "List.find (\<lambda>u. rt_ID u = rt_ID t) ts \<noteq> None" using that by (auto simp: find_None_iff)
    then show ?thesis by (auto simp: gm_get_Enqueue split: option.split)
  qed
  ultimately show ?thesis by (auto simp: gm_get_Enqueue)
qed

theorem Enqueue_idempotent_witness:
  "let f = fst (BeginFileVersion ''k'' 3 ''c'' [] ''n1'' [''n1'', ''n2''] (NewMetadataStore 5));
       t = newReplicationTask f ''n1'' ''n2'' 7 7;
       q = snd (MarkDone (rt_ID t) (Enqueue [t] (NewMemoryReplicationTaskQueue 7)))
   in Enqueue [t] q = q \<and> Pending q = []"
proof -
  define f where "f = fst (BeginFileVersion ''k'' 3 ''c'' [] ''n1'' [''n1'', ''n2''] (NewMetadataStore 5))"
  define t where "t = newReplicationTask f ''n1'' ''n2'' 7 7"
  define q where "q = snd (MarkDone (rt_ID t) (Enqueue [t] (NewMemoryReplicationTaskQueue 7)))"
  have q: "mq_tasks q = [(rt_ID t, t\<lparr>rt_State := ReplicationTaskDone, rt_LeaseUntil := 0, rt_RunAfter := 0,
                            rt_LastError := '''', rt_UpdatedAt := 7\<rparr>)]"
    by (simp add: q_def MarkDone_def NewMemoryReplicationTaskQueue_def Let_def)
  then have old: "gm_get (mq_tasks q) (rt_ID t) \<noteq> None" by simp
  then have "Enqueue [t] q = Enqueue [] q" by simp
  with Enqueue_idempotent [of q "[t]"] have "Enqueue [t] q = q" by simp
  moreover have "Pending q = []" using q by (simp add: Pending_def sortReplicationTasks_def gm_vals_def)
  ultimately show ?thesis unfolding Let_def f_def [symmetric] t_def [symmetric] q_def [symmetric] by simp
qed

section \<open>The life cycle of a task\<close>

text \<open>
  The steps of a queue in use: fresh tasks come in, a worker starts a task that \<open>Pending\<close>
  offers, copies end in success or failure (reported for any identifier, as the methods
  allow), expired leases are requeued, and the clock shows instants after the zero time.
\<close>

definition fresh_task :: "ReplicationTask \<Rightarrow> bool" where
  "fresh_task t \<longleftrightarrow> rt_State t = ReplicationTaskPending \<and> rt_Attempts t = 0"

inductive queue_step :: "MemoryReplicationTaskQueue \<Rightarrow> MemoryReplicationTaskQueue \<Rightarrow> bool" where
  enqueue: "list_all fresh_task ts \<Longrightarrow> queue_step q (Enqueue ts q)"
| start: "t \<in> set (Pending q) \<Longrightarrow> queue_step q (snd (MarkRunning (rt_ID t) q))"
| finish: "queue_step q (snd (MarkDone tid q))"
| fail: "queue_step q (snd (MarkFailed tid cause q))"
| requeue: "queue_step q (snd (RequeueExpiredRunning q))"
| clock: "0 < now \<Longrightarrow> queue_step q (q\<lparr>mq_now := now\<rparr>)"

inductive queue_reachable :: "MemoryReplicationTaskQueue \<Rightarrow> bool" where
  start: "0 < now \<Longrightarrow> queue_reachable (NewMemoryReplicationTaskQueue now)"
| step: "queue_reachable q \<Longrightarrow> queue_step q q' \<Longrightarrow> queue_reachable q'"

inductive_cases queue_stepE: "queue_step q q'"

text \<open>What the life cycle keeps true of each task.\<close>

definition task_ok :: "ReplicationTask \<Rightarrow> bool" where
  "task_ok t \<longleftrightarrow>
     0 \<le> rt_Attempts t \<and> rt_Attempts t \<le> defaultReplicationTaskMaxAttempts \<and>
     (rt_State t = ReplicationTaskPending \<longrightarrow> rt_Attempts t < defaultReplicationTaskMaxAttempts) \<and>
     (rt_State t = ReplicationTaskRunning \<longrightarrow> 1 \<le> rt_Attempts t \<and> 0 < rt_LeaseUntil t) \<and>
     (rt_State t = ReplicationTaskDead \<longrightarrow> rt_Attempts t = defaultReplicationTaskMaxAttempts) \<and>
     rt_State t \<noteq> ReplicationTaskFailed"

definition queue_ok :: "MemoryReplicationTaskQueue \<Rightarrow> bool" where
  "queue_ok q \<longleftrightarrow> wf_queue q \<and> 0 < mq_now q \<and> gm_all (\<lambda>_. task_ok) (mq_tasks q)"

lemma queue_ok_put:
  "queue_ok q \<Longrightarrow> rt_ID t = k \<Longrightarrow> task_ok t \<Longrightarrow> queue_ok (q\<lparr>mq_tasks := gm_put k t (mq_tasks q)\<rparr>)"
  by (simp add: queue_ok_def wf_queue_put) (simp add: wf_queue_def gm_all_put)

lemma queue_ok_task: "queue_ok q \<Longrightarrow> gm_get (mq_tasks q) k = Some t \<Longrightarrow> task_ok t \<and> rt_ID t = k"
  by (auto simp: queue_ok_def dest: gm_allD wf_queue_ID)

lemma task_ok_fresh: "fresh_task t \<Longrightarrow> task_ok t"
  by (simp add: fresh_task_def task_ok_def defaultReplicationTaskMaxAttempts_def)

lemma task_ok_fail: "task_ok t \<Longrightarrow> task_ok (failReplicationTask t now e)"
  by (simp add: task_ok_def)

lemma task_ok_expire: "task_ok t \<Longrightarrow> task_ok (expireReplicationTask t now)"
  by (simp add: task_ok_def)

lemma queue_ok_Enqueue: "queue_ok q \<Longrightarrow> list_all fresh_task ts \<Longrightarrow> queue_ok (Enqueue ts q)"
  by (induction ts q rule: Enqueue.induct) (auto intro: queue_ok_put task_ok_fresh)

lemma queue_ok_MarkRunning:
  assumes "queue_ok q" and "t \<in> set (Pending q)"
  shows "queue_ok (snd (MarkRunning (rt_ID t) q))"
proof -
  from assms have "gm_get (mq_tasks q) (rt_ID t) = Some t" and p: "rt_State t = ReplicationTaskPending"
    by (auto simp: queue_ok_def Pending_mem)
  moreover from this assms(1) have "task_ok t" by (auto dest: queue_ok_task)
  moreover have "0 < mq_now q" using assms(1) by (simp add: queue_ok_def)
  ultimately show ?thesis
    using assms(1)
    by (auto simp: MarkRunning_def Let_def task_ok_def defaultReplicationTaskLease_def
        nanosecondsPerSecond_def intro!: queue_ok_put)
qed

lemma queue_ok_MarkDone: "queue_ok q \<Longrightarrow> queue_ok (snd (MarkDone tid q))"
  by (auto simp: MarkDone_def Let_def task_ok_def split: option.split intro!: queue_ok_put
      dest: queue_ok_task)

lemma queue_ok_MarkFailed: "queue_ok q \<Longrightarrow> queue_ok (snd (MarkFailed tid e q))"
  by (auto simp: MarkFailed_def Let_def split: option.split intro!: queue_ok_put task_ok_fail
      dest: queue_ok_task)

lemma queue_ok_Requeue: "queue_ok q \<Longrightarrow> queue_ok (snd (RequeueExpiredRunning q))"
  using wf_Requeue [of q]
  by (auto simp: queue_ok_def) (auto simp: RequeueExpiredRunning_def Let_def
      intro!: gm_all_update_all task_ok_expire)

lemma queue_ok_clock: "queue_ok q \<Longrightarrow> 0 < now \<Longrightarrow> queue_ok (q\<lparr>mq_now := now\<rparr>)"
  by (simp add: queue_ok_def wf_queue_def)

lemma queue_step_ok: "queue_step q q' \<Longrightarrow> queue_ok q \<Longrightarrow> queue_ok q'"
  by (induction rule: queue_step.induct)
    (auto intro: queue_ok_Enqueue queue_ok_MarkRunning queue_ok_MarkDone queue_ok_MarkFailed
      queue_ok_Requeue queue_ok_clock)

lemma queue_reachable_ok: "queue_reachable q \<Longrightarrow> queue_ok q"
proof (induction rule: queue_reachable.induct)
  case (start now)
  then show ?case by (simp add: queue_ok_def) (simp add: NewMemoryReplicationTaskQueue_def)
next
  case (step q q')
  then show ?case by (blast intro: queue_step_ok)
qed

text \<open>
  Retries are bounded. In every reachable queue a task has been started at most five
  times; a task that still waits has a try left; a running task has been started and holds a
  lease; a task is dead only after its fifth start; and no task is ever in the state
  \<open>failed\<close>, which the code declares but never assigns.
\<close>

theorem task_attempts_bounded:
  assumes "queue_reachable q" and "gm_get (mq_tasks q) i = Some t"
  shows "0 \<le> rt_Attempts t \<and> rt_Attempts t \<le> 5 \<and>
         (rt_State t = ReplicationTaskPending \<longrightarrow> rt_Attempts t < 5) \<and>
         (rt_State t = ReplicationTaskRunning \<longrightarrow> 1 \<le> rt_Attempts t \<and> 0 < rt_LeaseUntil t) \<and>
         (rt_State t = ReplicationTaskDead \<longrightarrow> rt_Attempts t = 5) \<and>
         rt_State t \<noteq> ReplicationTaskFailed"
  using queue_ok_task [OF queue_reachable_ok [OF assms(1)] assms(2)]
  by (simp add: task_ok_def defaultReplicationTaskMaxAttempts_def)

theorem task_attempts_bounded_witness:
  "let f = fst (BeginFileVersion ''k'' 3 ''c'' [] ''n1'' [''n1'', ''n2''] (NewMetadataStore 5));
       t = newReplicationTask f ''n1'' ''n2'' 7 7;
       q = snd (MarkFailed (rt_ID t) None (Enqueue [t] (NewMemoryReplicationTaskQueue 7)))
   in rt_Attempts (the (gm_get (mq_tasks q) (rt_ID t))) \<le> 5"
proof -
  define f where "f = fst (BeginFileVersion ''k'' 3 ''c'' [] ''n1'' [''n1'', ''n2''] (NewMetadataStore 5))"
  define t where "t = newReplicationTask f ''n1'' ''n2'' 7 7"
  define q where "q = snd (MarkFailed (rt_ID t) None (Enqueue [t] (NewMemoryReplicationTaskQueue 7)))"
  have "queue_reachable (NewMemoryReplicationTaskQueue 7)" by (rule queue_reachable.start) simp
  then have "queue_reachable (Enqueue [t] (NewMemoryReplicationTaskQueue 7))"
    by (rule queue_reachable.step) (rule queue_step.enqueue, simp add: fresh_task_def t_def)
  then have r: "queue_reachable q"
    unfolding q_def by (rule queue_reachable.step) (rule queue_step.fail)
  have "gm_get (mq_tasks q) (rt_ID t) = Some (the (gm_get (mq_tasks q) (rt_ID t)))"
    by (simp add: q_def MarkFailed_def NewMemoryReplicationTaskQueue_def Let_def)
  from task_attempts_bounded [OF r this] show ?thesis
    unfolding Let_def f_def [symmetric] t_def [symmetric] q_def [symmetric] by simp
qed

text \<open>One run of a task whose copy fails.\<close>

definition failing_run ::
  "string \<Rightarrow> error option \<Rightarrow> MemoryReplicationTaskQueue \<Rightarrow> MemoryReplicationTaskQueue" where
  "failing_run tid cause q = snd (MarkFailed tid cause (snd (MarkRunning tid q)))"

lemma failing_run_get:
  assumes "gm_get (mq_tasks q) tid = Some t"
  shows "\<exists>t'. gm_get (mq_tasks (failing_run tid cause q)) tid = Some t' \<and>
           rt_Attempts t' = rt_Attempts t + 1 \<and>
           rt_State t' = (if 5 \<le> rt_Attempts t + 1 then ReplicationTaskDead else ReplicationTaskPending) \<and>
           rt_RunAfter t' = (if 5 \<le> rt_Attempts t + 1 then 0
                             else mq_now q + replicationBackoff (rt_Attempts t + 1)) \<and>
           mq_now (failing_run tid cause q) = mq_now q"
  using assms
  by (auto simp: failing_run_def MarkRunning_def MarkFailed_def Let_def
      defaultReplicationTaskMaxAttempts_def)

text \<open>
  C19. A copy that keeps failing comes to an end. A fresh task whose copy fails on each of
  its first \<open>n\<close> runs, for \<open>n\<close> up to five, has \<open>n\<close> attempts; after each of the first four
  it waits for the back-off of that attempt before it is offered again, and after the fifth
  it is dead.
\<close>

theorem failing_task_dies:
  assumes "gm_get (mq_tasks q) tid = Some t" and "rt_Attempts t = 0" and "1 \<le> n" and "n \<le> 5"
  shows "\<exists>t'. gm_get (mq_tasks ((failing_run tid cause ^^ n) q)) tid = Some t' \<and>
           rt_Attempts t' = int n \<and>
           rt_State t' = (if n = 5 then ReplicationTaskDead else ReplicationTaskPending) \<and>
           rt_RunAfter t' = (if n = 5 then 0 else mq_now q + nanosecondsPerSecond * 2 ^ n)"
proof -
  have "\<exists>t'. gm_get (mq_tasks ((failing_run tid cause ^^ n) q)) tid = Some t' \<and>
      rt_Attempts t' = int n \<and> mq_now ((failing_run tid cause ^^ n) q) = mq_now q \<and>
      (1 \<le> n \<longrightarrow>
        rt_State t' = (if n = 5 then ReplicationTaskDead else ReplicationTaskPending) \<and>
        rt_RunAfter t' = (if n = 5 then 0 else mq_now q + replicationBackoff (int n)))"
    using assms(4)
  proof (induction n)
    case 0
    then show ?case using assms(1,2) by simp
  next
    case (Suc n)
    then obtain u where "gm_get (mq_tasks ((failing_run tid cause ^^ n) q)) tid = Some u"
      and "rt_Attempts u = int n" and "mq_now ((failing_run tid cause ^^ n) q) = mq_now q" by auto
    with failing_run_get [OF this(1), of cause] Suc.prems show ?case by (auto simp: algebra_simps)
  qed
  moreover have "replicationBackoff (int n) = nanosecondsPerSecond * 2 ^ n" if "n < 5"
  proof -
    have "n \<in> {1, 2, 3, 4}" using that assms(3) by auto
    then show ?thesis
      by (auto simp: replicationBackoff_eq defaultReplicationTaskMaxBackoff_def nanosecondsPerSecond_def)
  qed
  ultimately show ?thesis using assms(3,4) by auto
qed

theorem failing_task_dies_witness:
  "let f = fst (BeginFileVersion ''k'' 3 ''c'' [] ''n1'' [''n1'', ''n2''] (NewMetadataStore 5));
       t = newReplicationTask f ''n1'' ''n2'' 7 7;
       q = Enqueue [t] (NewMemoryReplicationTaskQueue 7)
   in \<exists>t'. gm_get (mq_tasks ((failing_run (rt_ID t) None ^^ 5) q)) (rt_ID t) = Some t' \<and>
           rt_State t' = ReplicationTaskDead"
proof -
  define f where "f = fst (BeginFileVersion ''k'' 3 ''c'' [] ''n1'' [''n1'', ''n2''] (NewMetadataStore 5))"
  define t where "t = newReplicationTask f ''n1'' ''n2'' 7 7"
  define q where "q = Enqueue [t] (NewMemoryReplicationTaskQueue 7)"
  have g: "gm_get (mq_tasks q) (rt_ID t) = Some t"
    by (simp add: q_def NewMemoryReplicationTaskQueue_def)
  have "rt_Attempts t = 0" by (simp add: t_def)
  from failing_task_dies [OF g this, of 5 None] show ?thesis
    unfolding Let_def f_def [symmetric] t_def [symmetric] q_def [symmetric] by auto
qed

text \<open>
  No task stays stuck in \<open>running\<close>. After \<open>RequeueExpiredRunning\<close> no running task has a
  lease that has run out; a task whose lease had run out is pending again at once, or dead
  if it had used up its attempts; every other task is unchanged; and the call returns
  exactly the tasks it moved.
\<close>

theorem requeue_frees_expired:
  assumes "wf_queue q" and "RequeueExpiredRunning q = (moved, q')"
  shows "(\<forall>i t. gm_get (mq_tasks q') i = Some t \<and> rt_State t = ReplicationTaskRunning \<longrightarrow>
             rt_LeaseUntil t = 0 \<or> mq_now q < rt_LeaseUntil t) \<and>
         (\<forall>i t. gm_get (mq_tasks q) i = Some t \<longrightarrow>
             gm_get (mq_tasks q') i =
               Some (if rt_State t = ReplicationTaskRunning \<and> rt_LeaseUntil t \<noteq> 0 \<and>
                        rt_LeaseUntil t \<le> mq_now q
                     then expireReplicationTask t (mq_now q) else t)) \<and>
         (\<forall>t'. t' \<in> set moved \<longleftrightarrow>
             (\<exists>i t. gm_get (mq_tasks q) i = Some t \<and> leaseExpired t (mq_now q) \<and>
                    t' = expireReplicationTask t (mq_now q))) \<and>
         (\<forall>t' \<in> set moved. rt_State t' = ReplicationTaskPending \<and> readyToRun t' (mq_now q) \<or>
                            rt_State t' = ReplicationTaskDead)"
proof -
  have q': "q' = snd (RequeueExpiredRunning q)" and moved: "moved = fst (RequeueExpiredRunning q)"
    using assms(2) by simp_all
  have expired: "leaseExpired t now \<longleftrightarrow> rt_State t = ReplicationTaskRunning \<and> rt_LeaseUntil t \<noteq> 0 \<and>
      rt_LeaseUntil t \<le> now" for t now
    by (auto simp: leaseExpired_def)
  have get: "gm_get (mq_tasks q') i = map_option (\<lambda>t. if leaseExpired t (mq_now q)
      then expireReplicationTask t (mq_now q) else t) (gm_get (mq_tasks q) i)" for i
    by (simp add: q' RequeueExpiredRunning_def Let_def)
  have mem: "t' \<in> set moved \<longleftrightarrow> (\<exists>i t. gm_get (mq_tasks q) i = Some t \<and> leaseExpired t (mq_now q) \<and>
      t' = expireReplicationTask t (mq_now q))" for t'
    using assms(1)
    by (auto simp: moved RequeueExpiredRunning_def Let_def sortReplicationTasks_def wf_queue_def gm_vals_in)
  have ready: "rt_State t' = ReplicationTaskPending \<and> readyToRun t' (mq_now q) \<or>
      rt_State t' = ReplicationTaskDead" if "t' \<in> set moved" for t'
    using that by (auto simp: mem readyToRun_def split: if_splits)
  have running: "rt_LeaseUntil t = 0 \<or> mq_now q < rt_LeaseUntil t"
    if "gm_get (mq_tasks q') i = Some t" and "rt_State t = ReplicationTaskRunning" for i t
    using that by (auto simp: get expired split: if_splits dest: arg_cong [where f = rt_LeaseUntil])
  have other: "gm_get (mq_tasks q) i = Some t \<longrightarrow> gm_get (mq_tasks q') i =
      Some (if rt_State t = ReplicationTaskRunning \<and> rt_LeaseUntil t \<noteq> 0 \<and>
               rt_LeaseUntil t \<le> mq_now q
            then expireReplicationTask t (mq_now q) else t)" for i t
    by (simp add: get expired)
  show ?thesis
    by (intro conjI allI ballI impI) (use running in blast, rule other [rule_format], assumption,
      rule mem, rule ready)
qed

theorem requeue_frees_expired_witness:
  "let f = fst (BeginFileVersion ''k'' 3 ''c'' [] ''n1'' [''n1'', ''n2''] (NewMetadataStore 5));
       t = newReplicationTask f ''n1'' ''n2'' 7 7;
       q = (snd (MarkRunning (rt_ID t) (Enqueue [t] (NewMemoryReplicationTaskQueue 7))))
             \<lparr>mq_now := 40 * nanosecondsPerSecond\<rparr>
   in \<forall>t' \<in> set (fst (RequeueExpiredRunning q)).
        rt_State t' = ReplicationTaskPending \<or> rt_State t' = ReplicationTaskDead"
proof -
  define f where "f = fst (BeginFileVersion ''k'' 3 ''c'' [] ''n1'' [''n1'', ''n2''] (NewMetadataStore 5))"
  define t where "t = newReplicationTask f ''n1'' ''n2'' 7 7"
  define q where "q = (snd (MarkRunning (rt_ID t) (Enqueue [t] (NewMemoryReplicationTaskQueue 7))))
             \<lparr>mq_now := 40 * nanosecondsPerSecond\<rparr>"
  have "wf_queue (snd (MarkRunning (rt_ID t) (Enqueue [t] (NewMemoryReplicationTaskQueue 7))))"
    by (intro wf_MarkRunning wf_Enqueue wf_NewQueue)
  then have wf: "wf_queue q" by (simp add: q_def wf_queue_def)
  from requeue_frees_expired [OF wf prod.collapse [symmetric]] show ?thesis
    unfolding Let_def f_def [symmetric] t_def [symmetric] q_def [symmetric] by blast
qed

end
