(* ===== verification/Json_Codec.thy ===== *)
theory Json_Codec
  imports Replication
begin

text \<open>
  The records of the metadata store and of the task queue as JSON, the form in which
  \<open>metadata_disk.go\<close> and \<open>replication_disk.go\<close> of \<open>src/distributed-fs\<close> keep them.

  A JSON document is its syntax tree. What \<open>encoding/json\<close> does to the values on the way is
  here: bytes of a string that are not UTF-8 become replacement characters, a \<open>time.Time\<close>
  outside the years 0 to 9999 is refused, a missing field or a \<open>null\<close> leaves the zero value,
  a value of the wrong kind is an error. The members of an object that stands for a Go map are
  in the order of the list that models the map; decoding builds a map again, whose order is
  open, so that order is not observable.

  The theorems say when decoding gives back what was encoded: exactly when every string is
  UTF-8 and every time in range.
\<close>

section \<open>Documents\<close>

datatype json =
    JNull
  | JBool bool
  | JNum int
  | JStr string
  | JTime instant
  | JArr "json list"
  | JObj "(string \<times> json) list"

section \<open>Strings\<close>

text \<open>The length of the UTF-8 sequence at the head of a string, 0 if there is none.\<close>

definition utf8_cont :: "nat \<Rightarrow> nat \<Rightarrow> char list \<Rightarrow> nat \<Rightarrow> bool" where
  "utf8_cont lo hi cs i \<longleftrightarrow> i < length cs \<and> lo \<le> of_char (cs ! i) \<and> of_char (cs ! i) \<le> hi"

definition utf8_len :: "string \<Rightarrow> nat" where
  "utf8_len cs =
     (case cs of
        [] \<Rightarrow> 0
      | c # _ \<Rightarrow>
          let b = (of_char c :: nat) in
          if b \<le> 0x7F then 1
          else if 0xC2 \<le> b \<and> b \<le> 0xDF then (if utf8_cont 0x80 0xBF cs 1 then 2 else 0)
          else if 0xE0 \<le> b \<and> b \<le> 0xEF then
            (if utf8_cont (if b = 0xE0 then 0xA0 else 0x80) (if b = 0xED then 0x9F else 0xBF) cs 1 \<and>
                utf8_cont 0x80 0xBF cs 2 then 3 else 0)
          else if 0xF0 \<le> b \<and> b \<le> 0xF4 then
            (if utf8_cont (if b = 0xF0 then 0x90 else 0x80) (if b = 0xF4 then 0x8F else 0xBF) cs 1 \<and>
                utf8_cont 0x80 0xBF cs 2 \<and> utf8_cont 0x80 0xBF cs 3 then 4 else 0)
          else 0)"

text \<open>Encoding a string and decoding it again: every byte that starts no sequence becomes U+FFFD.\<close>

function utf8_coerce :: "string \<Rightarrow> string" where
  "utf8_coerce [] = []"
| "utf8_coerce (c # cs) =
     (if utf8_len (c # cs) = 0 then [char_of (0xEF::nat), char_of (0xBF::nat), char_of (0xBD::nat)] @ utf8_coerce cs
      else take (utf8_len (c # cs)) (c # cs) @ utf8_coerce (drop (utf8_len (c # cs)) (c # cs)))"
  by pat_completeness auto

termination utf8_coerce
  by (relation "measure length") auto

definition safe_str :: "string \<Rightarrow> bool" where
  "safe_str s \<longleftrightarrow> utf8_coerce s = s"

lemma ascii_safe: "list_all (\<lambda>c. of_char c \<le> (0x7F::nat)) s \<Longrightarrow> safe_str s"
proof (induction s)
  case Nil
  then show ?case by (simp add: safe_str_def)
next
  case (Cons c s)
  then have "utf8_len (c # s) = 1" by (simp add: utf8_len_def)
  with Cons show ?case by (simp add: safe_str_def)
qed

text \<open>UTF-8 strings are closed under concatenation: a string that encoding leaves alone has no byte outside a sequence.\<close>

lemma utf8_len_le: "utf8_len cs \<le> length cs"
  by (auto simp: utf8_len_def utf8_cont_def Let_def Suc_le_eq split: list.split)

lemma utf8_cont_append: "utf8_cont lo hi a i \<Longrightarrow> utf8_cont lo hi (a @ b) i"
  by (simp add: utf8_cont_def nth_append)

lemma utf8_len_append:
  assumes "utf8_len a \<noteq> 0"
  shows "utf8_len (a @ b) = utf8_len a"
proof -
  have pick: "(if A then 1 else if B then (if P then 2 else 0) else if C then (if Q then 3 else 0)
       else if D then (if R then 4 else 0) else 0) \<noteq> (0::nat) \<Longrightarrow>
     (P \<Longrightarrow> P') \<Longrightarrow> (Q \<Longrightarrow> Q') \<Longrightarrow> (R \<Longrightarrow> R') \<Longrightarrow>
     (if A then 1 else if B then (if P' then 2 else 0) else if C then (if Q' then 3 else 0)
       else if D then (if R' then 4 else 0) else 0) =
     (if A then 1 else if B then (if P then 2 else 0) else if C then (if Q then 3 else 0)
       else if D then (if R then 4 else 0) else (0::nat))" for A B C D P Q R P' Q' R' :: bool
    by (simp split: if_splits)
  from assms obtain c cs where a: "a = c # cs" by (cases a) (auto simp: utf8_len_def)
  show ?thesis
    using assms unfolding a append_Cons utf8_len_def list.case Let_def
    by (rule pick) (auto simp only: append_Cons [symmetric] intro: utf8_cont_append)
qed

lemma utf8_coerce_length: "length s \<le> length (utf8_coerce s)"
proof (induction s rule: utf8_coerce.induct)
  case (2 c cs)
  show ?case
  proof (cases "utf8_len (c # cs) = 0")
    case True
    with "2.IH"(1) show ?thesis by simp
  next
    case False
    with "2.IH"(2) utf8_len_le [of "c # cs"] show ?thesis by simp
  qed
qed simp

lemma safe_str_head:
  assumes "safe_str (c # cs)"
  shows "utf8_len (c # cs) \<noteq> 0 \<and> safe_str (drop (utf8_len (c # cs)) (c # cs))"
proof -
  have "utf8_len (c # cs) \<noteq> 0"
  proof
    assume "utf8_len (c # cs) = 0"
    with assms have "length (utf8_coerce cs) + 3 = length (c # cs)"
      by (metis One_nat_def add.commute length_append list.size(3,4) numeral_3_eq_3 plus_1_eq_Suc
          safe_str_def utf8_coerce.simps(2) add_Suc)
    with utf8_coerce_length [of cs] show False by simp
  qed
  moreover from this assms
  have "take (utf8_len (c # cs)) (c # cs) @ utf8_coerce (drop (utf8_len (c # cs)) (c # cs)) = c # cs"
    by (simp add: safe_str_def)
  then have "utf8_coerce (drop (utf8_len (c # cs)) (c # cs)) = drop (utf8_len (c # cs)) (c # cs)"
    by (metis append_take_drop_id same_append_eq)
  ultimately show ?thesis by (simp add: safe_str_def)
qed

lemma safe_str_append: "safe_str a \<Longrightarrow> safe_str b \<Longrightarrow> safe_str (a @ b)"
proof (induction a rule: length_induct)
  case (1 a)
  show ?case
  proof (cases a)
    case (Cons c cs)
    let ?n = "utf8_len (c # cs)"
    from 1 Cons have n: "?n \<noteq> 0" and safe: "safe_str (drop ?n (c # cs))" by (simp_all add: safe_str_head)
    have le: "?n \<le> length (c # cs)" by (rule utf8_len_le)
    have len: "utf8_len (c # cs @ b) = ?n" using utf8_len_append [OF n] by simp
    have "length (drop ?n (c # cs)) < length a" using n Cons by simp
    with 1 safe have "utf8_coerce (drop ?n (c # cs) @ b) = drop ?n (c # cs) @ b" by (simp add: safe_str_def)
    moreover have "drop ?n (c # cs @ b) = drop ?n (c # cs) @ b" and "take ?n (c # cs @ b) = take ?n (c # cs)"
      using le drop_append [of ?n "c # cs" b] take_append [of ?n "c # cs" b] by simp_all
    ultimately have "utf8_coerce (c # cs @ b) = take ?n (c # cs) @ drop ?n (c # cs) @ b"
      using n by (simp only: utf8_coerce.simps(2) len if_False)
    also have "\<dots> = c # cs @ b" using append_take_drop_id [of ?n "c # cs"] by (metis append.assoc append_Cons)
    finally show ?thesis by (simp add: Cons safe_str_def)
  qed (use 1 in simp)
qed

lemma safe_str_Nil [simp]: "safe_str []"
  by (simp add: safe_str_def)

lemma safe_task_id:
  assumes "safe_str k" and "safe_str src" and "safe_str tgt"
  shows "safe_str (replicationTaskID k v src tgt)"
proof -
  have "list_all (\<lambda>c. of_char c \<le> (0x7F::nat)) (dec (unat v))"
    by (auto simp: list_all_iff is_digit_def dest!: dec_digits)
  then have "safe_str (dec (unat v))" by (rule ascii_safe)
  moreover have "safe_str '':''" by (rule ascii_safe) simp
  ultimately show ?thesis unfolding replicationTaskID_def by (intro safe_str_append assms)
qed

section \<open>Times and numbers\<close>

text \<open>The instants of the years 0 to 9999, in nanoseconds since the start of year 1.\<close>

definition time_ok :: "instant \<Rightarrow> bool" where
  "time_ok t \<longleftrightarrow> - 31622400 * nanosecondsPerSecond \<le> t \<and> t < 315537897600 * nanosecondsPerSecond"

definition enc_time :: "instant \<Rightarrow> json result" where
  "enc_time t = (if time_ok t then Inr (JTime t)
                 else Inl (ErrOther ''Time.MarshalJSON: year outside of range [0,9999]''))"

definition json_error :: error where
  "json_error = ErrOther ''json: cannot unmarshal''"

definition json_get :: "json \<Rightarrow> string \<Rightarrow> json option" where
  "json_get j name = (case j of JObj members \<Rightarrow> map_of (rev members) name | _ \<Rightarrow> None)"

definition json_struct :: "json \<Rightarrow> bool" where
  "json_struct j = (case j of JObj _ \<Rightarrow> True | JNull \<Rightarrow> True | _ \<Rightarrow> False)"

fun dec_str :: "json option \<Rightarrow> string result" where
  "dec_str None = Inr ''''"
| "dec_str (Some JNull) = Inr ''''"
| "dec_str (Some (JStr s)) = Inr s"
| "dec_str _ = Inl json_error"

fun dec_num :: "json option \<Rightarrow> int result" where
  "dec_num None = Inr 0"
| "dec_num (Some JNull) = Inr 0"
| "dec_num (Some (JNum n)) = Inr n"
| "dec_num _ = Inl json_error"

definition dec_uint64 :: "json option \<Rightarrow> uint64 result" where
  "dec_uint64 j = bind_result (dec_num j)
     (\<lambda>n. if 0 \<le> n \<and> n < 2 ^ 64 then Inr (word_of_int n) else Inl json_error)"

fun dec_bool :: "json option \<Rightarrow> bool result" where
  "dec_bool None = Inr False"
| "dec_bool (Some JNull) = Inr False"
| "dec_bool (Some (JBool b)) = Inr b"
| "dec_bool _ = Inl json_error"

fun dec_time :: "json option \<Rightarrow> instant result" where
  "dec_time None = Inr 0"
| "dec_time (Some JNull) = Inr 0"
| "dec_time (Some (JTime t)) = Inr t"
| "dec_time _ = Inl json_error"

fun dec_arr :: "(json \<Rightarrow> 'a result) \<Rightarrow> json option \<Rightarrow> 'a list result" where
  "dec_arr f None = Inr []"
| "dec_arr f (Some JNull) = Inr []"
| "dec_arr f (Some (JArr js)) = map_result f js"
| "dec_arr f _ = Inl json_error"

text \<open>A JSON object into a Go map, member by member.\<close>

fun dec_map :: "(json \<Rightarrow> 'v result) \<Rightarrow> json option \<Rightarrow> 'v gomap result" where
  "dec_map f None = Inr []"
| "dec_map f (Some JNull) = Inr []"
| "dec_map f (Some (JObj members)) =
     bind_result (map_result (\<lambda>(k, j). bind_result (f j) (\<lambda>v. Inr (k, v))) members) (\<lambda>kvs. Inr (gm_clone kvs))"
| "dec_map f _ = Inl json_error"

lemma dec_uint64_uint [simp]: "dec_uint64 (Some (JNum (uint w))) = Inr w"
proof -
  have "uint w < 2 ^ LENGTH(64)" by (rule unsigned_less)
  then show ?thesis by (simp add: dec_uint64_def)
qed

section \<open>States\<close>

text \<open>
  A state is a Go string. The decoder of the code would accept any string; one that is none of
  the constants is an error here.
\<close>

fun ReplicaState_string :: "ReplicaState \<Rightarrow> string" where
  "ReplicaState_string ReplicaPending = ''pending''"
| "ReplicaState_string ReplicaHealthy = ''healthy''"
| "ReplicaState_string ReplicaStale = ''stale''"
| "ReplicaState_string ReplicaMissing = ''missing''"
| "ReplicaState_string ReplicaDeleted = ''deleted''"

fun NodeState_string :: "NodeState \<Rightarrow> string" where
  "NodeState_string NodeHealthy = ''healthy''"
| "NodeState_string NodeDown = ''down''"

fun ReplicationTaskState_string :: "ReplicationTaskState \<Rightarrow> string" where
  "ReplicationTaskState_string ReplicationTaskPending = ''pending''"
| "ReplicationTaskState_string ReplicationTaskRunning = ''running''"
| "ReplicationTaskState_string ReplicationTaskDone = ''done''"
| "ReplicationTaskState_string ReplicationTaskFailed = ''failed''"
| "ReplicationTaskState_string ReplicationTaskDead = ''dead''"

definition dec_state :: "('s \<Rightarrow> string) \<Rightarrow> 's list \<Rightarrow> json option \<Rightarrow> 's result" where
  "dec_state show states j = bind_result (dec_str j)
     (\<lambda>s. case List.find (\<lambda>st. show st = s) states of None \<Rightarrow> Inl json_error | Some st \<Rightarrow> Inr st)"

definition dec_ReplicaState :: "json option \<Rightarrow> ReplicaState result" where
  "dec_ReplicaState =
     dec_state ReplicaState_string [ReplicaPending, ReplicaHealthy, ReplicaStale, ReplicaMissing, ReplicaDeleted]"

definition dec_NodeState :: "json option \<Rightarrow> NodeState result" where
  "dec_NodeState = dec_state NodeState_string [NodeHealthy, NodeDown]"

definition dec_TaskState :: "json option \<Rightarrow> ReplicationTaskState result" where
  "dec_TaskState =
     dec_state ReplicationTaskState_string [ReplicationTaskPending, ReplicationTaskRunning,
       ReplicationTaskDone, ReplicationTaskFailed, ReplicationTaskDead]"

lemma dec_states [simp]:
  "dec_ReplicaState (Some (JStr (ReplicaState_string r))) = Inr r"
  "dec_NodeState (Some (JStr (NodeState_string n))) = Inr n"
  "dec_TaskState (Some (JStr (ReplicationTaskState_string t))) = Inr t"
  subgoal by (cases r) (simp_all add: dec_ReplicaState_def dec_state_def)
  subgoal by (cases n) (simp_all add: dec_NodeState_def dec_state_def)
  subgoal by (cases t) (simp_all add: dec_TaskState_def dec_state_def)
  done

section \<open>The records\<close>

definition enc_str :: "string \<Rightarrow> json" where
  "enc_str s = JStr (utf8_coerce s)"

definition enc_NodeMetadata :: "NodeMetadata \<Rightarrow> json result" where
  "enc_NodeMetadata n = bind_result (enc_time (nm_LastHeartbeat n)) (\<lambda>hb.
     Inr (JObj [(''ID'', enc_str (nm_ID n)), (''Addr'', enc_str (nm_Addr n)),
                (''State'', JStr (NodeState_string (nm_State n))), (''LastHeartbeat'', hb)]))"

definition dec_NodeMetadata :: "json \<Rightarrow> NodeMetadata result" where
  "dec_NodeMetadata j =
     (if \<not> json_struct j then Inl json_error
      else bind_result (dec_str (json_get j ''ID'')) (\<lambda>nid.
           bind_result (dec_str (json_get j ''Addr'')) (\<lambda>addr.
           bind_result (dec_NodeState (json_get j ''State'')) (\<lambda>state.
           bind_result (dec_time (json_get j ''LastHeartbeat'')) (\<lambda>hb.
           Inr \<lparr>nm_ID = nid, nm_Addr = addr, nm_State = state, nm_LastHeartbeat = hb\<rparr>)))))"

definition enc_ReplicaMetadata :: "ReplicaMetadata \<Rightarrow> json result" where
  "enc_ReplicaMetadata r = bind_result (enc_time (rm_UpdatedAt r)) (\<lambda>t.
     Inr (JObj [(''NodeID'', enc_str (rm_NodeID r)), (''State'', JStr (ReplicaState_string (rm_State r))),
                (''UpdatedAt'', t)]))"

definition dec_ReplicaMetadata :: "json \<Rightarrow> ReplicaMetadata result" where
  "dec_ReplicaMetadata j =
     (if \<not> json_struct j then Inl json_error
      else bind_result (dec_str (json_get j ''NodeID'')) (\<lambda>nid.
           bind_result (dec_ReplicaState (json_get j ''State'')) (\<lambda>state.
           bind_result (dec_time (json_get j ''UpdatedAt'')) (\<lambda>t.
           Inr \<lparr>rm_NodeID = nid, rm_State = state, rm_UpdatedAt = t\<rparr>))))"

definition enc_ChunkMetadata :: "ChunkMetadata \<Rightarrow> json" where
  "enc_ChunkMetadata c =
     JObj [(''index'', JNum (cm_Index c)), (''offset'', JNum (cm_Offset c)), (''size'', JNum (cm_Size c)),
           (''checksum'', enc_str (cm_Checksum c))]"

definition dec_ChunkMetadata :: "json \<Rightarrow> ChunkMetadata result" where
  "dec_ChunkMetadata j =
     (if \<not> json_struct j then Inl json_error
      else bind_result (dec_num (json_get j ''index'')) (\<lambda>index.
           bind_result (dec_num (json_get j ''offset'')) (\<lambda>offset.
           bind_result (dec_num (json_get j ''size'')) (\<lambda>sz.
           bind_result (dec_str (json_get j ''checksum'')) (\<lambda>checksum.
           Inr \<lparr>cm_Index = index, cm_Offset = offset, cm_Size = sz, cm_Checksum = checksum\<rparr>)))))"

definition enc_Replicas :: "ReplicaMetadata gomap \<Rightarrow> json result" where
  "enc_Replicas m = bind_result
     (map_result (\<lambda>(k, r). bind_result (enc_ReplicaMetadata r) (\<lambda>j. Inr (utf8_coerce k, j))) m)
     (\<lambda>members. Inr (JObj members))"

definition enc_FileMetadata :: "FileMetadata \<Rightarrow> json result" where
  "enc_FileMetadata f =
     bind_result (enc_Replicas (fm_Replicas f)) (\<lambda>replicas.
     bind_result (enc_time (fm_CreatedAt f)) (\<lambda>createdAt.
     bind_result (enc_time (fm_UpdatedAt f)) (\<lambda>updatedAt.
     Inr (JObj [(''Key'', enc_str (fm_Key f)), (''Version'', JNum (uint (fm_Version f))),
                (''Size'', JNum (fm_Size f)), (''Checksum'', enc_str (fm_Checksum f)),
                (''Primary'', enc_str (fm_Primary f)), (''Deleted'', JBool (fm_Deleted f)),
                (''Chunks'', JArr (map enc_ChunkMetadata (fm_Chunks f))), (''Replicas'', replicas),
                (''CreatedAt'', createdAt), (''UpdatedAt'', updatedAt)]))))"

definition dec_FileMetadata :: "json \<Rightarrow> FileMetadata result" where
  "dec_FileMetadata j =
     (if \<not> json_struct j then Inl json_error
      else bind_result (dec_str (json_get j ''Key'')) (\<lambda>key.
           bind_result (dec_uint64 (json_get j ''Version'')) (\<lambda>version.
           bind_result (dec_num (json_get j ''Size'')) (\<lambda>sz.
           bind_result (dec_str (json_get j ''Checksum'')) (\<lambda>checksum.
           bind_result (dec_str (json_get j ''Primary'')) (\<lambda>primary.
           bind_result (dec_bool (json_get j ''Deleted'')) (\<lambda>deleted.
           bind_result (dec_arr dec_ChunkMetadata (json_get j ''Chunks'')) (\<lambda>chunks.
           bind_result (dec_map dec_ReplicaMetadata (json_get j ''Replicas'')) (\<lambda>replicas.
           bind_result (dec_time (json_get j ''CreatedAt'')) (\<lambda>createdAt.
           bind_result (dec_time (json_get j ''UpdatedAt'')) (\<lambda>updatedAt.
           Inr \<lparr>fm_Key = key, fm_Version = version, fm_Size = sz, fm_Checksum = checksum,
                fm_Primary = primary, fm_Deleted = deleted, fm_Chunks = chunks, fm_Replicas = replicas,
                fm_CreatedAt = createdAt, fm_UpdatedAt = updatedAt\<rparr>)))))))))))"

definition enc_ReplicationTask :: "ReplicationTask \<Rightarrow> json result" where
  "enc_ReplicationTask t =
     bind_result (enc_time (rt_RunAfter t)) (\<lambda>runAfter.
     bind_result (enc_time (rt_LeaseUntil t)) (\<lambda>leaseUntil.
     bind_result (enc_time (rt_CreatedAt t)) (\<lambda>createdAt.
     bind_result (enc_time (rt_UpdatedAt t)) (\<lambda>updatedAt.
     Inr (JObj [(''ID'', enc_str (rt_ID t)), (''Key'', enc_str (rt_Key t)),
                (''Version'', JNum (uint (rt_Version t))), (''Checksum'', enc_str (rt_Checksum t)),
                (''Chunks'', JArr (map enc_ChunkMetadata (rt_Chunks t))), (''Source'', enc_str (rt_Source t)),
                (''Target'', enc_str (rt_Target t)),
                (''State'', JStr (ReplicationTaskState_string (rt_State t))),
                (''Attempts'', JNum (rt_Attempts t)), (''LastError'', enc_str (rt_LastError t)),
                (''RunAfter'', runAfter), (''LeaseUntil'', leaseUntil),
                (''CreatedAt'', createdAt), (''UpdatedAt'', updatedAt)])))))"

definition dec_ReplicationTask :: "json \<Rightarrow> ReplicationTask result" where
  "dec_ReplicationTask j =
     (if \<not> json_struct j then Inl json_error
      else bind_result (dec_str (json_get j ''ID'')) (\<lambda>tid.
           bind_result (dec_str (json_get j ''Key'')) (\<lambda>key.
           bind_result (dec_uint64 (json_get j ''Version'')) (\<lambda>version.
           bind_result (dec_str (json_get j ''Checksum'')) (\<lambda>checksum.
           bind_result (dec_arr dec_ChunkMetadata (json_get j ''Chunks'')) (\<lambda>chunks.
           bind_result (dec_str (json_get j ''Source'')) (\<lambda>source.
           bind_result (dec_str (json_get j ''Target'')) (\<lambda>target.
           bind_result (dec_TaskState (json_get j ''State'')) (\<lambda>state.
           bind_result (dec_num (json_get j ''Attempts'')) (\<lambda>attempts.
           bind_result (dec_str (json_get j ''LastError'')) (\<lambda>lastError.
           bind_result (dec_time (json_get j ''RunAfter'')) (\<lambda>runAfter.
           bind_result (dec_time (json_get j ''LeaseUntil'')) (\<lambda>leaseUntil.
           bind_result (dec_time (json_get j ''CreatedAt'')) (\<lambda>createdAt.
           bind_result (dec_time (json_get j ''UpdatedAt'')) (\<lambda>updatedAt.
           Inr \<lparr>rt_ID = tid, rt_Key = key, rt_Version = version, rt_Checksum = checksum, rt_Chunks = chunks,
                rt_Source = source, rt_Target = target, rt_State = state, rt_Attempts = attempts,
                rt_LastError = lastError, rt_RunAfter = runAfter, rt_LeaseUntil = leaseUntil,
                rt_CreatedAt = createdAt, rt_UpdatedAt = updatedAt\<rparr>)))))))))))))))"

section \<open>Round trips\<close>

text \<open>The records that JSON represents exactly.\<close>

definition safe_node :: "NodeMetadata \<Rightarrow> bool" where
  "safe_node n \<longleftrightarrow> safe_str (nm_ID n) \<and> safe_str (nm_Addr n)"

definition safe_chunk :: "ChunkMetadata \<Rightarrow> bool" where
  "safe_chunk c \<longleftrightarrow> safe_str (cm_Checksum c)"

definition safe_file :: "FileMetadata \<Rightarrow> bool" where
  "safe_file f \<longleftrightarrow> safe_str (fm_Key f) \<and> safe_str (fm_Checksum f) \<and> safe_str (fm_Primary f) \<and>
     list_all safe_chunk (fm_Chunks f) \<and>
     list_all (\<lambda>(k, r). safe_str k \<and> safe_str (rm_NodeID r)) (fm_Replicas f)"

definition safe_task :: "ReplicationTask \<Rightarrow> bool" where
  "safe_task t \<longleftrightarrow> safe_str (rt_ID t) \<and> safe_str (rt_Key t) \<and> safe_str (rt_Checksum t) \<and>
     safe_str (rt_Source t) \<and> safe_str (rt_Target t) \<and> safe_str (rt_LastError t) \<and>
     list_all safe_chunk (rt_Chunks t)"

definition times_ok_file :: "FileMetadata \<Rightarrow> bool" where
  "times_ok_file f \<longleftrightarrow> time_ok (fm_CreatedAt f) \<and> time_ok (fm_UpdatedAt f) \<and>
     list_all (\<lambda>(k, r). time_ok (rm_UpdatedAt r)) (fm_Replicas f)"

definition times_ok_task :: "ReplicationTask \<Rightarrow> bool" where
  "times_ok_task t \<longleftrightarrow> time_ok (rt_RunAfter t) \<and> time_ok (rt_LeaseUntil t) \<and>
     time_ok (rt_CreatedAt t) \<and> time_ok (rt_UpdatedAt t)"

lemma enc_str_safe [simp]: "safe_str s \<Longrightarrow> enc_str s = JStr s"
  by (simp add: enc_str_def safe_str_def)

lemma node_round_trip:
  assumes "safe_node n" and "enc_NodeMetadata n = Inr j"
  shows "dec_NodeMetadata j = Inr n"
  using assms
  by (auto simp: enc_NodeMetadata_def dec_NodeMetadata_def safe_node_def enc_time_def json_get_def
      json_struct_def split: if_splits)

lemma replica_round_trip:
  assumes "safe_str (rm_NodeID r)" and "enc_ReplicaMetadata r = Inr j"
  shows "dec_ReplicaMetadata j = Inr r"
  using assms
  by (auto simp: enc_ReplicaMetadata_def dec_ReplicaMetadata_def enc_time_def json_get_def
      json_struct_def split: if_splits)

lemma chunk_round_trip: "safe_chunk c \<Longrightarrow> dec_ChunkMetadata (enc_ChunkMetadata c) = Inr c"
  by (simp add: enc_ChunkMetadata_def dec_ChunkMetadata_def safe_chunk_def json_get_def json_struct_def)

lemma chunks_round_trip:
  "list_all safe_chunk cs \<Longrightarrow> map_result dec_ChunkMetadata (map enc_ChunkMetadata cs) = Inr cs"
  by (induction cs) (auto simp: chunk_round_trip)

lemma replicas_round_trip:
  assumes "list_all (\<lambda>(k, r). safe_str k \<and> safe_str (rm_NodeID r)) m" and "gm_wf m" and "enc_Replicas m = Inr j"
  shows "dec_map dec_ReplicaMetadata (Some j) = Inr m"
proof -
  let ?e = "\<lambda>(k, r). bind_result (enc_ReplicaMetadata r) (\<lambda>j. Inr (utf8_coerce k, j))"
  from assms(3) obtain members where enc: "map_result ?e m = Inr members" and j: "j = JObj members"
    by (auto simp: enc_Replicas_def bind_result_eq_Inr)
  from assms(1) enc
  have "map_result (\<lambda>(k, j). bind_result (dec_ReplicaMetadata j) (\<lambda>v. Inr (k, v))) members = Inr m"
    by (induction m arbitrary: members)
      (auto simp: bind_result_eq_Inr safe_str_def replica_round_trip)
  with assms(2) j show ?thesis by simp
qed

lemma file_round_trip:
  assumes "safe_file f" and "gm_wf (fm_Replicas f)" and "enc_FileMetadata f = Inr j"
  shows "dec_FileMetadata j = Inr f"
proof -
  from assms(3) obtain rj where r: "enc_Replicas (fm_Replicas f) = Inr rj"
    and j: "j = JObj [(''Key'', enc_str (fm_Key f)), (''Version'', JNum (uint (fm_Version f))),
                (''Size'', JNum (fm_Size f)), (''Checksum'', enc_str (fm_Checksum f)),
                (''Primary'', enc_str (fm_Primary f)), (''Deleted'', JBool (fm_Deleted f)),
                (''Chunks'', JArr (map enc_ChunkMetadata (fm_Chunks f))), (''Replicas'', rj),
                (''CreatedAt'', JTime (fm_CreatedAt f)), (''UpdatedAt'', JTime (fm_UpdatedAt f))]"
    by (auto simp: enc_FileMetadata_def bind_result_eq_Inr enc_time_def split: if_splits)
  have "dec_map dec_ReplicaMetadata (Some rj) = Inr (fm_Replicas f)"
    using assms(1,2) r by (intro replicas_round_trip) (auto simp: safe_file_def)
  with assms(1) show ?thesis
    by (simp add: j dec_FileMetadata_def json_struct_def json_get_def safe_file_def chunks_round_trip)
qed

lemma task_round_trip:
  assumes "safe_task t" and "enc_ReplicationTask t = Inr j"
  shows "dec_ReplicationTask j = Inr t"
proof -
  from assms(2) have j: "j = JObj [(''ID'', enc_str (rt_ID t)), (''Key'', enc_str (rt_Key t)),
                (''Version'', JNum (uint (rt_Version t))), (''Checksum'', enc_str (rt_Checksum t)),
                (''Chunks'', JArr (map enc_ChunkMetadata (rt_Chunks t))), (''Source'', enc_str (rt_Source t)),
                (''Target'', enc_str (rt_Target t)),
                (''State'', JStr (ReplicationTaskState_string (rt_State t))),
                (''Attempts'', JNum (rt_Attempts t)), (''LastError'', enc_str (rt_LastError t)),
                (''RunAfter'', JTime (rt_RunAfter t)), (''LeaseUntil'', JTime (rt_LeaseUntil t)),
                (''CreatedAt'', JTime (rt_CreatedAt t)), (''UpdatedAt'', JTime (rt_UpdatedAt t))]"
    by (auto simp: enc_ReplicationTask_def bind_result_eq_Inr enc_time_def split: if_splits)
  with assms(1) show ?thesis
    by (simp add: dec_ReplicationTask_def json_struct_def json_get_def safe_task_def chunks_round_trip)
qed

end
