(* ===== verification/Metadata_Backend.thy ===== *)
theory Metadata_Backend
  imports Metadata
begin

text \<open>
  The interface between the coordinator and a metadata store,
  \<open>src/distributed-fs/metadata_backend.go\<close>.

  The Go interface \<open>MetadataBackend\<close> is a record of its methods over a type \<open>'m\<close> of
  store states; a call through the interface is a field of that record applied to the state.
  \<open>MemoryMetadataBackend\<close> is the instance for the in-memory store.

  The locale \<open>metadata_backend\<close> is the contract the coordinator relies on: seen through an
  abstraction function every method does what the in-memory method does, or it fails below
  and changes nothing (\<open>MarkExpiredNodes\<close> only where it has no node to mark). The in-memory instance meets it with the identity as abstraction.
  \<open>okstr\<close> says which strings the store can represent: all of them in memory, those that are
  UTF-8 on disk.
\<close>

record 'm MetadataBackend =
  mb_UpsertNode :: "string \<Rightarrow> string \<Rightarrow> 'm \<Rightarrow> NodeMetadata result \<times> 'm"
  mb_MarkExpiredNodes :: "duration \<Rightarrow> 'm \<Rightarrow> unit result \<times> 'm"
  mb_HealthyNodes :: "'m \<Rightarrow> NodeMetadata list result"
  mb_Nodes :: "'m \<Rightarrow> NodeMetadata list result"
  mb_BeginFileVersion :: "string \<Rightarrow> int \<Rightarrow> string \<Rightarrow> ChunkMetadata list \<Rightarrow> string \<Rightarrow> string list
    \<Rightarrow> 'm \<Rightarrow> FileMetadata result \<times> 'm"
  mb_NextVersion :: "string \<Rightarrow> 'm \<Rightarrow> uint64 result"
  mb_MarkReplica :: "string \<Rightarrow> string \<Rightarrow> ReplicaState \<Rightarrow> 'm \<Rightarrow> FileMetadata result \<times> 'm"
  mb_Tombstone :: "string \<Rightarrow> 'm \<Rightarrow> FileMetadata result \<times> 'm"
  mb_GetFile :: "string \<Rightarrow> 'm \<Rightarrow> FileMetadata option result"
  mb_ListFiles :: "'m \<Rightarrow> FileMetadata list result"
  mb_AddReplica :: "string \<Rightarrow> string \<Rightarrow> ReplicaState \<Rightarrow> 'm \<Rightarrow> FileMetadata result \<times> 'm"
  mb_Now :: "'m \<Rightarrow> instant"

section \<open>The in-memory instance\<close>

definition Memory_UpsertNode ::
  "string \<Rightarrow> string \<Rightarrow> MetadataStore \<Rightarrow> NodeMetadata result \<times> MetadataStore" where
  "Memory_UpsertNode nid addr store = (let (node, store') = UpsertNode nid addr store in (Inr node, store'))"

definition Memory_MarkExpiredNodes :: "duration \<Rightarrow> MetadataStore \<Rightarrow> unit result \<times> MetadataStore" where
  "Memory_MarkExpiredNodes ttl store = (Inr (), MarkExpiredNodes ttl store)"

definition Memory_HealthyNodes :: "MetadataStore \<Rightarrow> NodeMetadata list result" where
  "Memory_HealthyNodes store = Inr (HealthyNodes store)"

definition Memory_Nodes :: "MetadataStore \<Rightarrow> NodeMetadata list result" where
  "Memory_Nodes store = Inr (Nodes store)"

definition Memory_BeginFileVersion ::
  "string \<Rightarrow> int \<Rightarrow> string \<Rightarrow> ChunkMetadata list \<Rightarrow> string \<Rightarrow> string list \<Rightarrow> MetadataStore
    \<Rightarrow> FileMetadata result \<times> MetadataStore" where
  "Memory_BeginFileVersion key sz checksum chunks primary replicas store =
     (let (meta, store') = BeginFileVersion key sz checksum chunks primary replicas store
      in (Inr meta, store'))"

definition Memory_NextVersion :: "string \<Rightarrow> MetadataStore \<Rightarrow> uint64 result" where
  "Memory_NextVersion key store = Inr (NextVersion key store)"

definition Memory_MarkReplica ::
  "string \<Rightarrow> string \<Rightarrow> ReplicaState \<Rightarrow> MetadataStore \<Rightarrow> FileMetadata result \<times> MetadataStore" where
  "Memory_MarkReplica key nodeID state store = MarkReplica key nodeID state store"

definition Memory_Tombstone :: "string \<Rightarrow> MetadataStore \<Rightarrow> FileMetadata result \<times> MetadataStore" where
  "Memory_Tombstone key store = Tombstone key store"

definition Memory_GetFile :: "string \<Rightarrow> MetadataStore \<Rightarrow> FileMetadata option result" where
  "Memory_GetFile key store = Inr (GetFile key store)"

definition Memory_ListFiles :: "MetadataStore \<Rightarrow> FileMetadata list result" where
  "Memory_ListFiles store = Inr (ListFiles store)"

definition Memory_AddReplica ::
  "string \<Rightarrow> string \<Rightarrow> ReplicaState \<Rightarrow> MetadataStore \<Rightarrow> FileMetadata result \<times> MetadataStore" where
  "Memory_AddReplica key nodeID state store = AddReplica key nodeID state store"

definition Memory_Now :: "MetadataStore \<Rightarrow> instant" where
  "Memory_Now store = ms_now store"

definition MemoryMetadataBackend :: "MetadataStore MetadataBackend" where
  "MemoryMetadataBackend =
     \<lparr>mb_UpsertNode = Memory_UpsertNode, mb_MarkExpiredNodes = Memory_MarkExpiredNodes,
      mb_HealthyNodes = Memory_HealthyNodes, mb_Nodes = Memory_Nodes,
      mb_BeginFileVersion = Memory_BeginFileVersion, mb_NextVersion = Memory_NextVersion,
      mb_MarkReplica = Memory_MarkReplica, mb_Tombstone = Memory_Tombstone,
      mb_GetFile = Memory_GetFile, mb_ListFiles = Memory_ListFiles,
      mb_AddReplica = Memory_AddReplica, mb_Now = Memory_Now\<rparr>"

lemma memory_backend_sel [simp]:
  "mb_UpsertNode MemoryMetadataBackend nid addr s = (Inr (fst (UpsertNode nid addr s)), snd (UpsertNode nid addr s))"
  "mb_MarkExpiredNodes MemoryMetadataBackend ttl s = (Inr (), MarkExpiredNodes ttl s)"
  "mb_HealthyNodes MemoryMetadataBackend s = Inr (HealthyNodes s)"
  "mb_Nodes MemoryMetadataBackend s = Inr (Nodes s)"
  "mb_BeginFileVersion MemoryMetadataBackend k sz cs chs p rs s =
     (Inr (fst (BeginFileVersion k sz cs chs p rs s)), snd (BeginFileVersion k sz cs chs p rs s))"
  "mb_NextVersion MemoryMetadataBackend k s = Inr (NextVersion k s)"
  "mb_MarkReplica MemoryMetadataBackend k n st s = MarkReplica k n st s"
  "mb_Tombstone MemoryMetadataBackend k s = Tombstone k s"
  "mb_GetFile MemoryMetadataBackend k s = Inr (GetFile k s)"
  "mb_ListFiles MemoryMetadataBackend s = Inr (ListFiles s)"
  "mb_AddReplica MemoryMetadataBackend k n st s = AddReplica k n st s"
  "mb_Now MemoryMetadataBackend s = ms_now s"
  by (simp_all add: MemoryMetadataBackend_def Memory_UpsertNode_def Memory_MarkExpiredNodes_def
      Memory_HealthyNodes_def Memory_Nodes_def Memory_BeginFileVersion_def Memory_NextVersion_def
      Memory_MarkReplica_def Memory_Tombstone_def Memory_GetFile_def Memory_ListFiles_def
      Memory_AddReplica_def Memory_Now_def case_prod_beta Let_def)

section \<open>The contract\<close>

text \<open>
  No node's heartbeat is older than the time to live: \<open>MarkExpiredNodes\<close> then has nothing to
  mark. The contract promises nothing of it otherwise, because the store on disk then modifies
  a bucket while it scans it (\<open>metadata_disk.go:75\<close>).
\<close>

definition none_expired :: "duration \<Rightarrow> MetadataStore \<Rightarrow> bool" where
  "none_expired ttl m \<longleftrightarrow> list_all (\<lambda>(_, n). \<not> nm_LastHeartbeat n < ms_now m - ttl) (ms_nodes m)"

lemma MarkExpiredNodes_none:
  assumes "none_expired ttl m"
  shows "MarkExpiredNodes ttl m = m"
proof -
  have "gm_update_all (\<lambda>_ n. if nm_LastHeartbeat n < ms_now m - ttl then n\<lparr>nm_State := NodeDown\<rparr> else n) (ms_nodes m) = ms_nodes m"
    using assms by (auto simp: none_expired_def gm_update_all_def list_all_iff intro!: map_idI)
  then show ?thesis by (simp add: MarkExpiredNodes_def Let_def)
qed

locale metadata_backend =
  fixes B :: "'m MetadataBackend" and mabs :: "'m \<Rightarrow> MetadataStore" and minv :: "'m \<Rightarrow> bool"
    and okstr :: "string \<Rightarrow> bool"
  assumes minv_wf: "minv s \<Longrightarrow> wf_metadata (mabs s)"
    and upsert: "minv s \<Longrightarrow> okstr nid \<Longrightarrow> okstr addr \<Longrightarrow> write_ok minv mabs s (mb_UpsertNode B nid addr s)
          (mb_UpsertNode MemoryMetadataBackend nid addr (mabs s))"
    and expire: "minv s \<Longrightarrow> none_expired ttl (mabs s) \<Longrightarrow> write_ok minv mabs s (mb_MarkExpiredNodes B ttl s)
          (mb_MarkExpiredNodes MemoryMetadataBackend ttl (mabs s))"
    and healthy: "minv s \<Longrightarrow> read_ok (mb_HealthyNodes B s) (HealthyNodes (mabs s))"
    and nodes: "minv s \<Longrightarrow> read_ok (mb_Nodes B s) (Nodes (mabs s))"
    and begin_version: "minv s \<Longrightarrow> okstr k \<Longrightarrow> okstr cs \<Longrightarrow> list_all (\<lambda>ch. okstr (cm_Checksum ch)) chs \<Longrightarrow>
          okstr p \<Longrightarrow> list_all okstr rs \<Longrightarrow> write_ok minv mabs s (mb_BeginFileVersion B k sz cs chs p rs s)
          (mb_BeginFileVersion MemoryMetadataBackend k sz cs chs p rs (mabs s))"
    and next_version: "minv s \<Longrightarrow> read_ok (mb_NextVersion B k s) (NextVersion k (mabs s))"
    and mark_replica: "minv s \<Longrightarrow> write_ok minv mabs s (mb_MarkReplica B k n st s)
          (MarkReplica k n st (mabs s))"
    and tombstone: "minv s \<Longrightarrow> write_ok minv mabs s (mb_Tombstone B k s) (Tombstone k (mabs s))"
    and get_file: "minv s \<Longrightarrow> read_ok (mb_GetFile B k s) (GetFile k (mabs s))"
    and list_files: "minv s \<Longrightarrow> read_ok (mb_ListFiles B s) (ListFiles (mabs s))"
    and add_replica: "minv s \<Longrightarrow> okstr n \<Longrightarrow> write_ok minv mabs s (mb_AddReplica B k n st s)
          (AddReplica k n st (mabs s))"
    and now: "minv s \<Longrightarrow> mb_Now B s = ms_now (mabs s)"

interpretation memory_metadata: metadata_backend MemoryMetadataBackend "\<lambda>s. s" wf_metadata "\<lambda>_. True"
  by unfold_locales (auto simp: write_ok_def intro: wf_metadata_intros)

end
