(* ===== verification/Task_Queue.thy ===== *)
theory Task_Queue
  imports Replication
begin

text \<open>
  The interface between the coordinator and a task queue, \<open>ReplicationTaskQueue\<close> in
  \<open>src/distributed-fs/replication.go\<close>: the record of its methods, the in-memory instance, and
  the contract, stated like that of the metadata store: every method does what the in-memory
  method does, or it fails below and changes nothing (\<open>RequeueExpiredRunning\<close> only where no lease
  has expired).
\<close>

record 'q ReplicationTaskQueue =
  tq_Enqueue :: "ReplicationTask list \<Rightarrow> 'q \<Rightarrow> unit result \<times> 'q"
  tq_Pending :: "'q \<Rightarrow> ReplicationTask list result"
  tq_MarkRunning :: "string \<Rightarrow> 'q \<Rightarrow> ReplicationTask result \<times> 'q"
  tq_MarkDone :: "string \<Rightarrow> 'q \<Rightarrow> ReplicationTask result \<times> 'q"
  tq_MarkFailed :: "string \<Rightarrow> error option \<Rightarrow> 'q \<Rightarrow> ReplicationTask result \<times> 'q"
  tq_RequeueExpiredRunning :: "'q \<Rightarrow> ReplicationTask list result \<times> 'q"
  tq_Stats :: "'q \<Rightarrow> (ReplicationTaskState \<times> nat) list result"

definition MemoryTaskQueue :: "MemoryReplicationTaskQueue ReplicationTaskQueue" where
  "MemoryTaskQueue =
     \<lparr>tq_Enqueue = (\<lambda>ts q. (Inr (), Enqueue ts q)),
      tq_Pending = (\<lambda>q. Inr (Pending q)),
      tq_MarkRunning = MarkRunning, tq_MarkDone = MarkDone, tq_MarkFailed = MarkFailed,
      tq_RequeueExpiredRunning =
        (\<lambda>q. let (moved, q') = RequeueExpiredRunning q in (Inr moved, q')),
      tq_Stats = (\<lambda>q. Inr (Stats q))\<rparr>"

lemma memory_queue_sel [simp]:
  "tq_Enqueue MemoryTaskQueue ts q = (Inr (), Enqueue ts q)"
  "tq_Pending MemoryTaskQueue q = Inr (Pending q)"
  "tq_MarkRunning MemoryTaskQueue tid q = MarkRunning tid q"
  "tq_MarkDone MemoryTaskQueue tid q = MarkDone tid q"
  "tq_MarkFailed MemoryTaskQueue tid e q = MarkFailed tid e q"
  "tq_RequeueExpiredRunning MemoryTaskQueue q =
     (Inr (fst (RequeueExpiredRunning q)), snd (RequeueExpiredRunning q))"
  "tq_Stats MemoryTaskQueue q = Inr (Stats q)"
  by (simp_all add: MemoryTaskQueue_def case_prod_beta Let_def)

text \<open>Every string of a task, and the text that a failed attempt leaves in it.\<close>

definition task_strings :: "(string \<Rightarrow> bool) \<Rightarrow> ReplicationTask \<Rightarrow> bool" where
  "task_strings P t \<longleftrightarrow> P (rt_ID t) \<and> P (rt_Key t) \<and> P (rt_Checksum t) \<and> P (rt_Source t) \<and>
     P (rt_Target t) \<and> P (rt_LastError t) \<and> list_all (\<lambda>ch. P (cm_Checksum ch)) (rt_Chunks t)"

definition cause_text :: "error option \<Rightarrow> string" where
  "cause_text cause = (case cause of None \<Rightarrow> [] | Some e \<Rightarrow> errorMessage e)"

text \<open>
  No running task's lease has expired: \<open>RequeueExpiredRunning\<close> then has nothing to do. The
  contract promises nothing of it otherwise, because the queue on disk then modifies a bucket
  while it scans it (\<open>replication_disk.go:134\<close>).
\<close>

definition no_lease_expired :: "MemoryReplicationTaskQueue \<Rightarrow> bool" where
  "no_lease_expired q \<longleftrightarrow> list_all (\<lambda>(_, t). \<not> leaseExpired t (mq_now q)) (mq_tasks q)"

locale task_queue =
  fixes Q :: "'q ReplicationTaskQueue" and qabs :: "'q \<Rightarrow> MemoryReplicationTaskQueue"
    and qinv :: "'q \<Rightarrow> bool" and okstr :: "string \<Rightarrow> bool"
  assumes qinv_wf: "qinv s \<Longrightarrow> wf_queue (qabs s)"
    and enqueue: "qinv s \<Longrightarrow> list_all (task_strings okstr) ts \<Longrightarrow> write_ok qinv qabs s (tq_Enqueue Q ts s)
          (tq_Enqueue MemoryTaskQueue ts (qabs s))"
    and pending: "qinv s \<Longrightarrow> read_ok (tq_Pending Q s) (Pending (qabs s))"
    and mark_running: "qinv s \<Longrightarrow> write_ok qinv qabs s (tq_MarkRunning Q tid s) (MarkRunning tid (qabs s))"
    and mark_done: "qinv s \<Longrightarrow> write_ok qinv qabs s (tq_MarkDone Q tid s) (MarkDone tid (qabs s))"
    and mark_failed: "qinv s \<Longrightarrow> okstr (cause_text e) \<Longrightarrow> write_ok qinv qabs s (tq_MarkFailed Q tid e s) (MarkFailed tid e (qabs s))"
    and requeue: "qinv s \<Longrightarrow> no_lease_expired (qabs s) \<Longrightarrow> write_ok qinv qabs s (tq_RequeueExpiredRunning Q s)
          (tq_RequeueExpiredRunning MemoryTaskQueue (qabs s))"
    and stats: "qinv s \<Longrightarrow> \<exists>st. read_ok (tq_Stats Q s) st \<and> (\<forall>k. map_of st k = map_of (Stats (qabs s)) k)"

interpretation memory_queue: task_queue MemoryTaskQueue "\<lambda>q. q" wf_queue "\<lambda>_. True"
  by unfold_locales (auto simp: write_ok_def intro: wf_queue_intros)

end
