(* ===== verification/Coordinator.thy ===== *)
theory Coordinator
  imports Metadata_Backend Task_Queue
begin

text \<open>
  The metadata coordinator, \<open>src/distributed-fs/coordinator.go\<close>: it joins a metadata
  backend, the placement planner and a task queue.

  \<open>B\<close> and \<open>Q\<close> are the method tables of the two interface values the coordinator holds; the
  record \<open>MetadataCoordinator\<close> holds their states and the planner. Each method is one
  definition, with the calls in the order of the code and every early return on an error.

  Shown here: what a reader is offered and in which order; that committing a prepared write
  publishes the prepared version with a readable primary and queues the missing copies; what
  a repair scan adds and what it leaves alone; and, in the locale \<open>coordinator\<close>, that over
  any backend and queue that meet their contracts the coordinator does what it does over the
  in-memory ones, or reports a failure from below.
\<close>

section \<open>Data\<close>

record WritePlan =
  wp_Metadata :: FileMetadata
  wp_Primary :: NodeMetadata
  wp_Replicas :: "NodeMetadata list"
  wp_Tasks :: "ReplicationTask list"

record PreparedWrite =
  pw_Key :: string
  pw_Version :: uint64
  pw_Size :: int
  pw_Checksum :: string
  pw_Chunks :: "ChunkMetadata list"
  pw_Primary :: NodeMetadata
  pw_Replicas :: "NodeMetadata list"

record ReadPlan =
  rd_Metadata :: FileMetadata
  rd_Replicas :: "ReplicaMetadata list"

record ('m, 'q) MetadataCoordinator =
  mc_metadata :: 'm
  mc_planner :: ReplicationPlanner
  mc_tasks :: 'q

definition NewMetadataCoordinatorWithBackendAndQueue ::
  "int \<Rightarrow> 'm \<Rightarrow> 'q \<Rightarrow> ('m, 'q) MetadataCoordinator" where
  "NewMetadataCoordinatorWithBackendAndQueue replicaCount metadata tasks =
     \<lparr>mc_metadata = metadata, mc_planner = NewReplicationPlanner replicaCount, mc_tasks = tasks\<rparr>"

text \<open>With the in-memory queue, and with the in-memory store too; the clocks start at \<open>t\<close>.\<close>

definition NewMetadataCoordinatorWithBackend ::
  "instant \<Rightarrow> int \<Rightarrow> 'm \<Rightarrow> ('m, MemoryReplicationTaskQueue) MetadataCoordinator" where
  "NewMetadataCoordinatorWithBackend t replicaCount metadata =
     NewMetadataCoordinatorWithBackendAndQueue replicaCount metadata (NewMemoryReplicationTaskQueue t)"

definition NewMetadataCoordinator :: "instant \<Rightarrow> int \<Rightarrow> (MetadataStore, MemoryReplicationTaskQueue) MetadataCoordinator" where
  "NewMetadataCoordinator t replicaCount = NewMetadataCoordinatorWithBackend t replicaCount (NewMetadataStore t)"

section \<open>Nodes and writes\<close>

definition RegisterNode ::
  "'m MetadataBackend \<Rightarrow> string \<Rightarrow> string \<Rightarrow> ('m, 'q) MetadataCoordinator
    \<Rightarrow> NodeMetadata result \<times> ('m, 'q) MetadataCoordinator" where
  "RegisterNode B nid addr c =
     (let (r, s') = mb_UpsertNode B nid addr (mc_metadata c) in (r, c\<lparr>mc_metadata := s'\<rparr>))"

definition PrepareWrite ::
  "'m MetadataBackend \<Rightarrow> string \<Rightarrow> int \<Rightarrow> string \<Rightarrow> ChunkMetadata list
    \<Rightarrow> ('m, 'q) MetadataCoordinator \<Rightarrow> PreparedWrite result" where
  "PrepareWrite B key sz checksum chunks c =
     (case mb_HealthyNodes B (mc_metadata c) of
        Inl e \<Rightarrow> Inl e
      | Inr nodes \<Rightarrow>
          (case Plan (mc_planner c) nodes of
             Inl e \<Rightarrow> Inl e
           | Inr plan \<Rightarrow>
               (case mb_NextVersion B key (mc_metadata c) of
                  Inl e \<Rightarrow> Inl e
                | Inr version \<Rightarrow>
                    Inr \<lparr>pw_Key = key, pw_Version = version, pw_Size = sz, pw_Checksum = checksum,
                         pw_Chunks = cloneChunkMetadata chunks,
                         pw_Primary = pl_Primary plan, pw_Replicas = pl_Replicas plan\<rparr>)))"

definition CommitWrite ::
  "'m MetadataBackend \<Rightarrow> 'q ReplicationTaskQueue \<Rightarrow> PreparedWrite \<Rightarrow> ('m, 'q) MetadataCoordinator
    \<Rightarrow> WritePlan result \<times> ('m, 'q) MetadataCoordinator" where
  "CommitWrite B Q prepared c =
     (let replicaIDs = map nm_ID (pw_Replicas prepared);
          (r, s') = mb_BeginFileVersion B (pw_Key prepared) (pw_Size prepared) (pw_Checksum prepared)
                      (pw_Chunks prepared) (nm_ID (pw_Primary prepared)) replicaIDs (mc_metadata c);
          c1 = c\<lparr>mc_metadata := s'\<rparr>
      in case r of
           Inl e \<Rightarrow> (Inl e, c1)
         | Inr meta \<Rightarrow>
             (case TasksForFile meta (mb_Now B s') of
                Inl e \<Rightarrow> (Inl e, c1)
              | Inr tasks \<Rightarrow>
                  (let (r2, q') = tq_Enqueue Q tasks (mc_tasks c1);
                       c2 = c1\<lparr>mc_tasks := q'\<rparr>
                   in case r2 of
                        Inl e \<Rightarrow> (Inl e, c2)
                      | Inr _ \<Rightarrow>
                          (Inr \<lparr>wp_Metadata = meta, wp_Primary = pw_Primary prepared,
                                wp_Replicas = pw_Replicas prepared, wp_Tasks = tasks\<rparr>, c2))))"

definition BeginWrite ::
  "'m MetadataBackend \<Rightarrow> 'q ReplicationTaskQueue \<Rightarrow> string \<Rightarrow> int \<Rightarrow> string
    \<Rightarrow> ('m, 'q) MetadataCoordinator \<Rightarrow> WritePlan result \<times> ('m, 'q) MetadataCoordinator" where
  "BeginWrite B Q key sz checksum c =
     (case PrepareWrite B key sz checksum [] c of
        Inl e \<Rightarrow> (Inl e, c)
      | Inr prepared \<Rightarrow> CommitWrite B Q prepared c)"

section \<open>Replication\<close>

definition FinishReplication ::
  "'m MetadataBackend \<Rightarrow> 'q ReplicationTaskQueue \<Rightarrow> string \<Rightarrow> ('m, 'q) MetadataCoordinator
    \<Rightarrow> (FileMetadata \<times> ReplicationTask) result \<times> ('m, 'q) MetadataCoordinator" where
  "FinishReplication B Q taskID c =
     (let (r, q') = tq_MarkDone Q taskID (mc_tasks c); c1 = c\<lparr>mc_tasks := q'\<rparr>
      in case r of
           Inl e \<Rightarrow> (Inl e, c1)
         | Inr task \<Rightarrow>
             (let (r2, s') = mb_MarkReplica B (rt_Key task) (rt_Target task) ReplicaHealthy (mc_metadata c1);
                  c2 = c1\<lparr>mc_metadata := s'\<rparr>
              in case r2 of Inl e \<Rightarrow> (Inl e, c2) | Inr meta \<Rightarrow> (Inr (meta, task), c2)))"

definition StartReplication ::
  "'q ReplicationTaskQueue \<Rightarrow> string \<Rightarrow> ('m, 'q) MetadataCoordinator
    \<Rightarrow> ReplicationTask result \<times> ('m, 'q) MetadataCoordinator" where
  "StartReplication Q taskID c =
     (let (r, q') = tq_MarkRunning Q taskID (mc_tasks c) in (r, c\<lparr>mc_tasks := q'\<rparr>))"

definition FailReplication ::
  "'m MetadataBackend \<Rightarrow> 'q ReplicationTaskQueue \<Rightarrow> string \<Rightarrow> error option \<Rightarrow> ('m, 'q) MetadataCoordinator
    \<Rightarrow> (FileMetadata \<times> ReplicationTask) result \<times> ('m, 'q) MetadataCoordinator" where
  "FailReplication B Q taskID cause c =
     (let (r, q') = tq_MarkFailed Q taskID cause (mc_tasks c); c1 = c\<lparr>mc_tasks := q'\<rparr>
      in case r of
           Inl e \<Rightarrow> (Inl e, c1)
         | Inr task \<Rightarrow>
             (let (r2, s') = mb_MarkReplica B (rt_Key task) (rt_Target task) ReplicaMissing (mc_metadata c1);
                  c2 = c1\<lparr>mc_metadata := s'\<rparr>
              in case r2 of Inl e \<Rightarrow> (Inl e, c2) | Inr meta \<Rightarrow> (Inr (meta, task), c2)))"

definition PendingTasks ::
  "'q ReplicationTaskQueue \<Rightarrow> ('m, 'q) MetadataCoordinator \<Rightarrow> ReplicationTask list result" where
  "PendingTasks Q c = tq_Pending Q (mc_tasks c)"

definition RequeueExpiredReplicationTasks ::
  "'q ReplicationTaskQueue \<Rightarrow> ('m, 'q) MetadataCoordinator
    \<Rightarrow> ReplicationTask list result \<times> ('m, 'q) MetadataCoordinator" where
  "RequeueExpiredReplicationTasks Q c =
     (let (r, q') = tq_RequeueExpiredRunning Q (mc_tasks c) in (r, c\<lparr>mc_tasks := q'\<rparr>))"

definition ReplicationTaskStats ::
  "'q ReplicationTaskQueue \<Rightarrow> ('m, 'q) MetadataCoordinator
    \<Rightarrow> (ReplicationTaskState \<times> nat) list result" where
  "ReplicationTaskStats Q c = tq_Stats Q (mc_tasks c)"

section \<open>Reads and deletion\<close>

definition prioritizePrimary :: "FileMetadata \<Rightarrow> ReplicaMetadata list \<Rightarrow> ReplicaMetadata list" where
  "prioritizePrimary meta replicas =
     (if replicas = [] \<or> fm_Primary meta = '''' then replicas
      else (case List.find (\<lambda>replica. rm_NodeID replica = fm_Primary meta) replicas of
              None \<Rightarrow> []
            | Some replica \<Rightarrow> [replica]) @
           filter (\<lambda>replica. rm_NodeID replica \<noteq> fm_Primary meta) replicas)"

definition firstHealthyReplica :: "FileMetadata \<Rightarrow> string" where
  "firstHealthyReplica meta =
     (case HealthyReplicas meta of [] \<Rightarrow> '''' | replica # _ \<Rightarrow> rm_NodeID replica)"

definition ReadCandidates ::
  "'m MetadataBackend \<Rightarrow> string \<Rightarrow> ('m, 'q) MetadataCoordinator \<Rightarrow> ReadPlan result" where
  "ReadCandidates B key c =
     (case mb_GetFile B key (mc_metadata c) of
        Inl e \<Rightarrow> Inl e
      | Inr None \<Rightarrow> Inl ErrMetadataNotFound
      | Inr (Some meta) \<Rightarrow>
          if fm_Deleted meta then Inl ErrFileDeleted
          else
            let replicas = prioritizePrimary meta (HealthyReplicas meta)
            in if replicas = [] then Inl ErrNoReadableReplicas
               else Inr \<lparr>rd_Metadata = meta, rd_Replicas = replicas\<rparr>)"

definition DeleteFile ::
  "'m MetadataBackend \<Rightarrow> string \<Rightarrow> ('m, 'q) MetadataCoordinator
    \<Rightarrow> FileMetadata result \<times> ('m, 'q) MetadataCoordinator" where
  "DeleteFile B key c =
     (let (r, s') = mb_Tombstone B key (mc_metadata c) in (r, c\<lparr>mc_metadata := s'\<rparr>))"

section \<open>Repair\<close>

definition repairExistingReplicas ::
  "'m MetadataBackend \<Rightarrow> FileMetadata \<Rightarrow> string \<Rightarrow> ('m, 'q) MetadataCoordinator \<Rightarrow> ReplicationTask list" where
  "repairExistingReplicas B meta source c =
     map (\<lambda>(nodeID, replica).
            newReplicationTask meta source nodeID (mb_Now B (mc_metadata c)) (mb_Now B (mc_metadata c)))
       (filter (\<lambda>(nodeID, replica).
            \<not> (nodeID = source \<or> rm_State replica = ReplicaHealthy \<or> rm_State replica = ReplicaDeleted))
          (fm_Replicas meta))"

text \<open>
  The loop of \<open>repairMissingReplicas\<close>: \<open>tasks\<close> is the slice built so far; a failing
  \<open>AddReplica\<close> is skipped. The count compares the replicas the caller's copy of the record
  has, not those added meanwhile.
\<close>

fun repairMissingLoop ::
  "'m MetadataBackend \<Rightarrow> FileMetadata \<Rightarrow> string \<Rightarrow> NodeMetadata list \<Rightarrow> ReplicationTask list
    \<Rightarrow> ('m, 'q) MetadataCoordinator \<Rightarrow> ReplicationTask list \<times> ('m, 'q) MetadataCoordinator" where
  "repairMissingLoop B meta source [] tasks c = (tasks, c)"
| "repairMissingLoop B meta source (node # nodes) tasks c =
     (if rp_ReplicaCount (mc_planner c) \<le> int (length (fm_Replicas meta)) + int (length tasks)
      then (tasks, c)
      else if gm_get (fm_Replicas meta) (nm_ID node) \<noteq> None
      then repairMissingLoop B meta source nodes tasks c
      else
        (let (r, s') = mb_AddReplica B (fm_Key meta) (nm_ID node) ReplicaPending (mc_metadata c);
             c' = c\<lparr>mc_metadata := s'\<rparr>
         in case r of
              Inl _ \<Rightarrow> repairMissingLoop B meta source nodes tasks c'
            | Inr _ \<Rightarrow>
                repairMissingLoop B meta source nodes
                  (tasks @ [newReplicationTask meta source (nm_ID node) (mb_Now B s') (mb_Now B s')]) c'))"

definition repairMissingReplicas ::
  "'m MetadataBackend \<Rightarrow> FileMetadata \<Rightarrow> string \<Rightarrow> NodeMetadata list
    \<Rightarrow> ('m, 'q) MetadataCoordinator \<Rightarrow> ReplicationTask list \<times> ('m, 'q) MetadataCoordinator" where
  "repairMissingReplicas B meta source nodes c =
     (if rp_ReplicaCount (mc_planner c) \<le> int (length (fm_Replicas meta)) then ([], c)
      else repairMissingLoop B meta source nodes [] c)"

text \<open>The loop of \<open>PlanRepair\<close> over the listed files.\<close>

fun repairFiles ::
  "'m MetadataBackend \<Rightarrow> NodeMetadata list \<Rightarrow> FileMetadata list \<Rightarrow> ReplicationTask list
    \<Rightarrow> ('m, 'q) MetadataCoordinator \<Rightarrow> ReplicationTask list \<times> ('m, 'q) MetadataCoordinator" where
  "repairFiles B nodes [] tasks c = (tasks, c)"
| "repairFiles B nodes (meta # files) tasks c =
     (if fm_Deleted meta then repairFiles B nodes files tasks c
      else
        let source = firstHealthyReplica meta
        in if source = '''' then repairFiles B nodes files tasks c
           else
             let tasks1 = tasks @ repairExistingReplicas B meta source c;
                 (added, c') = repairMissingReplicas B meta source nodes c
             in repairFiles B nodes files (tasks1 @ added) c')"

definition PlanRepair ::
  "'m MetadataBackend \<Rightarrow> 'q ReplicationTaskQueue \<Rightarrow> ('m, 'q) MetadataCoordinator
    \<Rightarrow> ReplicationTask list result \<times> ('m, 'q) MetadataCoordinator" where
  "PlanRepair B Q c =
     (case mb_HealthyNodes B (mc_metadata c) of
        Inl e \<Rightarrow> (Inl e, c)
      | Inr nodes \<Rightarrow>
          if nodes = [] then (Inr [], c)
          else
            (case mb_ListFiles B (mc_metadata c) of
               Inl e \<Rightarrow> (Inl e, c)
             | Inr files \<Rightarrow>
                 (let (tasks, c1) = repairFiles B nodes files [] c;
                      (r, q') = tq_Enqueue Q tasks (mc_tasks c1);
                      c2 = c1\<lparr>mc_tasks := q'\<rparr>
                  in case r of Inl e \<Rightarrow> (Inl e, c2) | Inr _ \<Rightarrow> (Inr tasks, c2))))"

section \<open>What a reader is offered\<close>

type_synonym memory_coordinator =
  "(MetadataStore, MemoryReplicationTaskQueue) MetadataCoordinator"

lemma find_Some_filter:
  "List.find P xs = (case filter P xs of [] \<Rightarrow> None | x # _ \<Rightarrow> Some x)"
  by (induction xs) auto

lemma prioritizePrimary_set:
  assumes "distinct (map rm_NodeID rs)"
  shows "set (prioritizePrimary f rs) = set rs" and "distinct (map rm_NodeID (prioritizePrimary f rs))"
proof -
  let ?p = "\<lambda>r. rm_NodeID r = fm_Primary f"
  have one: "length (filter ?p rs) \<le> 1"
    using assms by (induction rs) (auto simp: filter_empty_conv intro: rev_image_eqI)
  then consider "filter ?p rs = []" | r where "filter ?p rs = [r]"
    by (cases "filter ?p rs") auto
  then have "(case List.find ?p rs of None \<Rightarrow> [] | Some r \<Rightarrow> [r]) = filter ?p rs"
    by cases (simp_all add: find_Some_filter)
  then have eq: "prioritizePrimary f rs =
      (if rs = [] \<or> fm_Primary f = '''' then rs else filter ?p rs @ filter (\<lambda>r. \<not> ?p r) rs)"
    by (simp add: prioritizePrimary_def)
  show "set (prioritizePrimary f rs) = set rs" by (auto simp: eq)
  have "distinct (map rm_NodeID (filter ?p rs @ filter (\<lambda>r. \<not> ?p r) rs))"
    using assms by (auto simp: distinct_map_filter)
  with assms show "distinct (map rm_NodeID (prioritizePrimary f rs))" by (simp add: eq)
qed

lemma prioritizePrimary_head:
  assumes "r \<in> set rs" and "rm_NodeID r = fm_Primary f" and "fm_Primary f \<noteq> ''''"
  shows "rm_NodeID (hd (prioritizePrimary f rs)) = fm_Primary f"
proof -
  have "List.find (\<lambda>r. rm_NodeID r = fm_Primary f) rs \<noteq> None"
    using assms(1,2) by (auto simp: find_None_iff)
  then obtain r' where r': "List.find (\<lambda>r. rm_NodeID r = fm_Primary f) rs = Some r'" by auto
  then have "rm_NodeID r' = fm_Primary f" by (auto simp: find_Some_iff)
  with assms r' show ?thesis by (auto simp: prioritizePrimary_def)
qed

lemma ReadCandidates_memory:
  "wf_metadata (mc_metadata c) \<Longrightarrow>
   ReadCandidates MemoryMetadataBackend key c =
     (case gm_get (ms_files (mc_metadata c)) key of
        None \<Rightarrow> Inl ErrMetadataNotFound
      | Some f \<Rightarrow>
          if fm_Deleted f then Inl ErrFileDeleted
          else if HealthyReplicas f = [] then Inl ErrNoReadableReplicas
          else Inr \<lparr>rd_Metadata = f, rd_Replicas = prioritizePrimary f (HealthyReplicas f)\<rparr>)"
proof -
  assume wf: "wf_metadata (mc_metadata c)"
  have "prioritizePrimary f (HealthyReplicas f) = [] \<longleftrightarrow> HealthyReplicas f = []"
    if "gm_get (ms_files (mc_metadata c)) key = Some f" for f
    using prioritizePrimary_set(1) [OF HealthyReplicas_distinct [OF wf_file_of [OF wf that]], of f]
    by (metis set_empty)
  with wf show ?thesis
    by (auto simp: ReadCandidates_def GetFile_eq Let_def split: option.split)
qed

text \<open>
  A reader is offered exactly the healthy replicas of the latest version. \<open>ReadCandidates\<close>
  fails with \<open>ErrMetadataNotFound\<close>, \<open>ErrFileDeleted\<close> or \<open>ErrNoReadableReplicas\<close> exactly
  when the key is unknown, its file is deleted, or none of its replicas is healthy; otherwise
  it returns the file's record with all its healthy replicas, each once, and the primary comes
  first if it is among them.
\<close>

theorem ReadCandidates_exact:
  assumes "wf_metadata (mc_metadata c)"
  shows "case ReadCandidates MemoryMetadataBackend key c of
      Inl e \<Rightarrow>
        e = ErrMetadataNotFound \<and> gm_get (ms_files (mc_metadata c)) key = None \<or>
        (\<exists>f. gm_get (ms_files (mc_metadata c)) key = Some f \<and>
             (e = ErrFileDeleted \<and> fm_Deleted f \<or>
              e = ErrNoReadableReplicas \<and> \<not> fm_Deleted f \<and>
              (\<forall>n r. gm_get (fm_Replicas f) n = Some r \<longrightarrow> rm_State r \<noteq> ReplicaHealthy)))
    | Inr plan \<Rightarrow>
        (let f = rd_Metadata plan in
         gm_get (ms_files (mc_metadata c)) key = Some f \<and> \<not> fm_Deleted f \<and>
         rd_Replicas plan \<noteq> [] \<and> distinct (map rm_NodeID (rd_Replicas plan)) \<and>
         (\<forall>r. r \<in> set (rd_Replicas plan) \<longleftrightarrow>
              gm_get (fm_Replicas f) (rm_NodeID r) = Some r \<and> rm_State r = ReplicaHealthy) \<and>
         (fm_Primary f \<noteq> '''' \<and> fm_Primary f \<in> rm_NodeID ` set (rd_Replicas plan) \<longrightarrow>
          rm_NodeID (hd (rd_Replicas plan)) = fm_Primary f))"
proof (cases "gm_get (ms_files (mc_metadata c)) key")
  case None
  with assms show ?thesis by (simp add: ReadCandidates_memory)
next
  case (Some f)
  then have wf: "wf_file f" by (rule wf_file_of [OF assms])
  have none: "rm_State r \<noteq> ReplicaHealthy"
    if "HealthyReplicas f = []" and "gm_get (fm_Replicas f) n = Some r" for n r
    using that HealthyReplicas_mem [OF wf, of r] wf_replica_of [OF wf] by auto
  have head: "rm_NodeID (hd (prioritizePrimary f (HealthyReplicas f))) = fm_Primary f"
    if "fm_Primary f \<noteq> ''''" and "r \<in> set (HealthyReplicas f)" and "fm_Primary f = rm_NodeID r" for r
    using that by (intro prioritizePrimary_head) auto
  note eq = ReadCandidates_memory [OF assms, of key, unfolded Some option.case]
  note perm = prioritizePrimary_set [OF HealthyReplicas_distinct [OF wf], of f]
  show ?thesis
  proof (cases "fm_Deleted f \<or> HealthyReplicas f = []")
    case True
    with none show ?thesis by (auto simp: eq Some)
  next
    case False
    then have "prioritizePrimary f (HealthyReplicas f) \<noteq> []" using perm(1) by (metis set_empty)
    with False perm head show ?thesis
      by (simp add: eq Some Let_def HealthyReplicas_mem [OF wf]) (auto simp: HealthyReplicas_mem [OF wf])
  qed
qed

text \<open>A small cluster for the witnesses: two registered nodes and nothing stored.\<close>

definition demo_coordinator :: memory_coordinator where
  "demo_coordinator =
     snd (RegisterNode MemoryMetadataBackend ''n2'' ''u2''
       (snd (RegisterNode MemoryMetadataBackend ''n1'' ''u1''
         (NewMetadataCoordinator 5 2))))"

lemma demo_coordinator_eq:
  "demo_coordinator =
     \<lparr>mc_metadata =
        \<lparr>ms_files = [],
         ms_nodes =
           [(''n1'', \<lparr>nm_ID = ''n1'', nm_Addr = ''u1'', nm_State = NodeHealthy, nm_LastHeartbeat = 5\<rparr>),
            (''n2'', \<lparr>nm_ID = ''n2'', nm_Addr = ''u2'', nm_State = NodeHealthy, nm_LastHeartbeat = 5\<rparr>)],
         ms_now = 5\<rparr>,
      mc_planner = \<lparr>rp_ReplicaCount = 2\<rparr>, mc_tasks = \<lparr>mq_tasks = [], mq_now = 5\<rparr>\<rparr>"
  by (simp add: demo_coordinator_def RegisterNode_def NewMetadataCoordinator_def
      NewMetadataCoordinatorWithBackend_def NewMetadataCoordinatorWithBackendAndQueue_def
      NewMetadataStore_def NewMemoryReplicationTaskQueue_def UpsertNode_def NewReplicationPlanner_def Let_def)

lemma demo_wf: "wf_metadata (mc_metadata demo_coordinator)" "wf_queue (mc_tasks demo_coordinator)"
  by (simp_all add: demo_coordinator_eq wf_metadata_def wf_queue_def gm_wf_def gm_all_def)

theorem ReadCandidates_exact_witness:
  "let c = demo_coordinator\<lparr>mc_metadata := snd (BeginFileVersion ''k'' 3 ''h'' [] ''n2'' [''n1'', ''n2'']
             (mc_metadata demo_coordinator))\<rparr>
   in \<exists>plan. ReadCandidates MemoryMetadataBackend ''k'' c = Inr plan \<and>
             rm_NodeID (hd (rd_Replicas plan)) = ''n2''"
proof -
  define c where "c = demo_coordinator\<lparr>mc_metadata := snd (BeginFileVersion ''k'' 3 ''h'' [] ''n2''
      [''n1'', ''n2''] (mc_metadata demo_coordinator))\<rparr>"
  have wf: "wf_metadata (mc_metadata c)" by (simp add: c_def wf_BeginFileVersion demo_wf)
  obtain f where f: "gm_get (ms_files (mc_metadata c)) ''k'' = Some f" and "\<not> fm_Deleted f"
    and p: "fm_Primary f = ''n2''" and r: "gm_get (fm_Replicas f) ''n2'' =
      Some \<lparr>rm_NodeID = ''n2'', rm_State = ReplicaHealthy, rm_UpdatedAt = 5\<rparr>"
    by (simp add: c_def demo_coordinator_eq BeginFileVersion_def nextVersionLocked_def Let_def
        initialReplicas_def)
  have "HealthyReplicas f \<noteq> []"
    using HealthyReplicas_mem [OF wf_file_of [OF wf f],
        of "\<lparr>rm_NodeID = ''n2'', rm_State = ReplicaHealthy, rm_UpdatedAt = 5\<rparr>"] r by auto
  with \<open>\<not> fm_Deleted f\<close> obtain plan where plan: "ReadCandidates MemoryMetadataBackend ''k'' c = Inr plan"
    by (simp add: ReadCandidates_memory [OF wf] f)
  note exact = ReadCandidates_exact [OF wf, of "''k''", unfolded plan sum.case Let_def f]
  then have f_eq: "rd_Metadata plan = f" by simp
  with exact r have "\<lparr>rm_NodeID = ''n2'', rm_State = ReplicaHealthy, rm_UpdatedAt = 5\<rparr> \<in> set (rd_Replicas plan)"
    by simp
  then have "''n2'' \<in> rm_NodeID ` set (rd_Replicas plan)" by force
  with exact p f_eq have "rm_NodeID (hd (rd_Replicas plan)) = ''n2''" by simp
  with plan show ?thesis by (simp add: c_def [symmetric])
qed

section \<open>Committing a write\<close>

lemma HealthyNodes_healthy: "filter (\<lambda>n. nm_State n = NodeHealthy) (HealthyNodes m) = HealthyNodes m"
  by (rule filter_True) (auto simp: HealthyNodes_def)

lemma HealthyNodes_distinct: "wf_metadata m \<Longrightarrow> distinct (map nm_ID (HealthyNodes m))"
  by (simp add: HealthyNodes_def wf_metadata_def gm_vals_distinct)

lemma PrepareWrite_memory:
  assumes "PrepareWrite MemoryMetadataBackend key sz cs chs c = Inr p"
  shows "pw_Key p = key \<and> pw_Version p = NextVersion key (mc_metadata c) \<and> pw_Size p = sz \<and>
         pw_Checksum p = cs \<and> pw_Chunks p = chs \<and>
         Plan (mc_planner c) (HealthyNodes (mc_metadata c)) =
           Inr \<lparr>pl_Primary = pw_Primary p, pl_Replicas = pw_Replicas p\<rparr>"
  using assms by (auto simp: PrepareWrite_def split: sum.splits)

lemma PrepareWrite_replicas:
  assumes "PrepareWrite MemoryMetadataBackend key sz cs chs c = Inr p"
    and "wf_metadata (mc_metadata c)" and "0 < rp_ReplicaCount (mc_planner c)"
  shows "pw_Primary p \<in> set (pw_Replicas p)" and "distinct (map nm_ID (pw_Replicas p))"
    and "set (pw_Replicas p) \<subseteq> set (HealthyNodes (mc_metadata c))"
    and "length (pw_Replicas p) = min (nat (rp_ReplicaCount (mc_planner c))) (length (HealthyNodes (mc_metadata c)))"
proof -
  let ?hs = "go_sort (less_by nm_ID) (HealthyNodes (mc_metadata c))"
  from PrepareWrite_memory [OF assms(1)] have "?hs \<noteq> []"
    and r: "pw_Replicas p = take (nat (rp_ReplicaCount (mc_planner c))) ?hs"
    and "pw_Primary p = hd (pw_Replicas p)"
    by (auto simp: Plan_eq [OF assms(3)] HealthyNodes_healthy Let_def split: if_splits)
  then have "pw_Replicas p \<noteq> []" using assms(3) by simp
  then show "pw_Primary p \<in> set (pw_Replicas p)" using \<open>pw_Primary p = hd (pw_Replicas p)\<close> by simp
  have "distinct (map nm_ID ?hs)" using HealthyNodes_distinct [OF assms(2)] by simp
  then show "distinct (map nm_ID (pw_Replicas p))" by (simp add: r take_map [symmetric] distinct_take)
  show "set (pw_Replicas p) \<subseteq> set (HealthyNodes (mc_metadata c))"
    using set_take_subset [of _ ?hs] by (auto simp: r)
  show "length (pw_Replicas p) = min (nat (rp_ReplicaCount (mc_planner c))) (length (HealthyNodes (mc_metadata c)))"
    by (simp add: r min.commute)
qed

text \<open>The record that committing a prepared write stores.\<close>

lemma BeginFileVersion_result:
  "gm_get (ms_files (snd (BeginFileVersion k sz cs chs p rs m))) k' =
     (if k' = k then Some (fst (BeginFileVersion k sz cs chs p rs m)) else gm_get (ms_files m) k')"
  "ms_now (snd (BeginFileVersion k sz cs chs p rs m)) = ms_now m"
  "ms_nodes (snd (BeginFileVersion k sz cs chs p rs m)) = ms_nodes m"
  "wf_file (fst (BeginFileVersion k sz cs chs p rs m))"
  "published (fst (BeginFileVersion k sz cs chs p rs m)) = (k, sz, cs, p, False, chs)"
  "fm_Version (fst (BeginFileVersion k sz cs chs p rs m)) = NextVersion k m"
  "fm_Replicas (fst (BeginFileVersion k sz cs chs p rs m)) = initialReplicas p (ms_now m) rs"
  by (simp_all add: BeginFileVersion_def Let_def case_prod_beta published_def NextVersion_def
      cloneFileMetadata_def initialReplicas_spec wf_file_def)

lemma published_sel:
  "published f = (k, sz, cs, p, d, chs) \<longleftrightarrow>
     fm_Key f = k \<and> fm_Size f = sz \<and> fm_Checksum f = cs \<and> fm_Primary f = p \<and>
     fm_Deleted f = d \<and> fm_Chunks f = chs"
  by (simp add: published_def)

text \<open>A fresh version has one healthy replica, the primary.\<close>

lemma HealthyReplicas_new_version:
  assumes "p \<in> set rs"
  shows "HealthyReplicas (fst (BeginFileVersion k sz cs chs p rs m)) =
           [\<lparr>rm_NodeID = p, rm_State = ReplicaHealthy, rm_UpdatedAt = ms_now m\<rparr>]"
proof -
  let ?f = "fst (BeginFileVersion k sz cs chs p rs m)"
  let ?r = "\<lparr>rm_NodeID = p, rm_State = ReplicaHealthy, rm_UpdatedAt = ms_now m\<rparr>"
  have "r \<in> set (HealthyReplicas ?f) \<longleftrightarrow> r = ?r" for r
    using assms
    by (cases r) (auto simp: HealthyReplicas_mem BeginFileVersion_result initialReplicas_spec split: if_splits)
  then have "set (HealthyReplicas ?f) = {?r}" by auto
  moreover have "distinct (HealthyReplicas ?f)"
    using HealthyReplicas_distinct [of ?f] by (simp add: BeginFileVersion_result distinct_map)
  ultimately have "length (HealthyReplicas ?f) = 1" using distinct_card by fastforce
  with \<open>set (HealthyReplicas ?f) = {?r}\<close> show ?thesis
    by (cases "HealthyReplicas ?f") auto
qed

lemma Enqueue_holds:
  assumes "u \<in> set ts"
  shows "gm_get (mq_tasks (Enqueue ts q)) (rt_ID u) \<noteq> None"
proof -
  have "List.find (\<lambda>x. rt_ID x = rt_ID u) ts \<noteq> None" using assms by (auto simp: find_None_iff)
  then show ?thesis by (auto simp: gm_get_Enqueue split: option.split)
qed

lemma CommitWrite_memory:
  fixes c :: memory_coordinator
  assumes "nm_ID (pw_Primary p) \<noteq> ''''" and "nm_ID (pw_Primary p) \<in> nm_ID ` set (pw_Replicas p)"
  defines "b \<equiv> BeginFileVersion (pw_Key p) (pw_Size p) (pw_Checksum p) (pw_Chunks p)
                 (nm_ID (pw_Primary p)) (map nm_ID (pw_Replicas p)) (mc_metadata c)"
  shows "\<exists>tasks. TasksForFile (fst b) (ms_now (mc_metadata c)) = Inr tasks \<and>
     CommitWrite MemoryMetadataBackend MemoryTaskQueue p c =
       (Inr \<lparr>wp_Metadata = fst b, wp_Primary = pw_Primary p, wp_Replicas = pw_Replicas p, wp_Tasks = tasks\<rparr>,
        c\<lparr>mc_metadata := snd b, mc_tasks := Enqueue tasks (mc_tasks c)\<rparr>)"
proof -
  have "published (fst b) = (pw_Key p, pw_Size p, pw_Checksum p, nm_ID (pw_Primary p), False, pw_Chunks p)"
    unfolding b_def by (rule BeginFileVersion_result)
  then have "fm_Primary (fst b) = nm_ID (pw_Primary p)" by (simp add: published_def)
  moreover have "gm_get (fm_Replicas (fst b)) (nm_ID (pw_Primary p)) \<noteq> None"
    using assms(2) unfolding b_def by (auto simp: BeginFileVersion_result initialReplicas_spec)
  ultimately obtain tasks where t: "TasksForFile (fst b) (ms_now (mc_metadata c)) = Inr tasks"
    using assms(1) by (simp add: TasksForFile_eq)
  moreover have "ms_now (snd b) = ms_now (mc_metadata c)" unfolding b_def by (rule BeginFileVersion_result)
  ultimately show ?thesis
    by (simp add: CommitWrite_def Let_def b_def [symmetric])
qed

text \<open>
  C9. Committing a prepared write publishes it. Over the in-memory backend, if nothing wrote
  in between, \<open>CommitWrite\<close> succeeds with the version number that was prepared; the key then
  reads as that version with the prepared size, checksum and manifest; the only replica a
  reader is offered is the primary that was written; every other chosen node, and no other, is
  the target of a copy task; and the queue keeps every task it had and gains exactly the copy
  tasks whose identifiers it did not know.
\<close>

theorem CommitWrite_publishes:
  assumes "wf_metadata (mc_metadata c)" and "0 < rp_ReplicaCount (mc_planner c)"
    and "PrepareWrite MemoryMetadataBackend key sz cs chs c = Inr p"
    and "nm_ID (pw_Primary p) \<noteq> ''''"
  shows "\<exists>wp c'. CommitWrite MemoryMetadataBackend MemoryTaskQueue p c = (Inr wp, c') \<and>
     GetFile key (mc_metadata c') = Some (wp_Metadata wp) \<and>
     fm_Version (wp_Metadata wp) = pw_Version p \<and>
     published (wp_Metadata wp) = (key, sz, cs, nm_ID (pw_Primary p), False, chs) \<and>
     (\<exists>plan. ReadCandidates MemoryMetadataBackend key c' = Inr plan \<and>
             rd_Metadata plan = wp_Metadata wp \<and>
             map rm_NodeID (rd_Replicas plan) = [nm_ID (pw_Primary p)]) \<and>
     rt_Target ` set (wp_Tasks wp) = nm_ID ` set (pw_Replicas p) - {nm_ID (pw_Primary p)} \<and>
     (\<forall>t \<in> set (wp_Tasks wp). gm_get (mq_tasks (mc_tasks c')) (rt_ID t) \<noteq> None) \<and>
     (\<forall>i. gm_get (mq_tasks (mc_tasks c')) i =
        (case gm_get (mq_tasks (mc_tasks c)) i of
           Some t \<Rightarrow> Some t
         | None \<Rightarrow> List.find (\<lambda>t. rt_ID t = i) (wp_Tasks wp)))"
proof -
  let ?pr = "nm_ID (pw_Primary p)"
  define b where "b = BeginFileVersion (pw_Key p) (pw_Size p) (pw_Checksum p) (pw_Chunks p) ?pr
      (map nm_ID (pw_Replicas p)) (mc_metadata c)"
  note p = PrepareWrite_memory [OF assms(3)] and rs = PrepareWrite_replicas [OF assms(3,1,2)]
  have in_rs: "?pr \<in> nm_ID ` set (pw_Replicas p)" using rs(1) by auto
  from CommitWrite_memory [OF assms(4) in_rs, of c] obtain tasks
    where t: "TasksForFile (fst b) (ms_now (mc_metadata c)) = Inr tasks"
      and commit: "CommitWrite MemoryMetadataBackend MemoryTaskQueue p c =
       (Inr \<lparr>wp_Metadata = fst b, wp_Primary = pw_Primary p, wp_Replicas = pw_Replicas p, wp_Tasks = tasks\<rparr>,
        c\<lparr>mc_metadata := snd b, mc_tasks := Enqueue tasks (mc_tasks c)\<rparr>)"
    unfolding b_def by blast
  define c' where "c' = c\<lparr>mc_metadata := snd b, mc_tasks := Enqueue tasks (mc_tasks c)\<rparr>"
  have wf': "wf_metadata (mc_metadata c')" using assms(1) by (simp add: c'_def b_def wf_BeginFileVersion)
  have wff: "wf_file (fst b)" unfolding b_def by (rule BeginFileVersion_result)
  have pub: "published (fst b) = (key, sz, cs, ?pr, False, chs)"
    unfolding b_def by (simp add: BeginFileVersion_result p)
  have reps: "gm_get (fm_Replicas (fst b)) n =
      (if n \<in> nm_ID ` set (pw_Replicas p)
       then Some \<lparr>rm_NodeID = n, rm_State = (if n = ?pr then ReplicaHealthy else ReplicaPending),
                  rm_UpdatedAt = ms_now (mc_metadata c)\<rparr> else None)" for n
    unfolding b_def by (simp add: BeginFileVersion_result initialReplicas_spec)
  have stored: "gm_get (ms_files (mc_metadata c')) key = Some (fst b)"
    unfolding c'_def b_def by (simp add: BeginFileVersion_result p)
  have hr: "HealthyReplicas (fst b) =
      [\<lparr>rm_NodeID = ?pr, rm_State = ReplicaHealthy, rm_UpdatedAt = ms_now (mc_metadata c)\<rparr>]"
    unfolding b_def by (rule HealthyReplicas_new_version) (use in_rs in simp)
  have read: "\<exists>plan. ReadCandidates MemoryMetadataBackend key c' = Inr plan \<and>
      rd_Metadata plan = fst b \<and> map rm_NodeID (rd_Replicas plan) = [?pr]"
    using pub by (simp add: ReadCandidates_memory [OF wf'] stored published_sel hr prioritizePrimary_def assms(4))
  have "n \<in> rt_Target ` set tasks \<longleftrightarrow> n \<in> nm_ID ` set (pw_Replicas p) - {?pr}" for n
    using pub by (simp add: TasksForFile_targets [OF t] needs_copy_def published_sel reps)
  then have tgt: "rt_Target ` set tasks = nm_ID ` set (pw_Replicas p) - {?pr}" by (rule set_eqI)
  have "fm_Version (fst b) = pw_Version p" unfolding b_def by (simp add: BeginFileVersion_result p)
  with commit read tgt pub stored Enqueue_holds [of _ tasks "mc_tasks c"] gm_get_Enqueue [of tasks "mc_tasks c"] show ?thesis
    unfolding c'_def [symmetric] by (simp add: GetFile_eq [OF wf']) (simp add: c'_def cong: option.case_cong)
qed

theorem CommitWrite_publishes_witness:
  "\<exists>p wp c'. PrepareWrite MemoryMetadataBackend ''k'' 3 ''h'' [] demo_coordinator = Inr p \<and>
     CommitWrite MemoryMetadataBackend MemoryTaskQueue p demo_coordinator = (Inr wp, c') \<and>
     fm_Version (wp_Metadata wp) = 1 \<and> rt_Target ` set (wp_Tasks wp) = {''n2''}"
proof -
  let ?n1 = "\<lparr>nm_ID = ''n1'', nm_Addr = ''u1'', nm_State = NodeHealthy, nm_LastHeartbeat = 5\<rparr>"
  let ?n2 = "\<lparr>nm_ID = ''n2'', nm_Addr = ''u2'', nm_State = NodeHealthy, nm_LastHeartbeat = 5\<rparr>"
  have count: "0 < rp_ReplicaCount (mc_planner demo_coordinator)" by (simp add: demo_coordinator_eq)
  have p: "PrepareWrite MemoryMetadataBackend ''k'' 3 ''h'' [] demo_coordinator =
      Inr \<lparr>pw_Key = ''k'', pw_Version = 1, pw_Size = 3, pw_Checksum = ''h'', pw_Chunks = [],
           pw_Primary = ?n1, pw_Replicas = [?n1, ?n2]\<rparr>"
    by (simp add: PrepareWrite_def demo_coordinator_eq HealthyNodes_def gm_vals_def less_by_def
        Plan_def NextVersion_def nextVersionLocked_def numeral_2_eq_2)
  from CommitWrite_publishes [OF demo_wf(1) count p] p show ?thesis by auto
qed

section \<open>Other backends\<close>

text \<open>
  The coordinator over a metadata backend and a queue that meet their contracts, compared with
  the coordinator over the in-memory ones.
\<close>

definition coordinator_abs ::
  "('m \<Rightarrow> MetadataStore) \<Rightarrow> ('q \<Rightarrow> MemoryReplicationTaskQueue) \<Rightarrow> ('m, 'q) MetadataCoordinator
    \<Rightarrow> memory_coordinator" where
  "coordinator_abs mabs qabs c =
     \<lparr>mc_metadata = mabs (mc_metadata c), mc_planner = mc_planner c, mc_tasks = qabs (mc_tasks c)\<rparr>"

lemma coordinator_abs_sel [simp]:
  "mc_metadata (coordinator_abs mabs qabs c) = mabs (mc_metadata c)"
  "mc_planner (coordinator_abs mabs qabs c) = mc_planner c"
  "mc_tasks (coordinator_abs mabs qabs c) = qabs (mc_tasks c)"
  by (simp_all add: coordinator_abs_def)

definition coordinator_inv ::
  "('m \<Rightarrow> bool) \<Rightarrow> ('q \<Rightarrow> bool) \<Rightarrow> ('m, 'q) MetadataCoordinator \<Rightarrow> bool" where
  "coordinator_inv minv qinv c \<longleftrightarrow> minv (mc_metadata c) \<and> qinv (mc_tasks c)"

text \<open>The strings of a prepared write, all of which end up in the file's record.\<close>

definition prepared_strings :: "(string \<Rightarrow> bool) \<Rightarrow> PreparedWrite \<Rightarrow> bool" where
  "prepared_strings P p \<longleftrightarrow> P (pw_Key p) \<and> P (pw_Checksum p) \<and> P (nm_ID (pw_Primary p)) \<and>
     list_all (\<lambda>ch. P (cm_Checksum ch)) (pw_Chunks p) \<and> list_all (\<lambda>n. P (nm_ID n)) (pw_Replicas p)"

locale coordinator = metadata_backend B mabs minv okstr + task_queue Q qabs qinv okstr
  for B :: "'m MetadataBackend" and mabs and minv
    and Q :: "'q ReplicationTaskQueue" and qabs and qinv and okstr +
  assumes okstr_empty: "okstr []"
    and okstr_task_id: "okstr k \<Longrightarrow> okstr src \<Longrightarrow> okstr tgt \<Longrightarrow> okstr (replicationTaskID k v src tgt)"
begin

text \<open>The tasks of a version whose strings can be stored can be stored.\<close>

lemma tasks_strings:
  assumes "TasksForFile (fst (BeginFileVersion k sz cs chs p rs m)) now = Inr tasks"
    and "okstr k" and "okstr cs" and "list_all (\<lambda>ch. okstr (cm_Checksum ch)) chs" and "okstr p"
    and "list_all okstr rs"
  shows "list_all (task_strings okstr) tasks"
proof -
  let ?f = "fst (BeginFileVersion k sz cs chs p rs m)"
  have pub: "published ?f = (k, sz, cs, p, False, chs)" by (rule BeginFileVersion_result)
  have "okstr n" if "needs_copy ?f n" for n
    using that assms(6) by (auto simp: needs_copy_def BeginFileVersion_result initialReplicas_spec list_all_iff
        split: if_splits)
  moreover from assms(1) have "set tasks \<subseteq> {newReplicationTask ?f (fm_Primary ?f) n now now |n. needs_copy ?f n}"
    by (auto simp: TasksForFile_eq split: if_splits)
  ultimately show ?thesis
    using assms(2-5) okstr_empty pub [unfolded published_sel]
    by (fastforce simp: list_all_iff task_strings_def newReplicationTask_def intro: okstr_task_id)
qed

lemma PrepareWrite_refines:
  assumes "coordinator_inv minv qinv c"
  shows "PrepareWrite B key sz cs chs c =
           PrepareWrite MemoryMetadataBackend key sz cs chs (coordinator_abs mabs qabs c) \<or>
         (\<exists>e. PrepareWrite B key sz cs chs c = Inl e \<and> io_error e)"
proof -
  from assms have "minv (mc_metadata c)" by (simp add: coordinator_inv_def)
  from healthy [OF this] next_version [OF this, of key] show ?thesis
    by (auto simp: PrepareWrite_def read_ok_def split: sum.splits)
qed

lemma ReadCandidates_refines:
  assumes "coordinator_inv minv qinv c"
  shows "ReadCandidates B key c = ReadCandidates MemoryMetadataBackend key (coordinator_abs mabs qabs c) \<or>
         (\<exists>e. ReadCandidates B key c = Inl e \<and> io_error e)"
proof -
  from assms have "minv (mc_metadata c)" by (simp add: coordinator_inv_def)
  from get_file [OF this, of key] show ?thesis
    by (auto simp: ReadCandidates_def read_ok_def)
qed

lemma DeleteFile_refines:
  assumes "coordinator_inv minv qinv c"
  shows "write_ok (coordinator_inv minv qinv) (coordinator_abs mabs qabs) c (DeleteFile B key c)
           (DeleteFile MemoryMetadataBackend key (coordinator_abs mabs qabs c))"
proof -
  from assms have "minv (mc_metadata c)" by (simp add: coordinator_inv_def)
  from tombstone [OF this, of key] assms show ?thesis
    by (auto simp: DeleteFile_def write_ok_def coordinator_inv_def coordinator_abs_def case_prod_beta Let_def)
qed

text \<open>
  Committing a write has two effects. A failure below leaves the abstract state untouched if
  it struck the metadata store; if it struck the queue, the version is published already and
  only its tasks are missing.
\<close>

lemma CommitWrite_refines:
  assumes inv: "coordinator_inv minv qinv c" and ok: "prepared_strings okstr p"
    and cw: "CommitWrite B Q p c = (r, c')"
  shows "coordinator_inv minv qinv c' \<and>
     ((r, coordinator_abs mabs qabs c') =
        CommitWrite MemoryMetadataBackend MemoryTaskQueue p (coordinator_abs mabs qabs c) \<or>
      (\<exists>e. r = Inl e \<and> io_error e \<and>
         (coordinator_abs mabs qabs c' = coordinator_abs mabs qabs c \<or>
          coordinator_abs mabs qabs c' = (coordinator_abs mabs qabs c)\<lparr>mc_metadata :=
             snd (BeginFileVersion (pw_Key p) (pw_Size p) (pw_Checksum p) (pw_Chunks p)
               (nm_ID (pw_Primary p)) (map nm_ID (pw_Replicas p)) (mabs (mc_metadata c)))\<rparr>)))"
proof -
  from inv have m: "minv (mc_metadata c)" and q: "qinv (mc_tasks c)" by (auto simp: coordinator_inv_def)
  let ?ref = "BeginFileVersion (pw_Key p) (pw_Size p) (pw_Checksum p) (pw_Chunks p)
      (nm_ID (pw_Primary p)) (map nm_ID (pw_Replicas p)) (mabs (mc_metadata c))"
  from ok have strings: "okstr (pw_Key p)" "okstr (pw_Checksum p)"
      "list_all (\<lambda>ch. okstr (cm_Checksum ch)) (pw_Chunks p)" "okstr (nm_ID (pw_Primary p))"
      "list_all okstr (map nm_ID (pw_Replicas p))"
    by (simp_all add: prepared_strings_def list.pred_map comp_def)
  from begin_version [OF m strings, of "pw_Size p"] show ?thesis
  proof (cases rule: write_okE)
    case (Failure e s')
    with cw m q show ?thesis by (auto simp: CommitWrite_def coordinator_inv_def coordinator_abs_def)
  next
    case (Done s')
    then have s': "mabs s' = snd ?ref" and t: "mb_Now B s' = ms_now (snd ?ref)" and m': "minv s'"
      using now [OF \<open>minv s'\<close>] by simp_all
    show ?thesis
    proof (cases "TasksForFile (fst ?ref) (ms_now (snd ?ref))")
      case (Inl e)
      with Done s' t m' cw q show ?thesis
        by (auto simp: CommitWrite_def coordinator_inv_def coordinator_abs_def)
    next
      case (Inr tasks)
      have "list_all (task_strings okstr) tasks"
        using Inr strings by (rule tasks_strings)
      from enqueue [OF q this] Done s' t m' cw Inr show ?thesis
        by (cases rule: write_okE)
          (auto simp: CommitWrite_def coordinator_inv_def coordinator_abs_def)
    qed
  qed
qed

text \<open>
  Starting, finishing and failing a copy. The queue is written first: a failure of the
  metadata store then leaves the task moved on and the replica as it was.
\<close>

lemma StartReplication_refines:
  assumes "coordinator_inv minv qinv c"
  shows "write_ok (coordinator_inv minv qinv) (coordinator_abs mabs qabs) c (StartReplication Q tid c)
           (StartReplication MemoryTaskQueue tid (coordinator_abs mabs qabs c))"
proof -
  from assms have "qinv (mc_tasks c)" by (simp add: coordinator_inv_def)
  from mark_running [OF this, of tid] assms show ?thesis
    by (auto simp: StartReplication_def write_ok_def coordinator_inv_def coordinator_abs_def case_prod_beta Let_def)
qed

lemma FinishReplication_refines:
  assumes inv: "coordinator_inv minv qinv c" and fin: "FinishReplication B Q tid c = (r, c')"
  shows "coordinator_inv minv qinv c' \<and>
     ((r, coordinator_abs mabs qabs c') =
        FinishReplication MemoryMetadataBackend MemoryTaskQueue tid (coordinator_abs mabs qabs c) \<or>
      (\<exists>e. r = Inl e \<and> io_error e \<and> mabs (mc_metadata c') = mabs (mc_metadata c) \<and>
         qabs (mc_tasks c') \<in> {qabs (mc_tasks c), snd (MarkDone tid (qabs (mc_tasks c)))}))"
proof -
  from inv have m: "minv (mc_metadata c)" and q: "qinv (mc_tasks c)" by (auto simp: coordinator_inv_def)
  from mark_done [OF q, of tid] show ?thesis
  proof (cases rule: write_okE)
    case (Failure e q')
    with fin m show ?thesis by (auto simp: FinishReplication_def coordinator_inv_def)
  next
    case (Done q')
    show ?thesis
    proof (cases "fst (MarkDone tid (qabs (mc_tasks c)))")
      case (Inl e)
      with Done fin m show ?thesis
        by (auto simp: FinishReplication_def coordinator_inv_def coordinator_abs_def case_prod_beta Let_def)
    next
      case (Inr task)
      from mark_replica [OF m, of "rt_Key task" "rt_Target task" ReplicaHealthy] Done Inr fin m
      show ?thesis
        by (cases rule: write_okE)
          (auto simp: FinishReplication_def coordinator_inv_def coordinator_abs_def case_prod_beta Let_def
            split: sum.splits)
    qed
  qed
qed

lemma FailReplication_refines:
  assumes inv: "coordinator_inv minv qinv c" and ok: "okstr (cause_text cause)"
    and fail: "FailReplication B Q tid cause c = (r, c')"
  shows "coordinator_inv minv qinv c' \<and>
     ((r, coordinator_abs mabs qabs c') =
        FailReplication MemoryMetadataBackend MemoryTaskQueue tid cause (coordinator_abs mabs qabs c) \<or>
      (\<exists>e. r = Inl e \<and> io_error e \<and> mabs (mc_metadata c') = mabs (mc_metadata c) \<and>
         qabs (mc_tasks c') \<in> {qabs (mc_tasks c), snd (MarkFailed tid cause (qabs (mc_tasks c)))}))"
proof -
  from inv have m: "minv (mc_metadata c)" and q: "qinv (mc_tasks c)" by (auto simp: coordinator_inv_def)
  from mark_failed [OF q ok, of tid] show ?thesis
  proof (cases rule: write_okE)
    case (Failure e q')
    with fail m show ?thesis by (auto simp: FailReplication_def coordinator_inv_def)
  next
    case (Done q')
    show ?thesis
    proof (cases "fst (MarkFailed tid cause (qabs (mc_tasks c)))")
      case (Inl e)
      with Done fail m show ?thesis
        by (auto simp: FailReplication_def coordinator_inv_def coordinator_abs_def case_prod_beta Let_def)
    next
      case (Inr task)
      from mark_replica [OF m, of "rt_Key task" "rt_Target task" ReplicaMissing] Done Inr fail m
      show ?thesis
        by (cases rule: write_okE)
          (auto simp: FailReplication_def coordinator_inv_def coordinator_abs_def case_prod_beta Let_def
            split: sum.splits)
    qed
  qed
qed

end

interpretation memory_coordinator: coordinator MemoryMetadataBackend "\<lambda>s. s" wf_metadata
  MemoryTaskQueue "\<lambda>q. q" wf_queue "\<lambda>_. True"
  by unfold_locales simp_all

section \<open>Repair over the in-memory store\<close>

text \<open>The nodes on which a repair scan places a new replica of a file, in the order it does.\<close>

definition missing_targets :: "int \<Rightarrow> NodeMetadata list \<Rightarrow> FileMetadata \<Rightarrow> string list" where
  "missing_targets rc nodes f =
     take (nat (rc - int (length (fm_Replicas f))))
       (filter (\<lambda>n. gm_get (fm_Replicas f) n = None) (map nm_ID nodes))"

definition add_pending :: "string \<Rightarrow> string list \<Rightarrow> MetadataStore \<Rightarrow> MetadataStore" where
  "add_pending key ns m = fold (\<lambda>n m. snd (AddReplica key n ReplicaPending m)) ns m"

lemma add_pending_simps [simp]:
  "add_pending key [] m = m"
  "add_pending key (n # ns) m = add_pending key ns (snd (AddReplica key n ReplicaPending m))"
  by (simp_all add: add_pending_def)

lemma AddReplica_frame [simp]:
  "ms_now (snd (AddReplica k n st m)) = ms_now m"
  "ms_nodes (snd (AddReplica k n st m)) = ms_nodes m"
  "k' \<noteq> k \<Longrightarrow> gm_get (ms_files (snd (AddReplica k n st m))) k' = gm_get (ms_files m) k'"
  "gm_get (ms_files (snd (AddReplica k n st m))) k' = None \<longleftrightarrow> gm_get (ms_files m) k' = None"
  by (auto simp: AddReplica_def Let_def split: option.split)

lemma AddReplica_ok: "gm_get (ms_files m) k \<noteq> None \<Longrightarrow> \<exists>f. fst (AddReplica k n st m) = Inr f"
  by (auto simp: AddReplica_def Let_def)

lemma add_pending_frame [simp]:
  "ms_now (add_pending k ns m) = ms_now m"
  "ms_nodes (add_pending k ns m) = ms_nodes m"
  "k' \<noteq> k \<Longrightarrow> gm_get (ms_files (add_pending k ns m)) k' = gm_get (ms_files m) k'"
  "gm_get (ms_files (add_pending k ns m)) k' = None \<longleftrightarrow> gm_get (ms_files m) k' = None"
  by (induction ns arbitrary: m) auto

lemma add_pending_wf: "wf_metadata m \<Longrightarrow> wf_metadata (add_pending k ns m)"
  by (induction ns arbitrary: m) (auto intro: wf_AddReplica)

lemma add_pending_file:
  assumes "gm_get (ms_files m) k = Some f" and "distinct ns" and "\<forall>n \<in> set ns. gm_get (fm_Replicas f) n = None"
  shows "\<exists>f'. gm_get (ms_files (add_pending k ns m)) k = Some f' \<and>
           fm_Version f' = fm_Version f \<and> published f' = published f \<and>
           length (fm_Replicas f') = length (fm_Replicas f) + length ns \<and>
           (\<forall>n. gm_get (fm_Replicas f') n =
              (if n \<in> set ns then Some \<lparr>rm_NodeID = n, rm_State = ReplicaPending, rm_UpdatedAt = ms_now m\<rparr>
               else gm_get (fm_Replicas f) n))"
  using assms
proof (induction ns arbitrary: m f)
  case Nil
  then show ?case by simp
next
  case (Cons a ns)
  define f1 where "f1 = f\<lparr>fm_Replicas := gm_put a \<lparr>rm_NodeID = a, rm_State = ReplicaPending,
      rm_UpdatedAt = ms_now m\<rparr> (fm_Replicas f), fm_UpdatedAt := ms_now m\<rparr>"
  have f1: "gm_get (ms_files (snd (AddReplica k a ReplicaPending m))) k = Some f1"
    using Cons.prems(1) by (simp add: AddReplica_def Let_def f1_def)
  have "\<forall>n \<in> set ns. gm_get (fm_Replicas f1) n = None" using Cons.prems by (auto simp: f1_def)
  from Cons.IH [OF f1 _ this] Cons.prems show ?case
    by (auto simp: f1_def published_def gm_put_length)
qed

lemma repairMissingLoop_memory:
  assumes "gm_get (ms_files (mc_metadata c)) (fm_Key f) \<noteq> None"
  shows "repairMissingLoop MemoryMetadataBackend f src nodes tasks c =
    (let ns = take (nat (rp_ReplicaCount (mc_planner c) - (int (length (fm_Replicas f)) + int (length tasks))))
                (filter (\<lambda>n. gm_get (fm_Replicas f) n = None) (map nm_ID nodes));
         t = ms_now (mc_metadata c)
     in (tasks @ map (\<lambda>n. newReplicationTask f src n t t) ns,
         c\<lparr>mc_metadata := add_pending (fm_Key f) ns (mc_metadata c)\<rparr>))"
  using assms
proof (induction nodes arbitrary: tasks c)
  case Nil
  then show ?case by simp
next
  case (Cons node nodes)
  let ?room = "rp_ReplicaCount (mc_planner c) - (int (length (fm_Replicas f)) + int (length tasks))"
  obtain f' where ok: "fst (AddReplica (fm_Key f) (nm_ID node) ReplicaPending (mc_metadata c)) = Inr f'"
    using AddReplica_ok [OF Cons.prems] by blast
  show ?case
  proof (cases "?room \<le> 0")
    case True
    then show ?thesis by simp
  next
    case False
    then obtain r where r: "nat ?room = Suc r" using not0_implies_Suc by force
    have "nat (rp_ReplicaCount (mc_planner c) - (int (length (fm_Replicas f)) + int (Suc (length tasks)))) = r"
      using r by linarith
    with False r ok Cons.prems show ?thesis
      by (simp add: Cons.IH case_prod_beta Let_def)
  qed
qed

lemma repairMissingReplicas_memory:
  assumes "gm_get (ms_files (mc_metadata c)) (fm_Key f) \<noteq> None"
  shows "repairMissingReplicas MemoryMetadataBackend f src nodes c =
    (let ns = missing_targets (rp_ReplicaCount (mc_planner c)) nodes f; t = ms_now (mc_metadata c)
     in (map (\<lambda>n. newReplicationTask f src n t t) ns,
         c\<lparr>mc_metadata := add_pending (fm_Key f) ns (mc_metadata c)\<rparr>))"
  using assms by (simp add: repairMissingReplicas_def repairMissingLoop_memory missing_targets_def Let_def)

text \<open>What one file contributes to a repair scan.\<close>

definition repairable :: "FileMetadata \<Rightarrow> bool" where
  "repairable f \<longleftrightarrow> \<not> fm_Deleted f \<and> firstHealthyReplica f \<noteq> ''''"

definition repair_targets :: "int \<Rightarrow> NodeMetadata list \<Rightarrow> FileMetadata \<Rightarrow> string list" where
  "repair_targets rc nodes f =
     map fst (filter (\<lambda>(n, r). \<not> (n = firstHealthyReplica f \<or> rm_State r = ReplicaHealthy \<or>
                                  rm_State r = ReplicaDeleted)) (fm_Replicas f)) @
     missing_targets rc nodes f"

definition repair_tasks :: "int \<Rightarrow> NodeMetadata list \<Rightarrow> instant \<Rightarrow> FileMetadata \<Rightarrow> ReplicationTask list" where
  "repair_tasks rc nodes t f =
     (if repairable f
      then map (\<lambda>n. newReplicationTask f (firstHealthyReplica f) n t t) (repair_targets rc nodes f)
      else [])"

definition repair_store :: "int \<Rightarrow> NodeMetadata list \<Rightarrow> FileMetadata list \<Rightarrow> MetadataStore \<Rightarrow> MetadataStore" where
  "repair_store rc nodes files m =
     fold (\<lambda>f m. if repairable f then add_pending (fm_Key f) (missing_targets rc nodes f) m else m) files m"

lemma repairFiles_memory:
  assumes "\<forall>f \<in> set files. gm_get (ms_files (mc_metadata c)) (fm_Key f) \<noteq> None"
  shows "repairFiles MemoryMetadataBackend nodes files tasks c =
    (tasks @ concat (map (repair_tasks (rp_ReplicaCount (mc_planner c)) nodes (ms_now (mc_metadata c))) files),
     c\<lparr>mc_metadata := repair_store (rp_ReplicaCount (mc_planner c)) nodes files (mc_metadata c)\<rparr>)"
  using assms
proof (induction files arbitrary: tasks c)
  case Nil
  then show ?case by (simp add: repair_store_def)
next
  case (Cons f files)
  show ?case
  proof (cases "repairable f")
    case False
    with Cons show ?thesis by (auto simp: repair_store_def repair_tasks_def repairable_def Let_def)
  next
    case True
    have rest: "\<forall>g \<in> set files. gm_get (ms_files (add_pending (fm_Key f) ns (mc_metadata c))) (fm_Key g) \<noteq> None" for ns
      using Cons.prems by simp
    have "gm_get (ms_files (mc_metadata c)) (fm_Key f) \<noteq> None" using Cons.prems by simp
    with True rest show ?thesis
      by (simp add: repairable_def repairMissingReplicas_memory Let_def Cons.IH repair_store_def
          repair_tasks_def repair_targets_def repairExistingReplicas_def comp_def case_prod_beta)
  qed
qed

lemma PlanRepair_memory:
  assumes "wf_metadata (mc_metadata c)" and "HealthyNodes (mc_metadata c) \<noteq> []"
  shows "PlanRepair MemoryMetadataBackend MemoryTaskQueue c =
    (let m = mc_metadata c;
         tasks = concat (map (repair_tasks (rp_ReplicaCount (mc_planner c)) (HealthyNodes m) (ms_now m)) (ListFiles m))
     in (Inr tasks,
         c\<lparr>mc_metadata := repair_store (rp_ReplicaCount (mc_planner c)) (HealthyNodes m) (ListFiles m) m,
           mc_tasks := Enqueue tasks (mc_tasks c)\<rparr>))"
proof -
  have "\<forall>f \<in> set (ListFiles (mc_metadata c)). gm_get (ms_files (mc_metadata c)) (fm_Key f) \<noteq> None"
    using ListFiles_mem [OF assms(1)] by simp
  with assms(2) show ?thesis by (simp add: PlanRepair_def repairFiles_memory Let_def)
qed

lemma firstHealthyReplica_healthy:
  assumes "wf_file f" and "firstHealthyReplica f \<noteq> ''''"
  shows "\<exists>r. gm_get (fm_Replicas f) (firstHealthyReplica f) = Some r \<and> rm_State r = ReplicaHealthy"
proof -
  from assms(2) obtain r rs where hr: "HealthyReplicas f = r # rs"
    by (auto simp: firstHealthyReplica_def split: list.splits)
  then have "r \<in> set (HealthyReplicas f)" by simp
  then have "gm_get (fm_Replicas f) (rm_NodeID r) = Some r" and "rm_State r = ReplicaHealthy"
    by (simp_all add: HealthyReplicas_mem [OF assms(1)])
  with hr show ?thesis by (simp add: firstHealthyReplica_def)
qed

lemma repair_targets_mem:
  assumes "wf_file f"
  shows "n \<in> set (repair_targets rc nodes f) \<longleftrightarrow>
     n \<noteq> firstHealthyReplica f \<and>
     (\<exists>r. gm_get (fm_Replicas f) n = Some r \<and> rm_State r \<noteq> ReplicaHealthy \<and> rm_State r \<noteq> ReplicaDeleted) \<or>
     n \<in> set (missing_targets rc nodes f)"
  using assms by (force simp: repair_targets_def wf_file_def gm_get_Some_iff)

lemma missing_targets_props:
  assumes "distinct (map nm_ID nodes)"
  shows "distinct (missing_targets rc nodes f)"
    and "n \<in> set (missing_targets rc nodes f) \<Longrightarrow>
           gm_get (fm_Replicas f) n = None \<and> n \<in> nm_ID ` set nodes"
    and "int (length (fm_Replicas f) + length (missing_targets rc nodes f)) =
           max (int (length (fm_Replicas f)))
             (min rc (int (length (fm_Replicas f)) +
                int (length (filter (\<lambda>n. gm_get (fm_Replicas f) n = None) (map nm_ID nodes)))))"
  using assms by (auto simp: missing_targets_def distinct_take dest!: in_set_takeD)

lemma repair_store_frame:
  "k \<notin> fm_Key ` set files \<Longrightarrow>
   gm_get (ms_files (repair_store rc nodes files m)) k = gm_get (ms_files m) k"
  by (induction files arbitrary: m) (auto simp: repair_store_def)

lemma repair_store_file:
  assumes "distinct (map fm_Key files)" and "f \<in> set files"
    and "gm_get (ms_files m) (fm_Key f) = Some f" and "distinct (map nm_ID nodes)"
  shows "\<exists>f'. gm_get (ms_files (repair_store rc nodes files m)) (fm_Key f) = Some f' \<and>
     fm_Version f' = fm_Version f \<and> published f' = published f \<and>
     length (fm_Replicas f') =
       length (fm_Replicas f) + (if repairable f then length (missing_targets rc nodes f) else 0) \<and>
     (\<forall>n. gm_get (fm_Replicas f') n =
        (if repairable f \<and> n \<in> set (missing_targets rc nodes f)
         then Some \<lparr>rm_NodeID = n, rm_State = ReplicaPending, rm_UpdatedAt = ms_now m\<rparr>
         else gm_get (fm_Replicas f) n))"
  using assms(1-3)
proof (induction files arbitrary: m)
  case Nil
  then show ?case by simp
next
  case (Cons g files)
  define m1 where "m1 = (if repairable g then add_pending (fm_Key g) (missing_targets rc nodes g) m else m)"
  have step: "repair_store rc nodes (g # files) m = repair_store rc nodes files m1"
    by (simp add: repair_store_def m1_def)
  show ?case
  proof (cases "g = f")
    case True
    with Cons.prems(1) have "fm_Key f \<notin> fm_Key ` set files" by auto
    then have "gm_get (ms_files (repair_store rc nodes (g # files) m)) (fm_Key f) = gm_get (ms_files m1) (fm_Key f)"
      unfolding step by (rule repair_store_frame)
    with True show ?thesis
      using add_pending_file [OF Cons.prems(3) missing_targets_props(1) [OF assms(4)]]
        missing_targets_props(2) [OF assms(4)] Cons.prems(3)
      by (auto simp: m1_def)
  next
    case False
    with Cons.prems(2) have "f \<in> set files" by simp
    then have "fm_Key f \<in> fm_Key ` set files" by (rule imageI)
    with Cons.prems(1) have "fm_Key f \<noteq> fm_Key g" by auto
    then have "gm_get (ms_files m1) (fm_Key f) = Some f" and "ms_now m1 = ms_now m"
      using Cons.prems(3) by (auto simp: m1_def)
    moreover have "distinct (map fm_Key files)" using Cons.prems(1) by simp
    ultimately show ?thesis using Cons.IH [of m1] \<open>f \<in> set files\<close> unfolding step by (simp only:)
  qed
qed

text \<open>Every copy is planned once.\<close>

lemma repair_tasks_distinct:
  assumes "wf_file f" and "distinct (map nm_ID nodes)"
  shows "distinct (repair_tasks rc nodes t f)"
proof -
  let ?P = "\<lambda>(n, r). \<not> (n = firstHealthyReplica f \<or> rm_State r = ReplicaHealthy \<or> rm_State r = ReplicaDeleted)"
  have wf: "gm_wf (fm_Replicas f)" using assms(1) by (simp add: wf_file_def)
  then have "distinct (map fst (filter ?P (fm_Replicas f)))" unfolding gm_wf_def by (rule distinct_map_filter)
  moreover have "n \<notin> set (missing_targets rc nodes f)" if "n \<in> set (map fst (filter ?P (fm_Replicas f)))" for n
    using that missing_targets_props(2) [OF assms(2), of n rc f] by (auto simp: map_of_eq_None_iff image_iff) force
  ultimately have "distinct (repair_targets rc nodes f)"
    unfolding repair_targets_def using missing_targets_props(1) [OF assms(2), of rc f] by auto
  moreover have "inj (\<lambda>n. newReplicationTask f (firstHealthyReplica f) n t t)"
    by (rule injI) (simp add: newReplicationTask_def)
  ultimately show ?thesis by (simp add: repair_tasks_def distinct_map inj_on_subset)
qed

lemma repair_plan_distinct:
  assumes "distinct (map fm_Key files)" and "\<forall>f \<in> set files. wf_file f" and "distinct (map nm_ID nodes)"
  shows "distinct (concat (map (repair_tasks rc nodes t) files))"
  using assms(1,2)
proof (induction files)
  case (Cons f files)
  have "rt_Key u = fm_Key g" if "u \<in> set (repair_tasks rc nodes t g)" for u g
    using that by (auto simp: repair_tasks_def split: if_splits)
  with Cons.prems(1) have "set (repair_tasks rc nodes t f) \<inter> set (concat (map (repair_tasks rc nodes t) files)) = {}"
    by auto (metis image_eqI)
  with Cons repair_tasks_distinct [OF _ assms(3)] show ?case by simp
qed simp

text \<open>
  C10. A repair scan plans exactly the copies that can be made, each once. Over the in-memory
  stores \<open>PlanRepair\<close> succeeds. With no healthy node it plans nothing and changes nothing.
  Otherwise a task is planned if and only if it is the new, pending task that copies the current
  version of a file that is not deleted and has a healthy replica, from its first healthy
  replica, to a node that holds a pending, stale or missing replica, or to one of the first
  healthy nodes that hold no replica, of which as many are taken as the file lacks of the
  configured count. No task is planned twice. The queue keeps every task it had, in whatever
  state, so that a task whose identifier it knows is not queued again; and it gains
  exactly the planned tasks whose identifiers it did not know.
\<close>

theorem PlanRepair_plans_copies:
  assumes "wf_metadata (mc_metadata c)" and "PlanRepair MemoryMetadataBackend MemoryTaskQueue c = (r, c')"
  shows "if HealthyNodes (mc_metadata c) = [] then r = Inr [] \<and> c' = c
     else \<exists>tasks. r = Inr tasks \<and> distinct tasks \<and>
     (\<forall>t. t \<in> set tasks \<longleftrightarrow>
        (\<exists>f n. gm_get (ms_files (mc_metadata c)) (fm_Key f) = Some f \<and> \<not> fm_Deleted f \<and>
           firstHealthyReplica f \<noteq> '''' \<and>
           ((\<exists>x. gm_get (fm_Replicas f) n = Some x \<and> rm_State x \<in> {ReplicaPending, ReplicaStale, ReplicaMissing}) \<or>
            n \<in> set (take (nat (rp_ReplicaCount (mc_planner c) - int (length (fm_Replicas f))))
                      (filter (\<lambda>n. gm_get (fm_Replicas f) n = None)
                         (map nm_ID (HealthyNodes (mc_metadata c)))))) \<and>
           t = \<lparr>rt_ID = replicationTaskID (fm_Key f) (fm_Version f) (firstHealthyReplica f) n,
                rt_Key = fm_Key f, rt_Version = fm_Version f, rt_Checksum = fm_Checksum f,
                rt_Chunks = fm_Chunks f, rt_Source = firstHealthyReplica f, rt_Target = n,
                rt_State = ReplicationTaskPending, rt_Attempts = 0, rt_LastError = '''', rt_RunAfter = 0,
                rt_LeaseUntil = 0, rt_CreatedAt = ms_now (mc_metadata c),
                rt_UpdatedAt = ms_now (mc_metadata c)\<rparr>)) \<and>
     (\<forall>t \<in> set tasks. \<exists>f x. gm_get (ms_files (mc_metadata c)) (rt_Key t) = Some f \<and>
        gm_get (fm_Replicas f) (rt_Source t) = Some x \<and> rm_State x = ReplicaHealthy) \<and>
     (\<forall>i. gm_get (mq_tasks (mc_tasks c')) i =
        (case gm_get (mq_tasks (mc_tasks c)) i of
           Some t \<Rightarrow> Some t
         | None \<Rightarrow> List.find (\<lambda>t. rt_ID t = i) tasks))"
proof (cases "HealthyNodes (mc_metadata c) = []")
  case True
  with assms(2) show ?thesis by (simp add: PlanRepair_def)
next
  case ne: False
  let ?m = "mc_metadata c" and ?rc = "rp_ReplicaCount (mc_planner c)"
  define tasks where "tasks = concat (map (repair_tasks ?rc (HealthyNodes ?m) (ms_now ?m)) (ListFiles ?m))"
  from assms(2) have r: "r = Inr tasks" and q: "mc_tasks c' = Enqueue tasks (mc_tasks c)"
    by (auto simp: PlanRepair_memory [OF assms(1) ne] tasks_def Let_def)
  have wf: "wf_file f" if "gm_get (ms_files ?m) k = Some f" for k f using that assms(1) by (auto dest: wf_file_of)
  have once: "distinct tasks"
    unfolding tasks_def using ListFiles_distinct [OF assms(1)] wf HealthyNodes_distinct [OF assms(1)]
    by (intro repair_plan_distinct) (auto simp: ListFiles_mem [OF assms(1)])
  have target: "n \<in> set (repair_targets ?rc (HealthyNodes ?m) f) \<longleftrightarrow>
      (\<exists>x. gm_get (fm_Replicas f) n = Some x \<and> rm_State x \<in> {ReplicaPending, ReplicaStale, ReplicaMissing}) \<or>
      n \<in> set (missing_targets ?rc (HealthyNodes ?m) f)"
    if "gm_get (ms_files ?m) k = Some f" and "firstHealthyReplica f \<noteq> ''''" for f n k
  proof -
    have states: "rm_State x \<in> {ReplicaPending, ReplicaStale, ReplicaMissing} \<longleftrightarrow>
        rm_State x \<noteq> ReplicaHealthy \<and> rm_State x \<noteq> ReplicaDeleted" for x by (cases "rm_State x") auto
    from firstHealthyReplica_healthy [OF wf [OF that(1)] that(2)] show ?thesis
      unfolding repair_targets_mem [OF wf [OF that(1)]] states by fastforce
  qed
  have planned: "t \<in> set tasks \<longleftrightarrow> (\<exists>f n. gm_get (ms_files ?m) (fm_Key f) = Some f \<and> repairable f \<and>
      n \<in> set (repair_targets ?rc (HealthyNodes ?m) f) \<and>
      t = newReplicationTask f (firstHealthyReplica f) n (ms_now ?m) (ms_now ?m))" for t
    by (auto simp: tasks_def repair_tasks_def ListFiles_mem [OF assms(1)] split: if_splits)
  have mem: "t \<in> set tasks \<longleftrightarrow> (\<exists>f n. gm_get (ms_files ?m) (fm_Key f) = Some f \<and> \<not> fm_Deleted f \<and>
      firstHealthyReplica f \<noteq> '''' \<and>
      ((\<exists>x. gm_get (fm_Replicas f) n = Some x \<and> rm_State x \<in> {ReplicaPending, ReplicaStale, ReplicaMissing}) \<or>
       n \<in> set (missing_targets ?rc (HealthyNodes ?m) f)) \<and>
      t = newReplicationTask f (firstHealthyReplica f) n (ms_now ?m) (ms_now ?m))" for t
    unfolding planned by (intro ex_cong1) (use target in \<open>auto simp: repairable_def\<close>)
  have source: "\<exists>f x. gm_get (ms_files ?m) (rt_Key t) = Some f \<and>
      gm_get (fm_Replicas f) (rt_Source t) = Some x \<and> rm_State x = ReplicaHealthy" if "t \<in> set tasks" for t
    using that firstHealthyReplica_healthy [OF wf] by (fastforce simp: mem)
  show ?thesis
    unfolding if_not_P [OF ne]
    by (intro exI [of _ tasks] conjI allI ballI r once source
        mem [unfolded missing_targets_def newReplicationTask_def cloneChunkMetadata_id]) (simp_all add: q gm_get_Enqueue)
qed

text \<open>A store that holds one file, with a healthy replica on one node and a pending one on another.\<close>

definition demo_write :: memory_coordinator where
  "demo_write = demo_coordinator\<lparr>mc_metadata :=
     snd (BeginFileVersion ''k'' 3 ''h'' [] ''n1'' [''n1'', ''n2''] (mc_metadata demo_coordinator))\<rparr>"

lemma demo_write_facts:
  "wf_metadata (mc_metadata demo_write)" "HealthyNodes (mc_metadata demo_write) \<noteq> []"
  "mc_planner demo_write = \<lparr>rp_ReplicaCount = 2\<rparr>"
  "gm_get (ms_files (mc_metadata demo_write)) ''k'' =
     Some \<lparr>fm_Key = ''k'', fm_Version = 1, fm_Size = 3, fm_Checksum = ''h'',
           fm_Primary = ''n1'', fm_Deleted = False, fm_Chunks = [],
           fm_Replicas =
             [(''n1'', \<lparr>rm_NodeID = ''n1'', rm_State = ReplicaHealthy, rm_UpdatedAt = 5\<rparr>),
              (''n2'', \<lparr>rm_NodeID = ''n2'', rm_State = ReplicaPending, rm_UpdatedAt = 5\<rparr>)],
           fm_CreatedAt = 5, fm_UpdatedAt = 5\<rparr>"
  by (simp_all add: demo_write_def wf_BeginFileVersion demo_wf)
    (simp_all add: demo_coordinator_eq BeginFileVersion_def nextVersionLocked_def Let_def
      initialReplicas_def HealthyNodes_def gm_vals_def less_by_def)

theorem PlanRepair_plans_copies_witness:
  "\<exists>c' t. PlanRepair MemoryMetadataBackend MemoryTaskQueue demo_write = (Inr [t], c') \<and>
     rt_Key t = ''k'' \<and> rt_Source t = ''n1'' \<and> rt_Target t = ''n2'' \<and>
     gm_get (mq_tasks (mc_tasks c')) (rt_ID t) = Some t"
proof -
  obtain r c' where run: "PlanRepair MemoryMetadataBackend MemoryTaskQueue demo_write = (r, c')"
    by fastforce
  define f0 where "f0 = the (gm_get (ms_files (mc_metadata demo_write)) ''k'')"
  have files: "gm_get (ms_files (mc_metadata demo_write)) k = Some f \<longleftrightarrow> k = ''k'' \<and> f = f0" for k f
    by (auto simp: f0_def demo_write_def demo_coordinator_eq BeginFileVersion_def nextVersionLocked_def Let_def)
  have f0: "fm_Key f0 = ''k''" "fm_Version f0 = 1" "\<not> fm_Deleted f0" "firstHealthyReplica f0 = ''n1''"
    "length (fm_Replicas f0) = 2"
    "(\<exists>x. gm_get (fm_Replicas f0) n = Some x \<and> rm_State x \<in> {ReplicaPending, ReplicaStale, ReplicaMissing}) \<longleftrightarrow> n = ''n2''" for n
    by (auto simp: f0_def demo_write_facts(4) firstHealthyReplica_def HealthyReplicas_def gm_vals_def)
  have empty: "mq_tasks (mc_tasks demo_write) = []" by (simp add: demo_write_def demo_coordinator_eq)
  let ?t = "\<lparr>rt_ID = replicationTaskID ''k'' 1 ''n1'' ''n2'', rt_Key = ''k'', rt_Version = 1,
      rt_Checksum = fm_Checksum f0, rt_Chunks = fm_Chunks f0, rt_Source = ''n1'', rt_Target = ''n2'',
      rt_State = ReplicationTaskPending, rt_Attempts = 0, rt_LastError = '''', rt_RunAfter = 0, rt_LeaseUntil = 0,
      rt_CreatedAt = ms_now (mc_metadata demo_write), rt_UpdatedAt = ms_now (mc_metadata demo_write)\<rparr>"
  from PlanRepair_plans_copies [OF demo_write_facts(1) run] demo_write_facts(2) obtain tasks where
    r: "r = Inr tasks" and once: "distinct tasks" and mem: "\<And>t. t \<in> set tasks \<longleftrightarrow> t = ?t"
    and queue: "\<And>i. gm_get (mq_tasks (mc_tasks c')) i = List.find (\<lambda>t. rt_ID t = i) tasks"
    by (simp only: if_False files demo_write_facts(3) empty)
      (elim exE conjE, simp add: f0(1-5) f0(6) [simplified])
  from mem have "set tasks = {?t}" by (intro set_eqI) simp
  moreover from this once have "length tasks = 1" using distinct_card [OF once] by simp
  ultimately have "tasks = [?t]" by (cases tasks) simp_all
  with run r queue show ?thesis by simp
qed

text \<open>
  C11. A repair scan restores the replica count without disturbing what is there. Over the
  in-memory backend, with at least one healthy node, after \<open>PlanRepair\<close> every file is at the
  same version with the same published content and every replica it had is unchanged; new
  replicas are pending, on healthy nodes; and a file that is not deleted and has a healthy
  replica ends up with the configured number of replicas if there are enough healthy nodes,
  and with all healthy nodes otherwise, but never with fewer than before.
\<close>

theorem PlanRepair_restores_count:
  assumes "wf_metadata (mc_metadata c)" and "HealthyNodes (mc_metadata c) \<noteq> []"
    and "PlanRepair MemoryMetadataBackend MemoryTaskQueue c = (r, c')"
    and "gm_get (ms_files (mc_metadata c)) k = Some f"
  shows "\<exists>f'. gm_get (ms_files (mc_metadata c')) k = Some f' \<and>
     fm_Version f' = fm_Version f \<and> published f' = published f \<and>
     (\<forall>n x. gm_get (fm_Replicas f) n = Some x \<longrightarrow> gm_get (fm_Replicas f') n = Some x) \<and>
     (\<forall>n x. gm_get (fm_Replicas f') n = Some x \<and> gm_get (fm_Replicas f) n = None \<longrightarrow>
        rm_State x = ReplicaPending \<and> n \<in> nm_ID ` set (HealthyNodes (mc_metadata c))) \<and>
     int (length (fm_Replicas f')) =
       (if fm_Deleted f \<or> firstHealthyReplica f = '''' then int (length (fm_Replicas f))
        else max (int (length (fm_Replicas f)))
               (min (rp_ReplicaCount (mc_planner c))
                  (int (length (fm_Replicas f)) +
                   int (length (filter (\<lambda>n. gm_get (fm_Replicas f) n = None)
                                  (map nm_ID (HealthyNodes (mc_metadata c))))))))"
proof -
  let ?m = "mc_metadata c" and ?rc = "rp_ReplicaCount (mc_planner c)"
  have k: "fm_Key f = k" using assms(1,4) by (rule wf_key_of)
  have m': "mc_metadata c' = repair_store ?rc (HealthyNodes ?m) (ListFiles ?m) ?m"
    using assms(3) by (auto simp: PlanRepair_memory [OF assms(1,2)] Let_def)
  have fin: "f \<in> set (ListFiles ?m)" using assms(4) k by (simp add: ListFiles_mem [OF assms(1)])
  note nd = HealthyNodes_distinct [OF assms(1)]
  from repair_store_file [OF ListFiles_distinct [OF assms(1)] fin _ nd, of ?m ?rc]
  obtain f' where f': "gm_get (ms_files (mc_metadata c')) k = Some f'"
    and v: "fm_Version f' = fm_Version f" and p: "published f' = published f"
    and len: "length (fm_Replicas f') = length (fm_Replicas f) +
        (if repairable f then length (missing_targets ?rc (HealthyNodes ?m) f) else 0)"
    and reps: "\<forall>n. gm_get (fm_Replicas f') n =
        (if repairable f \<and> n \<in> set (missing_targets ?rc (HealthyNodes ?m) f)
         then Some \<lparr>rm_NodeID = n, rm_State = ReplicaPending, rm_UpdatedAt = ms_now ?m\<rparr>
         else gm_get (fm_Replicas f) n)"
    using assms(4) k by (auto simp: m')
  have len': "int (length (fm_Replicas f')) = (if fm_Deleted f \<or> firstHealthyReplica f = ''''
      then int (length (fm_Replicas f))
      else max (int (length (fm_Replicas f))) (min ?rc (int (length (fm_Replicas f)) +
        int (length (filter (\<lambda>n. gm_get (fm_Replicas f) n = None) (map nm_ID (HealthyNodes ?m)))))))"
    using missing_targets_props(3) [OF nd, of f ?rc] by (simp add: len repairable_def)
  show ?thesis
  proof (intro exI conjI)
    show "\<forall>n x. gm_get (fm_Replicas f) n = Some x \<longrightarrow> gm_get (fm_Replicas f') n = Some x"
      using reps missing_targets_props(2) [OF nd] by auto
    show "\<forall>n x. gm_get (fm_Replicas f') n = Some x \<and> gm_get (fm_Replicas f) n = None \<longrightarrow>
        rm_State x = ReplicaPending \<and> n \<in> nm_ID ` set (HealthyNodes ?m)"
      using reps missing_targets_props(2) [OF nd] by (auto split: if_splits)
  qed (use f' v p len' in auto)
qed

theorem PlanRepair_restores_count_witness:
  "\<exists>f'. gm_get (ms_files (mc_metadata (snd (PlanRepair MemoryMetadataBackend MemoryTaskQueue
            demo_write)))) ''k'' = Some f' \<and> fm_Version f' = 1 \<and> length (fm_Replicas f') = 2"
proof -
  obtain r c' where run: "PlanRepair MemoryMetadataBackend MemoryTaskQueue demo_write = (r, c')"
    by fastforce
  from PlanRepair_restores_count [OF demo_write_facts(1,2) run demo_write_facts(4)] run
  show ?thesis by (elim exE conjE) (auto simp: demo_write_facts(3) min_def split: if_splits)
qed

end
