(* ===== verification/Object_Store.thy ===== *)
theory Object_Store
  imports Replication
begin

text \<open>
  Objects and their replication, \<open>src/distributed-fs/object.go\<close>.

  \<^item> Streams: an \<open>io.ReadCloser\<close> as the list of answers of its \<open>Read\<close> calls, and
    \<open>io.Copy\<close> into a file that may run out of space.
  \<^item> The generated object names and their injectivity.
  \<^item> The interface \<open>ObjectStore\<close> as a record of its methods, with its contract as the
    locales \<open>object_store\<close> (what a call that succeeds has done, and that every call leaves
    the other objects alone) and \<open>reliable_object_store\<close> (calls that can succeed do).
  \<^item> \<open>LocalObjectReplicator\<close>, and what a successful copy guarantees over any store that meets
    the contract.

  SHA-256 in hexadecimal is a parameter \<open>H\<close> of the definitions: a running hash is the list
  of bytes written to it so far, and \<open>Sum\<close> applies \<open>H\<close> to that list.
\<close>

section \<open>Streams\<close>

text \<open>
  One \<open>Read\<close> call: the bytes it delivers and the error it returns with them, which is nil,
  \<open>io.EOF\<close> or a failure. A stream whose list is used up is at its end. How the bytes are
  split over the calls is up to the stream.
\<close>

datatype read_status = ReadMore | ReadEOF | ReadFailed error

type_synonym read_event = "byte list \<times> read_status"

record reader =
  rd_reads :: "read_event list"
  rd_close :: "error option"

text \<open>All the bytes a stream delivers, and the error that ends it, if it is not \<open>io.EOF\<close>.\<close>

fun drain :: "read_event list \<Rightarrow> byte list \<times> error option" where
  "drain [] = ([], None)"
| "drain ((d, ReadMore) # es) = (d @ fst (drain es), snd (drain es))"
| "drain ((d, ReadEOF) # es) = (d, None)"
| "drain ((d, ReadFailed e) # es) = (d, Some e)"

definition bytes_reader :: "byte list \<Rightarrow> reader" where
  "bytes_reader b = \<lparr>rd_reads = [(b, ReadMore)], rd_close = None\<rparr>"

lemma bytes_reader_sel [simp]: "drain (rd_reads (bytes_reader b)) = (b, None)" "rd_close (bytes_reader b) = None"
  by (simp_all add: bytes_reader_def)

text \<open>
  \<open>Write\<close> of a piece to a file that holds \<open>acc\<close> and can grow to at most \<open>lim\<close> bytes: what
  the file holds then, and whether the write failed.
\<close>

definition write_piece :: "nat option \<Rightarrow> byte list \<Rightarrow> byte list \<Rightarrow> byte list \<times> bool" where
  "write_piece lim d acc = (case lim of
       None \<Rightarrow> (acc @ d, False)
     | Some n \<Rightarrow> if length acc + length d \<le> n then (acc @ d, False) else (acc @ take (n - length acc) d, True))"

text \<open>
  \<open>io.Copy\<close>: the content of the file, the bytes taken from the source, and the error.
\<close>

fun io_copy :: "nat option \<Rightarrow> read_event list \<Rightarrow> byte list \<Rightarrow> byte list \<times> byte list \<times> error option" where
  "io_copy lim [] acc = (acc, [], None)"
| "io_copy lim ((d, st) # es) acc =
     (let (acc', failed) = write_piece lim d acc in
      if failed then (acc', d, Some (ErrOther ''no space left on device''))
      else case st of
          ReadEOF \<Rightarrow> (acc', d, None)
        | ReadFailed e \<Rightarrow> (acc', d, Some e)
        | ReadMore \<Rightarrow> (let (out, taken, err) = io_copy lim es acc' in (out, d @ taken, err)))"

text \<open>A copy without an error has moved exactly the bytes of the stream.\<close>

lemma io_copy_ok:
  assumes "io_copy lim es acc = (out, taken, None)"
  shows "drain es = (taken, None) \<and> out = acc @ taken"
  using assms
  by (induction es arbitrary: acc out taken rule: drain.induct)
    (fastforce simp: Let_def write_piece_def split: if_splits option.splits prod.splits)+

lemma io_copy_complete:
  assumes "drain es = (data, None)"
    and "case lim of None \<Rightarrow> True | Some n \<Rightarrow> length acc + length data \<le> n"
  shows "io_copy lim es acc = (acc @ data, data, None)"
  using assms
  by (induction es arbitrary: acc data rule: drain.induct)
    (auto simp: Let_def write_piece_def prod_eq_iff case_prod_beta split: option.splits)

section \<open>Object names\<close>

text \<open>\<open>fmt.Sprintf("%s.v%d", key, version)\<close>.\<close>

definition versionedObjectKey :: "string \<Rightarrow> uint64 \<Rightarrow> string" where
  "versionedObjectKey key version = key @ ''.v'' @ dec (unat version)"

text \<open>
  \<open>%06d\<close>: zeros up to six characters, after the sign of a negative number, which counts.
\<close>

definition dec06 :: "int \<Rightarrow> string" where
  "dec06 i = (if i < 0 then CHR ''-'' # pad_zero 5 (dec (nat (- i))) else pad_zero 6 (dec (nat i)))"

definition chunkObjectKey :: "string \<Rightarrow> int \<Rightarrow> string" where
  "chunkObjectKey key index = key @ ''.chunk.'' @ dec06 index"

definition checksumBytes :: "(byte list \<Rightarrow> string) \<Rightarrow> byte list \<Rightarrow> string" where
  "checksumBytes H b = H b"

lemma dec06_inject: "dec06 i = dec06 j \<Longrightarrow> i = j"
proof -
  have no_sign: "pad_zero 6 (dec m) \<noteq> CHR ''-'' # s" for m s
    using not_digit_in_pad [of "CHR ''-''" 6 m] by (metis list.set_intros(1) punctuation_not_digit(4))
  assume "dec06 i = dec06 j"
  then show ?thesis
    using no_sign by (auto simp: dec06_def split: if_splits dest!: pad_zero_dec_inject dest: not_sym)
qed

lemma dec06_no_dot: "CHR ''.'' \<notin> set (dec06 i)"
  by (auto simp: dec06_def not_digit_in_pad)

lemma versionedObjectKey_eq_iff [naming]:
  "versionedObjectKey k v = versionedObjectKey k' v' \<longleftrightarrow> k = k' \<and> v = v'"
proof
  assume "versionedObjectKey k v = versionedObjectKey k' v'"
  then have "k @ CHR ''.'' # (CHR ''v'' # dec (unat v)) = k' @ CHR ''.'' # (CHR ''v'' # dec (unat v'))"
    by (simp add: versionedObjectKey_def)
  from split_last_unique [OF this] show "k = k' \<and> v = v'"
    by (auto simp: not_digit_in_dec word_unat_eq_iff)
qed simp

lemma chunkObjectKey_eq_iff [naming]:
  "chunkObjectKey k i = chunkObjectKey k' j \<longleftrightarrow> k = k' \<and> i = j"
proof
  assume "chunkObjectKey k i = chunkObjectKey k' j"
  then have "(k @ ''.chunk'') @ CHR ''.'' # dec06 i = (k' @ ''.chunk'') @ CHR ''.'' # dec06 j"
    by (simp add: chunkObjectKey_def)
  from split_last_unique [OF this dec06_no_dot dec06_no_dot] show "k = k' \<and> i = j"
    by (auto dest: dec06_inject)
qed simp

text \<open>
  Names on a storage node do not collide: the name under which a node stores a chunk
  determines the key, the chunk index and the version, so two objects that share a name are
  the same chunk of the same version of the same file.
\<close>

theorem object_names_inject:
  "versionedObjectKey (chunkObjectKey k i) v = versionedObjectKey (chunkObjectKey k' i') v' \<longleftrightarrow>
   k = k' \<and> i = i' \<and> v = v'"
  by (auto simp: versionedObjectKey_eq_iff chunkObjectKey_eq_iff)

section \<open>The interface\<close>

text \<open>
  An object is named by node, key and version. A write answers with the number of bytes
  stored; the model adds the bytes it has taken from its reader, which is what an
  \<open>io.TeeReader\<close> around that reader has seen. A read answers with a stream over the object as
  it is at that moment.
\<close>

type_synonym object_id = "string \<times> string \<times> uint64"

record 's ObjectStore =
  os_WriteObject :: "string \<Rightarrow> string \<Rightarrow> uint64 \<Rightarrow> reader \<Rightarrow> 's \<Rightarrow> int result \<times> byte list \<times> 's"
  os_ReadObject :: "string \<Rightarrow> string \<Rightarrow> uint64 \<Rightarrow> 's \<Rightarrow> (int \<times> reader) result"
  os_DeleteObject :: "string \<Rightarrow> string \<Rightarrow> uint64 \<Rightarrow> 's \<Rightarrow> unit result \<times> 's"
  os_HasObject :: "string \<Rightarrow> string \<Rightarrow> uint64 \<Rightarrow> 's \<Rightarrow> bool"

text \<open>The object that holds a chunk of a file version on a node.\<close>

definition chunk_id :: "string \<Rightarrow> string \<Rightarrow> uint64 \<Rightarrow> ChunkMetadata \<Rightarrow> object_id" where
  "chunk_id nodeID key version c = (nodeID, chunkObjectKey key (cm_Index c), version)"

lemma chunk_id_eq_iff [naming]:
  "chunk_id n k v c = chunk_id n' k' v' c' \<longleftrightarrow> n = n' \<and> k = k' \<and> v = v' \<and> cm_Index c = cm_Index c'"
  by (auto simp: chunk_id_def chunkObjectKey_eq_iff)

section \<open>Replication of objects\<close>

fun deleteChunkObjects :: "'s ObjectStore \<Rightarrow> string \<Rightarrow> uint64 \<Rightarrow> string list \<Rightarrow> 's \<Rightarrow> 's" where
  "deleteChunkObjects OS nodeID version [] s = s"
| "deleteChunkObjects OS nodeID version (objectKey # objectKeys) s =
     deleteChunkObjects OS nodeID version objectKeys (snd (os_DeleteObject OS nodeID objectKey version s))"

text \<open>
  The loop of \<open>replicateChunks\<close> and what follows it; \<open>full\<close> is what the hash of the whole file
  has been fed, \<open>written\<close> the names of the copies made so far.
\<close>

fun replicateLoop ::
  "(byte list \<Rightarrow> string) \<Rightarrow> 's ObjectStore \<Rightarrow> ReplicationTask \<Rightarrow> ChunkMetadata list \<Rightarrow> byte list \<Rightarrow>
   string list \<Rightarrow> 's \<Rightarrow> error option \<times> 's" where
  "replicateLoop H OS task [] full written s =
     (if rt_Checksum task \<noteq> '''' \<and> H full \<noteq> rt_Checksum task
      then (Some ErrChecksumMismatch, deleteChunkObjects OS (rt_Target task) (rt_Version task) written s)
      else (None, s))"
| "replicateLoop H OS task (chunk # chunks) full written s =
     (let objectKey = chunkObjectKey (rt_Key task) (cm_Index chunk) in
      case os_ReadObject OS (rt_Source task) objectKey (rt_Version task) s of
        Inl err \<Rightarrow> (Some err, s)
      | Inr (_, src) \<Rightarrow>
          (case os_WriteObject OS (rt_Target task) objectKey (rt_Version task) src s of
             (Inl writeErr, _, s1) \<Rightarrow>
               (Some writeErr, deleteChunkObjects OS (rt_Target task) (rt_Version task) written s1)
           | (Inr n, taken, s1) \<Rightarrow>
               (case rd_close src of
                  Some closeErr \<Rightarrow>
                    (Some closeErr, deleteChunkObjects OS (rt_Target task) (rt_Version task) written s1)
                | None \<Rightarrow>
                    if n \<noteq> cm_Size chunk \<or> H taken \<noteq> cm_Checksum chunk
                    then (Some ErrChecksumMismatch,
                          deleteChunkObjects OS (rt_Target task) (rt_Version task) written
                            (snd (os_DeleteObject OS (rt_Target task) objectKey (rt_Version task) s1)))
                    else replicateLoop H OS task chunks (full @ taken) (written @ [objectKey]) s1)))"

definition replicateChunks ::
  "(byte list \<Rightarrow> string) \<Rightarrow> 's ObjectStore \<Rightarrow> ReplicationTask \<Rightarrow> 's \<Rightarrow> error option \<times> 's" where
  "replicateChunks H OS task s = replicateLoop H OS task (rt_Chunks task) [] [] s"

definition Replicate ::
  "(byte list \<Rightarrow> string) \<Rightarrow> 's ObjectStore \<Rightarrow> ReplicationTask \<Rightarrow> 's \<Rightarrow> error option \<times> 's" where
  "Replicate H OS task s =
     (if 0 < length (rt_Chunks task) then replicateChunks H OS task s
      else case os_ReadObject OS (rt_Source task) (rt_Key task) (rt_Version task) s of
        Inl err \<Rightarrow> (Some err, s)
      | Inr (_, src) \<Rightarrow>
          (case os_WriteObject OS (rt_Target task) (rt_Key task) (rt_Version task) src s of
             (Inl err, _, s1) \<Rightarrow> (Some err, s1)
           | (Inr _, taken, s1) \<Rightarrow>
               if rt_Checksum task \<noteq> '''' \<and> H taken \<noteq> rt_Checksum task
               then (Some ErrChecksumMismatch,
                     snd (os_DeleteObject OS (rt_Target task) (rt_Key task) (rt_Version task) s1))
               else (None, s1)))"

section \<open>The contract of an object store\<close>

text \<open>
  \<open>content s x\<close> is what object \<open>x\<close> holds in state \<open>s\<close>, \<open>okid\<close> says for which names the store
  makes its promises, \<open>oinv\<close> is its representation invariant. A call may fail; a write or read
  that succeeds has done its work, a read announces the object's size and delivers no byte that
  is not in it, and in every case the other objects are as they were. A deletion may be
  reported as done when it has failed: the HTTP store does that.
\<close>

locale object_store =
  fixes OS :: "'s ObjectStore" and content :: "'s \<Rightarrow> object_id \<Rightarrow> byte list option"
    and oinv :: "'s \<Rightarrow> bool" and okid :: "object_id \<Rightarrow> bool"
  assumes write_inv: "oinv s \<Longrightarrow> okid (n, k, v) \<Longrightarrow> oinv (snd (snd (os_WriteObject OS n k v rd s)))"
    and write_done: "oinv s \<Longrightarrow> okid (n, k, v) \<Longrightarrow> os_WriteObject OS n k v rd s = (Inr len, taken, s') \<Longrightarrow>
          drain (rd_reads rd) = (taken, None) \<and> len = int (length taken) \<and> content s' (n, k, v) = Some taken"
    and write_frame: "oinv s \<Longrightarrow> okid (n, k, v) \<Longrightarrow> okid x \<Longrightarrow> x \<noteq> (n, k, v) \<Longrightarrow>
          content (snd (snd (os_WriteObject OS n k v rd s))) x = content s x"
    and read_done: "oinv s \<Longrightarrow> okid (n, k, v) \<Longrightarrow> os_ReadObject OS n k v s = Inr (len, rd) \<Longrightarrow>
          drain (rd_reads rd) = (d, None) \<Longrightarrow> content s (n, k, v) = Some d"
    and read_size: "oinv s \<Longrightarrow> okid (n, k, v) \<Longrightarrow> os_ReadObject OS n k v s = Inr (len, rd) \<Longrightarrow>
          \<exists>d rest. content s (n, k, v) = Some d \<and> len = int (length d) \<and> d = fst (drain (rd_reads rd)) @ rest"
    and delete_inv: "oinv s \<Longrightarrow> okid (n, k, v) \<Longrightarrow> oinv (snd (os_DeleteObject OS n k v s))"
    and delete_self: "oinv s \<Longrightarrow> okid (n, k, v) \<Longrightarrow>
          content (snd (os_DeleteObject OS n k v s)) (n, k, v) \<in> {None, content s (n, k, v)}"
    and delete_frame: "oinv s \<Longrightarrow> okid (n, k, v) \<Longrightarrow> okid x \<Longrightarrow> x \<noteq> (n, k, v) \<Longrightarrow>
          content (snd (os_DeleteObject OS n k v s)) x = content s x"
begin

lemma write_effect:
  assumes "oinv s" and "okid (n, k, v)" and "os_WriteObject OS n k v rd s = (r, taken, s')"
  shows "oinv s'" and "\<And>x. okid x \<Longrightarrow> x \<noteq> (n, k, v) \<Longrightarrow> content s' x = content s x"
  using assms write_inv [of s n k v rd] write_frame [of s n k v _ rd] by auto

lemma deleteChunkObjects_ok:
  assumes "oinv s" and "\<And>key. key \<in> set keys \<Longrightarrow> okid (n, key, v)"
  shows "oinv (deleteChunkObjects OS n v keys s) \<and>
    (\<forall>x. okid x \<longrightarrow> content (deleteChunkObjects OS n v keys s) x \<in> {None, content s x}) \<and>
    (\<forall>x. okid x \<longrightarrow> x \<notin> (\<lambda>key. (n, key, v)) ` set keys \<longrightarrow>
       content (deleteChunkObjects OS n v keys s) x = content s x)"
  using assms
proof (induction keys arbitrary: s)
  case Nil
  then show ?case by simp
next
  case (Cons key keys)
  let ?s = "snd (os_DeleteObject OS n key v s)"
  have ok: "okid (n, key, v)" using Cons.prems(2) by simp
  have s: "oinv ?s" and self: "content ?s (n, key, v) \<in> {None, content s (n, key, v)}"
    and frame: "\<And>x. okid x \<Longrightarrow> x \<noteq> (n, key, v) \<Longrightarrow> content ?s x = content s x"
    using delete_inv delete_self delete_frame Cons.prems(1) ok by auto
  have "content ?s x \<in> {None, content s x}" if "okid x" for x
    using self frame [OF that] by (cases "x = (n, key, v)") auto
  with Cons.IH [OF s] Cons.prems(2) frame show ?case by fastforce
qed

end

text \<open>
  Over any store that meets the contract.
\<close>

context object_store begin

lemma replicateLoop_frame:
  assumes "oinv s" and "\<And>c. c \<in> set chunks \<Longrightarrow> okid (chunk_id (rt_Target task) (rt_Key task) (rt_Version task) c)"
    and "\<And>key. key \<in> set written \<Longrightarrow> okid (rt_Target task, key, rt_Version task)"
    and "replicateLoop H OS task chunks full written s = (r, s')"
  shows "oinv s' \<and> (\<forall>x. okid x \<longrightarrow>
      x \<notin> chunk_id (rt_Target task) (rt_Key task) (rt_Version task) ` set chunks \<longrightarrow>
      x \<notin> (\<lambda>key. (rt_Target task, key, rt_Version task)) ` set written \<longrightarrow> content s' x = content s x)"
  using assms
proof (induction chunks arbitrary: full written s)
  case Nil
  then show ?case
    using deleteChunkObjects_ok [OF Nil.prems(1), of written "rt_Target task" "rt_Version task"]
    by (auto split: if_splits)
next
  case (Cons c chunks)
  let ?key = "chunkObjectKey (rt_Key task) (cm_Index c)"
  let ?del = "\<lambda>s. deleteChunkObjects OS (rt_Target task) (rt_Version task) written s"
  have ok: "okid (rt_Target task, ?key, rt_Version task)" using Cons.prems(2) by (simp add: chunk_id_def)
  note del = deleteChunkObjects_ok [OF _ Cons.prems(3)]
  show ?case
  proof (cases "os_ReadObject OS (rt_Source task) ?key (rt_Version task) s")
    case (Inl e)
    with Cons.prems show ?thesis by (auto simp: Let_def)
  next
    case (Inr p)
    obtain len src where p: "p = (len, src)" by (cases p)
    obtain w taken s1 where wr: "os_WriteObject OS (rt_Target task) ?key (rt_Version task) src s = (w, taken, s1)"
      by (metis prod_cases3)
    note s1 = write_effect [OF Cons.prems(1) ok wr]
    let ?s2 = "snd (os_DeleteObject OS (rt_Target task) ?key (rt_Version task) s1)"
    have s2: "oinv ?s2" "\<And>x. okid x \<Longrightarrow> x \<noteq> (rt_Target task, ?key, rt_Version task) \<Longrightarrow> content ?s2 x = content s1 x"
      using delete_inv [OF s1(1) ok] delete_frame [OF s1(1) ok] by auto
    have ok': "okid (rt_Target task, key, rt_Version task)" if "key \<in> set (written @ [?key])" for key
      using that Cons.prems(3) ok by auto
    from Cons.prems(4) Inr p wr consider
        "s' = ?del s1" | "s' = ?del ?s2"
      | "replicateLoop H OS task chunks (full @ taken) (written @ [?key]) s1 = (r, s')"
      by (auto simp: Let_def split: sum.splits option.splits if_splits)
    then show ?thesis
    proof cases
      case 1
      with del [OF s1(1)] s1(2) show ?thesis by (auto simp: chunk_id_def)
    next
      case 2
      with del [OF s2(1)] s1(2) s2(2) show ?thesis by (auto simp: chunk_id_def)
    next
      case 3
      from Cons.IH [OF s1(1) _ ok' 3] Cons.prems(2) s1(2) show ?thesis by (auto simp: chunk_id_def)
    qed
  qed
qed

lemma replicateLoop_success:
  assumes "oinv s" and "\<And>n c. n \<in> {rt_Source task, rt_Target task} \<Longrightarrow> c \<in> set chunks \<Longrightarrow>
        okid (chunk_id n (rt_Key task) (rt_Version task) c)"
    and "rt_Source task \<noteq> rt_Target task"
    and "replicateLoop H OS task chunks full written s = (None, s')"
  shows "oinv s' \<and>
    (\<forall>x. okid x \<longrightarrow> x \<notin> chunk_id (rt_Target task) (rt_Key task) (rt_Version task) ` set chunks \<longrightarrow>
       content s' x = content s x) \<and>
    (\<exists>datas. list_all2 (\<lambda>c d.
          content s (chunk_id (rt_Source task) (rt_Key task) (rt_Version task) c) = Some d \<and>
          content s' (chunk_id (rt_Target task) (rt_Key task) (rt_Version task) c) = Some d \<and>
          int (length d) = cm_Size c \<and> H d = cm_Checksum c) chunks datas \<and>
        (rt_Checksum task \<noteq> '''' \<longrightarrow> H (full @ concat datas) = rt_Checksum task))"
  using assms
proof (induction chunks arbitrary: full written s)
  case Nil
  then show ?case by (auto split: if_splits)
next
  case (Cons c chunks)
  let ?id = "\<lambda>n. chunk_id n (rt_Key task) (rt_Version task)"
  let ?key = "chunkObjectKey (rt_Key task) (cm_Index c)"
  have ok: "okid (rt_Target task, ?key, rt_Version task)" "okid (rt_Source task, ?key, rt_Version task)"
    using Cons.prems(2) by (auto simp: chunk_id_def)
  from Cons.prems(4) obtain len src n taken s1
    where read: "os_ReadObject OS (rt_Source task) ?key (rt_Version task) s = Inr (len, src)"
      and wr: "os_WriteObject OS (rt_Target task) ?key (rt_Version task) src s = (Inr n, taken, s1)"
      and good: "n = cm_Size c" "H taken = cm_Checksum c"
      and rest: "replicateLoop H OS task chunks (full @ taken) (written @ [?key]) s1 = (None, s')"
    by (auto simp: Let_def split: sum.splits option.splits if_splits prod.splits)
  note s1 = write_effect [OF Cons.prems(1) ok(1) wr]
  note stored = write_done [OF Cons.prems(1) ok(1) wr]
  have src: "content s (?id (rt_Source task) c) = Some taken"
    using read_done [OF Cons.prems(1) ok(2) read] stored by (simp add: chunk_id_def)
  have same: "content s1 (?id (rt_Source task) c') = content s (?id (rt_Source task) c')"
    if "c' \<in> set (c # chunks)" for c'
    using s1(2) Cons.prems(2,3) that by (simp add: chunk_id_def)
  from Cons.IH [OF s1(1) _ Cons.prems(3) rest] Cons.prems(2) obtain datas
    where inv: "oinv s'" and frame: "\<And>x. okid x \<Longrightarrow> x \<notin> ?id (rt_Target task) ` set chunks \<Longrightarrow> content s' x = content s1 x"
      and all: "list_all2 (\<lambda>c d. content s1 (?id (rt_Source task) c) = Some d \<and>
          content s' (?id (rt_Target task) c) = Some d \<and>
          int (length d) = cm_Size c \<and> H d = cm_Checksum c) chunks datas"
      and full: "rt_Checksum task \<noteq> '''' \<longrightarrow> H ((full @ taken) @ concat datas) = rt_Checksum task"
    by auto
  have "content s' (?id (rt_Target task) c) = Some taken"
  proof (cases "?id (rt_Target task) c \<in> ?id (rt_Target task) ` set chunks")
    case True
    then obtain c' where c': "c' \<in> set chunks" "cm_Index c' = cm_Index c"
      by (auto simp: chunk_id_eq_iff)
    then have "?id m c' = ?id m c" for m by (simp add: chunk_id_def)
    moreover from c'(1) all obtain d where "content s1 (?id (rt_Source task) c') = Some d"
      and "content s' (?id (rt_Target task) c') = Some d"
      by (auto simp: list_all2_conv_all_nth in_set_conv_nth)
    ultimately show ?thesis using same [of c] src by simp
  next
    case False
    with frame ok(1) stored show ?thesis by (simp add: chunk_id_def)
  qed
  moreover have "list_all2 (\<lambda>c d. content s (?id (rt_Source task) c) = Some d \<and>
      content s' (?id (rt_Target task) c) = Some d \<and> int (length d) = cm_Size c \<and> H d = cm_Checksum c) chunks datas"
    using all by (rule list.rel_mono_strong) (simp add: same)
  ultimately have "list_all2 (\<lambda>c d. content s (?id (rt_Source task) c) = Some d \<and>
      content s' (?id (rt_Target task) c) = Some d \<and> int (length d) = cm_Size c \<and> H d = cm_Checksum c)
      (c # chunks) (taken # datas)"
    using src good stored by simp
  moreover have "content s' x = content s x" if "okid x" and "x \<notin> ?id (rt_Target task) ` set (c # chunks)" for x
    using that frame [OF that(1)] s1(2) [OF that(1)] by (auto simp: chunk_id_def)
  ultimately show ?case using inv full by (intro conjI exI [of _ "taken # datas"]) auto
qed

end

text \<open>
  A store whose calls fail only when they must: a disk with room and without faults. Over
  such a store a copy succeeds whenever the source holds what the manifest says, and a copy
  that fails its verification leaves no trace of itself.
\<close>

locale reliable_object_store = object_store +
  assumes write_succeeds: "oinv s \<Longrightarrow> okid (n, k, v) \<Longrightarrow> drain (rd_reads rd) = (d, None) \<Longrightarrow>
        \<exists>s'. os_WriteObject OS n k v rd s = (Inr (int (length d)), d, s')"
    and read_succeeds: "oinv s \<Longrightarrow> okid (n, k, v) \<Longrightarrow> content s (n, k, v) = Some d \<Longrightarrow>
        \<exists>rd. os_ReadObject OS n k v s = Inr (int (length d), rd) \<and> drain (rd_reads rd) = (d, None) \<and> rd_close rd = None"
    and read_absent: "oinv s \<Longrightarrow> okid (n, k, v) \<Longrightarrow> content s (n, k, v) = None \<Longrightarrow>
        \<exists>e. os_ReadObject OS n k v s = Inl e \<and> e \<noteq> ErrChecksumMismatch"
    and delete_succeeds: "oinv s \<Longrightarrow> okid (n, k, v) \<Longrightarrow> fst (os_DeleteObject OS n k v s) = Inr ()"
    and delete_removes: "oinv s \<Longrightarrow> okid (n, k, v) \<Longrightarrow> content (snd (os_DeleteObject OS n k v s)) (n, k, v) = None"
    and has_iff: "oinv s \<Longrightarrow> okid (n, k, v) \<Longrightarrow> os_HasObject OS n k v s \<longleftrightarrow> content s (n, k, v) \<noteq> None"
begin

text \<open>Copying one object that is there.\<close>

lemma copy_object:
  assumes "oinv s" and "okid (n, k, v)" and "okid (n', k', v')" and "content s (n, k, v) = Some d"
  obtains rd s1 where "os_ReadObject OS n k v s = Inr (int (length d), rd)" and "rd_close rd = None"
    and "os_WriteObject OS n' k' v' rd s = (Inr (int (length d)), d, s1)" and "oinv s1"
    and "\<And>x. okid x \<Longrightarrow> x \<noteq> (n', k', v') \<Longrightarrow> content s1 x = content s x"
  using read_succeeds [OF assms(1,2,4)] write_succeeds [OF assms(1,3)] write_effect [OF assms(1,3)]
  by metis

lemma deleteChunkObjects_gone:
  assumes "oinv s" and "\<And>key. key \<in> set keys \<Longrightarrow> okid (n, key, v)" and "key \<in> set keys"
  shows "content (deleteChunkObjects OS n v keys s) (n, key, v) = None"
  using assms
proof (induction keys arbitrary: s)
  case Nil
  then show ?case by simp
next
  case (Cons k keys)
  let ?s = "snd (os_DeleteObject OS n k v s)"
  have ok: "okid (n, k, v)" using Cons.prems(2) by simp
  have s: "oinv ?s" using Cons.prems(1) ok by (rule delete_inv)
  show ?case
  proof (cases "key \<in> set keys")
    case True
    with Cons.IH [OF s] Cons.prems(2) show ?thesis by simp
  next
    case False
    with Cons.prems(3) have "key = k" by simp
    moreover have "content ?s (n, k, v) = None"
      using delete_removes [OF Cons.prems(1) ok] .
    moreover have "content (deleteChunkObjects OS n v keys ?s) (n, k, v) \<in> {None, content ?s (n, k, v)}"
      using deleteChunkObjects_ok [OF s, of keys n v] Cons.prems(2) ok by simp
    ultimately show ?thesis by simp
  qed
qed

lemma replicateLoop_completes:
  assumes "oinv s" and "\<And>n c. n \<in> {rt_Source task, rt_Target task} \<Longrightarrow> c \<in> set chunks \<Longrightarrow>
        okid (chunk_id n (rt_Key task) (rt_Version task) c)"
    and "rt_Source task \<noteq> rt_Target task"
    and "list_all2 (\<lambda>c d. content s (chunk_id (rt_Source task) (rt_Key task) (rt_Version task) c) = Some d \<and>
          int (length d) = cm_Size c \<and> H d = cm_Checksum c) chunks datas"
    and "rt_Checksum task = '''' \<or> H (full @ concat datas) = rt_Checksum task"
  shows "fst (replicateLoop H OS task chunks full written s) = None"
  using assms
proof (induction chunks arbitrary: full written s datas)
  case Nil
  then show ?case by simp
next
  case (Cons c chunks)
  let ?key = "chunkObjectKey (rt_Key task) (cm_Index c)"
  have ok: "okid (rt_Target task, ?key, rt_Version task)" "okid (rt_Source task, ?key, rt_Version task)"
    using Cons.prems(2) by (auto simp: chunk_id_def)
  from Cons.prems(4) obtain d ds where datas: "datas = d # ds"
    and d: "content s (rt_Source task, ?key, rt_Version task) = Some d" "int (length d) = cm_Size c" "H d = cm_Checksum c"
    and rest: "list_all2 (\<lambda>c d. content s (chunk_id (rt_Source task) (rt_Key task) (rt_Version task) c) = Some d \<and>
          int (length d) = cm_Size c \<and> H d = cm_Checksum c) chunks ds"
    by (auto simp: list_all2_Cons1 chunk_id_def)
  obtain rd s1 where rd: "os_ReadObject OS (rt_Source task) ?key (rt_Version task) s = Inr (int (length d), rd)"
      "rd_close rd = None"
    and wr: "os_WriteObject OS (rt_Target task) ?key (rt_Version task) rd s = (Inr (int (length d)), d, s1)"
    and s1: "oinv s1" "\<And>x. okid x \<Longrightarrow> x \<noteq> (rt_Target task, ?key, rt_Version task) \<Longrightarrow> content s1 x = content s x"
    using copy_object [OF Cons.prems(1) ok(2) ok(1) d(1)] by metis
  have "list_all2 (\<lambda>c d. content s1 (chunk_id (rt_Source task) (rt_Key task) (rt_Version task) c) = Some d \<and>
      int (length d) = cm_Size c \<and> H d = cm_Checksum c) chunks ds"
    using rest by (rule list.rel_mono_strong) (use s1(2) Cons.prems(2,3) in \<open>simp add: chunk_id_def\<close>)
  with Cons.IH [OF s1(1)] Cons.prems(2,3,5) datas
  have "fst (replicateLoop H OS task chunks (full @ d) (written @ [?key]) s1) = None" by simp
  with rd wr d show ?case by (simp add: Let_def)
qed

lemma replicateLoop_mismatch:
  assumes "oinv s" and "\<And>n c. n \<in> {rt_Source task, rt_Target task} \<Longrightarrow> c \<in> set chunks \<Longrightarrow>
        okid (chunk_id n (rt_Key task) (rt_Version task) c)"
    and "\<And>key. key \<in> set written \<Longrightarrow> okid (rt_Target task, key, rt_Version task)"
    and "replicateLoop H OS task chunks full written s = (Some ErrChecksumMismatch, s')"
  shows "\<forall>x. okid x \<longrightarrow> content s' x \<in> {None, content s x}"
    and "key \<in> set written \<Longrightarrow> content s' (rt_Target task, key, rt_Version task) = None"
proof -
  let ?id = "chunk_id (rt_Target task) (rt_Key task) (rt_Version task)"
  let ?del = "deleteChunkObjects OS (rt_Target task) (rt_Version task)"
  have "(\<forall>x. okid x \<longrightarrow> content s' x \<in> {None, content s x}) \<and>
     (\<forall>key \<in> set written. content s' (rt_Target task, key, rt_Version task) = None)"
    using assms
  proof (induction chunks arbitrary: full written s)
    case Nil
    then have "s' = ?del written s" by (auto split: if_splits)
    with deleteChunkObjects_ok [OF Nil.prems(1,3)] deleteChunkObjects_gone [OF Nil.prems(1,3)]
    show ?case by simp
  next
    case (Cons c chunks)
    let ?key = "chunkObjectKey (rt_Key task) (cm_Index c)"
    have ok: "okid (rt_Target task, ?key, rt_Version task)" "okid (rt_Source task, ?key, rt_Version task)"
      using Cons.prems(2) by (auto simp: chunk_id_def)
    obtain d where d: "content s (rt_Source task, ?key, rt_Version task) = Some d"
      using Cons.prems(4) read_absent [OF Cons.prems(1) ok(2)]
      by (cases "content s (rt_Source task, ?key, rt_Version task)") (auto simp: Let_def)
    obtain rd s1 where rd: "os_ReadObject OS (rt_Source task) ?key (rt_Version task) s = Inr (int (length d), rd)"
        "rd_close rd = None"
      and wr: "os_WriteObject OS (rt_Target task) ?key (rt_Version task) rd s = (Inr (int (length d)), d, s1)"
      and s1: "oinv s1" "\<And>x. okid x \<Longrightarrow> x \<noteq> (rt_Target task, ?key, rt_Version task) \<Longrightarrow> content s1 x = content s x"
      using copy_object [OF Cons.prems(1) ok(2) ok(1) d] by metis
    let ?s2 = "snd (os_DeleteObject OS (rt_Target task) ?key (rt_Version task) s1)"
    have okw: "okid (rt_Target task, key, rt_Version task)" if "key \<in> set (written @ [?key])" for key
      using that Cons.prems(3) ok by auto
    have settle: "content s' x \<in> {None, content s x}"
      if "okid x" and "content s' x \<in> {None, content s1 x}"
        and "x = (rt_Target task, ?key, rt_Version task) \<longrightarrow> content s' x = None" for x
      using that s1(2) [OF that(1)] by (cases "x = (rt_Target task, ?key, rt_Version task)") auto
    show ?case
    proof (cases "int (length d) = cm_Size c \<and> H d = cm_Checksum c")
      case True
      with Cons.prems(4) rd wr
      have run: "replicateLoop H OS task chunks (full @ d) (written @ [?key]) s1 = (Some ErrChecksumMismatch, s')"
        by (simp add: Let_def)
      from Cons.IH [OF s1(1) Cons.prems(2) okw run] settle show ?thesis by simp
    next
      case False
      with Cons.prems(4) rd wr have s': "s' = ?del written ?s2" by (auto simp: Let_def)
      have s2: "oinv ?s2" "content ?s2 (rt_Target task, ?key, rt_Version task) = None"
        "\<And>x. okid x \<Longrightarrow> x \<noteq> (rt_Target task, ?key, rt_Version task) \<Longrightarrow> content ?s2 x = content s1 x"
        using delete_inv [OF s1(1) ok(1)] delete_frame [OF s1(1) ok(1)]
          delete_removes [OF s1(1) ok(1)] by auto
      have mono: "content s' x \<in> {None, content ?s2 x}" if "okid x" for x
        using deleteChunkObjects_ok [OF s2(1), of written "rt_Target task" "rt_Version task"]
          Cons.prems(3) that unfolding s' by blast
      then have self: "content s' (rt_Target task, ?key, rt_Version task) = None"
        using ok(1) s2(2) by force
      have "content s' x \<in> {None, content s x}" if "okid x" for x
      proof (rule settle [OF that])
        show "content s' x \<in> {None, content s1 x}"
          using mono [OF that] s2(3) [OF that] self by (cases "x = (rt_Target task, ?key, rt_Version task)") auto
      qed (use self in simp)
      with deleteChunkObjects_gone [OF s2(1) Cons.prems(3)] s' show ?thesis by simp
    qed
  qed
  then show "\<forall>x. okid x \<longrightarrow> content s' x \<in> {None, content s x}"
    and "key \<in> set written \<Longrightarrow> content s' (rt_Target task, key, rt_Version task) = None"
    by blast+
qed

end

end
