(* ===== verification/Disk_Store.thy ===== *)
theory Disk_Store
  imports Object_Store
begin

text \<open>
  The store of a node's objects in the file system, \<open>src/distributed-fs/store.go\<close>, and the
  adapter \<open>LocalObjectStore\<close> of \<open>object.go\<close>.

  \<^item> Paths as \<open>path/filepath\<close> has them: a flag for a leading slash and the list of
    components, made by \<open>Clean\<close>.
  \<^item> A file system as a table from paths to directories and files, with the calls of
    package \<open>os\<close> that the store makes. A call can be made to fail, and a file can be short
    of room, so that the error branches of the store are there.
  \<^item> The store, its key-to-path transformations included. SHA-1 in hexadecimal is the
    parameter \<open>D\<close>; the promises of the store hold for object names on which it has no
    collision.
  \<^item> The interpretations that show that \<open>LocalObjectStore\<close> meets the contracts of
    \<open>Object_Store\<close>.
\<close>

section \<open>Paths\<close>

text \<open>\<open>strings.Split(s, "/")\<close> and \<open>strings.Join(ws, "/")\<close>.\<close>

fun split_slash :: "string \<Rightarrow> string list" where
  "split_slash [] = [[]]"
| "split_slash (c # cs) =
     (if c = CHR ''/'' then [] # split_slash cs
      else case split_slash cs of [] \<Rightarrow> [[c]] | w # ws \<Rightarrow> (c # w) # ws)"

fun join_slash :: "string list \<Rightarrow> string" where
  "join_slash [] = ''''"
| "join_slash [w] = w"
| "join_slash (w # ws) = w @ CHR ''/'' # join_slash ws"

type_synonym path = "bool \<times> string list"

text \<open>The loop of \<open>filepath.Clean\<close>; the second argument is the output so far, last component first.\<close>

fun clean_comps :: "bool \<Rightarrow> string list \<Rightarrow> string list \<Rightarrow> string list" where
  "clean_comps rooted out [] = rev out"
| "clean_comps rooted out (c # cs) =
     (if c = '''' \<or> c = ''.'' then clean_comps rooted out cs
      else if c = ''..'' then
        (case out of
           [] \<Rightarrow> clean_comps rooted (if rooted then [] else [''..'']) cs
         | t # ts \<Rightarrow> clean_comps rooted (if t = ''..'' then c # out else ts) cs)
      else clean_comps rooted (c # out) cs)"

definition filepath_Clean :: "string \<Rightarrow> path" where
  "filepath_Clean s =
     (let rooted = (case s of [] \<Rightarrow> False | c # _ \<Rightarrow> c = CHR ''/'')
      in (rooted, clean_comps rooted [] (split_slash s)))"

definition filepath_Join :: "string list \<Rightarrow> path" where
  "filepath_Join elems = filepath_Clean (join_slash (dropWhile (\<lambda>e. e = '''') elems))"

definition filepath_Dir :: "path \<Rightarrow> path" where
  "filepath_Dir p = (fst p, butlast (snd p))"

definition path_string :: "path \<Rightarrow> string" where
  "path_string p =
     (if fst p then CHR ''/'' # join_slash (snd p)
      else if snd p = [] then ''.'' else join_slash (snd p))"

section \<open>The file system\<close>

datatype fnode = Dir | File "byte list"

datatype fs_op = OpStat | OpOpen | OpMkdir | OpCreate | OpRemove

text \<open>
  The table of what exists, the faults of the medium (the message with which an operation on
  a path fails), the size a file can grow to, and what \<open>Stat\<close> says of a directory's size.
\<close>

record file_system =
  fs_tree :: "(path \<times> fnode) list"
  fs_fault :: "fs_op \<Rightarrow> path \<Rightarrow> string option"
  fs_room :: "path \<Rightarrow> nat option"
  fs_dirsize :: int

text \<open>The root, the working directory and the directories above it are always there.\<close>

definition base_dir :: "path \<Rightarrow> bool" where
  "base_dir p \<longleftrightarrow> list_all (\<lambda>c. c = ''..'') (snd p)"

definition fs_node :: "file_system \<Rightarrow> path \<Rightarrow> fnode option" where
  "fs_node fs p = (if base_dir p then Some Dir else map_of (fs_tree fs) p)"

definition fs_set :: "path \<Rightarrow> fnode \<Rightarrow> file_system \<Rightarrow> file_system" where
  "fs_set p n fs = fs\<lparr>fs_tree := AList.update p n (fs_tree fs)\<rparr>"

definition fs_unset :: "path \<Rightarrow> file_system \<Rightarrow> file_system" where
  "fs_unset p fs = fs\<lparr>fs_tree := AList.delete p (fs_tree fs)\<rparr>"

text \<open>The path and everything above it, from the top.\<close>

definition prefixes :: "path \<Rightarrow> path list" where
  "prefixes p = map (\<lambda>i. (fst p, take i (snd p))) [0..<Suc (length (snd p))]"

text \<open>Resolving a path: a file on the way is an error of its own.\<close>

definition fs_lookup :: "file_system \<Rightarrow> path \<Rightarrow> fnode result" where
  "fs_lookup fs p =
     (if list_ex (\<lambda>q. case fs_node fs q of Some (File _) \<Rightarrow> True | _ \<Rightarrow> False) (butlast (prefixes p))
      then Inl ENOTDIR
      else case fs_node fs p of None \<Rightarrow> Inl ErrNotExist | Some n \<Rightarrow> Inr n)"

definition fs_children :: "file_system \<Rightarrow> path \<Rightarrow> path list" where
  "fs_children fs p =
     filter (\<lambda>q. snd q \<noteq> [] \<and> filepath_Dir q = p) (map fst (fs_tree fs))"

definition os_Stat :: "path \<Rightarrow> file_system \<Rightarrow> fnode result" where
  "os_Stat p fs = (case fs_fault fs OpStat p of Some msg \<Rightarrow> Inl (ErrOther msg) | None \<Rightarrow> fs_lookup fs p)"

fun mkdir_each :: "path list \<Rightarrow> file_system \<Rightarrow> unit result \<times> file_system" where
  "mkdir_each [] fs = (Inr (), fs)"
| "mkdir_each (q # qs) fs =
     (case fs_node fs q of
        Some Dir \<Rightarrow> mkdir_each qs fs
      | Some (File _) \<Rightarrow> (Inl ENOTDIR, fs)
      | None \<Rightarrow>
          (case fs_fault fs OpMkdir q of
             Some msg \<Rightarrow> (Inl (ErrOther msg), fs)
           | None \<Rightarrow> mkdir_each qs (fs_set q Dir fs)))"

definition os_MkdirAll :: "path \<Rightarrow> file_system \<Rightarrow> unit result \<times> file_system" where
  "os_MkdirAll p fs = mkdir_each (prefixes p) fs"

text \<open>\<open>Create\<close> makes the file or truncates it.\<close>

definition os_Create :: "path \<Rightarrow> file_system \<Rightarrow> unit result \<times> file_system" where
  "os_Create p fs =
     (case fs_fault fs OpCreate p of
        Some msg \<Rightarrow> (Inl (ErrOther msg), fs)
      | None \<Rightarrow>
          (case fs_lookup fs (filepath_Dir p) of
             Inl e \<Rightarrow> (Inl e, fs)
           | Inr (File _) \<Rightarrow> (Inl ENOTDIR, fs)
           | Inr Dir \<Rightarrow>
               (if fs_node fs p = Some Dir then (Inl EISDIR, fs) else (Inr (), fs_set p (File []) fs))))"

text \<open>\<open>Open\<close> and \<open>Stat\<close> of the opened file: its size and a stream. A directory opens too; reading it fails.\<close>

definition os_Open :: "path \<Rightarrow> file_system \<Rightarrow> (int \<times> reader) result" where
  "os_Open p fs =
     (case fs_fault fs OpOpen p of
        Some msg \<Rightarrow> Inl (ErrOther msg)
      | None \<Rightarrow>
          (case fs_lookup fs p of
             Inl e \<Rightarrow> Inl e
           | Inr (File d) \<Rightarrow> Inr (int (length d), bytes_reader d)
           | Inr Dir \<Rightarrow> Inr (fs_dirsize fs, \<lparr>rd_reads = [([], ReadFailed EISDIR)], rd_close = None\<rparr>)))"

definition os_Remove :: "path \<Rightarrow> file_system \<Rightarrow> unit result \<times> file_system" where
  "os_Remove p fs =
     (case fs_fault fs OpRemove p of
        Some msg \<Rightarrow> (Inl (ErrOther msg), fs)
      | None \<Rightarrow>
          (case fs_lookup fs p of
             Inl e \<Rightarrow> (Inl e, fs)
           | Inr (File _) \<Rightarrow> (Inr (), fs_unset p fs)
           | Inr Dir \<Rightarrow>
               (if base_dir p then (Inl (ErrOther ''invalid argument''), fs)
                else if fs_children fs p \<noteq> [] then (Inl ENOTEMPTY, fs)
                else (Inr (), fs_unset p fs))))"

text \<open>Removal of a whole tree; nothing to remove is no error.\<close>

definition under :: "path \<Rightarrow> path \<Rightarrow> bool" where
  "under p q \<longleftrightarrow> fst q = fst p \<and> take (length (snd p)) (snd q) = snd p"

definition os_RemoveAll :: "path \<Rightarrow> file_system \<Rightarrow> unit result \<times> file_system" where
  "os_RemoveAll p fs =
     (case fs_fault fs OpRemove p of
        Some msg \<Rightarrow> (Inl (ErrOther msg), fs)
      | None \<Rightarrow>
          (case fs_lookup fs p of
             Inl ErrNotExist \<Rightarrow> (Inr (), fs)
           | Inl e \<Rightarrow> (Inl e, fs)
           | Inr _ \<Rightarrow> (Inr (), fs\<lparr>fs_tree := filter (\<lambda>(q, _). \<not> under p q) (fs_tree fs)\<rparr>)))"

section \<open>Keys and paths\<close>

record PathKey =
  pk_PathName :: string
  pk_FileName :: string

type_synonym PathTransformFunc = "string \<Rightarrow> PathKey"

text \<open>The hash of the key, cut into pieces of five characters.\<close>

definition hash_blocks :: "string \<Rightarrow> string list" where
  "hash_blocks hashStr =
     (let blocksize = 5; sliceLen = length hashStr div blocksize
      in map (\<lambda>i. take blocksize (drop (i * blocksize) hashStr)) [0..<sliceLen])"

definition CASPathTransformFunc :: "(string \<Rightarrow> string) \<Rightarrow> PathTransformFunc" where
  "CASPathTransformFunc D key =
     (let hashStr = D key
      in \<lparr>pk_PathName = join_slash (hash_blocks hashStr), pk_FileName = hashStr\<rparr>)"

definition FullPath :: "PathKey \<Rightarrow> string" where
  "FullPath p = pk_PathName p @ ''/'' @ pk_FileName p"

definition FirstPathName :: "PathKey \<Rightarrow> string" where
  "FirstPathName p = (case split_slash (pk_PathName p) of [] \<Rightarrow> '''' | w # _ \<Rightarrow> w)"

definition DefaultPathTransformFunc :: PathTransformFunc where
  "DefaultPathTransformFunc key = \<lparr>pk_PathName = key, pk_FileName = key\<rparr>"

section \<open>The store\<close>

record StoreOpts =
  so_Root :: string
  so_PathTransformFunc :: "PathTransformFunc option"

record Store =
  sto_Root :: string
  sto_PathTransformFunc :: PathTransformFunc

definition defaultRootFolderName :: string where
  "defaultRootFolderName = ''dfs-data''"

definition NewStore :: "StoreOpts \<Rightarrow> Store" where
  "NewStore opts =
     \<lparr>sto_Root = (if length (so_Root opts) = 0 then defaultRootFolderName else so_Root opts),
      sto_PathTransformFunc =
        (case so_PathTransformFunc opts of None \<Rightarrow> DefaultPathTransformFunc | Some f \<Rightarrow> f)\<rparr>"

definition Has :: "Store \<Rightarrow> string \<Rightarrow> string \<Rightarrow> file_system \<Rightarrow> bool" where
  "Has st nid key fs =
     (let pathkey = sto_PathTransformFunc st key
      in os_Stat (filepath_Join [sto_Root st, nid, FullPath pathkey]) fs \<noteq> Inl ErrNotExist)"

definition Clear :: "Store \<Rightarrow> file_system \<Rightarrow> unit result \<times> file_system" where
  "Clear st fs = os_RemoveAll (filepath_Clean (sto_Root st)) fs"

text \<open>The loop climbs towards \<open>stop\<close> and compares the paths as strings.\<close>

function removeEmptyParents :: "path \<Rightarrow> path \<Rightarrow> file_system \<Rightarrow> unit result \<times> file_system" where
  "removeEmptyParents dir stop fs =
     (if dir \<noteq> stop \<and> HasPrefix (path_string dir) (path_string stop) then
        (case os_Remove dir fs of
           (Inl err, fs') \<Rightarrow> if err = ErrNotExist \<or> err = ENOTEMPTY then (Inr (), fs') else (Inl err, fs')
         | (Inr _, fs') \<Rightarrow> removeEmptyParents (filepath_Dir dir) stop fs')
      else (Inr (), fs))"
  by pat_completeness auto

lemma os_Remove_base [simp]: "base_dir p \<Longrightarrow> os_Remove p fs \<noteq> (Inr u, fs')"
  by (auto simp: os_Remove_def fs_lookup_def fs_node_def split: option.splits if_splits)

termination removeEmptyParents
proof (relation "measure (\<lambda>(dir, stop, fs). length (snd dir))", simp, goal_cases)
  case (1 dir stop fs r fs' u)
  then have "\<not> base_dir dir" using os_Remove_base by metis
  then have "snd dir \<noteq> []" by (auto simp: base_dir_def)
  then show ?case by (simp add: filepath_Dir_def)
qed

declare removeEmptyParents.simps [simp del]

definition Delete :: "Store \<Rightarrow> string \<Rightarrow> string \<Rightarrow> file_system \<Rightarrow> unit result \<times> file_system" where
  "Delete st nid key fs =
     (let pathkey = sto_PathTransformFunc st key;
          fullPath = filepath_Join [sto_Root st, nid, FullPath pathkey];
          (r, fs1) = os_Remove fullPath fs
      in case r of
           Inl err \<Rightarrow>
             if err \<noteq> ErrNotExist then (Inl err, fs1)
             else removeEmptyParents (filepath_Dir fullPath) (filepath_Join [sto_Root st, nid]) fs1
         | Inr _ \<Rightarrow> removeEmptyParents (filepath_Dir fullPath) (filepath_Join [sto_Root st, nid]) fs1)"

definition openFileForWriting :: "Store \<Rightarrow> string \<Rightarrow> string \<Rightarrow> file_system \<Rightarrow> path result \<times> file_system" where
  "openFileForWriting st nid key fs =
     (let pathKey = sto_PathTransformFunc st key;
          pathNameWithRoot = filepath_Join [sto_Root st, nid, pk_PathName pathKey]
      in case os_MkdirAll pathNameWithRoot fs of
           (Inl err, fs1) \<Rightarrow> (Inl err, fs1)
         | (Inr _, fs1) \<Rightarrow>
             (let file = filepath_Join [sto_Root st, nid, FullPath pathKey]
              in case os_Create file fs1 of
                   (Inl err, fs2) \<Rightarrow> (Inl err, fs2)
                 | (Inr _, fs2) \<Rightarrow> (Inr file, fs2)))"

text \<open>The answer, the bytes taken from the reader, and the file system.\<close>

definition writeStream ::
  "Store \<Rightarrow> string \<Rightarrow> string \<Rightarrow> reader \<Rightarrow> file_system \<Rightarrow> int result \<times> byte list \<times> file_system" where
  "writeStream st nid key r fs =
     (case openFileForWriting st nid key fs of
        (Inl err, fs1) \<Rightarrow> (Inl err, [], fs1)
      | (Inr f, fs1) \<Rightarrow>
          (let (out, taken, err) = io_copy (fs_room fs1 f) (rd_reads r) []
           in (case err of Some e \<Rightarrow> Inl e | None \<Rightarrow> Inr (int (length out)), taken, fs_set f (File out) fs1)))"

definition Write ::
  "Store \<Rightarrow> string \<Rightarrow> string \<Rightarrow> reader \<Rightarrow> file_system \<Rightarrow> int result \<times> byte list \<times> file_system" where
  "Write st nid key r fs = writeStream st nid key r fs"

definition Read :: "Store \<Rightarrow> string \<Rightarrow> string \<Rightarrow> file_system \<Rightarrow> (int \<times> reader) result" where
  "Read st nid key fs =
     (let pathKey = sto_PathTransformFunc st key
      in os_Open (filepath_Join [sto_Root st, nid, FullPath pathKey]) fs)"

text \<open>\<open>LocalObjectStore\<close>: the store under names that carry the version.\<close>

definition LocalObjectStore :: "Store \<Rightarrow> file_system ObjectStore" where
  "LocalObjectStore st =
     \<lparr>os_WriteObject = (\<lambda>nodeID key version r fs. Write st nodeID (versionedObjectKey key version) r fs),
      os_ReadObject = (\<lambda>nodeID key version fs. Read st nodeID (versionedObjectKey key version) fs),
      os_DeleteObject = (\<lambda>nodeID key version fs. Delete st nodeID (versionedObjectKey key version) fs),
      os_HasObject = (\<lambda>nodeID key version fs. Has st nodeID (versionedObjectKey key version) fs)\<rparr>"

lemma local_store_sel [simp]:
  "os_WriteObject (LocalObjectStore st) n k v rd fs = Write st n (versionedObjectKey k v) rd fs"
  "os_ReadObject (LocalObjectStore st) n k v fs = Read st n (versionedObjectKey k v) fs"
  "os_DeleteObject (LocalObjectStore st) n k v fs = Delete st n (versionedObjectKey k v) fs"
  "os_HasObject (LocalObjectStore st) n k v fs = Has st n (versionedObjectKey k v) fs"
  by (simp_all add: LocalObjectStore_def)

section \<open>What the file system calls do\<close>

text \<open>Every entry stands in a directory.\<close>

definition fs_closed :: "file_system \<Rightarrow> bool" where
  "fs_closed fs \<longleftrightarrow> (\<forall>q. fs_node fs q \<noteq> None \<longrightarrow> snd q \<noteq> [] \<longrightarrow> fs_node fs (filepath_Dir q) = Some Dir)"

definition fault_free :: "file_system \<Rightarrow> bool" where
  "fault_free fs \<longleftrightarrow> fs_fault fs = (\<lambda>op p. None) \<and> fs_room fs = (\<lambda>p. None)"

lemma fs_closedD: "fs_closed fs \<Longrightarrow> fs_node fs q = Some n \<Longrightarrow> snd q \<noteq> [] \<Longrightarrow> fs_node fs (filepath_Dir q) = Some Dir"
  unfolding fs_closed_def by blast

lemma base_dir_Dir [simp]: "base_dir p \<Longrightarrow> base_dir (filepath_Dir p)"
  by (auto simp: base_dir_def filepath_Dir_def list_all_iff dest: in_set_butlastD)

lemma base_dir_Nil [simp]: "base_dir (r, [])"
  by (simp add: base_dir_def)

lemma fs_node_set [simp]: "fs_node (fs_set p n fs) q = (if q = p \<and> \<not> base_dir p then Some n else fs_node fs q)"
  by (simp add: fs_node_def fs_set_def update_conv')

lemma fs_node_unset [simp]: "fs_node (fs_unset p fs) q = (if q = p \<and> \<not> base_dir p then None else fs_node fs q)"
  by (simp add: fs_node_def fs_unset_def delete_conv')

lemma fs_env_set [simp]: "fs_fault (fs_set p n fs) = fs_fault fs" "fs_room (fs_set p n fs) = fs_room fs"
  "fs_fault (fs_unset p fs) = fs_fault fs" "fs_room (fs_unset p fs) = fs_room fs"
  by (simp_all add: fs_set_def fs_unset_def)

lemma prefixes_snoc: "prefixes (r, cs @ [c]) = prefixes (r, cs) @ [(r, cs @ [c])]"
  by (simp add: prefixes_def)

lemma prefixes_Nil [simp]: "prefixes (r, []) = [(r, [])]"
  by (simp add: prefixes_def)

lemma butlast_prefixes_snoc [simp]: "butlast (prefixes (r, cs @ [c])) = prefixes (r, cs)"
  by (simp add: prefixes_snoc)

lemma prefixes_iff: "q \<in> set (prefixes p) \<longleftrightarrow> (\<exists>i \<le> length (snd p). q = (fst p, take i (snd p)))"
  by (auto simp: prefixes_def less_Suc_eq_le simp del: upt_Suc)

lemma prefixes_Dir: "set (prefixes (filepath_Dir p)) \<subseteq> set (prefixes p)"
proof (cases p)
  case (Pair r cs)
  then show ?thesis by (cases cs rule: rev_cases) (auto simp: filepath_Dir_def prefixes_snoc)
qed

text \<open>In a closed file system everything above an entry is a directory.\<close>

lemma closed_prefixes:
  assumes "fs_closed fs" and "fs_node fs (r, cs) = Some Dir" and "q \<in> set (prefixes (r, cs))"
  shows "fs_node fs q = Some Dir"
  using assms(2,3)
proof (induction cs rule: rev_induct)
  case Nil
  then show ?case by simp
next
  case (snoc c cs)
  from assms(1) snoc.prems(1) have "fs_node fs (r, cs) = Some Dir"
    by (fastforce simp: fs_closed_def filepath_Dir_def)
  with snoc show ?case by (auto simp: prefixes_snoc)
qed

lemma fs_lookup_closed:
  assumes "fs_closed fs" and "fs_node fs p = Some n"
  shows "fs_lookup fs p = Inr n"
proof (cases "snd p" rule: rev_cases)
  case Nil
  then have "prefixes p = [p]" by (simp add: prefixes_def prod_eq_iff)
  with assms show ?thesis by (simp add: fs_lookup_def)
next
  case (snoc cs c)
  then have p: "p = (fst p, cs @ [c])" by (simp add: prod_eq_iff)
  with assms have "fs_node fs (fst p, cs) = Some Dir"
    by (metis butlast_snoc filepath_Dir_def fs_closed_def option.distinct(1) snd_conv snoc_eq_iff_butlast fst_conv)
  then have "\<forall>q \<in> set (butlast (prefixes p)). fs_node fs q = Some Dir"
    using closed_prefixes [OF assms(1)] by (subst p) auto
  with assms(2) show ?thesis by (auto simp: fs_lookup_def list_ex_iff)
qed

lemma closed_set:
  assumes "fs_closed fs" and "snd p \<noteq> [] \<Longrightarrow> fs_node fs (filepath_Dir p) = Some Dir"
    and "fs_node fs p = Some Dir \<Longrightarrow> n = Dir"
  shows "fs_closed (fs_set p n fs)"
  unfolding fs_closed_def
proof (intro allI impI)
  fix q assume q: "fs_node (fs_set p n fs) q \<noteq> None" "snd q \<noteq> []"
  have "fs_node fs (filepath_Dir q) = Some Dir"
    using q assms(1,2) by (cases "q = p") (auto dest: fs_closedD split: if_splits)
  then show "fs_node (fs_set p n fs) (filepath_Dir q) = Some Dir"
    using assms(3) by auto
qed

lemma closed_unset:
  assumes "fs_closed fs" and "fs_node fs p = Some Dir \<Longrightarrow> fs_children fs p = []"
  shows "fs_closed (fs_unset p fs)"
  unfolding fs_closed_def
proof (intro allI impI)
  fix q assume q: "fs_node (fs_unset p fs) q \<noteq> None" "snd q \<noteq> []"
  then have old: "fs_node fs q \<noteq> None" by (auto split: if_splits)
  with q(2) assms(1) have dir: "fs_node fs (filepath_Dir q) = Some Dir" by (auto dest: fs_closedD)
  have "filepath_Dir q \<noteq> p" if "\<not> base_dir p"
  proof
    assume eq: "filepath_Dir q = p"
    with that have "\<not> base_dir q" by auto
    with old have "q \<in> set (map fst (fs_tree fs))"
      by (auto simp: fs_node_def split: if_splits dest: map_of_SomeD intro!: rev_image_eqI)
    with eq q(2) dir assms(2) show False by (auto simp: fs_children_def filter_empty_conv)
  qed
  with dir show "fs_node (fs_unset p fs) (filepath_Dir q) = Some Dir" by auto
qed

lemma mkdir_each_append:
  "mkdir_each (xs @ ys) fs =
     (case mkdir_each xs fs of (Inl e, fs') \<Rightarrow> (Inl e, fs') | (Inr _, fs') \<Rightarrow> mkdir_each ys fs')"
  by (induction xs arbitrary: fs) (auto split: option.splits fnode.splits)

text \<open>
  What may change in the table: \<open>grows\<close> when directories are made, \<open>shrinks\<close> when empty
  directories are removed. Files stay as they are either way.
\<close>

definition same_env :: "file_system \<Rightarrow> file_system \<Rightarrow> bool" where
  "same_env fs fs' \<longleftrightarrow> fs_fault fs' = fs_fault fs \<and> fs_room fs' = fs_room fs"

definition grows :: "path set \<Rightarrow> file_system \<Rightarrow> file_system \<Rightarrow> bool" where
  "grows P fs fs' \<longleftrightarrow> same_env fs fs' \<and> (fs_closed fs \<longrightarrow> fs_closed fs') \<and>
     (\<forall>q. fs_node fs' q = fs_node fs q \<or> q \<in> P \<and> fs_node fs q = None \<and> fs_node fs' q = Some Dir)"

definition shrinks :: "file_system \<Rightarrow> file_system \<Rightarrow> bool" where
  "shrinks fs fs' \<longleftrightarrow> same_env fs fs' \<and> (fs_closed fs \<longrightarrow> fs_closed fs') \<and>
     (\<forall>q. fs_node fs' q = fs_node fs q \<or> fs_node fs q = Some Dir \<and> fs_node fs' q = None)"

lemma same_env_simps [simp]: "same_env fs fs" "same_env fs (fs_set p n fs)" "same_env fs (fs_unset p fs)"
  by (simp_all add: same_env_def)

lemma shrinks_refl [simp]: "shrinks fs fs"
  by (simp add: shrinks_def)

lemma shrinks_trans: "shrinks fs fs' \<Longrightarrow> shrinks fs' fs'' \<Longrightarrow> shrinks fs fs''"
  unfolding shrinks_def same_env_def by (metis option.distinct(1))

lemma shrinks_not_file:
  "shrinks fs fs' \<Longrightarrow> fs_node fs q \<noteq> Some (File d) \<Longrightarrow> fs_node fs' q \<noteq> Some (File d)"
  unfolding shrinks_def by (metis option.distinct(1))

lemma grows_refl [simp]: "grows P fs fs"
  by (simp add: grows_def)

lemma grows_trans:
  assumes "grows P fs fs'" and "grows Q fs' fs''" and "P \<union> Q \<subseteq> R"
  shows "grows R fs fs''"
  unfolding grows_def
proof (intro conjI allI)
  fix q
  have "fs_node fs' q = fs_node fs q \<or> q \<in> P \<and> fs_node fs q = None \<and> fs_node fs' q = Some Dir"
    and "fs_node fs'' q = fs_node fs' q \<or> q \<in> Q \<and> fs_node fs' q = None \<and> fs_node fs'' q = Some Dir"
    using assms(1,2) unfolding grows_def by blast+
  with assms(3) show "fs_node fs'' q = fs_node fs q \<or> q \<in> R \<and> fs_node fs q = None \<and> fs_node fs'' q = Some Dir"
    by auto
qed (use assms(1,2) in \<open>auto simp: grows_def same_env_def\<close>)

lemma MkdirAll_spec:
  assumes "os_MkdirAll (r, cs) fs = (res, fs')"
  shows "grows (set (prefixes (r, cs))) fs fs' \<and> (res = Inr () \<longrightarrow> fs_node fs' (r, cs) = Some Dir)"
  using assms unfolding os_MkdirAll_def
proof (induction cs arbitrary: res fs' rule: rev_induct)
  case Nil
  then show ?case by (simp add: fs_node_def grows_def)
next
  case (snoc c cs)
  obtain res1 fs1 where run: "mkdir_each (prefixes (r, cs)) fs = (res1, fs1)" by fastforce
  note IH = snoc.IH [OF run]
  let ?q = "(r, cs @ [c])"
  from snoc.prems run consider "res = res1" "fs' = fs1" "res \<noteq> Inr ()"
    | "res1 = Inr ()" "mkdir_each [?q] fs1 = (res, fs')"
    by (auto simp: prefixes_snoc mkdir_each_append split: sum.splits)
  then show ?case
  proof cases
    case 1
    with IH show ?thesis by (auto simp: prefixes_snoc intro: grows_trans [OF _ grows_refl])
  next
    case 2
    with IH have dir: "fs_node fs1 (r, cs) = Some Dir" by simp
    show ?thesis
    proof (cases "fs_node fs1 ?q = None \<and> fs_fault fs1 OpMkdir ?q = None")
      case True
      with 2 have "res = Inr ()" and fs': "fs' = fs_set ?q Dir fs1" by simp_all
      moreover have base: "\<not> base_dir ?q" using True by (auto simp: fs_node_def)
      moreover have "grows {?q} fs1 fs'"
        unfolding fs' grows_def using dir True base
        by (auto intro!: closed_set simp: filepath_Dir_def)
      then have "grows (set (prefixes ?q)) fs fs'"
        using IH by (auto simp: prefixes_snoc intro: grows_trans)
      ultimately show ?thesis by simp
    next
      case False
      with 2 have "fs' = fs1" and "res = Inr () \<longrightarrow> fs_node fs1 ?q = Some Dir"
        by (auto split: option.splits fnode.splits)
      with IH show ?thesis by (auto simp: prefixes_snoc intro: grows_trans [OF _ grows_refl])
    qed
  qed
qed

lemma MkdirAll_succeeds:
  assumes "fault_free fs" and "\<And>q d. q \<in> set (prefixes (r, cs)) \<Longrightarrow> fs_node fs q \<noteq> Some (File d)"
  shows "fst (os_MkdirAll (r, cs) fs) = Inr ()"
proof -
  have "fst (mkdir_each qs fs) = Inr ()"
    if "fault_free fs" and "\<And>q d. q \<in> set qs \<Longrightarrow> fs_node fs q \<noteq> Some (File d)" for qs fs
    using that
  proof (induction qs arbitrary: fs)
    case Nil
    then show ?case by simp
  next
    case (Cons q qs)
    have "fault_free (fs_set q Dir fs)" using Cons.prems(1) by (simp add: fault_free_def)
    with Cons show ?case by (auto simp: fault_free_def split: option.splits fnode.splits)
  qed
  with assms show ?thesis by (simp add: os_MkdirAll_def)
qed

lemma os_Remove_dir:
  assumes "os_Remove p fs = (res, fs')" and "\<And>d. fs_node fs p \<noteq> Some (File d)"
  shows "shrinks fs fs'"
proof (cases "fs' = fs")
  case False
  with assms have "\<not> base_dir p" and "fs_node fs p = Some Dir" and "fs_children fs p = []"
    and fs': "fs' = fs_unset p fs"
    by (auto simp: os_Remove_def fs_lookup_def split: option.splits if_splits fnode.splits sum.splits)
  then show ?thesis unfolding fs' by (auto simp: shrinks_def intro: closed_unset)
qed simp

lemma removeEmptyParents_shrinks:
  assumes "\<And>q d. q \<in> set (prefixes dir) \<Longrightarrow> fs_node fs q \<noteq> Some (File d)"
  shows "shrinks fs (snd (removeEmptyParents dir stop fs))"
  using assms
proof (induction dir stop fs rule: removeEmptyParents.induct)
  case (1 dir stop fs)
  obtain res fs' where rm: "os_Remove dir fs = (res, fs')" by fastforce
  have "dir \<in> set (prefixes dir)" by (auto simp: prefixes_iff intro: exI [of _ "length (snd dir)"])
  with 1(2) have sh: "shrinks fs fs'" by (intro os_Remove_dir [OF rm])
  have "fs_node fs' q \<noteq> Some (File d)" if "q \<in> set (prefixes (filepath_Dir dir))" for q d
  proof -
    from that have "q \<in> set (prefixes dir)" using prefixes_Dir by blast
    with 1(2) show ?thesis by (intro shrinks_not_file [OF sh])
  qed
  with 1(1) rm sh show ?case
    by (subst removeEmptyParents.simps) (auto intro: shrinks_trans split: sum.splits)
qed

lemma removeEmptyParents_succeeds:
  assumes "fault_free fs" and "\<not> base_dir (r, tp)"
    and "\<And>q d. q \<in> set (prefixes (r, tp @ cs)) \<Longrightarrow> fs_node fs q \<noteq> Some (File d)"
  shows "fst (removeEmptyParents (r, tp @ cs) (r, tp) fs) = Inr ()"
  using assms
proof (induction cs arbitrary: fs rule: rev_induct)
  case Nil
  then show ?case by (simp add: removeEmptyParents.simps)
next
  case (snoc c cs)
  let ?dir = "(r, tp @ cs @ [c])"
  have base: "\<not> base_dir ?dir" using snoc.prems(2) by (simp add: base_dir_def)
  obtain res fs' where rm: "os_Remove ?dir fs = (res, fs')" by fastforce
  have pre: "set (prefixes (r, tp @ cs)) \<subseteq> set (prefixes ?dir)" "?dir \<in> set (prefixes ?dir)"
    using prefixes_snoc [of r "tp @ cs" c] by auto
  have sh: "shrinks fs fs'" using rm snoc.prems(3) pre(2) by (intro os_Remove_dir) auto
  then have "fault_free fs'" using snoc.prems(1) by (simp add: shrinks_def same_env_def fault_free_def)
  moreover have "fs_node fs' q \<noteq> Some (File d)" if "q \<in> set (prefixes (r, tp @ cs))" for q d
    using that pre(1) by (intro shrinks_not_file [OF sh] snoc.prems(3)) blast
  ultimately have IH: "fst (removeEmptyParents (r, tp @ cs) (r, tp) fs') = Inr ()"
    using snoc.IH snoc.prems(2) by blast
  have "res \<in> {Inr (), Inl ErrNotExist, Inl ENOTEMPTY}"
  proof -
    have "\<not> list_ex (\<lambda>q. case fs_node fs q of Some (File _) \<Rightarrow> True | _ \<Rightarrow> False) (butlast (prefixes ?dir))"
      using snoc.prems(3) by (auto simp: list_ex_iff dest!: in_set_butlastD split: option.splits fnode.splits)
    with rm base snoc.prems(1,3) pre(2) show ?thesis
      by (auto simp: os_Remove_def fs_lookup_def fault_free_def split: option.splits fnode.splits if_splits)
  qed
  with rm IH show ?case
    by (subst removeEmptyParents.simps) (auto simp: filepath_Dir_def butlast_append)
qed

section \<open>Where an object lies\<close>

text \<open>A plain path component, which a node identifier has to be, and the output of the hash.\<close>

definition plain :: "string \<Rightarrow> bool" where
  "plain w \<longleftrightarrow> w \<noteq> '''' \<and> w \<noteq> ''.'' \<and> w \<noteq> ''..'' \<and> CHR ''/'' \<notin> set w"

definition hex_digest :: "string \<Rightarrow> bool" where
  "hex_digest h \<longleftrightarrow> length h = 40 \<and> list_all (\<lambda>c. c \<in> set ''0123456789abcdef'') h"

lemma split_slash_append: "split_slash (a @ CHR ''/'' # b) = split_slash a @ split_slash b"
proof (induction a)
  case Nil
  then show ?case by simp
next
  case (Cons c a)
  have "split_slash a \<noteq> []" by (induction a) (auto split: list.splits)
  with Cons show ?case by (auto split: list.splits)
qed

lemma split_slash_plain: "CHR ''/'' \<notin> set w \<Longrightarrow> split_slash w = [w]"
  by (induction w) auto

lemma split_join: "ws \<noteq> [] \<Longrightarrow> (\<And>w. w \<in> set ws \<Longrightarrow> CHR ''/'' \<notin> set w) \<Longrightarrow> split_slash (join_slash ws) = ws"
  by (induction ws rule: join_slash.induct) (auto simp: split_slash_plain split_slash_append)

lemma clean_comps_append:
  "clean_comps r out (a @ b) = clean_comps r (rev (clean_comps r out a)) b"
  by (induction r out a rule: clean_comps.induct) (auto split: list.splits)

lemma clean_comps_plain: "list_all plain ws \<Longrightarrow> clean_comps r out ws = rev out @ ws"
  by (induction ws arbitrary: out) (auto simp: plain_def)

lemma Clean_append:
  assumes "s \<noteq> ''''" and "list_all plain (split_slash t)"
  shows "filepath_Clean (s @ CHR ''/'' # t) = (fst (filepath_Clean s), snd (filepath_Clean s) @ split_slash t)"
proof -
  have "(case s @ CHR ''/'' # t of [] \<Rightarrow> False | c # _ \<Rightarrow> c = CHR ''/'') =
        (case s of [] \<Rightarrow> False | c # _ \<Rightarrow> c = CHR ''/'')"
    using assms(1) by (cases s) auto
  with assms(2) show ?thesis
    by (simp add: filepath_Clean_def Let_def split_slash_append clean_comps_append clean_comps_plain)
qed

lemma hash_blocks_plain:
  assumes "hex_digest h"
  shows "list_all plain (hash_blocks h)" and "plain h" and "length (hash_blocks h) = 8"
proof -
  have slash: "CHR ''/'' \<notin> set h" using assms by (auto simp: hex_digest_def list_all_iff)
  have "plain (take 5 (drop (i * 5) h))" if "i < 8" for i
  proof -
    have "length (take 5 (drop (i * 5) h)) = 5" using assms that by (simp add: hex_digest_def)
    moreover have "CHR ''/'' \<notin> set (take 5 (drop (i * 5) h))"
      using slash by (auto dest!: in_set_takeD in_set_dropD)
    ultimately show ?thesis by (auto simp: plain_def simp del: length_take length_drop)
  qed
  with assms show "list_all plain (hash_blocks h)"
    by (auto simp: hash_blocks_def Let_def list_all_iff hex_digest_def)
  show "plain h" using assms slash by (auto simp: plain_def hex_digest_def)
  show "length (hash_blocks h) = 8" using assms by (simp add: hash_blocks_def Let_def hex_digest_def)
qed

text \<open>The directory and the file of an object of a store with hashed paths.\<close>

definition object_dir :: "Store \<Rightarrow> (string \<Rightarrow> string) \<Rightarrow> object_id \<Rightarrow> path" where
  "object_dir st D = (\<lambda>(n, k, v). let root = filepath_Clean (sto_Root st)
     in (fst root, snd root @ n # hash_blocks (D (versionedObjectKey k v))))"

definition object_path :: "Store \<Rightarrow> (string \<Rightarrow> string) \<Rightarrow> object_id \<Rightarrow> path" where
  "object_path st D x = (case x of (n, k, v) \<Rightarrow>
     (fst (object_dir st D x), snd (object_dir st D x) @ [D (versionedObjectKey k v)]))"

definition cas_store :: "Store \<Rightarrow> (string \<Rightarrow> string) \<Rightarrow> bool" where
  "cas_store st D \<longleftrightarrow> sto_Root st \<noteq> '''' \<and> sto_PathTransformFunc st = CASPathTransformFunc D"

lemma store_paths:
  assumes "cas_store st D" and "plain n" and "hex_digest (D (versionedObjectKey k v))"
  shows "filepath_Join [sto_Root st, n, FullPath (sto_PathTransformFunc st (versionedObjectKey k v))] =
           object_path st D (n, k, v)"
    and "filepath_Join [sto_Root st, n, pk_PathName (sto_PathTransformFunc st (versionedObjectKey k v))] =
           object_dir st D (n, k, v)"
    and "filepath_Join [sto_Root st, n] =
           (fst (filepath_Clean (sto_Root st)), snd (filepath_Clean (sto_Root st)) @ [n])"
proof -
  let ?h = "D (versionedObjectKey k v)"
  note blocks = hash_blocks_plain [OF assms(3)]
  have root: "sto_Root st \<noteq> ''''" and pt: "sto_PathTransformFunc st = CASPathTransformFunc D"
    using assms(1) by (auto simp: cas_store_def)
  have sp: "split_slash (join_slash (hash_blocks ?h)) = hash_blocks ?h"
  proof (rule split_join)
    show "hash_blocks ?h \<noteq> []" using blocks(3) by auto
    show "CHR ''/'' \<notin> set w" if "w \<in> set (hash_blocks ?h)" for w
      using blocks(1) that by (simp add: list_all_iff plain_def)
  qed
  have full: "split_slash (FullPath (CASPathTransformFunc D (versionedObjectKey k v))) = hash_blocks ?h @ [?h]"
    using blocks(2) by (simp add: FullPath_def CASPathTransformFunc_def Let_def split_slash_append sp
        split_slash_plain plain_def)
  have sn: "split_slash n = [n]" using assms(2) by (simp add: plain_def split_slash_plain)
  have join: "filepath_Join [sto_Root st, n, w] = filepath_Clean (sto_Root st @ CHR ''/'' # n @ CHR ''/'' # w)" for w
    using root by (simp add: filepath_Join_def)
  show "filepath_Join [sto_Root st, n, FullPath (sto_PathTransformFunc st (versionedObjectKey k v))] =
      object_path st D (n, k, v)"
    unfolding join pt using blocks assms(2)
    by (subst Clean_append [OF root])
      (simp_all add: split_slash_append full sn object_path_def object_dir_def Let_def)
  show "filepath_Join [sto_Root st, n, pk_PathName (sto_PathTransformFunc st (versionedObjectKey k v))] =
      object_dir st D (n, k, v)"
    unfolding join pt using blocks assms(2)
    by (subst Clean_append [OF root])
      (simp_all add: split_slash_append CASPathTransformFunc_def Let_def sp sn object_dir_def)
  show "filepath_Join [sto_Root st, n] =
      (fst (filepath_Clean (sto_Root st)), snd (filepath_Clean (sto_Root st)) @ [n])"
    using root assms(2) Clean_append [OF root, of n] by (simp add: filepath_Join_def sn)
qed

section \<open>LocalObjectStore meets the contract\<close>

text \<open>
  The names for which the store gives its promises: the node identifier is a plain path
  component, and the versioned key belongs to a set \<open>K\<close> of keys on which the hash yields forty
  hexadecimal digits and no two the same.
\<close>

definition local_ok :: "Store \<Rightarrow> (string \<Rightarrow> string) \<Rightarrow> string set \<Rightarrow> object_id \<Rightarrow> bool" where
  "local_ok st D K x \<longleftrightarrow> cas_store st D \<and> (\<forall>key \<in> K. hex_digest (D key)) \<and> inj_on D K \<and>
     (case x of (n, k, v) \<Rightarrow> plain n \<and> versionedObjectKey k v \<in> K)"

definition local_content :: "Store \<Rightarrow> (string \<Rightarrow> string) \<Rightarrow> file_system \<Rightarrow> object_id \<Rightarrow> byte list option" where
  "local_content st D fs x =
     (case fs_node fs (object_path st D x) of Some (File d) \<Rightarrow> Some d | _ \<Rightarrow> None)"

text \<open>No directory is in the way of an object and no file in the way of its directory.\<close>

definition local_inv :: "Store \<Rightarrow> (string \<Rightarrow> string) \<Rightarrow> string set \<Rightarrow> file_system \<Rightarrow> bool" where
  "local_inv st D K fs \<longleftrightarrow> fs_closed fs \<and>
     (\<forall>x. local_ok st D K x \<longrightarrow> fs_node fs (object_path st D x) \<noteq> Some Dir \<and>
        (\<forall>q \<in> set (prefixes (object_dir st D x)). \<forall>d. fs_node fs q \<noteq> Some (File d)))"

lemma local_invD:
  assumes "local_inv st D K fs"
  shows "fs_closed fs" and "local_ok st D K x \<Longrightarrow> fs_node fs (object_path st D x) \<noteq> Some Dir"
    and "local_ok st D K x \<Longrightarrow> q \<in> set (prefixes (object_dir st D x)) \<Longrightarrow> fs_node fs q \<noteq> Some (File d)"
  using assms unfolding local_inv_def by blast+

lemma object_path_facts:
  assumes "local_ok st D K x"
  shows "filepath_Dir (object_path st D x) = object_dir st D x" and "\<not> base_dir (object_path st D x)"
    and "snd (object_path st D x) \<noteq> []"
    and "local_ok st D K y \<Longrightarrow> object_path st D x \<notin> set (prefixes (object_dir st D y))"
    and "local_ok st D K y \<Longrightarrow> object_path st D x = object_path st D y \<longleftrightarrow> x = y"
proof -
  obtain n k v where x: "x = (n, k, v)" by (metis prod_cases3)
  obtain n' k' v' where y: "y = (n', k', v')" by (metis prod_cases3)
  from assms x have plain: "plain n" and h: "hex_digest (D (versionedObjectKey k v))"
    by (auto simp: local_ok_def)
  show "filepath_Dir (object_path st D x) = object_dir st D x" "snd (object_path st D x) \<noteq> []"
    by (simp_all add: filepath_Dir_def object_path_def x)
  show "\<not> base_dir (object_path st D x)"
    using plain by (simp add: base_dir_def object_path_def object_dir_def x Let_def plain_def)
  assume "local_ok st D K y"
  with y have h': "hex_digest (D (versionedObjectKey k' v'))" by (auto simp: local_ok_def)
  note len = hash_blocks_plain(3) [OF h] hash_blocks_plain(3) [OF h']
  show "object_path st D x \<notin> set (prefixes (object_dir st D y))"
  proof
    assume "object_path st D x \<in> set (prefixes (object_dir st D y))"
    then have "length (snd (object_path st D x)) \<le> length (snd (object_dir st D y))"
      by (auto simp: prefixes_iff)
    with len show False by (simp add: object_path_def object_dir_def x y Let_def)
  qed
  show "object_path st D x = object_path st D y \<longleftrightarrow> x = y"
  proof
    assume "object_path st D x = object_path st D y"
    then have "n = n'" and "D (versionedObjectKey k v) = D (versionedObjectKey k' v')"
      by (simp_all add: object_path_def object_dir_def x y Let_def)
    moreover have "versionedObjectKey k v \<in> K" "versionedObjectKey k' v' \<in> K" "inj_on D K"
      using assms \<open>local_ok st D K y\<close> x y by (auto simp: local_ok_def)
    ultimately show "x = y" using x y by (auto simp: versionedObjectKey_eq_iff dest: inj_onD)
  qed simp
qed

text \<open>The four ways in which the store's calls change the table.\<close>

lemma local_grows:
  assumes "local_inv st D K fs" and "local_ok st D K x" and "grows (set (prefixes (object_dir st D x))) fs fs'"
  shows "local_inv st D K fs'" and "local_ok st D K y \<Longrightarrow> local_content st D fs' y = local_content st D fs y"
proof -
  have step: "fs_node fs' q = fs_node fs q \<or> q \<in> set (prefixes (object_dir st D x)) \<and> fs_node fs' q = Some Dir" for q
    using assms(3) unfolding grows_def by blast
  have same: "fs_node fs' (object_path st D y) = fs_node fs (object_path st D y)" if "local_ok st D K y" for y
    using step object_path_facts(4) [OF that assms(2)] by blast
  moreover have "fs_node fs' q \<noteq> Some (File d)" if "fs_node fs q \<noteq> Some (File d)" for q d
    using step [of q] that by auto
  moreover have "fs_closed fs'" using assms(3) local_invD(1) [OF assms(1)] by (simp add: grows_def)
  ultimately show "local_inv st D K fs'" using local_invD(2,3) [OF assms(1)] by (simp add: local_inv_def)
  show "local_content st D fs' y = local_content st D fs y" if "local_ok st D K y"
    using same [OF that] by (simp add: local_content_def)
qed

lemma local_shrinks:
  assumes "local_inv st D K fs" and "shrinks fs fs'"
  shows "local_inv st D K fs'" and "local_ok st D K y \<Longrightarrow> local_content st D fs' y = local_content st D fs y"
proof -
  have step: "fs_node fs' q = fs_node fs q \<or> fs_node fs q = Some Dir \<and> fs_node fs' q = None" for q
    using assms(2) unfolding shrinks_def by blast
  have same: "fs_node fs' (object_path st D y) = fs_node fs (object_path st D y)" if "local_ok st D K y" for y
    using step local_invD(2) [OF assms(1) that] by blast
  moreover have "fs_closed fs'" using assms(2) local_invD(1) [OF assms(1)] by (simp add: shrinks_def)
  ultimately show "local_inv st D K fs'"
    using local_invD(2,3) [OF assms(1)] shrinks_not_file [OF assms(2)] by (simp add: local_inv_def)
  show "local_content st D fs' y = local_content st D fs y" if "local_ok st D K y"
    using same [OF that] by (simp add: local_content_def)
qed

lemma local_set:
  assumes "local_inv st D K fs" and "local_ok st D K x" and "fs_node fs (object_dir st D x) = Some Dir"
  shows "local_inv st D K (fs_set (object_path st D x) (File d) fs)"
    and "local_ok st D K y \<Longrightarrow> local_content st D (fs_set (object_path st D x) (File d) fs) y =
           (if y = x then Some d else local_content st D fs y)"
proof -
  note p = object_path_facts [OF assms(2)]
  have "fs_closed (fs_set (object_path st D x) (File d) fs)"
    using local_invD(1,2) [OF assms(1)] assms(2,3) p(1) by (intro closed_set) auto
  then show "local_inv st D K (fs_set (object_path st D x) (File d) fs)"
    using local_invD(2,3) [OF assms(1)] p(4) by (auto simp: local_inv_def)
  show "local_content st D (fs_set (object_path st D x) (File d) fs) y =
      (if y = x then Some d else local_content st D fs y)" if "local_ok st D K y"
    using p(2) p(5) [OF that] by (auto simp: local_content_def)
qed

lemma local_unset:
  assumes "local_inv st D K fs" and "local_ok st D K x"
  shows "local_inv st D K (fs_unset (object_path st D x) fs)"
    and "local_ok st D K y \<Longrightarrow> local_content st D (fs_unset (object_path st D x) fs) y =
           (if y = x then None else local_content st D fs y)"
proof -
  note p = object_path_facts [OF assms(2)]
  have "fs_closed (fs_unset (object_path st D x) fs)"
    using local_invD(1,2) [OF assms(1)] assms(2) by (intro closed_unset) auto
  then show "local_inv st D K (fs_unset (object_path st D x) fs)"
    using local_invD(2,3) [OF assms(1)] by (auto simp: local_inv_def)
  show "local_content st D (fs_unset (object_path st D x) fs) y =
      (if y = x then None else local_content st D fs y)" if "local_ok st D K y"
    using p(2) p(5) [OF that] by (auto simp: local_content_def)
qed

lemma same_env_trans: "same_env fs fs' \<Longrightarrow> same_env fs' fs'' \<Longrightarrow> same_env fs fs''"
  by (simp add: same_env_def)

lemma openFileForWriting_spec:
  assumes "local_inv st D K fs" and "local_ok st D K (n, k, v)"
    and "openFileForWriting st n (versionedObjectKey k v) fs = (res, fs')"
  shows "local_inv st D K fs' \<and> same_env fs fs' \<and>
     (\<forall>y. local_ok st D K y \<longrightarrow> y \<noteq> (n, k, v) \<longrightarrow> local_content st D fs' y = local_content st D fs y) \<and>
     (\<forall>f. res = Inr f \<longrightarrow> f = object_path st D (n, k, v) \<and> fs_node fs' (object_dir st D (n, k, v)) = Some Dir)"
proof -
  let ?x = "(n, k, v)"
  let ?dir = "object_dir st D ?x" and ?p = "object_path st D ?x"
  have ok: "cas_store st D" "plain n" "hex_digest (D (versionedObjectKey k v))"
    using assms(2) by (auto simp: local_ok_def)
  obtain r1 fs1 where mk: "os_MkdirAll ?dir fs = (r1, fs1)" by fastforce
  have grow: "grows (set (prefixes ?dir)) fs fs1" and dir: "r1 = Inr () \<Longrightarrow> fs_node fs1 ?dir = Some Dir"
    using MkdirAll_spec [of "fst ?dir" "snd ?dir" fs r1 fs1] mk by auto
  note g = local_grows [OF assms(1,2) grow]
  have env: "same_env fs fs1" using grow by (simp add: grows_def)
  show ?thesis
  proof (cases "r1 = Inr () \<and> fs' \<noteq> fs1")
    case True
    then have "fs' = fs_set ?p (File []) fs1" and "\<forall>f. res = Inr f \<longrightarrow> f = ?p"
      using assms(3) mk by (auto simp: openFileForWriting_def store_paths [OF ok] Let_def os_Create_def
          split: option.splits sum.splits fnode.splits if_splits)
    moreover have "?dir \<noteq> ?p" by (auto simp: object_path_def prod_eq_iff)
    ultimately show ?thesis
      using True env dir g(2) local_set [OF g(1) assms(2), where d = "[]"] by (simp add: same_env_def)
  next
    case False
    then have "fs' = fs1" and "\<forall>f. res = Inr f \<longrightarrow> f = ?p \<and> r1 = Inr ()"
      using assms(3) mk by (auto simp: openFileForWriting_def store_paths [OF ok] Let_def
          split: sum.splits prod.splits)
    with env dir g show ?thesis by auto
  qed
qed

lemma Write_spec:
  assumes "local_inv st D K fs" and "local_ok st D K (n, k, v)"
    and "Write st n (versionedObjectKey k v) rd fs = (res, taken, fs')"
  shows "local_inv st D K fs' \<and> same_env fs fs' \<and>
     (\<forall>y. local_ok st D K y \<longrightarrow> y \<noteq> (n, k, v) \<longrightarrow> local_content st D fs' y = local_content st D fs y) \<and>
     (\<forall>len. res = Inr len \<longrightarrow> drain (rd_reads rd) = (taken, None) \<and> len = int (length taken) \<and>
        local_content st D fs' (n, k, v) = Some taken)"
proof -
  obtain r1 fs1 where opn: "openFileForWriting st n (versionedObjectKey k v) fs = (r1, fs1)" by fastforce
  note o = openFileForWriting_spec [OF assms(1,2) opn]
  show ?thesis
  proof (cases r1)
    case (Inl e)
    with assms(3) opn o show ?thesis by (auto simp: Write_def writeStream_def)
  next
    case (Inr f)
    obtain out tk err where cp: "io_copy (fs_room fs1 f) (rd_reads rd) [] = (out, tk, err)"
      by (metis prod_cases3)
    from assms(3) opn Inr cp have eqs: "taken = tk" "fs' = fs_set f (File out) fs1"
      "res = (case err of Some e \<Rightarrow> Inl e | None \<Rightarrow> Inr (int (length out)))"
      by (auto simp: Write_def writeStream_def Let_def)
    have "drain (rd_reads rd) = (tk, None) \<and> out = tk" if "err = None"
      using io_copy_ok [of "fs_room fs1 f" "rd_reads rd" "[]" out tk] cp that by simp
    moreover have "f = object_path st D (n, k, v)" and inv1: "local_inv st D K fs1"
      and dir: "fs_node fs1 (object_dir st D (n, k, v)) = Some Dir" using o Inr by auto
    ultimately show ?thesis using eqs o assms(2) local_set [OF inv1 assms(2) dir, where d = out]
      by (auto simp: same_env_def split: option.splits)
  qed
qed

lemma Write_succeeds:
  assumes "local_inv st D K fs" and "fault_free fs" and "local_ok st D K (n, k, v)"
    and "drain (rd_reads rd) = (d, None)"
  shows "\<exists>fs'. Write st n (versionedObjectKey k v) rd fs = (Inr (int (length d)), d, fs')"
proof -
  let ?x = "(n, k, v)"
  let ?dir = "object_dir st D ?x" and ?p = "object_path st D ?x"
  have ok: "cas_store st D" "plain n" "hex_digest (D (versionedObjectKey k v))"
    using assms(3) by (auto simp: local_ok_def)
  obtain r1 fs1 where mk: "os_MkdirAll ?dir fs = (r1, fs1)" by fastforce
  have "r1 = Inr ()"
    using MkdirAll_succeeds [OF assms(2), of "fst ?dir" "snd ?dir"] local_invD(3) [OF assms(1,3)] mk by auto
  moreover from this have grow: "grows (set (prefixes ?dir)) fs fs1" and dir: "fs_node fs1 ?dir = Some Dir"
    using MkdirAll_spec [of "fst ?dir" "snd ?dir" fs r1 fs1] mk by auto
  moreover note g = local_grows [OF assms(1,3) grow]
  moreover have "fs_fault fs1 = (\<lambda>op p. None)" "fs_room fs1 = (\<lambda>p. None)"
    using grow assms(2) by (simp_all add: grows_def same_env_def fault_free_def)
  moreover have "fs_lookup fs1 ?dir = Inr Dir"
    using fs_lookup_closed [OF local_invD(1) [OF g(1)] dir] .
  ultimately show ?thesis
    using mk local_invD(2) [OF g(1) assms(3)] io_copy_complete [OF assms(4), where lim = None and acc = "[]"]
    by (simp add: Write_def writeStream_def openFileForWriting_def store_paths [OF ok] Let_def
        os_Create_def object_path_facts(1) [OF assms(3)])
qed

lemma Read_spec:
  assumes "local_inv st D K fs" and "local_ok st D K (n, k, v)"
  shows "Read st n (versionedObjectKey k v) fs =
    (case fs_fault fs OpOpen (object_path st D (n, k, v)) of
       Some msg \<Rightarrow> Inl (ErrOther msg)
     | None \<Rightarrow> (case local_content st D fs (n, k, v) of
                  None \<Rightarrow> Inl ErrNotExist | Some d \<Rightarrow> Inr (int (length d), bytes_reader d)))"
    and "fs_lookup fs (object_path st D (n, k, v)) =
      (case local_content st D fs (n, k, v) of None \<Rightarrow> Inl ErrNotExist | Some d \<Rightarrow> Inr (File d))"
proof -
  let ?x = "(n, k, v)"
  let ?p = "object_path st D ?x"
  have ok: "cas_store st D" "plain n" "hex_digest (D (versionedObjectKey k v))"
    using assms(2) by (auto simp: local_ok_def)
  have p: "?p = (fst ?p, snd (object_dir st D ?x) @ [D (versionedObjectKey k v)])"
    and dir: "(fst ?p, snd (object_dir st D ?x)) = object_dir st D ?x" by (simp_all add: object_path_def)
  have above: "butlast (prefixes ?p) = prefixes (object_dir st D ?x)"
    by (subst p) (simp add: dir)
  have "\<not> list_ex (\<lambda>q. case fs_node fs q of Some (File _) \<Rightarrow> True | _ \<Rightarrow> False) (butlast (prefixes ?p))"
    unfolding above using local_invD(3) [OF assms]
    by (auto simp: list_ex_iff split: option.splits fnode.splits)
  then show lookup: "fs_lookup fs ?p =
      (case local_content st D fs ?x of None \<Rightarrow> Inl ErrNotExist | Some d \<Rightarrow> Inr (File d))"
    using local_invD(2) [OF assms]
    by (auto simp: fs_lookup_def local_content_def split: option.splits fnode.splits)
  show "Read st n (versionedObjectKey k v) fs =
    (case fs_fault fs OpOpen ?p of Some msg \<Rightarrow> Inl (ErrOther msg)
     | None \<Rightarrow> (case local_content st D fs ?x of
                  None \<Rightarrow> Inl ErrNotExist | Some d \<Rightarrow> Inr (int (length d), bytes_reader d)))"
    by (auto simp: Read_def store_paths [OF ok] os_Open_def lookup split: option.splits)
qed

lemma Delete_spec:
  assumes "local_inv st D K fs" and "local_ok st D K (n, k, v)"
    and "Delete st n (versionedObjectKey k v) fs = (res, fs')"
  shows "local_inv st D K fs' \<and> same_env fs fs' \<and>
     (\<forall>y. local_ok st D K y \<longrightarrow> y \<noteq> (n, k, v) \<longrightarrow> local_content st D fs' y = local_content st D fs y) \<and>
     local_content st D fs' (n, k, v) \<in> {None, local_content st D fs (n, k, v)} \<and>
     (res = Inr () \<longrightarrow> local_content st D fs' (n, k, v) = None) \<and>
     (fault_free fs \<longrightarrow> res = Inr ())"
proof -
  let ?x = "(n, k, v)"
  let ?dir = "object_dir st D ?x" and ?p = "object_path st D ?x"
  let ?stop = "(fst (filepath_Clean (sto_Root st)), snd (filepath_Clean (sto_Root st)) @ [n])"
  have ok: "cas_store st D" "plain n" "hex_digest (D (versionedObjectKey k v))"
    using assms(2) by (auto simp: local_ok_def)
  obtain r1 fs1 where rm: "os_Remove ?p fs = (r1, fs1)" by fastforce
  have "fs1 = fs \<or> fs1 = fs_unset ?p fs"
    using rm by (auto simp: os_Remove_def split: option.splits sum.splits fnode.splits if_splits)
  then have inv1: "local_inv st D K fs1" and env1: "same_env fs fs1"
    and frame1: "\<And>y. local_ok st D K y \<Longrightarrow> y \<noteq> ?x \<Longrightarrow> local_content st D fs1 y = local_content st D fs y"
    and self1: "local_content st D fs1 ?x \<in> {None, local_content st D fs ?x}"
    using assms(1,2) local_unset [OF assms(1,2)] by (elim disjE; simp)+
  have gone: "local_content st D fs1 ?x = None" if "r1 = Inr () \<or> r1 = Inl ErrNotExist"
    using that rm Read_spec(2) [OF assms(1,2)] local_unset(2) [OF assms(1,2) assms(2)]
    by (auto simp: os_Remove_def split: option.splits sum.splits fnode.splits if_splits)
  have free: "r1 = Inr () \<or> r1 = Inl ErrNotExist" if "fault_free fs"
    using that rm Read_spec(2) [OF assms(1,2)]
    by (auto simp: os_Remove_def fault_free_def split: option.splits)
  note no_file = local_invD(3) [OF inv1 assms(2)]
  note sh = removeEmptyParents_shrinks [of ?dir fs1 ?stop, OF no_file]
  note after = local_shrinks [OF inv1 sh]
  have succ: "fst (removeEmptyParents ?dir ?stop fs1) = Inr ()" if "fault_free fs"
  proof -
    have "fault_free fs1" using that env1 by (simp add: fault_free_def same_env_def)
    moreover have "\<not> base_dir ?stop" using ok(2) by (simp add: base_dir_def plain_def)
    moreover have "?dir = (fst ?stop, snd ?stop @ hash_blocks (D (versionedObjectKey k v)))"
      by (simp add: object_dir_def Let_def)
    ultimately show ?thesis
      using removeEmptyParents_succeeds [of fs1 "fst ?stop" "snd ?stop"] no_file by simp
  qed
  show ?thesis
  proof (cases "r1 = Inr () \<or> r1 = Inl ErrNotExist")
    case True
    with assms(3) rm have run: "removeEmptyParents ?dir ?stop fs1 = (res, fs')"
      by (auto simp: Delete_def store_paths [OF ok] Let_def object_path_facts(1) [OF assms(2)])
    have "same_env fs fs'" using env1 sh run by (auto simp: shrinks_def intro: same_env_trans)
    with True run after frame1 gone assms(2) succ show ?thesis by simp
  next
    case False
    with assms(3) rm have "res = r1" and "fs' = fs1" and "res \<noteq> Inr ()"
      by (auto simp: Delete_def store_paths [OF ok] Let_def split: sum.splits)
    with False inv1 env1 frame1 self1 free show ?thesis by auto
  qed
qed

interpretation local: object_store "LocalObjectStore st" "local_content st D" "local_inv st D K" "local_ok st D K"
  for st D K
proof (unfold_locales, goal_cases)
  case (1 s n k v rd)
  then show ?case using Write_spec [of st D K s n k v rd] by (metis local_store_sel(1) prod.collapse)
next
  case (2 s n k v rd len taken s')
  then show ?case using Write_spec [of st D K s n k v rd "Inr len" taken s'] by simp
next
  case (3 s n k v x rd)
  then show ?case using Write_spec [of st D K s n k v rd] by (metis local_store_sel(1) prod.collapse)
next
  case (4 s n k v len rd d)
  then show ?case using Read_spec(1) [of st D K s n k v] by (auto split: option.splits)
next
  case (5 s n k v len rd)
  then show ?case using Read_spec(1) [of st D K s n k v] by (auto split: option.splits)
next
  case (6 s n k v)
  then show ?case using Delete_spec [of st D K s n k v] by (metis local_store_sel(3) prod.collapse)
next
  case (7 s n k v)
  then show ?case using Delete_spec [of st D K s n k v] by (metis local_store_sel(3) prod.collapse)
next
  case (8 s n k v x)
  then show ?case using Delete_spec [of st D K s n k v] by (metis local_store_sel(3) prod.collapse)
qed

interpretation local_reliable: reliable_object_store "LocalObjectStore st" "local_content st D"
  "\<lambda>fs. local_inv st D K fs \<and> fault_free fs" "local_ok st D K" for st D K
proof (unfold_locales, goal_cases)
  case (1 s n k v rd)
  then show ?case using Write_spec [of st D K s n k v rd]
    by (cases "Write st n (versionedObjectKey k v) rd s") (auto simp: fault_free_def same_env_def)
next
  case (2 s n k v rd len taken s')
  then show ?case by (intro local.write_done) auto
next
  case (3 s n k v x rd)
  then show ?case by (intro local.write_frame) auto
next
  case (4 s n k v len rd d)
  then show ?case by (intro local.read_done) auto
next
  case (5 s n k v len rd)
  then show ?case by (intro local.read_size) auto
next
  case (6 s n k v)
  then show ?case using Delete_spec [of st D K s n k v]
    by (cases "Delete st n (versionedObjectKey k v) s") (auto simp: fault_free_def same_env_def)
next
  case (7 s n k v)
  then show ?case by (intro local.delete_self) auto
next
  case (8 s n k v x)
  then show ?case by (intro local.delete_frame) auto
next
  case (9 s n k v rd d)
  then show ?case using Write_succeeds [of st D K s n k v rd d] by simp
next
  case (10 s n k v d)
  then show ?case using Read_spec(1) [of st D K s n k v] by (simp add: fault_free_def)
next
  case (11 s n k v)
  then show ?case using Read_spec(1) [of st D K s n k v] by (simp add: fault_free_def)
next
  case (12 s n k v)
  then show ?case using Delete_spec [of st D K s n k v] by (metis local_store_sel(3) prod.collapse)
next
  case (13 s n k v)
  then show ?case using Delete_spec [of st D K s n k v] by (metis local_store_sel(3) prod.collapse)
next
  case (14 s n k v)
  then have "cas_store st D" "plain n" "hex_digest (D (versionedObjectKey k v))"
    by (auto simp: local_ok_def)
  with 14 show ?case using Read_spec(2) [of st D K s n k v]
    by (auto simp: Has_def store_paths os_Stat_def fault_free_def split: option.splits)
qed

lemma local_inv_empty:
  assumes "fs_tree fs = []"
  shows "local_inv st D K fs"
proof -
  have node: "fs_node fs q = (if base_dir q then Some Dir else None)" for q
    using assms by (simp add: fs_node_def)
  then show ?thesis
    by (auto simp: local_inv_def fs_closed_def object_path_facts(2) split: if_splits)
qed

text \<open>
  C14. What is written to a node is what is read from it. On a disk without faults, for a
  store with hashed paths, any node identifier that is a plain path component and any two
  object names on which the hash does not collide: writing a stream stores all its bytes and
  answers with their number; reading the object then yields exactly these bytes, and its size;
  every other object, whether other node, key or version, is untouched; deleting the object
  succeeds, after which it is not there, and every other object is still untouched.
\<close>

theorem object_write_read_delete:
  assumes "local_inv st D K fs" and "fault_free fs" and "local_ok st D K (n, k, v)"
    and "drain (rd_reads rd) = (d, None)"
    and "os_WriteObject (LocalObjectStore st) n k v rd fs = (w, taken, fs1)"
    and "os_DeleteObject (LocalObjectStore st) n k v fs1 = (r, fs2)"
  shows "w = Inr (int (length d)) \<and>
    (\<exists>src. os_ReadObject (LocalObjectStore st) n k v fs1 = Inr (int (length d), src) \<and>
           drain (rd_reads src) = (d, None) \<and> rd_close src = None) \<and>
    os_HasObject (LocalObjectStore st) n k v fs1 \<and>
    r = Inr () \<and> \<not> os_HasObject (LocalObjectStore st) n k v fs2 \<and>
    os_ReadObject (LocalObjectStore st) n k v fs2 = Inl ErrNotExist \<and>
    (\<forall>y. local_ok st D K y \<longrightarrow> y \<noteq> (n, k, v) \<longrightarrow>
       local_content st D fs1 y = local_content st D fs y \<and> local_content st D fs2 y = local_content st D fs y)"
proof -
  note i = conjI [OF assms(1,2)]
  from local_reliable.write_succeeds [OF i assms(3,4)] assms(5)
  have w: "w = Inr (int (length d))" "taken = d" by auto
  note s1 = local_reliable.write_effect [OF i assms(3,5)]
  have c1: "local_content st D fs1 (n, k, v) = Some d"
    using local_reliable.write_done [OF i assms(3)] assms(5) w by blast
  have s2: "local_inv st D K fs2 \<and> fault_free fs2"
    using local_reliable.delete_inv [OF s1(1) assms(3)] assms(6) by simp
  have r: "r = Inr ()" using local_reliable.delete_succeeds [OF s1(1) assms(3)] assms(6) by simp
  then have c2: "local_content st D fs2 (n, k, v) = None"
    using local_reliable.delete_removes [OF s1(1) assms(3)] assms(6) by simp
  have frame: "local_content st D fs2 y = local_content st D fs1 y" if "local_ok st D K y" "y \<noteq> (n, k, v)" for y
    using local_reliable.delete_frame [OF s1(1) assms(3) that] assms(6) by simp
  show ?thesis
    using w r c1 c2 s1 s2 frame local_reliable.read_succeeds [OF s1(1) assms(3) c1]
      Read_spec(1) [of st D K fs2 n k v] assms(3)
      local_reliable.has_iff [OF s1(1) assms(3)] local_reliable.has_iff [OF s2 assms(3)]
    by (simp add: fault_free_def)
qed

text \<open>A small disk for the witnesses, with a hash for one key.\<close>

definition demo_digest :: "string \<Rightarrow> string" where
  "demo_digest key = replicate 40 (CHR ''a'')"

definition demo_store :: Store where
  "demo_store = NewStore \<lparr>so_Root = '''', so_PathTransformFunc = Some (CASPathTransformFunc demo_digest)\<rparr>"

definition demo_disk :: file_system where
  "demo_disk = \<lparr>fs_tree = [], fs_fault = (\<lambda>op p. None), fs_room = (\<lambda>p. None), fs_dirsize = 4096\<rparr>"

lemma demo_disk_inv: "local_inv demo_store demo_digest K demo_disk \<and> fault_free demo_disk"
  by (simp add: local_inv_empty fault_free_def demo_disk_def)

lemma demo_ok:
  "plain n \<Longrightarrow> local_ok demo_store demo_digest {versionedObjectKey k v} (n, k, v)"
  by (simp add: local_ok_def cas_store_def demo_store_def NewStore_def defaultRootFolderName_def
      hex_digest_def demo_digest_def list_all_iff)

theorem object_write_read_delete_witness:
  "\<exists>src. os_ReadObject (LocalObjectStore demo_store) ''n1'' ''k'' 1
        (snd (snd (os_WriteObject (LocalObjectStore demo_store) ''n1'' ''k'' 1 (bytes_reader [1, 2, 3]) demo_disk))) =
      Inr (3, src) \<and> drain (rd_reads src) = ([1, 2, 3], None)"
proof -
  obtain w taken fs1 where wr: "os_WriteObject (LocalObjectStore demo_store) ''n1'' ''k'' 1
      (bytes_reader [1, 2, 3]) demo_disk = (w, taken, fs1)" by (metis prod_cases3)
  obtain r fs2 where dl: "os_DeleteObject (LocalObjectStore demo_store) ''n1'' ''k'' 1 fs1 = (r, fs2)" by fastforce
  have ok: "local_ok demo_store demo_digest {versionedObjectKey ''k'' 1} (''n1'', ''k'', 1)"
    by (rule demo_ok) (simp add: plain_def)
  from object_write_read_delete [OF conjunct1 [OF demo_disk_inv] conjunct2 [OF demo_disk_inv] ok
      bytes_reader_sel(1) wr dl] wr
  show ?thesis by auto
qed

end
