(* ===== verification/Worker.thy ===== *)
theory Worker
  imports Coordinator Disk_Store
begin

text \<open>
  The replication worker, \<open>src/distributed-fs/worker.go\<close>, and its work over the replicator of
  \<open>object.go\<close>: the worker takes the first pending task, marks it running, has it copied and
  reports success or failure to the coordinator.

  The replicator is the second field of the worker: a function from a task and the state of
  the objects to an error, if any, and the new state.
\<close>

type_synonym 's ObjectReplicator = "ReplicationTask \<Rightarrow> 's \<Rightarrow> error option \<times> 's"

record ('m, 'q, 's) ReplicationWorker =
  rw_coordinator :: "('m, 'q) MetadataCoordinator"
  rw_objects :: 's

text \<open>
  The answer is the pair of the code: a task, where the code does not return the zero one, and
  an error.
\<close>

definition WorkOnce ::
  "'m MetadataBackend \<Rightarrow> 'q ReplicationTaskQueue \<Rightarrow> 's ObjectReplicator \<Rightarrow> ('m, 'q, 's) ReplicationWorker
    \<Rightarrow> (ReplicationTask option \<times> error option) \<times> ('m, 'q, 's) ReplicationWorker" where
  "WorkOnce B Q replicator w =
     (case PendingTasks Q (rw_coordinator w) of
        Inl err \<Rightarrow> ((None, Some err), w)
      | Inr pending \<Rightarrow>
          (case pending of
             [] \<Rightarrow> ((None, Some ErrNoPendingTasks), w)
           | first # _ \<Rightarrow>
               (let (r, c1) = StartReplication Q (rt_ID first) (rw_coordinator w);
                    w1 = w\<lparr>rw_coordinator := c1\<rparr>
                in case r of
                     Inl err \<Rightarrow> ((None, Some err), w1)
                   | Inr task \<Rightarrow>
                       (let (e, s') = replicator task (rw_objects w1);
                            w2 = w1\<lparr>rw_objects := s'\<rparr>
                        in case e of
                             Some err \<Rightarrow>
                               (let (r2, c2) = FailReplication B Q (rt_ID task) (Some err) (rw_coordinator w2);
                                    w3 = w2\<lparr>rw_coordinator := c2\<rparr>
                                in case r2 of
                                     Inl failErr \<Rightarrow> ((None, Some failErr), w3)
                                   | Inr (_, failedTask) \<Rightarrow> ((Some failedTask, Some err), w3))
                           | None \<Rightarrow>
                               (let (r2, c2) = FinishReplication B Q (rt_ID task) (rw_coordinator w2);
                                    w3 = w2\<lparr>rw_coordinator := c2\<rparr>
                                in case r2 of
                                     Inl err \<Rightarrow> ((None, Some err), w3)
                                   | Inr (_, doneTask) \<Rightarrow> ((Some doneTask, None), w3))))))"

text \<open>The task as \<open>MarkRunning\<close> hands it to the replicator.\<close>

definition started :: "ReplicationTask \<Rightarrow> instant \<Rightarrow> ReplicationTask" where
  "started t now = t\<lparr>rt_State := ReplicationTaskRunning, rt_Attempts := rt_Attempts t + 1,
                     rt_LeaseUntil := now + defaultReplicationTaskLease, rt_UpdatedAt := now\<rparr>"

lemma started_sel [simp]:
  "rt_ID (started t now) = rt_ID t" "rt_Key (started t now) = rt_Key t"
  "rt_Version (started t now) = rt_Version t" "rt_Checksum (started t now) = rt_Checksum t"
  "rt_Chunks (started t now) = rt_Chunks t" "rt_Source (started t now) = rt_Source t"
  "rt_Target (started t now) = rt_Target t" "rt_Attempts (started t now) = rt_Attempts t + 1"
  by (simp_all add: started_def)

lemma Pending_head:
  assumes "wf_queue q" and "Pending q = t # ts"
  shows "gm_get (mq_tasks q) (rt_ID t) = Some t" and "rt_State t = ReplicationTaskPending"
  using Pending_mem [OF assms(1), of t] assms(2) by auto

text \<open>
  C12. One round of the worker, whatever the copy does. With the in-memory backend and queue,
  a round takes the first pending task, counts the attempt, and then: if the copy succeeds the
  task is done and the target replica healthy; if it fails with an error, the answer carries
  that error, the target replica is missing, and the task is dead when this was its fifth
  attempt and otherwise pending again with its start delayed by the backoff. No other task, no
  other replica and no other file changes, nor does the file's version or content.
\<close>

theorem WorkOnce_round:
  assumes "wf_queue (mc_tasks c)" and "Pending (mc_tasks c) = t # ts"
    and "gm_get (ms_files (mc_metadata c)) (rt_Key t) = Some f"
    and "gm_get (fm_Replicas f) (rt_Target t) = Some x"
    and "replicator (started t (mq_now (mc_tasks c))) s = (err, s')"
  shows "\<exists>t' c'. WorkOnce MemoryMetadataBackend MemoryTaskQueue replicator \<lparr>rw_coordinator = c, rw_objects = s\<rparr> =
      ((Some t', err), \<lparr>rw_coordinator = c', rw_objects = s'\<rparr>) \<and>
    gm_get (mq_tasks (mc_tasks c')) (rt_ID t) = Some t' \<and> rt_ID t' = rt_ID t \<and>
    rt_Attempts t' = rt_Attempts t + 1 \<and>
    rt_State t' = (if err = None then ReplicationTaskDone
                   else if 5 \<le> rt_Attempts t + 1 then ReplicationTaskDead else ReplicationTaskPending) \<and>
    (err \<noteq> None \<and> rt_Attempts t + 1 < 5 \<longrightarrow>
       rt_RunAfter t' = mq_now (mc_tasks c) + replicationBackoff (rt_Attempts t + 1)) \<and>
    (\<forall>i. i \<noteq> rt_ID t \<longrightarrow> gm_get (mq_tasks (mc_tasks c')) i = gm_get (mq_tasks (mc_tasks c)) i) \<and>
    (\<exists>f'. gm_get (ms_files (mc_metadata c')) (rt_Key t) = Some f' \<and> published f' = published f \<and>
       fm_Version f' = fm_Version f \<and>
       (\<exists>x'. gm_get (fm_Replicas f') (rt_Target t) = Some x' \<and>
             rm_State x' = (if err = None then ReplicaHealthy else ReplicaMissing)) \<and>
       (\<forall>n. n \<noteq> rt_Target t \<longrightarrow> gm_get (fm_Replicas f') n = gm_get (fm_Replicas f) n)) \<and>
    (\<forall>k. k \<noteq> rt_Key t \<longrightarrow> gm_get (ms_files (mc_metadata c')) k = gm_get (ms_files (mc_metadata c)) k)"
proof -
  note head = Pending_head [OF assms(1,2)]
  have start: "StartReplication MemoryTaskQueue (rt_ID t) c =
      (Inr (started t (mq_now (mc_tasks c))),
       c\<lparr>mc_tasks := (mc_tasks c)\<lparr>mq_tasks := gm_put (rt_ID t) (started t (mq_now (mc_tasks c))) (mq_tasks (mc_tasks c))\<rparr>\<rparr>)"
    using head(1) by (simp add: StartReplication_def MarkRunning_def started_def Let_def)
  show ?thesis
  proof (cases err)
    case None
    with assms(2-5) start show ?thesis
      by (auto simp: WorkOnce_def PendingTasks_def FinishReplication_def MarkDone_def MarkReplica_def
          Let_def published_def)
  next
    case (Some e)
    with assms(2-5) start show ?thesis
      by (auto simp: WorkOnce_def PendingTasks_def FailReplication_def MarkFailed_def MarkReplica_def
          Let_def published_def defaultReplicationTaskMaxAttempts_def)
  qed
qed

text \<open>A task for the witnesses, a queue that holds it, and the coordinator of a file it copies.\<close>

definition demo_task :: ReplicationTask where
  "demo_task = (newReplicationTask (the (gm_get (ms_files (mc_metadata demo_write)) ''k'')) ''n1'' ''n2'' 5 5)
     \<lparr>rt_Chunks := [\<lparr>cm_Index = 0, cm_Offset = 0, cm_Size = 3, cm_Checksum = ''h''\<rparr>]\<rparr>"

definition demo_queued :: memory_coordinator where
  "demo_queued = demo_write\<lparr>mc_tasks := Enqueue [demo_task] (NewMemoryReplicationTaskQueue 5)\<rparr>"

lemma demo_task_sel [simp]:
  "rt_Key demo_task = ''k''" "rt_Version demo_task = 1" "rt_Checksum demo_task = ''h''"
  "rt_Source demo_task = ''n1''" "rt_Target demo_task = ''n2''" "rt_Attempts demo_task = 0"
  "rt_Chunks demo_task = [\<lparr>cm_Index = 0, cm_Offset = 0, cm_Size = 3, cm_Checksum = ''h''\<rparr>]"
  "rt_State demo_task = ReplicationTaskPending" "rt_RunAfter demo_task = 0"
  by (simp_all add: demo_task_def demo_write_facts(4))

lemma demo_queued_facts:
  "wf_queue (mc_tasks demo_queued)" "Pending (mc_tasks demo_queued) = [demo_task]"
  "mc_metadata demo_queued = mc_metadata demo_write" "mq_now (mc_tasks demo_queued) = 5"
  by (simp_all add: demo_queued_def wf_Enqueue del: Enqueue.simps)
    (simp_all add: NewMemoryReplicationTaskQueue_def Pending_def sortReplicationTasks_def gm_vals_def
      readyToRun_def)

theorem WorkOnce_round_witness:
  "\<exists>t' w'. WorkOnce MemoryMetadataBackend MemoryTaskQueue (\<lambda>t s. (Some ErrChecksumMismatch, s))
       \<lparr>rw_coordinator = demo_queued, rw_objects = ()\<rparr> = ((Some t', Some ErrChecksumMismatch), w') \<and>
     rt_Attempts t' = 1 \<and> rt_State t' = ReplicationTaskPending"
proof -
  let ?f = "the (gm_get (ms_files (mc_metadata demo_write)) ''k'')"
  have f: "gm_get (ms_files (mc_metadata demo_queued)) (rt_Key demo_task) = Some ?f"
    "gm_get (fm_Replicas ?f) (rt_Target demo_task) =
       Some \<lparr>rm_NodeID = ''n2'', rm_State = ReplicaPending, rm_UpdatedAt = 5\<rparr>"
    by (simp_all add: demo_queued_facts demo_write_facts(4))
  obtain t' c' where "WorkOnce MemoryMetadataBackend MemoryTaskQueue (\<lambda>t s. (Some ErrChecksumMismatch, s))
       \<lparr>rw_coordinator = demo_queued, rw_objects = ()\<rparr> =
         ((Some t', Some ErrChecksumMismatch), \<lparr>rw_coordinator = c', rw_objects = ()\<rparr>)"
    and "rt_Attempts t' = rt_Attempts demo_task + 1"
    and "rt_State t' = (if Some ErrChecksumMismatch = None then ReplicationTaskDone
           else if 5 \<le> rt_Attempts demo_task + 1 then ReplicationTaskDead else ReplicationTaskPending)"
    using WorkOnce_round [OF demo_queued_facts(1,2) f, where replicator = "\<lambda>t s. (Some ErrChecksumMismatch, s)"
        and s = "()", OF refl] by (elim exE conjE)
  then show ?thesis by simp
qed

section \<open>What a copy guarantees\<close>

text \<open>The objects of a task are ones for which the store gives its promises.\<close>

definition task_names_ok :: "Store \<Rightarrow> (string \<Rightarrow> string) \<Rightarrow> string set \<Rightarrow> ReplicationTask \<Rightarrow> bool" where
  "task_names_ok st D K task \<longleftrightarrow> rt_Source task \<noteq> rt_Target task \<and> rt_Chunks task \<noteq> [] \<and>
     (\<forall>n \<in> {rt_Source task, rt_Target task}. \<forall>c \<in> set (rt_Chunks task).
        local_ok st D K (chunk_id n (rt_Key task) (rt_Version task) c))"

lemma task_names_okD:
  assumes "task_names_ok st D K task"
  shows "rt_Source task \<noteq> rt_Target task" and "rt_Chunks task \<noteq> []"
    and "n \<in> {rt_Source task, rt_Target task} \<Longrightarrow> c \<in> set (rt_Chunks task) \<Longrightarrow>
           local_ok st D K (chunk_id n (rt_Key task) (rt_Version task) c)"
  using assms by (auto simp: task_names_ok_def)

lemma Replicate_chunked:
  "rt_Chunks task \<noteq> [] \<Longrightarrow> Replicate H OS task s = replicateLoop H OS task (rt_Chunks task) [] [] s"
  by (simp add: Replicate_def replicateChunks_def)

text \<open>
  C6. A copy that reports success is verified, chunk by chunk and as a whole. Over the object
  store on disk, with or without faults of the disk: if \<open>Replicate\<close> of a chunked task returns
  no error, every chunk of the manifest is on the target with the bytes it has on the source,
  its length and checksum are those of the manifest, and the checksum of all the bytes in
  manifest order is the task's, if it names one. Objects other than the target's chunks of
  this version are unchanged.
\<close>

theorem Replicate_verified:
  assumes "local_inv st D K fs" and "task_names_ok st D K task"
    and "Replicate H (LocalObjectStore st) task fs = (None, fs')"
  shows "(\<exists>datas. list_all2 (\<lambda>c d.
          local_content st D fs (chunk_id (rt_Source task) (rt_Key task) (rt_Version task) c) = Some d \<and>
          local_content st D fs' (chunk_id (rt_Target task) (rt_Key task) (rt_Version task) c) = Some d \<and>
          int (length d) = cm_Size c \<and> H d = cm_Checksum c) (rt_Chunks task) datas \<and>
        (rt_Checksum task \<noteq> '''' \<longrightarrow> H (concat datas) = rt_Checksum task)) \<and>
     (\<forall>x. local_ok st D K x \<longrightarrow>
        x \<notin> chunk_id (rt_Target task) (rt_Key task) (rt_Version task) ` set (rt_Chunks task) \<longrightarrow>
        local_content st D fs' x = local_content st D fs x)"
proof -
  have run: "replicateLoop H (LocalObjectStore st) task (rt_Chunks task) [] [] fs = (None, fs')"
    using assms(3) task_names_okD(2) [OF assms(2)] by (simp add: Replicate_chunked)
  show ?thesis
    using local.replicateLoop_success [OF assms(1) task_names_okD(3,1) [OF assms(2)] run] by simp
qed

text \<open>
  A good source is copied. On a disk without faults, if every chunk of the manifest is on
  the source with the length and checksum of the manifest and the whole has the task's
  checksum, \<open>Replicate\<close> returns no error.
\<close>

theorem Replicate_completes:
  assumes "local_inv st D K fs" and "fault_free fs" and "task_names_ok st D K task"
    and "list_all2 (\<lambda>c d.
          local_content st D fs (chunk_id (rt_Source task) (rt_Key task) (rt_Version task) c) = Some d \<and>
          int (length d) = cm_Size c \<and> H d = cm_Checksum c) (rt_Chunks task) datas"
    and "rt_Checksum task = '''' \<or> H (concat datas) = rt_Checksum task"
  shows "\<exists>fs'. Replicate H (LocalObjectStore st) task fs = (None, fs')"
proof -
  have "fst (replicateLoop H (LocalObjectStore st) task (rt_Chunks task) [] [] fs) = None"
    using local_reliable.replicateLoop_completes
      [OF conjI [OF assms(1,2)] task_names_okD(3,1) [OF assms(3)] assms(4), of "[]"] assms(5) by simp
  moreover have "rt_Chunks task \<noteq> []" using assms(3) by (simp add: task_names_ok_def)
  ultimately show ?thesis by (simp add: Replicate_chunked prod_eq_iff)
qed

text \<open>
  C13. A bad source does no harm. On a disk without faults, if \<open>Replicate\<close> reports
  \<open>ErrChecksumMismatch\<close>, every object is as it was or gone: no object holds bytes that it did
  not hold before, so nothing of a copy that failed verification remains. The objects that are
  not among the target's chunks of this version are as they were.
\<close>

theorem Replicate_rejects_corruption:
  assumes "local_inv st D K fs" and "fault_free fs" and "task_names_ok st D K task"
    and "Replicate H (LocalObjectStore st) task fs = (Some ErrChecksumMismatch, fs')"
  shows "\<forall>x. local_ok st D K x \<longrightarrow>
      local_content st D fs' x \<in> {None, local_content st D fs x} \<and>
      (x \<notin> chunk_id (rt_Target task) (rt_Key task) (rt_Version task) ` set (rt_Chunks task) \<longrightarrow>
        local_content st D fs' x = local_content st D fs x)"
proof -
  have run: "replicateLoop H (LocalObjectStore st) task (rt_Chunks task) [] [] fs =
      (Some ErrChecksumMismatch, fs')"
    using assms(3,4) by (simp add: Replicate_chunked task_names_ok_def)
  have "\<forall>x. local_ok st D K x \<longrightarrow> local_content st D fs' x \<in> {None, local_content st D fs x}"
    by (rule local_reliable.replicateLoop_mismatch(1)
        [OF conjI [OF assms(1,2)] task_names_okD(3) [OF assms(3)] _ run]) simp_all
  moreover have "\<forall>x. local_ok st D K x \<longrightarrow>
      x \<notin> chunk_id (rt_Target task) (rt_Key task) (rt_Version task) ` set (rt_Chunks task) \<longrightarrow>
      local_content st D fs' x = local_content st D fs x"
    using local.replicateLoop_frame [OF assms(1) task_names_okD(3) [OF assms(3)] _ run] by simp
  ultimately show ?thesis by blast
qed

text \<open>The chunk of the demonstration task on a disk.\<close>

abbreviation demo_names :: "string set" where
  "demo_names \<equiv> {versionedObjectKey (chunkObjectKey ''k'' 0) 1}"

definition demo_source :: "byte list \<Rightarrow> file_system" where
  "demo_source b = snd (snd (os_WriteObject (LocalObjectStore demo_store) ''n1'' (chunkObjectKey ''k'' 0) 1
     (bytes_reader b) demo_disk))"

lemma demo_source_facts:
  "local_inv demo_store demo_digest demo_names (demo_source b) \<and> fault_free (demo_source b)"
  "local_content demo_store demo_digest (demo_source b) (''n1'', chunkObjectKey ''k'' 0, 1) = Some b"
  "task_names_ok demo_store demo_digest demo_names demo_task"
proof -
  have ok: "local_ok demo_store demo_digest demo_names (n, chunkObjectKey ''k'' 0, 1)" if "plain n" for n
    using that by (rule demo_ok)
  have n1: "plain ''n1''" and n2: "plain ''n2''" by (simp_all add: plain_def)
  from local_reliable.write_succeeds [OF demo_disk_inv ok [OF n1], of "bytes_reader b" b] obtain fs1 where
    wr: "os_WriteObject (LocalObjectStore demo_store) ''n1'' (chunkObjectKey ''k'' 0) 1 (bytes_reader b) demo_disk =
      (Inr (int (length b)), b, fs1)" by auto
  then show "local_inv demo_store demo_digest demo_names (demo_source b) \<and> fault_free (demo_source b)"
    using local_reliable.write_inv [OF demo_disk_inv ok [OF n1], of "bytes_reader b"] by (simp add: demo_source_def)
  show "local_content demo_store demo_digest (demo_source b) (''n1'', chunkObjectKey ''k'' 0, 1) = Some b"
    using local_reliable.write_done [OF demo_disk_inv ok [OF n1] wr] wr by (simp add: demo_source_def)
  show "task_names_ok demo_store demo_digest demo_names demo_task"
    using ok n1 n2 by (simp add: task_names_ok_def chunk_id_def)
qed

theorem Replicate_completes_witness:
  "\<exists>fs'. Replicate (\<lambda>b. ''h'') (LocalObjectStore demo_store) demo_task (demo_source [1, 2, 3]) = (None, fs')"
  by (rule Replicate_completes [OF conjunct1 [OF demo_source_facts(1)] conjunct2 [OF demo_source_facts(1)]
        demo_source_facts(3), where datas = "[[1, 2, 3]]"])
    (use demo_source_facts(2) [of "[1, 2, 3]"] in \<open>simp_all add: chunk_id_def\<close>)

lemma demo_replicate_run:
  "Replicate (\<lambda>b. ''h'') (LocalObjectStore demo_store) demo_task (demo_source [1, 2, 3]) =
     (None, snd (Replicate (\<lambda>b. ''h'') (LocalObjectStore demo_store) demo_task (demo_source [1, 2, 3])))"
  "fst (Replicate (\<lambda>b. ''h'') (LocalObjectStore demo_store) demo_task (demo_source [1, 2])) =
     Some ErrChecksumMismatch"
proof -
  have ok: "local_ok demo_store demo_digest demo_names (n, chunkObjectKey ''k'' 0, 1)"
    if "n \<in> {''n1'', ''n2''}" for n
    using that by (intro demo_ok) (auto simp: plain_def)
  have run: "Replicate (\<lambda>b. ''h'') (LocalObjectStore demo_store) demo_task (demo_source b) =
      (if length b = 3 then (None, fs1)
       else (Some ErrChecksumMismatch, snd (os_DeleteObject (LocalObjectStore demo_store) ''n2'' (chunkObjectKey ''k'' 0) 1 fs1)))"
    if "os_ReadObject (LocalObjectStore demo_store) ''n1'' (chunkObjectKey ''k'' 0) 1 (demo_source b) = Inr (int (length b), rd)"
      and "rd_close rd = None"
      and "os_WriteObject (LocalObjectStore demo_store) ''n2'' (chunkObjectKey ''k'' 0) 1 rd (demo_source b) =
        (Inr (int (length b)), b, fs1)" for b rd fs1
    using that by (simp add: Replicate_chunked del: local_store_sel)
  show "Replicate (\<lambda>b. ''h'') (LocalObjectStore demo_store) demo_task (demo_source [1, 2, 3]) =
     (None, snd (Replicate (\<lambda>b. ''h'') (LocalObjectStore demo_store) demo_task (demo_source [1, 2, 3])))"
    by (rule local_reliable.copy_object [OF demo_source_facts(1) ok ok demo_source_facts(2),
          of "''n2''" "[1, 2, 3]"]) (simp_all add: run del: local_store_sel)
  show "fst (Replicate (\<lambda>b. ''h'') (LocalObjectStore demo_store) demo_task (demo_source [1, 2])) =
     Some ErrChecksumMismatch"
    by (rule local_reliable.copy_object [OF demo_source_facts(1) ok ok demo_source_facts(2),
          of "''n2''" "[1, 2]"]) (simp_all add: run del: local_store_sel)
qed

theorem Replicate_verified_witness:
  "local_content demo_store demo_digest
     (snd (Replicate (\<lambda>b. ''h'') (LocalObjectStore demo_store) demo_task (demo_source [1, 2, 3])))
     (''n2'', chunkObjectKey ''k'' 0, 1) = Some [1, 2, 3]"
  using Replicate_verified [OF conjunct1 [OF demo_source_facts(1)] demo_source_facts(3) demo_replicate_run(1)]
    demo_source_facts(2) [of "[1, 2, 3]"]
  by (auto simp: chunk_id_def list_all2_Cons1)

theorem Replicate_rejects_corruption_witness:
  "\<exists>fs'. Replicate (\<lambda>b. ''h'') (LocalObjectStore demo_store) demo_task (demo_source [1, 2]) =
       (Some ErrChecksumMismatch, fs') \<and>
     local_content demo_store demo_digest fs' (''n1'', chunkObjectKey ''k'' 0, 1) = Some [1, 2]"
proof -
  obtain fs' where run: "Replicate (\<lambda>b. ''h'') (LocalObjectStore demo_store) demo_task (demo_source [1, 2]) =
      (Some ErrChecksumMismatch, fs')"
    using demo_replicate_run(2) by (metis prod.collapse)
  have "local_ok demo_store demo_digest demo_names (''n1'', chunkObjectKey ''k'' 0, 1)"
    by (rule demo_ok) (simp add: plain_def)
  with Replicate_rejects_corruption [OF conjunct1 [OF demo_source_facts(1)]
      conjunct2 [OF demo_source_facts(1)] demo_source_facts(3) run] run demo_source_facts(2) [of "[1, 2]"]
  show ?thesis by (simp add: chunk_id_def)
qed

end
