(* ===== verification/Staging.thy ===== *)
theory Staging
  imports Object_Store
begin

text \<open>
  Staging a stream, \<open>stageReader\<close> in \<open>src/distributed-fs/managed_file_service.go\<close>: the stream
  passes through a temporary file and is cut into chunks of 4 MiB on the way.

  The temporary file is the list of its bytes; \<open>tempEnv\<close> says how the calls on it can fail.
  \<open>chunk_manifest\<close> is the reference, which cuts the whole content at once; the theorems say that
  the loops of the code compute it, however the stream splits its bytes over the \<open>Read\<close> calls,
  and that it partitions the content.
\<close>

section \<open>Staging a stream\<close>

definition defaultChunkSize :: int where
  "defaultChunkSize = 4 * 1024 * 1024"

abbreviation chunk_len :: nat where
  "chunk_len \<equiv> nat defaultChunkSize"

lemma chunk_len_simps [simp]: "0 < chunk_len" "0 < defaultChunkSize" "0 \<le> defaultChunkSize"
  "\<not> defaultChunkSize \<le> 0"
  by (simp_all add: defaultChunkSize_def)

lemma int_chunk_len: "int chunk_len = defaultChunkSize"
  by (simp add: defaultChunkSize_def)

text \<open>How \<open>os.CreateTemp\<close>, \<open>Write\<close> and \<open>Seek\<close> on the temporary file fail, if they do.\<close>

record tempEnv =
  te_create :: "string option"
  te_room :: "nat option"
  te_seek :: "string option"

text \<open>The variables of \<open>stageReader\<close>; a hash is the list of the bytes it has been fed.\<close>

record stage =
  sg_file :: "byte list"
  sg_hash :: "byte list"
  sg_chunkHash :: "byte list"
  sg_chunks :: "ChunkMetadata list"
  sg_total :: int
  sg_chunkSize :: int
  sg_chunkIndex :: int
  sg_chunkOffset :: int

text \<open>One turn of the loop over a buffer: a part goes to the chunk in progress, which may become full.\<close>

definition stagePart :: "(byte list \<Rightarrow> string) \<Rightarrow> byte list \<Rightarrow> stage \<Rightarrow> stage" where
  "stagePart H part st =
     (let st1 = st\<lparr>sg_chunkHash := sg_chunkHash st @ part,
                   sg_chunkSize := sg_chunkSize st + int (length part),
                   sg_total := sg_total st + int (length part)\<rparr>
      in if sg_chunkSize st1 = defaultChunkSize
         then st1\<lparr>sg_chunks := sg_chunks st1 @
                    [\<lparr>cm_Index = sg_chunkIndex st1, cm_Offset = sg_chunkOffset st1,
                      cm_Size = sg_chunkSize st1, cm_Checksum = H (sg_chunkHash st1)\<rparr>],
                  sg_chunkIndex := sg_chunkIndex st1 + 1,
                  sg_chunkOffset := sg_total st1,
                  sg_chunkSize := 0,
                  sg_chunkHash := []\<rparr>
         else st1)"

text \<open>
  The loop over one buffer. In a state in which the chunk in progress is full already the code
  would not advance; that state is the error \<open>Panic\<close> here, and is never reached.
\<close>

function stageParts :: "(byte list \<Rightarrow> string) \<Rightarrow> byte list \<Rightarrow> stage \<Rightarrow> stage result" where
  "stageParts H remaining st =
     (if length remaining = 0 then Inr st
      else
        let room = defaultChunkSize - sg_chunkSize st;
            space = (if int (length remaining) < room then int (length remaining) else room)
        in if space \<le> 0 then Inl (Panic ''no progress'')
           else stageParts H (drop (nat space) remaining) (stagePart H (take (nat space) remaining) st))"
  by pat_completeness auto

termination stageParts
  by (relation "measure (\<lambda>(H, remaining, st). length remaining)") auto

declare stageParts.simps [simp del]

text \<open>The loop over the \<open>Read\<close> calls.\<close>

fun stageLoop :: "(byte list \<Rightarrow> string) \<Rightarrow> tempEnv \<Rightarrow> read_event list \<Rightarrow> stage \<Rightarrow> stage result" where
  "stageLoop H te [] st = Inr st"
| "stageLoop H te ((d, readErr) # es) st =
     (let written = write_piece (te_room te) d (sg_file st);
          step = (if 0 < length d then
                    (if snd written then Inl (ErrOther ''no space left on device'')
                     else stageParts H d (st\<lparr>sg_file := fst written, sg_hash := sg_hash st @ d\<rparr>))
                  else Inr st)
      in case step of
           Inl err \<Rightarrow> Inl err
         | Inr st' \<Rightarrow>
             (case readErr of
                ReadEOF \<Rightarrow> Inr st'
              | ReadFailed e \<Rightarrow> Inl e
              | ReadMore \<Rightarrow> stageLoop H te es st'))"

definition stage0 :: stage where
  "stage0 = \<lparr>sg_file = [], sg_hash = [], sg_chunkHash = [], sg_chunks = [], sg_total = 0,
             sg_chunkSize = 0, sg_chunkIndex = 0, sg_chunkOffset = 0\<rparr>"

text \<open>The staged bytes, their number, their checksum and the manifest.\<close>

definition stageReader ::
  "(byte list \<Rightarrow> string) \<Rightarrow> tempEnv \<Rightarrow> read_event list
    \<Rightarrow> (byte list \<times> int \<times> string \<times> ChunkMetadata list) result" where
  "stageReader H te r =
     (case te_create te of
        Some msg \<Rightarrow> Inl (ErrOther msg)
      | None \<Rightarrow>
          (case stageLoop H te r stage0 of
             Inl err \<Rightarrow> Inl err
           | Inr st \<Rightarrow>
               (let chunks = (if 0 < sg_chunkSize st \<or> sg_total st = 0
                              then sg_chunks st @
                                [\<lparr>cm_Index = sg_chunkIndex st, cm_Offset = sg_chunkOffset st,
                                  cm_Size = sg_chunkSize st, cm_Checksum = H (sg_chunkHash st)\<rparr>]
                              else sg_chunks st)
                in Inr (sg_file st, sg_total st, H (sg_hash st), chunks))))"

section \<open>The manifest\<close>

text \<open>The block of a chunk and its entry, read off the whole content.\<close>

definition chunk_block :: "byte list \<Rightarrow> nat \<Rightarrow> byte list" where
  "chunk_block data i = take chunk_len (drop (i * chunk_len) data)"

definition chunk_at :: "(byte list \<Rightarrow> string) \<Rightarrow> byte list \<Rightarrow> nat \<Rightarrow> ChunkMetadata" where
  "chunk_at H data i =
     \<lparr>cm_Index = int i, cm_Offset = int i * defaultChunkSize,
      cm_Size = int (length (chunk_block data i)), cm_Checksum = H (chunk_block data i)\<rparr>"

definition chunk_count :: "nat \<Rightarrow> nat" where
  "chunk_count n = (if n = 0 then 1 else (n + chunk_len - 1) div chunk_len)"

definition chunk_manifest :: "(byte list \<Rightarrow> string) \<Rightarrow> byte list \<Rightarrow> ChunkMetadata list" where
  "chunk_manifest H data = map (chunk_at H data) [0..<chunk_count (length data)]"

lemma chunk_at_sel [simp]:
  "cm_Index (chunk_at H data i) = int i" "cm_Offset (chunk_at H data i) = int i * defaultChunkSize"
  "cm_Size (chunk_at H data i) = int (length (chunk_block data i))"
  "cm_Checksum (chunk_at H data i) = H (chunk_block data i)"
  by (simp_all add: chunk_at_def)

lemma ceiling_div:
  assumes "0 < (m::nat)" and "n \<noteq> 0"
  shows "(n + m - 1) div m = n div m + (if 0 < n mod m then 1 else 0)"
proof (cases "n mod m = 0")
  case True
  have "n + m - 1 = n div m * m + (m - 1)"
    using assms(1) True div_mult_mod_eq [of n m] by simp
  then have "(n + m - 1) div m = n div m + (m - 1) div m"
    using assms(1) by (metis div_mult_self3 less_not_refl2)
  with assms(1) True show ?thesis by simp
next
  case False
  have "n + m - 1 = Suc (n div m) * m + (n mod m - 1)"
    using False div_mult_mod_eq [of n m] by simp
  moreover have "n mod m - 1 < m" using assms(1) by (simp add: less_imp_diff_less)
  ultimately have "(n + m - 1) div m = Suc (n div m)" using assms(1) by (simp del: mult_Suc)
  with False show ?thesis by simp
qed

lemma chunk_count_div: "chunk_count n = n div chunk_len + (if 0 < n mod chunk_len \<or> n = 0 then 1 else 0)"
  using ceiling_div [of chunk_len n] by (simp add: chunk_count_def)

lemma chunk_count_pos [simp]: "0 < chunk_count n"
proof (cases "n < chunk_len")
  case False
  then have "0 < n div chunk_len" by (simp add: div_greater_zero_iff)
  then show ?thesis by (simp add: chunk_count_div)
qed (auto simp: chunk_count_div)

text \<open>The blocks in order are the content.\<close>

lemma concat_blocks: "concat (map (chunk_block data) [0..<m]) = take (m * chunk_len) data"
proof (induction m)
  case (Suc m)
  then show ?case
    using take_add [of "m * chunk_len" chunk_len data] by (simp add: chunk_block_def add.commute)
qed simp

lemma manifest_concat: "concat (map (chunk_block data) [0..<chunk_count (length data)]) = data"
proof -
  have "length data \<le> Suc (length data div chunk_len) * chunk_len"
    using dividend_less_times_div [of chunk_len "length data"] by (simp add: mult.commute)
  moreover have "length data = length data div chunk_len * chunk_len" if "length data mod chunk_len = 0"
    using that by (metis add.right_neutral div_mult_mod_eq)
  ultimately have "length data \<le> chunk_count (length data) * chunk_len"
    by (cases "length data mod chunk_len = 0") (simp_all add: chunk_count_div)
  then show ?thesis by (simp add: concat_blocks)
qed

lemma chunk_block_append:
  assumes "i < length data div chunk_len"
  shows "chunk_block (data @ d) i = chunk_block data i"
proof -
  have "Suc i * chunk_len \<le> length data"
    using assms by (metis Suc_leI chunk_len_simps(1) less_eq_div_iff_mult_less_eq)
  then show ?thesis by (simp add: chunk_block_def)
qed

text \<open>The range of a chunk in the content, and the length of all chunks but the last.\<close>

lemma chunk_slice:
  "take (nat (cm_Size (chunk_at H data i))) (drop (nat (cm_Offset (chunk_at H data i))) data) = chunk_block data i"
proof -
  have "nat (int i * defaultChunkSize) = i * chunk_len" by (simp add: nat_mult_distrib)
  then show ?thesis by (simp add: chunk_block_def min_def)
qed

lemma chunk_full:
  assumes "Suc i < chunk_count (length data)"
  shows "cm_Size (chunk_at H data i) = defaultChunkSize"
proof -
  have "Suc i \<le> length data div chunk_len" using assms by (simp add: chunk_count_div split: if_splits)
  then have "Suc i * chunk_len \<le> length data"
    by (metis chunk_len_simps(1) less_eq_div_iff_mult_less_eq)
  then show ?thesis by (simp add: chunk_block_def int_chunk_len)
qed

section \<open>Staging gives the manifest\<close>

text \<open>The variables of \<open>stageReader\<close> after it has passed on the bytes \<open>data\<close>.\<close>

definition stage_of :: "(byte list \<Rightarrow> string) \<Rightarrow> byte list \<Rightarrow> byte list \<Rightarrow> byte list \<Rightarrow> stage" where
  "stage_of H f h data =
     (let q = length data div chunk_len
      in \<lparr>sg_file = f, sg_hash = h, sg_chunkHash = drop (q * chunk_len) data,
          sg_chunks = map (chunk_at H data) [0..<q], sg_total = int (length data),
          sg_chunkSize = int (length data mod chunk_len), sg_chunkIndex = int q,
          sg_chunkOffset = int q * defaultChunkSize\<rparr>)"

lemma drop_chunks_length: "length (drop (length data div chunk_len * chunk_len) data) = length data mod chunk_len"
  by (simp add: minus_div_mult_eq_mod)

lemma div_mod_of_sum:
  assumes "a < (m::nat)"
  shows "(q * m + a) div m = q" and "(q * m + a) mod m = a"
  using assms by simp_all

lemma stagePart_within:
  assumes "length data mod chunk_len + length p < chunk_len"
  shows "stagePart H p (stage_of H f h data) = stage_of H f h (data @ p)"
proof -
  let ?n = "length data" and ?q = "length data div chunk_len"
  have eq: "?n + length p = ?q * chunk_len + (?n mod chunk_len + length p)" by simp
  have q: "(?n + length p) div chunk_len = ?q" and r: "(?n + length p) mod chunk_len = ?n mod chunk_len + length p"
    using div_mod_of_sum [OF assms, of ?q] by (simp_all only: eq)
  have "map (chunk_at H (data @ p)) [0..<?q] = map (chunk_at H data) [0..<?q]"
    by (simp add: chunk_at_def chunk_block_append)
  moreover have "int (?n mod chunk_len) + int (length p) \<noteq> defaultChunkSize"
    using assms int_chunk_len by linarith
  ultimately show ?thesis using q r by (simp add: stage_of_def stagePart_def Let_def)
qed

lemma stagePart_full:
  assumes "length data mod chunk_len + length p = chunk_len"
  shows "stagePart H p (stage_of H f h data) = stage_of H f h (data @ p)"
proof -
  let ?n = "length data" and ?q = "length data div chunk_len"
  have eq: "?n + length p = Suc ?q * chunk_len"
    using assms by (metis add.assoc add.commute div_mult_mod_eq mult_Suc)
  then have q: "(?n + length p) div chunk_len = Suc ?q" and r: "(?n + length p) mod chunk_len = 0"
    unfolding eq by (simp_all del: mult_Suc)
  have le: "?q * chunk_len \<le> ?n" by simp
  have blk: "chunk_block (data @ p) ?q = drop (?q * chunk_len) data @ p"
    using assms le drop_chunks_length [of data] by (simp add: chunk_block_def)
  then have "length (chunk_block (data @ p) ?q) = chunk_len"
    using assms drop_chunks_length [of data] by simp
  then have "chunk_at H (data @ p) ?q = \<lparr>cm_Index = int ?q, cm_Offset = int ?q * defaultChunkSize,
      cm_Size = defaultChunkSize, cm_Checksum = H (drop (?q * chunk_len) data @ p)\<rparr>"
    by (simp add: chunk_at_def blk int_chunk_len)
  moreover have "map (chunk_at H (data @ p)) [0..<?q] = map (chunk_at H data) [0..<?q]"
    by (simp add: chunk_at_def chunk_block_append)
  moreover have "int (?n mod chunk_len) + int (length p) = defaultChunkSize"
    using assms int_chunk_len by linarith
  moreover have "int ?n + int (length p) = (1 + int ?q) * defaultChunkSize"
    using arg_cong [OF eq, of int] by (simp add: int_chunk_len algebra_simps)
  moreover have "drop (Suc ?q * chunk_len) (data @ p) = []" using eq by (simp del: mult_Suc drop_append)
  ultimately show ?thesis using q r
    by (simp add: stage_of_def stagePart_def Let_def del: drop_append mult_Suc)
qed

lemma int_min: "(if int a < int b then int a else int b) = int (min a b)"
  by simp

text \<open>The inner loop takes any piece, however it falls on the chunk boundaries.\<close>

lemma stageParts_append: "stageParts H d (stage_of H f h data) = Inr (stage_of H f h (data @ d))"
proof (induction "length d" arbitrary: d data rule: less_induct)
  case less
  show ?case
  proof (cases "d = []")
    case True
    then show ?thesis by (simp add: stageParts.simps)
  next
    case False
    let ?r = "length data mod chunk_len"
    define n where "n = min (length d) (chunk_len - ?r)"
    have lt: "?r < chunk_len" by simp
    with False have pos: "0 < n" "n \<le> length d" "n \<le> chunk_len - ?r" by (simp_all add: n_def min_def)
    have "defaultChunkSize - sg_chunkSize (stage_of H f h data) = int (chunk_len - ?r)"
      using lt by (simp add: stage_of_def Let_def of_nat_diff int_chunk_len)
    then have "stageParts H d (stage_of H f h data) =
        stageParts H (drop n d) (stagePart H (take n d) (stage_of H f h data))"
      using False pos(1) int_min [of "length d" "chunk_len - ?r", folded n_def]
      by (subst stageParts.simps) (simp only: Let_def length_0_conv nat_int if_False of_nat_le_0_iff, simp)
    also have "stagePart H (take n d) (stage_of H f h data) = stage_of H f h (data @ take n d)"
    proof (cases "?r + length (take n d) = chunk_len")
      case True
      then show ?thesis by (rule stagePart_full)
    next
      case False
      with pos lt have "?r + length (take n d) < chunk_len" by simp
      then show ?thesis by (rule stagePart_within)
    qed
    also have "stageParts H (drop n d) \<dots> = Inr (stage_of H f h ((data @ take n d) @ drop n d))"
      using False pos by (intro less) simp
    finally show ?thesis by simp
  qed
qed

definition room_for :: "tempEnv \<Rightarrow> nat \<Rightarrow> bool" where
  "room_for te n \<longleftrightarrow> (case te_room te of None \<Rightarrow> True | Some m \<Rightarrow> n \<le> m)"

lemma write_piece_room:
  "write_piece (te_room te) d acc = (if room_for te (length acc + length d) then (acc @ d, False)
     else (acc @ take (the (te_room te) - length acc) d, True))"
  by (simp add: write_piece_def room_for_def split: option.splits)

lemma room_for_less: "room_for te n \<Longrightarrow> m \<le> n \<Longrightarrow> room_for te m"
  by (auto simp: room_for_def split: option.splits)

lemma stage_of_file [simp]:
  "sg_file (stage_of H f h data) = f" "sg_hash (stage_of H f h data) = h"
  "sg_total (stage_of H f h data) = int (length data)"
  "(stage_of H f h data)\<lparr>sg_file := f', sg_hash := h'\<rparr> = stage_of H f' h' data"
  by (simp_all add: stage_of_def Let_def)

abbreviation staged_all :: "(byte list \<Rightarrow> string) \<Rightarrow> byte list \<Rightarrow> stage" where
  "staged_all H data \<equiv> stage_of H data data data"

lemma stageLoop_step:
  assumes "room_for te (length data)"
  shows "stageLoop H te ((d, readErr) # es) (staged_all H data) =
    (if room_for te (length data + length d)
     then case readErr of
            ReadEOF \<Rightarrow> Inr (staged_all H (data @ d))
          | ReadFailed e \<Rightarrow> Inl e
          | ReadMore \<Rightarrow> stageLoop H te es (staged_all H (data @ d))
     else Inl (ErrOther ''no space left on device''))"
  using assms by (cases "d = []") (simp_all add: Let_def write_piece_room stageParts_append split: read_status.split)

lemma stageLoop_eq:
  assumes "room_for te (length data)"
  shows "stageLoop H te es (staged_all H data) =
    (if room_for te (length data + length (fst (drain es)))
     then case snd (drain es) of
            None \<Rightarrow> Inr (staged_all H (data @ fst (drain es)))
          | Some e \<Rightarrow> Inl e
     else Inl (ErrOther ''no space left on device''))"
  using assms
proof (induction es arbitrary: data rule: drain.induct)
  case (2 d es)
  show ?case
  proof (cases "room_for te (length data + length d)")
    case True
    with "2.IH"(1) [of "data @ d"] show ?thesis
      by (simp add: stageLoop_step [OF "2.prems"] add.assoc del: stageLoop.simps split: option.splits)
  next
    case False
    then have "\<not> room_for te (length data + length (d @ fst (drain es)))"
      using room_for_less [of te] by (auto simp: add.assoc [symmetric])
    with False show ?thesis by (simp add: stageLoop_step [OF "2.prems"] del: stageLoop.simps)
  qed
qed (simp_all add: stageLoop_step del: stageLoop.simps(2))

lemma stage0_eq: "stage0 = staged_all H []"
  by (simp add: stage0_def stage_of_def)

lemma final_chunks:
  "(if 0 < sg_chunkSize (staged_all H data) \<or> data = []
    then sg_chunks (staged_all H data) @
      [\<lparr>cm_Index = sg_chunkIndex (staged_all H data), cm_Offset = sg_chunkOffset (staged_all H data),
        cm_Size = sg_chunkSize (staged_all H data), cm_Checksum = H (sg_chunkHash (staged_all H data))\<rparr>]
    else sg_chunks (staged_all H data)) = chunk_manifest H data"
proof -
  let ?q = "length data div chunk_len"
  have "chunk_block data ?q = drop (?q * chunk_len) data"
    using drop_chunks_length [of data] by (simp add: chunk_block_def)
  then have "chunk_at H data ?q = \<lparr>cm_Index = int ?q, cm_Offset = int ?q * defaultChunkSize,
      cm_Size = int (length data mod chunk_len), cm_Checksum = H (drop (?q * chunk_len) data)\<rparr>"
    using drop_chunks_length [of data] by (simp add: chunk_at_def)
  then show ?thesis
    by (simp add: chunk_manifest_def chunk_count_div stage_of_def Let_def)
qed

lemma stageReader_eq:
  "stageReader H te r =
     (case te_create te of
        Some msg \<Rightarrow> Inl (ErrOther msg)
      | None \<Rightarrow>
          if \<not> room_for te (length (fst (drain r))) then Inl (ErrOther ''no space left on device'')
          else case drain r of
                 (data, Some e) \<Rightarrow> Inl e
               | (data, None) \<Rightarrow> Inr (data, int (length data), H data, chunk_manifest H data))"
proof -
  have room: "room_for te (length ([] :: byte list))" by (simp add: room_for_def split: option.split)
  obtain data err where d: "drain r = (data, err)" by fastforce
  show ?thesis
    using stageLoop_eq [OF room, of H r] final_chunks [of H data]
    by (auto simp: d stageReader_def stage0_eq [of H] Let_def split: option.split if_splits)
qed

text \<open>
  C7. Staging a stream gives the manifest of its content, however the stream splits its bytes
  over the \<open>Read\<close> calls. \<open>stageReader\<close> returns the bytes of the stream, their number, their
  checksum and the manifest that cuts the whole content into blocks of 4 MiB; it fails exactly
  if the temporary file cannot be made, lacks room for the bytes delivered, or the stream ends
  in an error, and then with that error. The chunking loop always makes progress.
\<close>

theorem stageReader_exact:
  "stageReader H te r =
     (case te_create te of
        Some msg \<Rightarrow> Inl (ErrOther msg)
      | None \<Rightarrow>
          if \<not> room_for te (length (fst (drain r))) then Inl (ErrOther ''no space left on device'')
          else case drain r of
                 (data, Some e) \<Rightarrow> Inl e
               | (data, None) \<Rightarrow> Inr (data, int (length data), H data, chunk_manifest H data))"
  by (rule stageReader_eq)

text \<open>
  The manifest of a staged file partitions it. The staged bytes are those of the stream;
  the ranges given by the offsets and sizes of the chunks, in order, are the file, without gap
  or overlap; the chunks are numbered from zero, there is at least one, every one is at most
  4 MiB long and all but the last exactly so; and each carries the checksum of its range.
\<close>

theorem manifest_partitions:
  assumes "stageReader H te r = Inr (f, n, cks, chunks)"
  shows "drain r = (f, None) \<and> n = int (length f) \<and> cks = H f \<and> chunks \<noteq> [] \<and>
    concat (map (\<lambda>c. take (nat (cm_Size c)) (drop (nat (cm_Offset c)) f)) chunks) = f \<and>
    map cm_Index chunks = map int [0..<length chunks] \<and>
    (\<forall>c \<in> set chunks. cm_Checksum c = H (take (nat (cm_Size c)) (drop (nat (cm_Offset c)) f)) \<and>
       0 \<le> cm_Offset c \<and> cm_Size c \<le> 4194304) \<and>
    (\<forall>i. Suc i < length chunks \<longrightarrow> cm_Size (chunks ! i) = 4194304)"
proof -
  from assms have d: "drain r = (f, None)" and n: "n = int (length f)" "cks = H f"
    and c: "chunks = chunk_manifest H f"
    by (auto simp: stageReader_eq split: option.splits if_splits prod.splits)
  have val: "defaultChunkSize = 4194304" by (simp add: defaultChunkSize_def)
  have slice: "take (nat (cm_Size (chunk_at H f i))) (drop (nat (cm_Offset (chunk_at H f i))) f) = chunk_block f i" for i
    by (rule chunk_slice)
  have full: "cm_Size (chunk_at H f i) = 4194304" if "Suc i < chunk_count (length f)" for i
    using chunk_full [OF that] by (simp add: val)
  have range: "0 \<le> cm_Offset (chunk_at H f i)" "cm_Size (chunk_at H f i) \<le> 4194304" for i
    by (simp_all add: chunk_block_def val)
  show ?thesis
    using d n manifest_concat [of f] chunk_count_pos [of "length f"]
    by (simp add: c chunk_manifest_def slice comp_def range full del: chunk_at_sel(2,3))
qed

theorem manifest_partitions_witness:
  "\<exists>chunks. stageReader (\<lambda>b. ''h'') \<lparr>te_create = None, te_room = None, te_seek = None\<rparr> [([1, 2], ReadMore), ([3], ReadEOF)] =
       Inr ([1, 2, 3], 3, ''h'', chunks) \<and> map cm_Index chunks = map int [0..<length chunks]"
proof -
  obtain chunks where run: "stageReader (\<lambda>b. ''h'') \<lparr>te_create = None, te_room = None, te_seek = None\<rparr>
      [([1, 2], ReadMore), ([3], ReadEOF)] = Inr ([1, 2, 3], 3, ''h'', chunks)"
    by (simp add: stageReader_eq room_for_def)
  from manifest_partitions [OF run] run show ?thesis by blast
qed

end
