(* ===== verification/File_Service.thy ===== *)
theory File_Service
  imports Worker Staging
begin

text \<open>
  The managed file service, \<open>src/distributed-fs/managed_file_service.go\<close>: \<open>Put\<close>, \<open>Get\<close> and
  \<open>Delete\<close> over a coordinator and an object store.

  The service's record holds the coordinator and the state of the object store; the worker of
  the code has the same two. \<open>B\<close>, \<open>Q\<close> and \<open>OS\<close> are the method tables of the metadata backend,
  the task queue and the object store, \<open>H\<close> is SHA-256 in hexadecimal and \<open>te\<close> says how the
  temporary files can fail. The lock that serialises \<open>Put\<close> and \<open>Delete\<close> is not in the state:
  an operation here runs from beginning to end.

  Shown here: what is put is what is got, over the in-memory stores; a \<open>Get\<close> that answers is
  verified, over any stores; and, in the locale \<open>managed_writes\<close>, what a \<open>Put\<close> that fails leaves
  behind over any stores that meet their contracts.
\<close>

section \<open>Data\<close>

record ('m, 'q, 's) ManagedFileService =
  sv_coordinator :: "('m, 'q) MetadataCoordinator"
  sv_objects :: 's

record ServiceMetrics =
  sm_Files :: nat
  sm_DeletedFiles :: nat
  sm_PendingTasks :: nat
  sm_ReplicationTasks :: "(ReplicationTaskState \<times> nat) list"
  sm_Nodes :: "(NodeState \<times> nat) list"
  sm_Replicas :: "(ReplicaState \<times> nat) list"

definition NewManagedFileServiceWithMetadataAndQueue ::
  "int \<Rightarrow> 's \<Rightarrow> 'm \<Rightarrow> 'q \<Rightarrow> ('m, 'q, 's) ManagedFileService" where
  "NewManagedFileServiceWithMetadataAndQueue replicaCount objects metadata tasks =
     \<lparr>sv_coordinator = NewMetadataCoordinatorWithBackendAndQueue replicaCount metadata tasks,
      sv_objects = objects\<rparr>"

definition NewManagedFileServiceWithMetadata ::
  "instant \<Rightarrow> int \<Rightarrow> 's \<Rightarrow> 'm \<Rightarrow> ('m, MemoryReplicationTaskQueue, 's) ManagedFileService" where
  "NewManagedFileServiceWithMetadata t replicaCount objects metadata =
     NewManagedFileServiceWithMetadataAndQueue replicaCount objects metadata (NewMemoryReplicationTaskQueue t)"

definition NewManagedFileService ::
  "instant \<Rightarrow> int \<Rightarrow> 's \<Rightarrow> (MetadataStore, MemoryReplicationTaskQueue, 's) ManagedFileService" where
  "NewManagedFileService t replicaCount objects = NewManagedFileServiceWithMetadata t replicaCount objects (NewMetadataStore t)"

section \<open>Objects of a version\<close>

text \<open>\<open>deleteObjects\<close>: the errors of the single deletions are ignored.\<close>

definition deleteObjects ::
  "'s ObjectStore \<Rightarrow> string \<Rightarrow> string \<Rightarrow> uint64 \<Rightarrow> ChunkMetadata list \<Rightarrow> 's \<Rightarrow> 's" where
  "deleteObjects OS nodeID key version chunks s =
     (if length chunks = 0 then snd (os_DeleteObject OS nodeID key version s)
      else fold (\<lambda>chunk s. snd (os_DeleteObject OS nodeID (chunkObjectKey key (cm_Index chunk)) version s))
             chunks s)"

text \<open>
  \<open>Seek\<close> to an offset of the staged file, and the stream of at most \<open>limit\<close> bytes from there,
  \<open>io.LimitReader\<close>.
\<close>

definition staged_Seek :: "tempEnv \<Rightarrow> int \<Rightarrow> error option" where
  "staged_Seek te offset =
     (case te_seek te of
        Some msg \<Rightarrow> Some (ErrOther msg)
      | None \<Rightarrow> if offset < 0 then Some (ErrOther ''invalid argument'') else None)"

definition LimitReader :: "byte list \<Rightarrow> int \<Rightarrow> int \<Rightarrow> reader" where
  "LimitReader staged offset limit = bytes_reader (take (nat limit) (drop (nat offset) staged))"

text \<open>The loop of \<open>writeChunks\<close>; \<open>all\<close> is the whole manifest, whose objects are removed on an error.\<close>

fun writeChunkLoop ::
  "tempEnv \<Rightarrow> 's ObjectStore \<Rightarrow> string \<Rightarrow> string \<Rightarrow> uint64 \<Rightarrow> byte list \<Rightarrow> ChunkMetadata list
    \<Rightarrow> ChunkMetadata list \<Rightarrow> 's \<Rightarrow> error option \<times> 's" where
  "writeChunkLoop te OS nodeID key version staged all [] s = (None, s)"
| "writeChunkLoop te OS nodeID key version staged all (chunk # chunks) s =
     (case staged_Seek te (cm_Offset chunk) of
        Some err \<Rightarrow> (Some err, deleteObjects OS nodeID key version all s)
      | None \<Rightarrow>
          (case os_WriteObject OS nodeID (chunkObjectKey key (cm_Index chunk)) version
                  (LimitReader staged (cm_Offset chunk) (cm_Size chunk)) s of
             (Inl err, _, s1) \<Rightarrow> (Some err, deleteObjects OS nodeID key version all s1)
           | (Inr n, _, s1) \<Rightarrow>
               if n \<noteq> cm_Size chunk then (Some ErrShortWrite, deleteObjects OS nodeID key version all s1)
               else writeChunkLoop te OS nodeID key version staged all chunks s1))"

definition writeChunks ::
  "tempEnv \<Rightarrow> 's ObjectStore \<Rightarrow> string \<Rightarrow> string \<Rightarrow> uint64 \<Rightarrow> byte list \<Rightarrow> ChunkMetadata list
    \<Rightarrow> 's \<Rightarrow> error option \<times> 's" where
  "writeChunks te OS nodeID key version staged chunks s =
     (if length chunks = 0 then
        (case staged_Seek te 0 of
           Some err \<Rightarrow> (Some err, s)
         | None \<Rightarrow>
             (case os_WriteObject OS nodeID key version (bytes_reader staged) s of
                (Inl err, _, s1) \<Rightarrow> (Some err, s1)
              | (Inr _, _, s1) \<Rightarrow> (None, s1)))
      else writeChunkLoop te OS nodeID key version staged chunks chunks s)"

text \<open>
  The loop of \<open>stageReplica\<close>: the temporary file, what the hash of the whole file has been fed,
  and the number of bytes so far.
\<close>

fun stageReplicaLoop ::
  "(byte list \<Rightarrow> string) \<Rightarrow> tempEnv \<Rightarrow> 's ObjectStore \<Rightarrow> string \<Rightarrow> FileMetadata \<Rightarrow> ChunkMetadata list
    \<Rightarrow> byte list \<Rightarrow> byte list \<Rightarrow> int \<Rightarrow> 's \<Rightarrow> byte list result" where
  "stageReplicaLoop H te OS nodeID meta [] staged full nbytes s =
     (if nbytes \<noteq> fm_Size meta \<or> H full \<noteq> fm_Checksum meta then Inl ErrChecksumMismatch else Inr staged)"
| "stageReplicaLoop H te OS nodeID meta (chunk # chunks) staged full nbytes s =
     (case os_ReadObject OS nodeID (chunkObjectKey (fm_Key meta) (cm_Index chunk)) (fm_Version meta) s of
        Inl err \<Rightarrow> Inl err
      | Inr (_, r) \<Rightarrow>
          (let (staged', taken, copyErr) = io_copy (te_room te) (rd_reads r) staged;
               n = int (length taken)
           in case copyErr of
                Some err \<Rightarrow> Inl err
              | None \<Rightarrow>
                  (case rd_close r of
                     Some err \<Rightarrow> Inl err
                   | None \<Rightarrow>
                       if n \<noteq> cm_Size chunk \<or> H taken \<noteq> cm_Checksum chunk then Inl ErrChecksumMismatch
                       else stageReplicaLoop H te OS nodeID meta chunks staged' (full @ taken) (nbytes + n) s)))"

definition stageReplica ::
  "(byte list \<Rightarrow> string) \<Rightarrow> tempEnv \<Rightarrow> 's ObjectStore \<Rightarrow> string \<Rightarrow> FileMetadata \<Rightarrow> 's \<Rightarrow> byte list result" where
  "stageReplica H te OS nodeID meta s =
     (if length (fm_Chunks meta) = 0 then
        (case os_ReadObject OS nodeID (fm_Key meta) (fm_Version meta) s of
           Inl err \<Rightarrow> Inl err
         | Inr (_, r) \<Rightarrow>
             (case stageReader H te (rd_reads r) of
                Inl err \<Rightarrow> Inl err
              | Inr (staged, sz, checksum, _) \<Rightarrow>
                  (case rd_close r of
                     Some closeErr \<Rightarrow> Inl closeErr
                   | None \<Rightarrow>
                       if sz \<noteq> fm_Size meta \<or> checksum \<noteq> fm_Checksum meta then Inl ErrChecksumMismatch
                       else Inr staged)))
      else
        (case te_create te of
           Some msg \<Rightarrow> Inl (ErrOther msg)
         | None \<Rightarrow> stageReplicaLoop H te OS nodeID meta (fm_Chunks meta) [] [] 0 s))"

section \<open>The operations\<close>

definition Put ::
  "(byte list \<Rightarrow> string) \<Rightarrow> tempEnv \<Rightarrow> 'm MetadataBackend \<Rightarrow> 'q ReplicationTaskQueue \<Rightarrow> 's ObjectStore
    \<Rightarrow> string \<Rightarrow> reader \<Rightarrow> ('m, 'q, 's) ManagedFileService
    \<Rightarrow> FileMetadata result \<times> ('m, 'q, 's) ManagedFileService" where
  "Put H te B Q OS key r sv =
     (case stageReader H te (rd_reads r) of
        Inl err \<Rightarrow> (Inl err, sv)
      | Inr (staged, sz, checksum, chunks) \<Rightarrow>
          (case PrepareWrite B key sz checksum chunks (sv_coordinator sv) of
             Inl err \<Rightarrow> (Inl err, sv)
           | Inr prepared \<Rightarrow>
               (let (e, s1) = writeChunks te OS (nm_ID (pw_Primary prepared)) key (pw_Version prepared)
                                staged chunks (sv_objects sv);
                    sv1 = sv\<lparr>sv_objects := s1\<rparr>
                in case e of
                     Some err \<Rightarrow> (Inl err, sv1)
                   | None \<Rightarrow>
                       (let (p, c1) = CommitWrite B Q prepared (sv_coordinator sv1);
                            sv2 = sv1\<lparr>sv_coordinator := c1\<rparr>
                        in case p of
                             Inl err \<Rightarrow>
                               (Inl err, sv2\<lparr>sv_objects :=
                                  deleteObjects OS (nm_ID (pw_Primary prepared)) key (pw_Version prepared)
                                    chunks (sv_objects sv2)\<rparr>)
                           | Inr plan \<Rightarrow> (Inr (wp_Metadata plan), sv2)))))"

text \<open>The loop of \<open>Get\<close>; the answer of \<open>MarkReplica\<close> is ignored.\<close>

fun getLoop ::
  "(byte list \<Rightarrow> string) \<Rightarrow> tempEnv \<Rightarrow> 'm MetadataBackend \<Rightarrow> 's ObjectStore \<Rightarrow> string \<Rightarrow> FileMetadata
    \<Rightarrow> ReplicaMetadata list \<Rightarrow> ('m, 'q, 's) ManagedFileService
    \<Rightarrow> (byte list \<times> FileMetadata) result \<times> ('m, 'q, 's) ManagedFileService" where
  "getLoop H te B OS key meta [] sv = (Inl ErrNoReadableReplicas, sv)"
| "getLoop H te B OS key meta (replica # replicas) sv =
     (case stageReplica H te OS (rm_NodeID replica) meta (sv_objects sv) of
        Inl err \<Rightarrow>
          (let state = (if err = ErrChecksumMismatch then ReplicaStale else ReplicaMissing);
               (_, m') = mb_MarkReplica B key (rm_NodeID replica) state (mc_metadata (sv_coordinator sv))
           in getLoop H te B OS key meta replicas
                (sv\<lparr>sv_coordinator := (sv_coordinator sv)\<lparr>mc_metadata := m'\<rparr>\<rparr>))
      | Inr staged \<Rightarrow>
          (case staged_Seek te 0 of
             Some err \<Rightarrow> (Inl err, sv)
           | None \<Rightarrow> (Inr (staged, meta), sv)))"

definition Get ::
  "(byte list \<Rightarrow> string) \<Rightarrow> tempEnv \<Rightarrow> 'm MetadataBackend \<Rightarrow> 's ObjectStore \<Rightarrow> string
    \<Rightarrow> ('m, 'q, 's) ManagedFileService
    \<Rightarrow> (byte list \<times> FileMetadata) result \<times> ('m, 'q, 's) ManagedFileService" where
  "Get H te B OS key sv =
     (case ReadCandidates B key (sv_coordinator sv) of
        Inl err \<Rightarrow> (Inl err, sv)
      | Inr plan \<Rightarrow> getLoop H te B OS key (rd_Metadata plan) (rd_Replicas plan) sv)"

definition Service_Delete ::
  "'m MetadataBackend \<Rightarrow> 's ObjectStore \<Rightarrow> string \<Rightarrow> ('m, 'q, 's) ManagedFileService
    \<Rightarrow> FileMetadata result \<times> ('m, 'q, 's) ManagedFileService" where
  "Service_Delete B OS key sv =
     (case mb_GetFile B key (mc_metadata (sv_coordinator sv)) of
        Inl err \<Rightarrow> (Inl err, sv)
      | Inr None \<Rightarrow> (Inl ErrMetadataNotFound, sv)
      | Inr (Some meta) \<Rightarrow>
          (let (r, c1) = DeleteFile B key (sv_coordinator sv);
               sv1 = sv\<lparr>sv_coordinator := c1\<rparr>
           in case r of
                Inl err \<Rightarrow> (Inl err, sv1)
              | Inr deleted \<Rightarrow>
                  (Inr deleted,
                   sv1\<lparr>sv_objects :=
                     fold (\<lambda>nodeID. deleteObjects OS nodeID key (fm_Version meta) (fm_Chunks meta))
                       (gm_keys (fm_Replicas meta)) (sv_objects sv1)\<rparr>)))"

definition Service_RegisterNode ::
  "'m MetadataBackend \<Rightarrow> string \<Rightarrow> string \<Rightarrow> ('m, 'q, 's) ManagedFileService
    \<Rightarrow> NodeMetadata result \<times> ('m, 'q, 's) ManagedFileService" where
  "Service_RegisterNode B nid addr sv =
     (let (r, c) = RegisterNode B nid addr (sv_coordinator sv) in (r, sv\<lparr>sv_coordinator := c\<rparr>))"

definition RunReplicationOnce ::
  "(byte list \<Rightarrow> string) \<Rightarrow> 'm MetadataBackend \<Rightarrow> 'q ReplicationTaskQueue \<Rightarrow> 's ObjectStore
    \<Rightarrow> ('m, 'q, 's) ManagedFileService
    \<Rightarrow> (ReplicationTask option \<times> error option) \<times> ('m, 'q, 's) ManagedFileService" where
  "RunReplicationOnce H B Q OS sv =
     (let (r, w) = WorkOnce B Q (Replicate H OS)
                     \<lparr>rw_coordinator = sv_coordinator sv, rw_objects = sv_objects sv\<rparr>
      in (r, \<lparr>sv_coordinator = rw_coordinator w, sv_objects = rw_objects w\<rparr>))"

definition Service_Metadata ::
  "'m MetadataBackend \<Rightarrow> string \<Rightarrow> ('m, 'q, 's) ManagedFileService \<Rightarrow> FileMetadata option result" where
  "Service_Metadata B key sv = mb_GetFile B key (mc_metadata (sv_coordinator sv))"

definition Service_PendingTasks ::
  "'q ReplicationTaskQueue \<Rightarrow> ('m, 'q, 's) ManagedFileService \<Rightarrow> ReplicationTask list" where
  "Service_PendingTasks Q sv =
     (case PendingTasks Q (sv_coordinator sv) of Inl _ \<Rightarrow> [] | Inr tasks \<Rightarrow> tasks)"

definition Service_PlanRepair ::
  "'m MetadataBackend \<Rightarrow> 'q ReplicationTaskQueue \<Rightarrow> ('m, 'q, 's) ManagedFileService
    \<Rightarrow> ReplicationTask list result \<times> ('m, 'q, 's) ManagedFileService" where
  "Service_PlanRepair B Q sv =
     (let (r, c) = PlanRepair B Q (sv_coordinator sv) in (r, sv\<lparr>sv_coordinator := c\<rparr>))"

definition Service_RequeueExpired ::
  "'q ReplicationTaskQueue \<Rightarrow> ('m, 'q, 's) ManagedFileService
    \<Rightarrow> ReplicationTask list result \<times> ('m, 'q, 's) ManagedFileService" where
  "Service_RequeueExpired Q sv =
     (let (r, c) = RequeueExpiredReplicationTasks Q (sv_coordinator sv) in (r, sv\<lparr>sv_coordinator := c\<rparr>))"

definition Service_MarkExpiredNodes ::
  "'m MetadataBackend \<Rightarrow> duration \<Rightarrow> ('m, 'q, 's) ManagedFileService
    \<Rightarrow> unit result \<times> ('m, 'q, 's) ManagedFileService" where
  "Service_MarkExpiredNodes B ttl sv =
     (let (r, m') = mb_MarkExpiredNodes B ttl (mc_metadata (sv_coordinator sv))
      in (r, sv\<lparr>sv_coordinator := (sv_coordinator sv)\<lparr>mc_metadata := m'\<rparr>\<rparr>))"

definition Service_Nodes ::
  "'m MetadataBackend \<Rightarrow> ('m, 'q, 's) ManagedFileService \<Rightarrow> NodeMetadata list result" where
  "Service_Nodes B sv = mb_Nodes B (mc_metadata (sv_coordinator sv))"

definition Metrics ::
  "'m MetadataBackend \<Rightarrow> 'q ReplicationTaskQueue \<Rightarrow> ('m, 'q, 's) ManagedFileService \<Rightarrow> ServiceMetrics result" where
  "Metrics B Q sv =
     (case mb_Nodes B (mc_metadata (sv_coordinator sv)) of
        Inl err \<Rightarrow> Inl err
      | Inr nodes \<Rightarrow>
          (case mb_ListFiles B (mc_metadata (sv_coordinator sv)) of
             Inl err \<Rightarrow> Inl err
           | Inr files \<Rightarrow>
               (case ReplicationTaskStats Q (sv_coordinator sv) of
                  Inl err \<Rightarrow> Inl err
                | Inr taskStats \<Rightarrow>
                    Inr \<lparr>sm_Files = length files,
                         sm_DeletedFiles = length (filter fm_Deleted files),
                         sm_PendingTasks = length (Service_PendingTasks Q sv),
                         sm_ReplicationTasks = taskStats,
                         sm_Nodes = go_tally (map nm_State nodes),
                         sm_Replicas = go_tally (concat (map (\<lambda>f. map rm_State (gm_vals (fm_Replicas f))) files))\<rparr>)))"

section \<open>What a reader gets is verified\<close>

lemma stageReplicaLoop_step:
  assumes "stageReplicaLoop H te OS n meta (c # chunks) staged full k s = Inr data"
  obtains len r taken where
    "os_ReadObject OS n (chunkObjectKey (fm_Key meta) (cm_Index c)) (fm_Version meta) s = Inr (len, r)"
    and "drain (rd_reads r) = (taken, None)" and "int (length taken) = cm_Size c" and "H taken = cm_Checksum c"
    and "stageReplicaLoop H te OS n meta chunks (staged @ taken) (full @ taken) (k + int (length taken)) s = Inr data"
  using assms
  by (auto simp: Let_def split: sum.splits prod.splits option.splits if_splits dest!: io_copy_ok)

lemma stageReplicaLoop_verified:
  assumes "stageReplicaLoop H te OS n meta chunks staged staged (int (length staged)) s = Inr data"
  shows "int (length data) = fm_Size meta \<and> H data = fm_Checksum meta"
  using assms
proof (induction chunks arbitrary: staged)
  case Nil
  then show ?case by (auto split: if_splits)
next
  case (Cons c chunks)
  from Cons.prems obtain taken where
    "stageReplicaLoop H te OS n meta chunks (staged @ taken) (staged @ taken) (int (length staged) + int (length taken)) s = Inr data"
    by (rule stageReplicaLoop_step)
  with Cons.IH [of "staged @ taken"] show ?case by simp
qed

lemma stageReplica_verified:
  assumes "stageReplica H te OS n meta s = Inr data"
  shows "int (length data) = fm_Size meta \<and> H data = fm_Checksum meta"
proof (cases "length (fm_Chunks meta) = 0")
  case True
  with assms show ?thesis
    by (auto simp: stageReplica_def stageReader_eq split: sum.splits option.splits prod.splits if_splits)
next
  case False
  with assms stageReplicaLoop_verified [of H te OS n meta "fm_Chunks meta" "[]" s data] show ?thesis
    by (simp add: stageReplica_def split: option.splits)
qed

lemma getLoop_result:
  assumes "getLoop H te B OS key meta replicas sv = (Inr (data, f), sv')"
  shows "f = meta \<and> sv_objects sv' = sv_objects sv \<and>
    (\<exists>x \<in> set replicas. stageReplica H te OS (rm_NodeID x) meta (sv_objects sv) = Inr data)"
  using assms
proof (induction replicas arbitrary: sv)
  case Nil
  then show ?case by simp
next
  case (Cons x replicas)
  show ?case
  proof (cases "stageReplica H te OS (rm_NodeID x) meta (sv_objects sv)")
    case (Inl e)
    let ?st = "if e = ErrChecksumMismatch then ReplicaStale else ReplicaMissing"
    let ?m = "snd (mb_MarkReplica B key (rm_NodeID x) ?st (mc_metadata (sv_coordinator sv)))"
    from Cons.prems Inl have "getLoop H te B OS key meta replicas
        (sv\<lparr>sv_coordinator := (sv_coordinator sv)\<lparr>mc_metadata := ?m\<rparr>\<rparr>) = (Inr (data, f), sv')"
      by (simp add: Let_def case_prod_beta)
    from Cons.IH [OF this] show ?thesis by simp
  next
    case (Inr b)
    with Cons.prems show ?thesis by (auto split: option.splits)
  qed
qed

text \<open>
  C4. A reader never gets wrong bytes. Whatever the metadata backend and the object store do, if
  \<open>Get\<close> answers with content then the backend has a file under that key which is not deleted,
  the answer carries its record, the content has the length and the checksum of that record, and
  it comes from a replica that the record lists as healthy. The objects are not changed.
\<close>

theorem Get_verified:
  assumes "Get H te B OS key sv = (Inr (data, f), sv')"
  shows "mb_GetFile B key (mc_metadata (sv_coordinator sv)) = Inr (Some f) \<and> \<not> fm_Deleted f \<and>
    int (length data) = fm_Size f \<and> H data = fm_Checksum f \<and> sv_objects sv' = sv_objects sv \<and>
    (\<exists>x \<in> set (HealthyReplicas f). stageReplica H te OS (rm_NodeID x) f (sv_objects sv) = Inr data)"
proof -
  from assms obtain plan where plan: "ReadCandidates B key (sv_coordinator sv) = Inr plan"
    and loop: "getLoop H te B OS key (rd_Metadata plan) (rd_Replicas plan) sv = (Inr (data, f), sv')"
    by (auto simp: Get_def split: sum.splits)
  from getLoop_result [OF loop] obtain x where f: "f = rd_Metadata plan" and x: "x \<in> set (rd_Replicas plan)"
    and st: "stageReplica H te OS (rm_NodeID x) f (sv_objects sv) = Inr data"
    and s: "sv_objects sv' = sv_objects sv" by auto
  from plan f have found: "mb_GetFile B key (mc_metadata (sv_coordinator sv)) = Inr (Some f)" "\<not> fm_Deleted f"
    and reps: "rd_Replicas plan = prioritizePrimary f (HealthyReplicas f)"
    by (auto simp: ReadCandidates_def Let_def split: sum.splits option.splits if_splits)
  have "set (prioritizePrimary f (HealthyReplicas f)) \<subseteq> set (HealthyReplicas f)"
    by (auto simp: prioritizePrimary_def find_Some_iff2 split: option.splits if_splits)
  with found st s x reps stageReplica_verified [OF st] show ?thesis by auto
qed

section \<open>Writing and reading the chunks of a version\<close>

text \<open>The range of the staged file that a chunk stands for.\<close>

definition chunk_range :: "byte list \<Rightarrow> ChunkMetadata \<Rightarrow> byte list" where
  "chunk_range staged c = take (nat (cm_Size c)) (drop (nat (cm_Offset c)) staged)"

lemma deleteObjects_eq:
  assumes "chunks \<noteq> []"
  shows "deleteObjects OS n k v chunks s =
    deleteChunkObjects OS n v (map (\<lambda>c. chunkObjectKey k (cm_Index c)) chunks) s"
proof -
  have "fold (\<lambda>c s. snd (os_DeleteObject OS n (chunkObjectKey k (cm_Index c)) v s)) cs s =
      deleteChunkObjects OS n v (map (\<lambda>c. chunkObjectKey k (cm_Index c)) cs) s" for cs s
    by (induction cs arbitrary: s) auto
  with assms show ?thesis by (simp add: deleteObjects_def)
qed

context object_store begin

lemma deleteObjects_ok:
  assumes "oinv s" and "\<And>c. c \<in> set chunks \<Longrightarrow> okid (chunk_id n k v c)" and "chunks \<noteq> []"
  shows "oinv (deleteObjects OS n k v chunks s)"
    and "okid x \<Longrightarrow> content (deleteObjects OS n k v chunks s) x \<in> {None, content s x}"
    and "okid x \<Longrightarrow> x \<notin> chunk_id n k v ` set chunks \<Longrightarrow> content (deleteObjects OS n k v chunks s) x = content s x"
proof -
  let ?keys = "map (\<lambda>c. chunkObjectKey k (cm_Index c)) chunks"
  have ok: "okid (n, key, v)" if "key \<in> set ?keys" for key using that assms(2) by (auto simp: chunk_id_def)
  note d = deleteChunkObjects_ok [of s ?keys n v, OF assms(1) ok]
  show "oinv (deleteObjects OS n k v chunks s)"
    and "okid x \<Longrightarrow> content (deleteObjects OS n k v chunks s) x \<in> {None, content s x}"
    unfolding deleteObjects_eq [OF assms(3)] using d by blast+
  show "content (deleteObjects OS n k v chunks s) x = content s x"
    if "okid x" and "x \<notin> chunk_id n k v ` set chunks"
  proof -
    have "x \<notin> (\<lambda>key. (n, key, v)) ` set ?keys" using that(2) by (auto simp: chunk_id_def)
    with d that(1) show ?thesis unfolding deleteObjects_eq [OF assms(3)] by blast
  qed
qed

text \<open>Whether it succeeds or not, writing a version touches only the objects of that version.\<close>

lemma writeChunkLoop_frame:
  assumes "oinv s" and "\<And>c. c \<in> set all \<Longrightarrow> okid (chunk_id n k v c)" and "set chunks \<subseteq> set all" and "all \<noteq> []"
    and "writeChunkLoop te OS n k v staged all chunks s = (e, s')"
  shows "oinv s' \<and> (\<forall>x. okid x \<longrightarrow> x \<notin> chunk_id n k v ` set all \<longrightarrow> content s' x = content s x)"
  using assms(1,3,5)
proof (induction chunks arbitrary: s)
  case Nil
  then show ?case by simp
next
  case (Cons c chunks)
  note del = deleteObjects_ok [OF _ assms(2,4)]
  show ?case
  proof (cases "staged_Seek te (cm_Offset c)")
    case (Some err)
    with Cons.prems del [OF Cons.prems(1)] show ?thesis by auto
  next
    case None
    have c: "c \<in> set all" using Cons.prems(2) by simp
    then have ok: "okid (n, chunkObjectKey k (cm_Index c), v)" using assms(2) by (simp add: chunk_id_def)
    obtain w taken s1 where wr: "os_WriteObject OS n (chunkObjectKey k (cm_Index c)) v
        (LimitReader staged (cm_Offset c) (cm_Size c)) s = (w, taken, s1)" by (metis prod_cases3)
    note s1 = write_effect [OF Cons.prems(1) ok wr]
    have same: "content s1 x = content s x" if "okid x" "x \<notin> chunk_id n k v ` set all" for x
      using that c by (intro s1(2)) (auto simp: chunk_id_def)
    from Cons.prems(3) None wr consider "s' = deleteObjects OS n k v all s1"
      | "writeChunkLoop te OS n k v staged all chunks s1 = (e, s')"
      by (auto split: sum.splits if_splits)
    then show ?thesis
    proof cases
      case 1
      with del [OF s1(1)] same show ?thesis by simp
    next
      case 2
      with Cons.IH [OF s1(1)] Cons.prems(2) same show ?thesis by simp
    qed
  qed
qed

end

context reliable_object_store begin

lemma writeChunkLoop_writes:
  assumes "oinv s" and "te_seek te = None" and "distinct (map cm_Index chunks)"
    and "\<And>c. c \<in> set chunks \<Longrightarrow> okid (chunk_id n k v c) \<and> 0 \<le> cm_Offset c \<and>
           cm_Size c = int (length (chunk_range staged c))"
  shows "\<exists>s'. writeChunkLoop te OS n k v staged all chunks s = (None, s') \<and> oinv s' \<and>
    (\<forall>c \<in> set chunks. content s' (chunk_id n k v c) = Some (chunk_range staged c)) \<and>
    (\<forall>x. okid x \<longrightarrow> x \<notin> chunk_id n k v ` set chunks \<longrightarrow> content s' x = content s x)"
  using assms(1,3,4)
proof (induction chunks arbitrary: s)
  case Nil
  then show ?case by simp
next
  case (Cons c chunks)
  have ok: "okid (n, chunkObjectKey k (cm_Index c), v)" and off: "0 \<le> cm_Offset c"
    and len: "cm_Size c = int (length (chunk_range staged c))"
    using Cons.prems(3) by (auto simp: chunk_id_def)
  have drn: "drain (rd_reads (LimitReader staged (cm_Offset c) (cm_Size c))) = (chunk_range staged c, None)"
    by (simp add: LimitReader_def chunk_range_def)
  from write_succeeds [OF Cons.prems(1) ok drn] obtain s1 where
    wr: "os_WriteObject OS n (chunkObjectKey k (cm_Index c)) v (LimitReader staged (cm_Offset c) (cm_Size c)) s =
      (Inr (int (length (chunk_range staged c))), chunk_range staged c, s1)" by blast
  note s1 = write_effect [OF Cons.prems(1) ok wr]
  have self: "content s1 (chunk_id n k v c) = Some (chunk_range staged c)"
    using write_done [OF Cons.prems(1) ok wr] by (simp add: chunk_id_def)
  from Cons.IH [OF s1(1)] Cons.prems(2,3) obtain s' where
    run: "writeChunkLoop te OS n k v staged all chunks s1 = (None, s')" and inv: "oinv s'"
    and have_all: "\<forall>c \<in> set chunks. content s' (chunk_id n k v c) = Some (chunk_range staged c)"
    and frame: "\<forall>x. okid x \<longrightarrow> x \<notin> chunk_id n k v ` set chunks \<longrightarrow> content s' x = content s1 x"
    by auto
  have "chunk_id n k v c \<notin> chunk_id n k v ` set chunks"
    using Cons.prems(2) by (auto simp: chunk_id_eq_iff)
  moreover have "okid (chunk_id n k v c)" using ok by (simp add: chunk_id_def)
  ultimately have "content s' (chunk_id n k v c) = Some (chunk_range staged c)" using frame self by metis
  moreover have "content s' x = content s x" if "okid x" "x \<notin> chunk_id n k v ` set (c # chunks)" for x
    using that frame [rule_format, of x] s1(2) [OF that(1)] by (simp add: chunk_id_def)
  moreover have "writeChunkLoop te OS n k v staged all (c # chunks) s = (None, s')"
    using wr run off len assms(2) by (simp add: staged_Seek_def)
  ultimately show ?case using inv have_all by auto
qed

lemma stageReplicaLoop_reads:
  assumes "oinv s" and "te_room te = None"
    and "list_all2 (\<lambda>c d. okid (chunk_id n (fm_Key meta) (fm_Version meta) c) \<and>
          content s (chunk_id n (fm_Key meta) (fm_Version meta) c) = Some d \<and>
          int (length d) = cm_Size c \<and> H d = cm_Checksum c) chunks datas"
    and "nb + int (length (concat datas)) = fm_Size meta" and "H (full @ concat datas) = fm_Checksum meta"
  shows "stageReplicaLoop H te OS n meta chunks staged full nb s = Inr (staged @ concat datas)"
  using assms(3-5)
proof (induction chunks datas arbitrary: staged full nb rule: list_all2_induct)
  case Nil
  then show ?case by simp
next
  case (Cons c chunks d datas)
  let ?key = "chunkObjectKey (fm_Key meta) (cm_Index c)"
  from Cons(1) have ok: "okid (n, ?key, fm_Version meta)" and d: "content s (n, ?key, fm_Version meta) = Some d"
    and good: "int (length d) = cm_Size c" "H d = cm_Checksum c" by (auto simp: chunk_id_def)
  from read_succeeds [OF assms(1) ok d] obtain rd where
    rd: "os_ReadObject OS n ?key (fm_Version meta) s = Inr (int (length d), rd)"
      "drain (rd_reads rd) = (d, None)" "rd_close rd = None" by blast
  have "io_copy (te_room te) (rd_reads rd) staged = (staged @ d, d, None)"
    using rd(2) assms(2) by (intro io_copy_complete) simp_all
  with rd good Cons(3) [of "nb + int (length d)" "full @ d" "staged @ d"] Cons(4,5) show ?case
    by (simp add: Let_def algebra_simps)
qed

end

section \<open>Put, then Get\<close>

lemma manifest_facts:
  "chunk_manifest H data \<noteq> []" "distinct (map cm_Index (chunk_manifest H data))"
  "concat (map (chunk_range data) (chunk_manifest H data)) = data"
  "c \<in> set (chunk_manifest H data) \<Longrightarrow> 0 \<le> cm_Offset c \<and> cm_Size c = int (length (chunk_range data c)) \<and>
     cm_Checksum c = H (chunk_range data c)"
proof -
  have slice: "chunk_range data (chunk_at H data i) = chunk_block data i" for i
    unfolding chunk_range_def by (rule chunk_slice)
  show "chunk_manifest H data \<noteq> []" using chunk_count_pos [of "length data"] by (simp add: chunk_manifest_def)
  show "distinct (map cm_Index (chunk_manifest H data))"
    by (simp add: chunk_manifest_def comp_def distinct_map)
  show "concat (map (chunk_range data) (chunk_manifest H data)) = data"
    using manifest_concat [of data] by (simp add: chunk_manifest_def comp_def slice)
  assume "c \<in> set (chunk_manifest H data)"
  then show "0 \<le> cm_Offset c \<and> cm_Size c = int (length (chunk_range data c)) \<and>
     cm_Checksum c = H (chunk_range data c)"
    by (auto simp: chunk_manifest_def slice)
qed

type_synonym 's memory_service = "(MetadataStore, MemoryReplicationTaskQueue, 's) ManagedFileService"

type_synonym local_service = "file_system memory_service"

text \<open>
  The objects a \<open>Put\<close> of this content may write, for any choice of the primary, and that they
  are ones for which the store gives its promises; nodes have a name.
\<close>

definition put_names_ok ::
  "(object_id \<Rightarrow> bool) \<Rightarrow> MetadataStore \<Rightarrow> string \<Rightarrow> ChunkMetadata list \<Rightarrow> bool" where
  "put_names_ok okid m key chunks \<longleftrightarrow>
     (\<forall>nd \<in> set (HealthyNodes m). nm_ID nd \<noteq> '''' \<and>
        (\<forall>c \<in> set chunks. okid (chunk_id (nm_ID nd) key (NextVersion key m) c)))"

lemma PrepareWrite_succeeds:
  assumes "0 < rp_ReplicaCount (mc_planner c)" and "HealthyNodes (mc_metadata c) \<noteq> []"
  shows "\<exists>p. PrepareWrite MemoryMetadataBackend key sz cs chs c = Inr p"
  using assms by (simp add: PrepareWrite_def Plan_eq HealthyNodes_healthy Let_def)

text \<open>A prepared write chooses healthy nodes; their identifiers are not empty where they name objects.\<close>

lemma prepared_primary:
  assumes "wf_metadata (mc_metadata c)" and "0 < rp_ReplicaCount (mc_planner c)"
    and "PrepareWrite MemoryMetadataBackend key sz cs (chunk_manifest H data) c = Inr p"
    and "put_names_ok okid (mc_metadata c) key (chunk_manifest H data)"
  shows "nm_ID (pw_Primary p) \<in> nm_ID ` set (pw_Replicas p)" and "nm_ID (pw_Primary p) \<noteq> ''''"
    and "ch \<in> set (chunk_manifest H data) \<Longrightarrow>
           okid (chunk_id (nm_ID (pw_Primary p)) key (NextVersion key (mc_metadata c)) ch)"
proof -
  note rs = PrepareWrite_replicas [OF assms(3,1,2)]
  show "nm_ID (pw_Primary p) \<in> nm_ID ` set (pw_Replicas p)" using rs(1) by simp
  have healthy: "pw_Primary p \<in> set (HealthyNodes (mc_metadata c))" using rs by auto
  then show ok: "okid (chunk_id (nm_ID (pw_Primary p)) key (NextVersion key (mc_metadata c)) ch)"
    if "ch \<in> set (chunk_manifest H data)" for ch
    using assms(4) that by (simp add: put_names_ok_def)
  from healthy show "nm_ID (pw_Primary p) \<noteq> ''''" using assms(4) by (simp add: put_names_ok_def)
qed

definition temp_ok :: "tempEnv \<Rightarrow> bool" where
  "temp_ok te \<longleftrightarrow> te_create te = None \<and> te_room te = None \<and> te_seek te = None"

lemma temp_ok_seek: "temp_ok te \<Longrightarrow> 0 \<le> n \<Longrightarrow> staged_Seek te n = None"
  by (simp add: temp_ok_def staged_Seek_def)

lemma stageReader_temp_ok:
  "temp_ok te \<Longrightarrow> drain r = (data, None) \<Longrightarrow> stageReader H te r = Inr (data, int (length data), H data, chunk_manifest H data)"
  by (simp add: stageReader_eq temp_ok_def room_for_def)

text \<open>Directly after a version is published its primary is what a reader is offered.\<close>

lemma ReadCandidates_fresh:
  fixes c' :: memory_coordinator
  assumes "wf_metadata m" and "n \<in> set rs" and "n \<noteq> ''''"
    and "mc_metadata c' = snd (BeginFileVersion key sz cs chs n rs m)"
  shows "ReadCandidates MemoryMetadataBackend key c' =
    Inr \<lparr>rd_Metadata = fst (BeginFileVersion key sz cs chs n rs m),
         rd_Replicas = [\<lparr>rm_NodeID = n, rm_State = ReplicaHealthy, rm_UpdatedAt = ms_now m\<rparr>]\<rparr>"
proof -
  define f where "f = fst (BeginFileVersion key sz cs chs n rs m)"
  have wf': "wf_metadata (mc_metadata c')" using assms(1,4) by (simp add: wf_BeginFileVersion)
  have stored: "gm_get (ms_files (mc_metadata c')) key = Some f"
    by (simp add: assms(4) f_def BeginFileVersion_result(1))
  have hr: "HealthyReplicas f = [\<lparr>rm_NodeID = n, rm_State = ReplicaHealthy, rm_UpdatedAt = ms_now m\<rparr>]"
    unfolding f_def using assms(2) by (rule HealthyReplicas_new_version)
  have "fm_Primary f = n" "\<not> fm_Deleted f"
    using BeginFileVersion_result(5) [of key sz cs chs n rs m] by (simp_all add: f_def published_def)
  with stored hr assms(3) show ?thesis
    by (simp add: ReadCandidates_memory [OF wf'] prioritizePrimary_def f_def [symmetric])
qed

context reliable_object_store begin

lemma Put_run:
  fixes sv :: "'a memory_service"
  assumes "wf_metadata (mc_metadata (sv_coordinator sv))"
    and "0 < rp_ReplicaCount (mc_planner (sv_coordinator sv))"
    and "HealthyNodes (mc_metadata (sv_coordinator sv)) \<noteq> []"
    and "oinv (sv_objects sv)" and "temp_ok te"
    and "drain (rd_reads r) = (data, None)"
    and "put_names_ok okid (mc_metadata (sv_coordinator sv)) key (chunk_manifest H data)"
  obtains primary rs tasks fs' where "primary \<in> set rs" and "primary \<noteq> ''''" and "distinct rs"
    and "length rs = min (nat (rp_ReplicaCount (mc_planner (sv_coordinator sv))))
           (length (HealthyNodes (mc_metadata (sv_coordinator sv))))"
    and "TasksForFile (fst (BeginFileVersion key (int (length data)) (H data) (chunk_manifest H data) primary rs
           (mc_metadata (sv_coordinator sv)))) (ms_now (mc_metadata (sv_coordinator sv))) = Inr tasks"
    and "set rs \<subseteq> nm_ID ` set (HealthyNodes (mc_metadata (sv_coordinator sv)))"
    and "Put H te MemoryMetadataBackend MemoryTaskQueue OS key r sv =
      (let b = BeginFileVersion key (int (length data)) (H data) (chunk_manifest H data) primary rs
                 (mc_metadata (sv_coordinator sv))
       in (Inr (fst b), \<lparr>sv_coordinator = (sv_coordinator sv)\<lparr>mc_metadata := snd b,
              mc_tasks := Enqueue tasks (mc_tasks (sv_coordinator sv))\<rparr>, sv_objects = fs'\<rparr>))"
    and "oinv fs'"
    and "\<And>c. c \<in> set (chunk_manifest H data) \<Longrightarrow>
      content fs' (chunk_id primary key (NextVersion key (mc_metadata (sv_coordinator sv))) c) =
        Some (chunk_range data c)"
    and "\<And>x. okid x \<Longrightarrow>
      x \<notin> chunk_id primary key (NextVersion key (mc_metadata (sv_coordinator sv))) ` set (chunk_manifest H data) \<Longrightarrow>
      content fs' x = content (sv_objects sv) x"
proof -
  let ?c = "sv_coordinator sv" and ?M = "chunk_manifest H data"
  let ?v = "NextVersion key (mc_metadata ?c)"
  obtain p where p: "PrepareWrite MemoryMetadataBackend key (int (length data)) (H data) ?M ?c = Inr p"
    using PrepareWrite_succeeds [OF assms(2,3)] by blast
  note prim = prepared_primary [OF assms(1,2) p assms(7)]
  note pm = PrepareWrite_memory [OF p]
  let ?n = "nm_ID (pw_Primary p)"
  obtain fs' where wr: "writeChunkLoop te OS ?n key ?v data ?M ?M (sv_objects sv) = (None, fs')"
    and inv: "oinv fs'"
    and new: "\<forall>c \<in> set ?M. content fs' (chunk_id ?n key ?v c) = Some (chunk_range data c)"
    and frame: "\<forall>x. okid x \<longrightarrow> x \<notin> chunk_id ?n key ?v ` set ?M \<longrightarrow>
      content fs' x = content (sv_objects sv) x"
    using writeChunkLoop_writes [OF assms(4), of te ?M ?n key ?v data ?M]
      assms(5) manifest_facts(2,4) prim(3) by (auto simp: temp_ok_def)
  from CommitWrite_memory [OF prim(2,1), of ?c] obtain tasks where
    tasks: "TasksForFile (fst (BeginFileVersion (pw_Key p) (pw_Size p) (pw_Checksum p) (pw_Chunks p) ?n
        (map nm_ID (pw_Replicas p)) (mc_metadata ?c))) (ms_now (mc_metadata ?c)) = Inr tasks"
    and commit: "fst (CommitWrite MemoryMetadataBackend MemoryTaskQueue p ?c) = Inr \<lparr>wp_Metadata = fst
        (BeginFileVersion (pw_Key p) (pw_Size p) (pw_Checksum p) (pw_Chunks p) ?n (map nm_ID (pw_Replicas p)) (mc_metadata ?c)),
        wp_Primary = pw_Primary p, wp_Replicas = pw_Replicas p, wp_Tasks = tasks\<rparr>"
    "snd (CommitWrite MemoryMetadataBackend MemoryTaskQueue p ?c) = ?c\<lparr>mc_metadata := snd
        (BeginFileVersion (pw_Key p) (pw_Size p) (pw_Checksum p) (pw_Chunks p) ?n (map nm_ID (pw_Replicas p)) (mc_metadata ?c)),
        mc_tasks := Enqueue tasks (mc_tasks ?c)\<rparr>" by auto
  show ?thesis
  proof (rule that [where primary = ?n and rs = "map nm_ID (pw_Replicas p)" and fs' = fs' and tasks = tasks])
    show "Put H te MemoryMetadataBackend MemoryTaskQueue OS key r sv =
      (let b = BeginFileVersion key (int (length data)) (H data) ?M ?n (map nm_ID (pw_Replicas p)) (mc_metadata ?c)
       in (Inr (fst b), \<lparr>sv_coordinator = ?c\<lparr>mc_metadata := snd b, mc_tasks := Enqueue tasks (mc_tasks ?c)\<rparr>,
             sv_objects = fs'\<rparr>))"
      using wr commit pm manifest_facts(1) [of H data]
      by (simp add: Put_def stageReader_temp_ok [OF assms(5,6)] p writeChunks_def case_prod_beta Let_def)
    show "TasksForFile (fst (BeginFileVersion key (int (length data)) (H data) ?M ?n (map nm_ID (pw_Replicas p))
        (mc_metadata ?c))) (ms_now (mc_metadata ?c)) = Inr tasks"
      using tasks pm by simp
    show "length (map nm_ID (pw_Replicas p)) = min (nat (rp_ReplicaCount (mc_planner ?c))) (length (HealthyNodes (mc_metadata ?c)))"
      using PrepareWrite_replicas(4) [OF p assms(1,2)] by simp
  qed (use prim PrepareWrite_replicas(2,3) [OF p assms(1,2)] inv new frame in auto)
qed

text \<open>A node that has every chunk of the manifest serves the content.\<close>

lemma stageReplica_manifest:
  assumes "oinv s" and "temp_ok te" and "fm_Chunks f = chunk_manifest H data" and "fm_Size f = int (length data)"
    and "fm_Checksum f = H data"
    and "\<And>c. c \<in> set (chunk_manifest H data) \<Longrightarrow> okid (chunk_id n (fm_Key f) (fm_Version f) c) \<and>
          content s (chunk_id n (fm_Key f) (fm_Version f) c) = Some (chunk_range data c)"
  shows "stageReplica H te OS n f s = Inr data"
proof -
  have "list_all2 (\<lambda>c d. okid (chunk_id n (fm_Key f) (fm_Version f) c) \<and>
      content s (chunk_id n (fm_Key f) (fm_Version f) c) = Some d \<and>
      int (length d) = cm_Size c \<and> H d = cm_Checksum c) (chunk_manifest H data)
      (map (chunk_range data) (chunk_manifest H data))"
    using assms(6) manifest_facts(4) by (auto simp: list.rel_map intro!: list.rel_refl_strong)
  from stageReplicaLoop_reads [OF assms(1) _ this, of te 0 "[]" "[]"] show ?thesis
    using assms(2-5) manifest_facts(1) [of H data] manifest_facts(3) [of data H]
    by (simp add: stageReplica_def temp_ok_def)
qed

lemma Put_Get:
  fixes sv :: "'a memory_service"
  assumes "wf_metadata (mc_metadata (sv_coordinator sv))"
    and "0 < rp_ReplicaCount (mc_planner (sv_coordinator sv))"
    and "HealthyNodes (mc_metadata (sv_coordinator sv)) \<noteq> []"
    and "oinv (sv_objects sv)" and "temp_ok te"
    and "drain (rd_reads r) = (data, None)"
    and "put_names_ok okid (mc_metadata (sv_coordinator sv)) key (chunk_manifest H data)"
    and "Put H te MemoryMetadataBackend MemoryTaskQueue OS key r sv = (res, sv')"
  shows "\<exists>f. res = Inr f \<and> fm_Key f = key \<and> fm_Size f = int (length data) \<and> fm_Checksum f = H data \<and>
    fm_Version f = NextVersion key (mc_metadata (sv_coordinator sv)) \<and>
    Get H te MemoryMetadataBackend OS key sv' = (Inr (data, f), sv') \<and>
    wf_metadata (mc_metadata (sv_coordinator sv')) \<and> oinv (sv_objects sv') \<and>
    gm_get (ms_files (mc_metadata (sv_coordinator sv'))) key = Some f \<and> fm_Chunks f = chunk_manifest H data \<and>
    stageReplica H te OS (fm_Primary f) f (sv_objects sv') = Inr data"
proof -
  let ?c = "sv_coordinator sv" and ?M = "chunk_manifest H data"
  let ?v = "NextVersion key (mc_metadata ?c)"
  obtain n rs tasks fs' where n: "n \<in> set rs" "n \<noteq> ''''"
    and put: "Put H te MemoryMetadataBackend MemoryTaskQueue OS key r sv =
      (let b = BeginFileVersion key (int (length data)) (H data) ?M n rs (mc_metadata ?c)
       in (Inr (fst b), \<lparr>sv_coordinator = ?c\<lparr>mc_metadata := snd b,
              mc_tasks := Enqueue tasks (mc_tasks ?c)\<rparr>, sv_objects = fs'\<rparr>))"
    and inv: "oinv fs'"
    and new: "\<And>c. c \<in> set ?M \<Longrightarrow> content fs' (chunk_id n key ?v c) = Some (chunk_range data c)"
    and hn: "set rs \<subseteq> nm_ID ` set (HealthyNodes (mc_metadata ?c))"
    by (rule Put_run [OF assms(1-7)]) blast
  define b where "b = BeginFileVersion key (int (length data)) (H data) ?M n rs (mc_metadata ?c)"
  have res: "res = Inr (fst b)" and sv': "sv' = \<lparr>sv_coordinator = ?c\<lparr>mc_metadata := snd b,
      mc_tasks := Enqueue tasks (mc_tasks ?c)\<rparr>, sv_objects = fs'\<rparr>"
    using assms(8) put by (auto simp: Let_def b_def)
  have f: "fm_Key (fst b) = key" "fm_Size (fst b) = int (length data)" "fm_Checksum (fst b) = H data"
    "fm_Primary (fst b) = n" "\<not> fm_Deleted (fst b)" "fm_Chunks (fst b) = ?M" "fm_Version (fst b) = ?v"
    using BeginFileVersion_result(5,6) [of key "int (length data)" "H data" ?M n rs "mc_metadata ?c"]
    by (simp_all add: b_def published_def)
  have plan: "ReadCandidates MemoryMetadataBackend key (sv_coordinator sv') =
      Inr \<lparr>rd_Metadata = fst b, rd_Replicas = [\<lparr>rm_NodeID = n, rm_State = ReplicaHealthy,
        rm_UpdatedAt = ms_now (mc_metadata ?c)\<rparr>]\<rparr>"
    unfolding b_def by (rule ReadCandidates_fresh [OF assms(1) n]) (simp add: sv' b_def)
  have ok: "okid (chunk_id n key ?v c)" if "c \<in> set ?M" for c
    using assms(7) hn n(1) that by (auto simp: put_names_ok_def)
  have staged: "stageReplica H te OS n (fst b) fs' = Inr data"
    using ok new by (intro stageReplica_manifest inv assms(5)) (simp_all add: f)
  have objs: "sv_objects sv' = fs'" by (simp add: sv')
  with staged have "Get H te MemoryMetadataBackend OS key sv' = (Inr (data, fst b), sv')"
    using plan by (simp add: Get_def temp_ok_seek [OF assms(5)])
  moreover have "wf_metadata (mc_metadata (sv_coordinator sv'))"
    using assms(1) by (simp add: sv' b_def wf_BeginFileVersion)
  moreover have "gm_get (ms_files (mc_metadata (sv_coordinator sv'))) key = Some (fst b)"
    by (simp add: sv' b_def BeginFileVersion_result(1))
  ultimately show ?thesis using res f inv objs staged by simp
qed

end

text \<open>
  C1. What is put is what is got. For the service on the in-memory metadata store and queue and
  the object store on a disk without faults, with at least one healthy node and room for
  temporary files: \<open>Put\<close> of any stream that ends without an error succeeds with the next version
  of the key, and a \<open>Get\<close> of that key directly after it answers with exactly the bytes of the
  stream and with that version's record; no replication is needed for that.
\<close>

theorem Put_then_Get:
  fixes sv :: local_service
  assumes "wf_metadata (mc_metadata (sv_coordinator sv))"
    and "0 < rp_ReplicaCount (mc_planner (sv_coordinator sv))"
    and "HealthyNodes (mc_metadata (sv_coordinator sv)) \<noteq> []"
    and "local_inv st D K (sv_objects sv)" and "fault_free (sv_objects sv)" and "temp_ok te"
    and "drain (rd_reads r) = (data, None)"
    and "put_names_ok (local_ok st D K) (mc_metadata (sv_coordinator sv)) key (chunk_manifest H data)"
    and "Put H te MemoryMetadataBackend MemoryTaskQueue (LocalObjectStore st) key r sv = (res, sv')"
  shows "\<exists>f. res = Inr f \<and> fm_Key f = key \<and> fm_Size f = int (length data) \<and> fm_Checksum f = H data \<and>
    fm_Version f = NextVersion key (mc_metadata (sv_coordinator sv)) \<and>
    Get H te MemoryMetadataBackend (LocalObjectStore st) key sv' = (Inr (data, f), sv')"
  using local_reliable.Put_Get [OF assms(1-3) conjI [OF assms(4,5)] assms(6-9)] by blast

text \<open>A service for the witnesses: two nodes, no files, an empty disk.\<close>

definition demo_service :: local_service where
  "demo_service = \<lparr>sv_coordinator = demo_coordinator, sv_objects = demo_disk\<rparr>"

definition demo_temp :: tempEnv where
  "demo_temp = \<lparr>te_create = None, te_room = None, te_seek = None\<rparr>"

lemma demo_manifest:
  "chunk_manifest (\<lambda>b. ''h'') [1, 2, 3] = [\<lparr>cm_Index = 0, cm_Offset = 0, cm_Size = 3, cm_Checksum = ''h''\<rparr>]"
  by (simp add: chunk_manifest_def chunk_count_def chunk_at_def chunk_block_def defaultChunkSize_def)

lemma demo_healthy:
  "nm_ID ` set (HealthyNodes (mc_metadata demo_coordinator)) = {''n1'', ''n2''}"
  "NextVersion ''k'' (mc_metadata demo_coordinator) = 1"
  by (simp_all add: demo_coordinator_eq HealthyNodes_def gm_vals_def insert_commute NextVersion_def nextVersionLocked_def)

lemma demo_service_facts:
  "wf_metadata (mc_metadata (sv_coordinator demo_service))"
  "0 < rp_ReplicaCount (mc_planner (sv_coordinator demo_service))"
  "HealthyNodes (mc_metadata (sv_coordinator demo_service)) \<noteq> []"
  "local_inv demo_store demo_digest demo_names (sv_objects demo_service)" "fault_free (sv_objects demo_service)"
  "temp_ok demo_temp"
  "put_names_ok (local_ok demo_store demo_digest demo_names) (mc_metadata (sv_coordinator demo_service)) ''k''
     (chunk_manifest (\<lambda>b. ''h'') [1, 2, 3])"
proof -
  note ids = demo_healthy(1) and v = demo_healthy(2)
  have ok: "local_ok demo_store demo_digest demo_names (chunk_id (nm_ID nd) ''k'' 1
      \<lparr>cm_Index = 0, cm_Offset = 0, cm_Size = 3, cm_Checksum = ''h''\<rparr>)"
    if "nd \<in> set (HealthyNodes (mc_metadata demo_coordinator))" for nd
  proof -
    from that ids have "nm_ID nd \<in> {''n1'', ''n2''}" by blast
    then have "plain (nm_ID nd)" by (auto simp: plain_def)
    then show ?thesis unfolding chunk_id_def ChunkMetadata.simps by (rule demo_ok)
  qed
  show "put_names_ok (local_ok demo_store demo_digest demo_names) (mc_metadata (sv_coordinator demo_service)) ''k''
     (chunk_manifest (\<lambda>b. ''h'') [1, 2, 3])"
    unfolding put_names_ok_def demo_service_def ManagedFileService.simps v demo_manifest
  proof (intro ballI conjI)
    fix nd assume nd: "nd \<in> set (HealthyNodes (mc_metadata demo_coordinator))"
    with ids have "nm_ID nd \<in> {''n1'', ''n2''}" by blast
    then show "nm_ID nd \<noteq> []" by auto
    fix c assume "c \<in> set [\<lparr>cm_Index = 0, cm_Offset = 0, cm_Size = 3, cm_Checksum = ''h''\<rparr>]"
    then have "c = \<lparr>cm_Index = 0, cm_Offset = 0, cm_Size = 3, cm_Checksum = ''h''\<rparr>" by simp
    with ok [OF nd] show "local_ok demo_store demo_digest demo_names (chunk_id (nm_ID nd) ''k'' 1 c)" by (simp only:)
  qed
  show "HealthyNodes (mc_metadata (sv_coordinator demo_service)) \<noteq> []"
    unfolding demo_service_def ManagedFileService.simps
    using ids by (metis image_empty insert_not_empty list.set(1))
qed (use demo_wf demo_disk_inv in \<open>simp_all add: demo_service_def temp_ok_def demo_temp_def demo_coordinator_eq\<close>)

lemmas demo_put = demo_service_facts(1-6) bytes_reader_sel(1) demo_service_facts(7)

theorem Put_then_Get_witness:
  "\<exists>f sv'. Put (\<lambda>b. ''h'') demo_temp MemoryMetadataBackend MemoryTaskQueue (LocalObjectStore demo_store) ''k''
       (bytes_reader [1, 2, 3]) demo_service = (Inr f, sv') \<and>
     Get (\<lambda>b. ''h'') demo_temp MemoryMetadataBackend (LocalObjectStore demo_store) ''k'' sv' = (Inr ([1, 2, 3], f), sv')"
proof -
  obtain res sv' where run: "Put (\<lambda>b. ''h'') demo_temp MemoryMetadataBackend MemoryTaskQueue
      (LocalObjectStore demo_store) ''k'' (bytes_reader [1, 2, 3]) demo_service = (res, sv')" by fastforce
  from Put_then_Get [OF demo_put run] run show ?thesis by blast
qed

text \<open>The service after that \<open>Put\<close>.\<close>

definition demo_stored :: local_service where
  "demo_stored = snd (Put (\<lambda>b. ''h'') demo_temp MemoryMetadataBackend MemoryTaskQueue (LocalObjectStore demo_store)
     ''k'' (bytes_reader [1, 2, 3]) demo_service)"

lemma demo_stored_run:
  "\<exists>f. Put (\<lambda>b. ''h'') demo_temp MemoryMetadataBackend MemoryTaskQueue (LocalObjectStore demo_store)
     ''k'' (bytes_reader [1, 2, 3]) demo_service = (Inr f, demo_stored)"
  "\<exists>f. Get (\<lambda>b. ''h'') demo_temp MemoryMetadataBackend (LocalObjectStore demo_store) ''k'' demo_stored =
     (Inr ([1, 2, 3], f), demo_stored)"
proof -
  obtain res sv' where run: "Put (\<lambda>b. ''h'') demo_temp MemoryMetadataBackend MemoryTaskQueue
      (LocalObjectStore demo_store) ''k'' (bytes_reader [1, 2, 3]) demo_service = (res, sv')" by fastforce
  then have "sv' = demo_stored" by (simp add: demo_stored_def)
  with local_reliable.Put_Get [OF demo_service_facts(1-3) conjI [OF demo_service_facts(4,5)] demo_service_facts(6)
      bytes_reader_sel(1) demo_service_facts(7) run] run
  show "\<exists>f. Put (\<lambda>b. ''h'') demo_temp MemoryMetadataBackend MemoryTaskQueue (LocalObjectStore demo_store)
      ''k'' (bytes_reader [1, 2, 3]) demo_service = (Inr f, demo_stored)"
    and "\<exists>f. Get (\<lambda>b. ''h'') demo_temp MemoryMetadataBackend (LocalObjectStore demo_store) ''k'' demo_stored =
      (Inr ([1, 2, 3], f), demo_stored)" by blast+
qed

theorem Get_verified_witness:
  "\<exists>f. Get (\<lambda>b. ''h'') demo_temp MemoryMetadataBackend (LocalObjectStore demo_store) ''k'' demo_stored =
      (Inr ([1, 2, 3], f), demo_stored) \<and> fm_Size f = 3 \<and> fm_Checksum f = ''h'' \<and> \<not> fm_Deleted f"
proof -
  obtain f where run: "Get (\<lambda>b. ''h'') demo_temp MemoryMetadataBackend (LocalObjectStore demo_store) ''k'' demo_stored =
      (Inr ([1, 2, 3], f), demo_stored)" using demo_stored_run(2) by blast
  from Get_verified [OF run] run show ?thesis by auto
qed

section \<open>A write leaves the published versions alone\<close>

lemma NextVersion_new: "gm_get (ms_files m) key = Some f \<Longrightarrow> NextVersion key m \<noteq> fm_Version f"
  by (simp add: NextVersion_def nextVersionLocked_def)

text \<open>
  The service over any metadata store and queue that meet their contract and any object store
  that meets its own, with whatever faults these admit.
\<close>

locale managed_writes = coordinator B mabs minv Q qabs qinv okstr + object_store OS content oinv okid
  for B :: "'m MetadataBackend" and mabs and minv and Q :: "'q ReplicationTaskQueue" and qabs and qinv and okstr
    and OS :: "'s ObjectStore" and content and oinv and okid
begin

lemma Put_contained:
  fixes sv :: "('m, 'q, 's) ManagedFileService"
  defines "A \<equiv> coordinator_abs mabs qabs"
  assumes inv: "coordinator_inv minv qinv (sv_coordinator sv)"
    and count: "0 < rp_ReplicaCount (mc_planner (sv_coordinator sv))"
    and objs: "oinv (sv_objects sv)"
    and names: "put_names_ok okid (mc_metadata (A (sv_coordinator sv))) key (chunk_manifest H (fst (drain (rd_reads r))))"
    and strs: "okstr key" "\<And>d. okstr (H d)"
      "\<And>nd. nd \<in> set (HealthyNodes (mc_metadata (A (sv_coordinator sv)))) \<Longrightarrow> okstr (nm_ID nd)"
    and put: "Put H te B Q OS key r sv = (res, sv')"
  shows "coordinator_inv minv qinv (sv_coordinator sv') \<and> oinv (sv_objects sv') \<and>
    (\<forall>e. res = Inl e \<longrightarrow> A (sv_coordinator sv') = A (sv_coordinator sv) \<or>
       io_error e \<and> (\<exists>p ns. A (sv_coordinator sv') = (A (sv_coordinator sv))\<lparr>mc_metadata :=
         snd (let d = fst (drain (rd_reads r)) in BeginFileVersion key (int (length d)) (H d) (chunk_manifest H d) p ns
                (mc_metadata (A (sv_coordinator sv))))\<rparr>)) \<and>
    (\<forall>k f n ch. gm_get (ms_files (mc_metadata (A (sv_coordinator sv)))) k = Some f \<and>
       okid (chunk_id n k (fm_Version f) ch) \<longrightarrow>
       content (sv_objects sv') (chunk_id n k (fm_Version f) ch) =
         content (sv_objects sv) (chunk_id n k (fm_Version f) ch))"
proof (cases "sv' = sv")
  case True
  with inv objs show ?thesis by simp
next
  case False
  let ?c = "sv_coordinator sv"
  define data where "data = fst (drain (rd_reads r))"
  let ?M = "chunk_manifest H data" and ?v = "NextVersion key (mc_metadata (A ?c))"
  from inv have wf: "wf_metadata (mc_metadata (A ?c))" and count': "0 < rp_ReplicaCount (mc_planner (A ?c))"
    using count by (auto simp: A_def coordinator_abs_def coordinator_inv_def minv_wf)
  from False put obtain p where st: "stageReader H te (rd_reads r) = Inr (data, int (length data), H data, ?M)"
    and pB: "PrepareWrite B key (int (length data)) (H data) ?M ?c = Inr p"
    by (auto simp: Put_def stageReader_eq data_def split: sum.splits option.splits if_splits prod.splits)
  with PrepareWrite_refines [OF inv, of key "int (length data)" "H data" ?M]
  have p: "PrepareWrite MemoryMetadataBackend key (int (length data)) (H data) ?M (A ?c) = Inr p"
    by (auto simp: A_def)
  note prim = prepared_primary [OF wf count' p names [folded data_def]]
  note fields = PrepareWrite_memory [OF p]
  let ?n = "nm_ID (pw_Primary p)"
  have healthy: "set (pw_Replicas p) \<subseteq> set (HealthyNodes (mc_metadata (A ?c)))"
    and "pw_Primary p \<in> set (pw_Replicas p)" using PrepareWrite_replicas [OF p wf count'] by auto
  then have ok: "prepared_strings okstr p"
    using strs fields by (auto simp: prepared_strings_def list_all_iff manifest_facts(4))
  obtain e s1 where wr: "writeChunkLoop te OS ?n key ?v data ?M ?M (sv_objects sv) = (e, s1)" by fastforce
  note frame = writeChunkLoop_frame [OF objs prim(3) order_refl manifest_facts(1) wr]
  have frame: "oinv s1" "okid x \<Longrightarrow> x \<notin> chunk_id ?n key ?v ` set ?M \<Longrightarrow> content s1 x = content (sv_objects sv) x" for x
    using frame by blast+
  note del = deleteObjects_ok [OF frame(1) prim(3) manifest_facts(1), of H data, simplified]
  obtain w c1 where commit: "CommitWrite B Q p ?c = (w, c1)" by fastforce
  have mem: "(Inl e, x) \<noteq> CommitWrite MemoryMetadataBackend MemoryTaskQueue p (A ?c)" for e x
    using CommitWrite_memory [OF prim(2,1), of "A ?c"] by (metis fst_conv sum.distinct(1))
  have m: "mabs (mc_metadata ?c) = mc_metadata (A ?c)" by (simp add: A_def)
  note refined = CommitWrite_refines [OF inv ok commit, folded A_def, unfolded m]
  then have c1: "coordinator_inv minv qinv c1" by blast
  have failed: "A c1 = A ?c \<or> io_error e \<and> A c1 = (A ?c)\<lparr>mc_metadata := snd (BeginFileVersion key
       (int (length data)) (H data) ?M ?n (map nm_ID (pw_Replicas p)) (mc_metadata (A ?c)))\<rparr>" if "w = Inl e" for e
    using refined mem fields that by auto
  have out: "sv_objects sv' \<in> {s1, deleteObjects OS ?n key ?v ?M s1}"
    "sv_coordinator sv' = ?c \<or> sv_coordinator sv' = c1 \<and> (\<forall>e. res = Inl e \<longrightarrow> w = Inl e)"
    using put wr commit fields manifest_facts(1) [of H data]
    by (auto simp: Put_def st pB writeChunks_def Let_def split: option.splits sum.splits)
  have "content (sv_objects sv') x = content (sv_objects sv) x"
    if "okid x" "x \<notin> chunk_id ?n key ?v ` set ?M" for x
    using out(1) frame(2) [OF that] del(3) [OF that] by auto
  moreover have "oinv (sv_objects sv')" using out(1) frame(1) del(1) by auto
  moreover have "chunk_id n k (fm_Version f) ch \<notin> chunk_id ?n key ?v ` set ?M"
    if "gm_get (ms_files (mc_metadata (A ?c))) k = Some f" for k f n ch
    using that NextVersion_new [of "mc_metadata (A ?c)" k f] by (auto simp: chunk_id_eq_iff)
  moreover have "\<forall>e. res = Inl e \<longrightarrow> A (sv_coordinator sv') = A ?c \<or>
       io_error e \<and> (\<exists>p ns. A (sv_coordinator sv') = (A ?c)\<lparr>mc_metadata :=
         snd (let d = fst (drain (rd_reads r)) in BeginFileVersion key (int (length d)) (H d) (chunk_manifest H d) p ns
                (mc_metadata (A ?c)))\<rparr>)"
    unfolding Let_def data_def [symmetric] using out(2) failed by metis
  moreover have "coordinator_inv minv qinv (sv_coordinator sv')" using out(2) c1 inv by auto
  ultimately show ?thesis by blast
qed

end

interpretation memory_local: managed_writes MemoryMetadataBackend "\<lambda>s. s" wf_metadata MemoryTaskQueue "\<lambda>q. q"
  wf_queue "\<lambda>_. True" "LocalObjectStore st" "local_content st D" "local_inv st D K" "local_ok st D K" for st D K
  by unfold_locales

end
