(* ===== verification/Http_Storage.thy ===== *)
theory Http_Storage
  imports Http_Paths Json_Codec File_Service
begin

text \<open>
  A storage node behind HTTP and its client: \<open>StorageHTTPHandler\<close> and the helpers of
  \<open>src/distributed-fs/http_api.go\<close>, and \<open>HTTPObjectStore\<close> of
  \<open>src/distributed-fs/http_object_store.go\<close>.

  The handler is a function of its object store and the request. The network carries a request
  to the handler at the origin of its URL and the answer back; it may be unreachable, cut a body
  or lose an answer. The client implements the interface \<open>ObjectStore\<close> over it.

  Shown here: a client and handlers whose stores meet the contract \<open>object_store\<close> meet it
  together (the interpretation \<open>http\<close>), so everything proved of replication, reading and writing
  over that contract holds across the network; that over reliable nodes and a network without
  faults the client is reliable too (\<open>http_reliable\<close>); for which keys this does not hold; and
  that the client reports a deletion as done when the node could not delete.
\<close>

section \<open>Requests and answers\<close>

datatype http_method = MethodGet | MethodHead | MethodPut | MethodPost | MethodDelete | MethodOther string

record request =
  rq_Method :: http_method
  rq_Path :: string
  rq_Query :: string
  rq_Body :: reader

text \<open>
  The body of an answer: nothing, a text, a JSON document, or a stream that is copied into it.
  A length that the handler announces is kept apart from the other headers.
\<close>

datatype http_body = NoBody | TextBody string | JsonBody json | StreamBody "read_event list"

record response =
  rs_Status :: int
  rs_Header :: "(string \<times> string) list"
  rs_ContentLength :: "int option"
  rs_Body :: http_body

definition WriteHeader :: "int \<Rightarrow> response" where
  "WriteHeader status = \<lparr>rs_Status = status, rs_Header = [], rs_ContentLength = None, rs_Body = NoBody\<rparr>"

definition http_NotFound :: response where
  "http_NotFound = (WriteHeader 404)\<lparr>rs_Body := TextBody ''404 page not found''\<rparr>"

text \<open>
  \<open>net/http\<close> drops what a handler writes after a status that has no body. A value that does not
  encode leaves the body empty: the error of \<open>Encode\<close> is ignored.
\<close>

definition bodyAllowedForStatus :: "int \<Rightarrow> bool" where
  "bodyAllowedForStatus status \<longleftrightarrow> \<not> (100 \<le> status \<and> status \<le> 199) \<and> status \<noteq> 204 \<and> status \<noteq> 304"

definition writeAPIJSON :: "int \<Rightarrow> json result \<Rightarrow> response" where
  "writeAPIJSON status v =
     (WriteHeader status)\<lparr>rs_Header := [(''Content-Type'', ''application/json'')],
        rs_Body := (if bodyAllowedForStatus status then (case v of Inl _ \<Rightarrow> NoBody | Inr j \<Rightarrow> JsonBody j)
                    else NoBody)\<rparr>"

definition writeAPIError :: "int \<Rightarrow> error \<Rightarrow> response" where
  "writeAPIError status err = writeAPIJSON status (Inr (JObj [(''error'', enc_str (errorMessage err))]))"

lemma answer_sel [simp]:
  "rs_Status (WriteHeader status) = status" "rs_Status (writeAPIJSON status v) = status"
  "rs_Status (writeAPIError status err) = status" "rs_Status http_NotFound = 404"
  "rs_ContentLength (WriteHeader status) = None" "rs_ContentLength (writeAPIJSON status v) = None"
  "rs_ContentLength (writeAPIError status err) = None"
  by (simp_all add: WriteHeader_def writeAPIJSON_def writeAPIError_def http_NotFound_def)

section \<open>The handler of a storage node\<close>

record 's StorageHTTPHandler =
  sh_nodeID :: string
  sh_objects :: "'s ObjectStore"
  sh_state :: 's

definition NewStorageHTTPHandler :: "string \<Rightarrow> 's ObjectStore \<Rightarrow> 's \<Rightarrow> 's StorageHTTPHandler" where
  "NewStorageHTTPHandler nodeID objects s = \<lparr>sh_nodeID = nodeID, sh_objects = objects, sh_state = s\<rparr>"

definition objectRequest :: "request \<Rightarrow> (string \<times> uint64) result" where
  "objectRequest r =
     (let raw = TrimPrefix (rq_Path r) ''/objects/''
      in bind_result (PathUnescape raw) (\<lambda>key.
           if key = '''' \<or> Contains key ''..'' then Inl (ErrOther ''invalid object key'')
           else
             case ParseUint (Query_Get (rq_Query r) ''version'') of
               Inl _ \<Rightarrow> Inl (ErrOther ''version is required'')
             | Inr version \<Rightarrow>
                 if version = 0 then Inl (ErrOther ''version is required'') else Inr (key, version)))"

text \<open>The answer, what was read of the request's body, and the handler's new state.\<close>

definition StorageServeHTTP ::
  "'s StorageHTTPHandler \<Rightarrow> request \<Rightarrow> response \<times> byte list \<times> 's StorageHTTPHandler" where
  "StorageServeHTTP h r =
     (if rq_Path r = ''/healthz'' then (WriteHeader 200, [], h)
      else if \<not> HasPrefix (rq_Path r) ''/objects/'' then (http_NotFound, [], h)
      else
        case objectRequest r of
          Inl err \<Rightarrow> (writeAPIError 400 err, [], h)
        | Inr (key, version) \<Rightarrow>
            (case rq_Method r of
               MethodPut \<Rightarrow>
                 (case os_WriteObject (sh_objects h) (sh_nodeID h) key version (rq_Body r) (sh_state h) of
                    (Inl err, taken, s') \<Rightarrow> (writeAPIError 500 err, taken, h\<lparr>sh_state := s'\<rparr>)
                  | (Inr n, taken, s') \<Rightarrow>
                      (writeAPIJSON 201 (Inr (JObj [(''bytes'', JNum n)])), taken, h\<lparr>sh_state := s'\<rparr>))
             | MethodGet \<Rightarrow>
                 (case os_ReadObject (sh_objects h) (sh_nodeID h) key version (sh_state h) of
                    Inl err \<Rightarrow> (writeAPIError 404 err, [], h)
                  | Inr (sz, data) \<Rightarrow>
                      ((WriteHeader 200)\<lparr>rs_ContentLength := Some sz, rs_Body := StreamBody (rd_reads data)\<rparr>, [], h))
             | MethodHead \<Rightarrow>
                 (if \<not> os_HasObject (sh_objects h) (sh_nodeID h) key version (sh_state h)
                  then (WriteHeader 404, [], h) else (WriteHeader 200, [], h))
             | MethodDelete \<Rightarrow>
                 (case os_DeleteObject (sh_objects h) (sh_nodeID h) key version (sh_state h) of
                    (Inl err, s') \<Rightarrow> (writeAPIError 404 err, [], h\<lparr>sh_state := s'\<rparr>)
                  | (Inr _, s') \<Rightarrow> (WriteHeader 204, [], h\<lparr>sh_state := s'\<rparr>))
             | _ \<Rightarrow> (WriteHeader 405, [], h)))"

section \<open>The network\<close>

text \<open>What can go wrong with one request.\<close>

datatype net_fault =
    Unreachable string
  | RequestCut nat string
  | ReplyLost string
  | ReplyCut nat string

text \<open>The handlers by origin, and the fault that a request of a method to a URL meets.\<close>

record 's network =
  net_servers :: "(string \<times> 's StorageHTTPHandler) list"
  net_fault :: "http_method \<Rightarrow> string \<Rightarrow> net_fault option"

definition cut_stream :: "nat \<Rightarrow> string \<Rightarrow> read_event list \<Rightarrow> read_event list" where
  "cut_stream n msg es = [(take n (fst (drain es)), ReadFailed (ErrOther msg))]"

text \<open>
  A copied stream on the wire: with an announced length the client gets that many bytes and the
  end, or what there is and an error.
\<close>

definition wire_body :: "int option \<Rightarrow> read_event list \<Rightarrow> read_event list" where
  "wire_body len es =
     (let d = fst (drain es)
      in case len of
           Some sz \<Rightarrow>
             if 0 \<le> sz \<and> int (length d) < sz then [(d, ReadFailed (ErrOther ''unexpected EOF''))]
             else if 0 \<le> sz then [(take (nat sz) d, ReadEOF)]
             else [(d, ReadEOF)]
         | None \<Rightarrow> [(d, ReadEOF)])"

definition received_body :: "net_fault option \<Rightarrow> response \<Rightarrow> read_event list" where
  "received_body fault resp =
     (let es = (case rs_Body resp of StreamBody es \<Rightarrow> wire_body (rs_ContentLength resp) es | _ \<Rightarrow> [])
      in case fault of Some (ReplyCut n msg) \<Rightarrow> cut_stream n msg es | _ \<Rightarrow> es)"

text \<open>
  \<open>client.Do\<close>: status, announced length and body of the answer, what was taken from the body of
  the request, and the network after it. A body that cannot be sent to its end fails the call.
\<close>

definition http_Do ::
  "http_method \<Rightarrow> string \<Rightarrow> reader \<Rightarrow> 's network \<Rightarrow> (int \<times> int \<times> read_event list) result \<times> byte list \<times> 's network" where
  "http_Do meth u body net =
     (case parse_url u of
        Inl err \<Rightarrow> (Inl err, [], net)
      | Inr (origin, path, query) \<Rightarrow>
          (case map_of (net_servers net) origin of
             None \<Rightarrow> (Inl (ErrOther ''no such host''), [], net)
           | Some h \<Rightarrow>
               (case net_fault net meth u of
                  Some (Unreachable msg) \<Rightarrow> (Inl (ErrOther msg), [], net)
                | fault \<Rightarrow>
                    (let body' = (case fault of
                           Some (RequestCut n msg) \<Rightarrow> body\<lparr>rd_reads := cut_stream n msg (rd_reads body)\<rparr>
                         | _ \<Rightarrow> body);
                         (resp, taken, h') = StorageServeHTTP h
                           \<lparr>rq_Method = meth, rq_Path = path, rq_Query = query, rq_Body = body'\<rparr>;
                         net' = net\<lparr>net_servers := AList.update origin h' (net_servers net)\<rparr>
                     in case fault of
                          Some (ReplyLost msg) \<Rightarrow> (Inl (ErrOther msg), taken, net')
                        | _ \<Rightarrow>
                            (case snd (drain (rd_reads body')) of
                               Some err \<Rightarrow> (Inl err, taken, net')
                             | None \<Rightarrow>
                                 (Inr (rs_Status resp,
                                       case rs_ContentLength resp of None \<Rightarrow> - 1 | Some n \<Rightarrow> n,
                                       received_body fault resp), taken, net'))))))"

section \<open>The client\<close>

record 's HTTPObjectStore =
  ho_nodes :: "string gomap"
  ho_net :: "'s network"

definition NewHTTPObjectStore :: "string gomap \<Rightarrow> 's network \<Rightarrow> 's HTTPObjectStore" where
  "NewHTTPObjectStore nodes net = \<lparr>ho_nodes = nodes, ho_net = net\<rparr>"

definition SetNode :: "string \<Rightarrow> string \<Rightarrow> 's HTTPObjectStore \<Rightarrow> 's HTTPObjectStore" where
  "SetNode nodeID addr s = s\<lparr>ho_nodes := gm_put nodeID addr (ho_nodes s)\<rparr>"

definition objectURL :: "'s HTTPObjectStore \<Rightarrow> string \<Rightarrow> string \<Rightarrow> uint64 \<Rightarrow> string" where
  "objectURL s nodeID key version =
     (let base = TrimRightSlash (case gm_get (ho_nodes s) nodeID of None \<Rightarrow> [] | Some addr \<Rightarrow> addr)
      in base @ ''/objects/'' @ PathEscape key @ ''?'' @ ''version='' @ dec (unat version))"

text \<open>\<open>resp.Status\<close>: the code and its name.\<close>

definition status_line :: "int \<Rightarrow> string" where
  "status_line status = dec (nat status) @ (
     if status = 400 then '' Bad Request'' else if status = 404 then '' Not Found''
     else if status = 405 then '' Method Not Allowed'' else if status = 500 then '' Internal Server Error'' else [])"

definition no_body :: reader where
  "no_body = \<lparr>rd_reads = [], rd_close = None\<rparr>"

text \<open>The number answered is that of the counting reader around the body.\<close>

definition Http_WriteObject ::
  "string \<Rightarrow> string \<Rightarrow> uint64 \<Rightarrow> reader \<Rightarrow> 's HTTPObjectStore \<Rightarrow> int result \<times> byte list \<times> 's HTTPObjectStore" where
  "Http_WriteObject nodeID key version r s =
     (case http_Do MethodPut (objectURL s nodeID key version) r (ho_net s) of
        (Inl err, taken, net') \<Rightarrow> (Inl err, taken, s\<lparr>ho_net := net'\<rparr>)
      | (Inr (status, _, _), taken, net') \<Rightarrow>
          if status div 100 \<noteq> 2
          then (Inl (ErrOther (''storage write failed: '' @ status_line status)), taken, s\<lparr>ho_net := net'\<rparr>)
          else (Inr (int (length taken)), taken, s\<lparr>ho_net := net'\<rparr>))"

definition Http_ReadObject ::
  "string \<Rightarrow> string \<Rightarrow> uint64 \<Rightarrow> 's HTTPObjectStore \<Rightarrow> (int \<times> reader) result" where
  "Http_ReadObject nodeID key version s =
     (case http_Do MethodGet (objectURL s nodeID key version) no_body (ho_net s) of
        (Inl err, _, _) \<Rightarrow> Inl err
      | (Inr (status, len, body), _, _) \<Rightarrow>
          if status \<noteq> 200 then Inl (ErrOther (''storage read failed: '' @ status_line status))
          else Inr (len, \<lparr>rd_reads = body, rd_close = None\<rparr>))"

definition Http_DeleteObject ::
  "string \<Rightarrow> string \<Rightarrow> uint64 \<Rightarrow> 's HTTPObjectStore \<Rightarrow> unit result \<times> 's HTTPObjectStore" where
  "Http_DeleteObject nodeID key version s =
     (case http_Do MethodDelete (objectURL s nodeID key version) no_body (ho_net s) of
        (Inl err, _, net') \<Rightarrow> (Inl err, s\<lparr>ho_net := net'\<rparr>)
      | (Inr (status, _, _), _, net') \<Rightarrow>
          if status div 100 \<noteq> 2 \<and> status \<noteq> 404
          then (Inl (ErrOther (''storage delete failed: '' @ status_line status)), s\<lparr>ho_net := net'\<rparr>)
          else (Inr (), s\<lparr>ho_net := net'\<rparr>))"

definition Http_HasObject :: "string \<Rightarrow> string \<Rightarrow> uint64 \<Rightarrow> 's HTTPObjectStore \<Rightarrow> bool" where
  "Http_HasObject nodeID key version s =
     (case http_Do MethodHead (objectURL s nodeID key version) no_body (ho_net s) of
        (Inl err, _, _) \<Rightarrow> False
      | (Inr (status, _, _), _, _) \<Rightarrow> status = 200)"

definition HttpObjects :: "'s HTTPObjectStore ObjectStore" where
  "HttpObjects = \<lparr>os_WriteObject = Http_WriteObject, os_ReadObject = Http_ReadObject,
     os_DeleteObject = Http_DeleteObject, os_HasObject = Http_HasObject\<rparr>"

lemma http_objects_sel [simp]:
  "os_WriteObject HttpObjects = Http_WriteObject" "os_ReadObject HttpObjects = Http_ReadObject"
  "os_DeleteObject HttpObjects = Http_DeleteObject" "os_HasObject HttpObjects = Http_HasObject"
  by (simp_all add: HttpObjects_def)

section \<open>One request\<close>

text \<open>
  The keys that travel unharmed: not empty, without \<open>..\<close>, which the handler refuses, and without
  a percent sign, since the handler unescapes a path that the server has unescaped already.
\<close>

definition http_key :: "string \<Rightarrow> bool" where
  "http_key k \<longleftrightarrow> k \<noteq> '''' \<and> \<not> Contains k ''..'' \<and> CHR ''%'' \<notin> set k"

definition object_req :: "http_method \<Rightarrow> string \<Rightarrow> uint64 \<Rightarrow> reader \<Rightarrow> request" where
  "object_req meth k v body =
     \<lparr>rq_Method = meth, rq_Path = ''/objects/'' @ k, rq_Query = ''version='' @ dec (unat v), rq_Body = body\<rparr>"

lemma objectRequest_ok:
  "http_key k \<Longrightarrow> v \<noteq> 0 \<Longrightarrow> objectRequest (object_req meth k v body) = Inr (k, v)"
  using TrimPrefix_append [of "''/objects/''" k] Query_Get_version [of "unat v"]
  by (simp add: objectRequest_def object_req_def http_key_def Let_def)

lemma object_path_routes:
  "rq_Path (object_req meth k v body) \<noteq> ''/healthz''" "HasPrefix (rq_Path (object_req meth k v body)) ''/objects/''"
  "rq_Method (object_req meth k v body) = meth" "rq_Body (object_req meth k v body) = body"
  using HasPrefix_append [of "''/objects/''" k] by (auto simp: object_req_def)

lemma parse_objectURL:
  assumes "gm_get (ho_nodes s) n = Some addr" and "TrimRightSlash addr = orig" and "is_origin orig"
  shows "parse_url (objectURL s n k v) = Inr (orig, ''/objects/'' @ k, ''version='' @ dec (unat v))"
proof -
  let ?path = "''/objects/'' @ PathEscape k" and ?query = "''version='' @ dec (unat v)"
  have q: "CHR ''#'' \<notin> set ?query" using not_digit_in_dec [of "CHR ''#''" "unat v"] by (simp add: is_digit_def)
  have p: "set ?path \<inter> set ''?#'' = {}" using PathEscape_no_delim [of _ k] by auto
  have u: "objectURL s n k v = orig @ ?path @ ''?'' @ ?query"
    using assms(1,2) by (simp add: objectURL_def Let_def)
  have "parse_url (orig @ ?path @ ''?'' @ ?query) = bind_result (PathUnescape ?path) (\<lambda>p. Inr (orig, p, ?query))"
    by (rule parse_url_origin(1) [OF assms(3) _ p q]) simp
  moreover have "PathUnescape ?path = Inr (''/objects/'' @ k)"
    by (subst PathUnescape_append_plain) simp_all
  ultimately show ?thesis unfolding u by (simp only: bind_result_simps)
qed

text \<open>
  A request of the client, at a node with a known origin: it meets its fault before or after
  the handler ran on exactly the object that was named.
\<close>

definition sent_body :: "net_fault option \<Rightarrow> reader \<Rightarrow> reader" where
  "sent_body fault body =
     (case fault of Some (RequestCut n msg) \<Rightarrow> body\<lparr>rd_reads := cut_stream n msg (rd_reads body)\<rparr> | _ \<Rightarrow> body)"

lemma http_Do_object:
  assumes "gm_get (ho_nodes s) n = Some addr" and "TrimRightSlash addr = orig" and "is_origin orig"
    and "map_of (net_servers (ho_net s)) orig = Some h"
    and "http_Do meth (objectURL s n k v) body (ho_net s) = (r, taken, net')"
  defines "fault \<equiv> net_fault (ho_net s) meth (objectURL s n k v)"
  defines "served \<equiv> StorageServeHTTP h (object_req meth k v (sent_body fault body))"
  shows "(\<exists>e. r = Inl e \<and> net' = ho_net s) \<or>
     (taken = fst (snd served) \<and>
      net' = (ho_net s)\<lparr>net_servers := AList.update orig (snd (snd served)) (net_servers (ho_net s))\<rparr> \<and>
      (\<forall>st len b. r = Inr (st, len, b) \<longrightarrow>
         st = rs_Status (fst served) \<and> len = (case rs_ContentLength (fst served) of None \<Rightarrow> - 1 | Some i \<Rightarrow> i) \<and>
         b = received_body fault (fst served) \<and> snd (drain (rd_reads (sent_body fault body))) = None))"
    and "fault = None \<Longrightarrow> snd (drain (rd_reads body)) = None \<Longrightarrow>
      r = Inr (rs_Status (fst served), case rs_ContentLength (fst served) of None \<Rightarrow> - 1 | Some i \<Rightarrow> i,
               received_body None (fst served))"
proof -
  obtain resp tk h' where sv: "served = (resp, tk, h')" by (cases served)
  note parse = parse_objectURL [OF assms(1-3), of k v]
  have req: "object_req meth k v b = \<lparr>rq_Method = meth, rq_Path = ''/objects/'' @ k,
      rq_Query = ''version='' @ dec (unat v), rq_Body = b\<rparr>" for b by (simp add: object_req_def)
  note run = assms(5) [unfolded http_Do_def parse sum.case prod.case assms(4) option.case fault_def [symmetric]]
  note sv' = sv [unfolded served_def req]
  show "(\<exists>e. r = Inl e \<and> net' = ho_net s) \<or>
     (taken = fst (snd served) \<and>
      net' = (ho_net s)\<lparr>net_servers := AList.update orig (snd (snd served)) (net_servers (ho_net s))\<rparr> \<and>
      (\<forall>st len b. r = Inr (st, len, b) \<longrightarrow>
         st = rs_Status (fst served) \<and> len = (case rs_ContentLength (fst served) of None \<Rightarrow> - 1 | Some i \<Rightarrow> i) \<and>
         b = received_body fault (fst served) \<and> snd (drain (rd_reads (sent_body fault body))) = None))"
  proof (cases fault)
    case None
    with run sv' show ?thesis unfolding sv by (auto simp: sent_body_def Let_def split: option.splits)
  next
    case (Some f)
    with run sv' show ?thesis unfolding sv
      by (cases f) (auto simp: sent_body_def Let_def split: option.splits)
  qed
  assume "fault = None" and "snd (drain (rd_reads body)) = None"
  with run sv' show "r = Inr (rs_Status (fst served),
      case rs_ContentLength (fst served) of None \<Rightarrow> - 1 | Some i \<Rightarrow> i, received_body None (fst served))"
    unfolding sv by (simp add: sent_body_def Let_def)
qed

section \<open>The client over nodes that meet the contract\<close>

text \<open>
  A cluster: \<open>N\<close> gives each node name the origin its address stands for, \<open>D\<close> the identifier
  with which the handler at an origin was started, and \<open>C\<close>, \<open>I\<close>, \<open>P\<close> the content, invariant and
  usable names of its store. No two names share an origin.
\<close>

definition http_ok ::
  "(string \<Rightarrow> string option) \<Rightarrow> (string \<Rightarrow> string) \<Rightarrow> (string \<Rightarrow> object_id \<Rightarrow> bool) \<Rightarrow> object_id \<Rightarrow> bool" where
  "http_ok N D P x =
     (case x of (n, k, v) \<Rightarrow>
        (case N n of None \<Rightarrow> False | Some orig \<Rightarrow> http_key k \<and> v \<noteq> 0 \<and> P orig (D orig, k, v)))"

definition http_content ::
  "(string \<Rightarrow> string option) \<Rightarrow> (string \<Rightarrow> string) \<Rightarrow> (string \<Rightarrow> 's \<Rightarrow> object_id \<Rightarrow> byte list option)
    \<Rightarrow> 's HTTPObjectStore \<Rightarrow> object_id \<Rightarrow> byte list option" where
  "http_content N D C s x =
     (case x of (n, k, v) \<Rightarrow>
        (case N n of
           None \<Rightarrow> None
         | Some orig \<Rightarrow>
             (case map_of (net_servers (ho_net s)) orig of
                None \<Rightarrow> None
              | Some h \<Rightarrow> C orig (sh_state h) (D orig, k, v))))"

definition http_cluster ::
  "(string \<Rightarrow> string option) \<Rightarrow> (string \<Rightarrow> string) \<Rightarrow> 's HTTPObjectStore \<Rightarrow> bool" where
  "http_cluster N D s \<longleftrightarrow>
     (\<forall>n orig. N n = Some orig \<longrightarrow> is_origin orig \<and>
        (\<exists>addr. gm_get (ho_nodes s) n = Some addr \<and> TrimRightSlash addr = orig) \<and>
        (\<exists>h. map_of (net_servers (ho_net s)) orig = Some h \<and> sh_nodeID h = D orig) \<and>
        (\<forall>n'. N n' = Some orig \<longrightarrow> n' = n))"

definition http_inv ::
  "(string \<Rightarrow> string option) \<Rightarrow> (string \<Rightarrow> string) \<Rightarrow> (string \<Rightarrow> 's \<Rightarrow> object_id \<Rightarrow> byte list option)
    \<Rightarrow> (string \<Rightarrow> 's \<Rightarrow> bool) \<Rightarrow> (string \<Rightarrow> object_id \<Rightarrow> bool) \<Rightarrow> 's HTTPObjectStore \<Rightarrow> bool" where
  "http_inv N D C I P s \<longleftrightarrow> http_cluster N D s \<and>
     (\<forall>orig h. map_of (net_servers (ho_net s)) orig = Some h \<longrightarrow>
        object_store (sh_objects h) (C orig) (I orig) (P orig) \<and> I orig (sh_state h))"

text \<open>The state after the handler at an origin has moved its store on.\<close>

definition moved :: "string \<Rightarrow> 's StorageHTTPHandler \<Rightarrow> 's \<Rightarrow> 's HTTPObjectStore \<Rightarrow> 's HTTPObjectStore" where
  "moved orig h t s = s\<lparr>ho_net := (ho_net s)\<lparr>net_servers :=
     AList.update orig (h\<lparr>sh_state := t\<rparr>) (net_servers (ho_net s))\<rparr>\<rparr>"

lemma moved_servers:
  "map_of (net_servers (ho_net (moved orig h t s))) x =
     (if x = orig then Some (h\<lparr>sh_state := t\<rparr>) else map_of (net_servers (ho_net s)) x)"
  "ho_nodes (moved orig h t s) = ho_nodes s"
  by (simp_all add: moved_def update_conv')

lemma http_clusterE:
  assumes "http_cluster N D s" and "N n = Some orig"
  obtains addr h where "is_origin orig" and "gm_get (ho_nodes s) n = Some addr" and "TrimRightSlash addr = orig"
    and "map_of (net_servers (ho_net s)) orig = Some h" and "sh_nodeID h = D orig"
    and "\<And>n'. N n' = Some orig \<Longrightarrow> n' = n"
  using assms unfolding http_cluster_def by meson

lemma moved_cluster:
  assumes "http_cluster N D s" and "map_of (net_servers (ho_net s)) orig = Some h"
  shows "http_cluster N D (moved orig h t s)"
  unfolding http_cluster_def
proof (intro allI impI)
  fix n orig' assume "N n = Some orig'"
  with assms(1) obtain addr h' where "is_origin orig'" "gm_get (ho_nodes s) n = Some addr" "TrimRightSlash addr = orig'"
    "map_of (net_servers (ho_net s)) orig' = Some h'" "sh_nodeID h' = D orig'" "\<And>n'. N n' = Some orig' \<Longrightarrow> n' = n"
    by (rule http_clusterE) blast
  with assms(2) show "is_origin orig' \<and>
      (\<exists>addr. gm_get (ho_nodes (moved orig h t s)) n = Some addr \<and> TrimRightSlash addr = orig') \<and>
      (\<exists>h'. map_of (net_servers (ho_net (moved orig h t s))) orig' = Some h' \<and> sh_nodeID h' = D orig') \<and>
      (\<forall>n'. N n' = Some orig' \<longrightarrow> n' = n)"
    by (cases "orig' = orig") (simp_all add: moved_servers)
qed

lemma moved_inv:
  assumes "http_inv N D C I P s" and "map_of (net_servers (ho_net s)) orig = Some h" and "I orig t"
  shows "http_inv N D C I P (moved orig h t s)"
  using assms moved_cluster [of N D s orig h t] by (auto simp: http_inv_def moved_servers)

lemma moved_content:
  assumes "http_cluster N D s" and "N n = Some orig" and "map_of (net_servers (ho_net s)) orig = Some h"
  shows "http_content N D C (moved orig h t s) (n, k, v) = C orig t (D orig, k, v)"
    and "N n' \<noteq> Some orig \<Longrightarrow> http_content N D C (moved orig h t s) (n', k, v) = http_content N D C s (n', k, v)"
  using assms by (auto simp: http_content_def moved_servers split: option.split)

lemma http_ok_node:
  assumes "http_inv N D C I P s" and "http_ok N D P (n, k, v)"
  obtains orig addr h where "N n = Some orig" and "http_key k" and "v \<noteq> 0" and "P orig (D orig, k, v)"
    and "gm_get (ho_nodes s) n = Some addr" and "TrimRightSlash addr = orig" and "is_origin orig"
    and "map_of (net_servers (ho_net s)) orig = Some h" and "sh_nodeID h = D orig"
    and "object_store (sh_objects h) (C orig) (I orig) (P orig)" and "I orig (sh_state h)"
    and "http_content N D C s (n, k, v) = C orig (sh_state h) (D orig, k, v)"
proof -
  from assms(2) obtain orig where o: "N n = Some orig" "http_key k" "v \<noteq> 0" "P orig (D orig, k, v)"
    by (auto simp: http_ok_def split: option.splits)
  moreover from assms(1) have "http_cluster N D s" by (simp add: http_inv_def)
  from this o(1) obtain addr h where "is_origin orig" "gm_get (ho_nodes s) n = Some addr"
    "TrimRightSlash addr = orig" "map_of (net_servers (ho_net s)) orig = Some h" "sh_nodeID h = D orig"
    by (rule http_clusterE)
  moreover from this assms(1) have "object_store (sh_objects h) (C orig) (I orig) (P orig)" "I orig (sh_state h)"
    by (auto simp: http_inv_def)
  ultimately show ?thesis by (intro that) (auto simp: http_content_def)
qed

lemma http_ok_at:
  assumes "http_inv N D C I P s" and "http_ok N D P (n, k, v)" and "N n = Some orig"
    and "map_of (net_servers (ho_net s)) orig = Some h"
  shows "sh_nodeID h = D orig" and "object_store (sh_objects h) (C orig) (I orig) (P orig)"
    and "I orig (sh_state h)" and "P orig (D orig, k, v)"
    and "http_content N D C s (n, k, v) = C orig (sh_state h) (D orig, k, v)"
  using assms by (auto elim!: http_ok_node)

text \<open>What the handler does with a well-formed request.\<close>

lemma serve_put:
  assumes "http_key k" and "v \<noteq> 0"
    and "os_WriteObject (sh_objects h) (sh_nodeID h) k v body (sh_state h) = (w, taken, t)"
  shows "StorageServeHTTP h (object_req MethodPut k v body) =
    ((case w of Inl e \<Rightarrow> writeAPIError 500 e | Inr i \<Rightarrow> writeAPIJSON 201 (Inr (JObj [(''bytes'', JNum i)]))),
     taken, h\<lparr>sh_state := t\<rparr>)"
  using assms objectRequest_ok [OF assms(1,2)]
  by (simp add: StorageServeHTTP_def object_path_routes split: sum.split)

lemma serve_get:
  assumes "http_key k" and "v \<noteq> 0"
  shows "StorageServeHTTP h (object_req MethodGet k v body) =
    (case os_ReadObject (sh_objects h) (sh_nodeID h) k v (sh_state h) of
       Inl e \<Rightarrow> (writeAPIError 404 e, [], h)
     | Inr (len, data) \<Rightarrow>
         ((WriteHeader 200)\<lparr>rs_ContentLength := Some len, rs_Body := StreamBody (rd_reads data)\<rparr>, [], h))"
  using objectRequest_ok [OF assms]
  by (simp add: StorageServeHTTP_def object_path_routes split: sum.split)

lemma serve_delete:
  assumes "http_key k" and "v \<noteq> 0"
    and "os_DeleteObject (sh_objects h) (sh_nodeID h) k v (sh_state h) = (r, t)"
  shows "StorageServeHTTP h (object_req MethodDelete k v body) =
    ((case r of Inl e \<Rightarrow> writeAPIError 404 e | Inr _ \<Rightarrow> WriteHeader 204), [], h\<lparr>sh_state := t\<rparr>)"
  using assms objectRequest_ok [OF assms(1,2)]
  by (simp add: StorageServeHTTP_def object_path_routes split: sum.split)

lemma serve_head:
  assumes "http_key k" and "v \<noteq> 0"
  shows "StorageServeHTTP h (object_req MethodHead k v body) =
    (WriteHeader (if os_HasObject (sh_objects h) (sh_nodeID h) k v (sh_state h) then 200 else 404), [], h)"
  using objectRequest_ok [OF assms] by (simp add: StorageServeHTTP_def object_path_routes)

text \<open>A write: the state is as before, or the node has run the write on a body with the same beginning.\<close>

lemma cut_stream_fails [simp]: "snd (drain (cut_stream n msg es)) = Some (ErrOther msg)"
  "fst (drain (cut_stream n msg es)) = take n (fst (drain es))"
  by (simp_all add: cut_stream_def)

lemma sent_body_ok: "snd (drain (rd_reads (sent_body fault body))) = None \<Longrightarrow> sent_body fault body = body"
  by (auto simp: sent_body_def split: option.splits net_fault.splits)

lemma http_write_step:
  assumes inv: "http_inv N D C I P s" and ok: "http_ok N D P (n, k, v)"
    and run: "Http_WriteObject n k v rd s = (w, taken, s')"
  obtains (Same) e where "w = Inl e" and "s' = s"
    | (Ran) orig h body r t where "N n = Some orig" and "map_of (net_servers (ho_net s)) orig = Some h"
      and "os_WriteObject (sh_objects h) (sh_nodeID h) k v body (sh_state h) = (r, taken, t)"
      and "s' = moved orig h t s"
      and "\<And>len. w = Inr len \<Longrightarrow> body = rd \<and> len = int (length taken) \<and> (\<exists>i. r = Inr i)"
proof -
  from http_ok_node [OF inv ok] obtain orig addr h where o: "N n = Some orig" "http_key k" "v \<noteq> 0"
    and node: "gm_get (ho_nodes s) n = Some addr" "TrimRightSlash addr = orig" "is_origin orig"
      "map_of (net_servers (ho_net s)) orig = Some h"
    by metis
  let ?fault = "net_fault (ho_net s) MethodPut (objectURL s n k v)"
  let ?body = "sent_body ?fault rd"
  obtain r tk t where wr: "os_WriteObject (sh_objects h) (sh_nodeID h) k v ?body (sh_state h) = (r, tk, t)"
    by (metis prod_cases3)
  note served = serve_put [OF o(2,3) wr]
  obtain res tk' net' where call: "http_Do MethodPut (objectURL s n k v) rd (ho_net s) = (res, tk', net')"
    by (metis prod_cases3)
  from http_Do_object(1) [OF node call, unfolded served] show ?thesis
  proof (elim disjE exE conjE, goal_cases)
    case (1 e)
    with run call show ?thesis by (intro Same [of e]) (auto simp: Http_WriteObject_def)
  next
    case 2
    have w: "w = Inr len \<Longrightarrow> \<exists>st l b. res = Inr (st, l, b) \<and> st div 100 = 2 \<and> len = int (length tk')" for len
      using run call by (auto simp: Http_WriteObject_def split: sum.splits if_splits)
    show ?thesis
    proof (rule Ran [OF o(1) node(4)])
      show "os_WriteObject (sh_objects h) (sh_nodeID h) k v ?body (sh_state h) = (r, taken, t)"
        using wr 2(1) run call by (auto simp: Http_WriteObject_def split: sum.splits if_splits)
      show "s' = moved orig h t s"
        using 2(2) run call by (auto simp: Http_WriteObject_def moved_def split: sum.splits if_splits)
      fix len assume "w = Inr len"
      from w [OF this] obtain st l b where "res = Inr (st, l, b)" "st div 100 = 2" "len = int (length tk')" by blast
      with 2 sent_body_ok [of ?fault rd] run call
      show "?body = rd \<and> len = int (length taken) \<and> (\<exists>i. r = Inr i)"
        by (cases r) (auto simp: Http_WriteObject_def)
    qed
  qed
qed

lemma http_delete_step:
  assumes inv: "http_inv N D C I P s" and ok: "http_ok N D P (n, k, v)"
    and run: "Http_DeleteObject n k v s = (w, s')"
  obtains (Same) e where "w = Inl e" and "s' = s"
    | (Ran) orig h r t where "N n = Some orig" and "map_of (net_servers (ho_net s)) orig = Some h"
      and "os_DeleteObject (sh_objects h) (sh_nodeID h) k v (sh_state h) = (r, t)" and "s' = moved orig h t s"
proof -
  from http_ok_node [OF inv ok] obtain orig addr h where o: "N n = Some orig" "http_key k" "v \<noteq> 0"
    and node: "gm_get (ho_nodes s) n = Some addr" "TrimRightSlash addr = orig" "is_origin orig"
      "map_of (net_servers (ho_net s)) orig = Some h"
    by metis
  obtain r t where dl: "os_DeleteObject (sh_objects h) (sh_nodeID h) k v (sh_state h) = (r, t)" by fastforce
  note served = serve_delete [OF o(2,3) dl]
  obtain res tk' net' where call: "http_Do MethodDelete (objectURL s n k v) no_body (ho_net s) = (res, tk', net')"
    by (metis prod_cases3)
  from http_Do_object(1) [OF node call, unfolded served] show ?thesis
  proof (elim disjE exE conjE, goal_cases)
    case (1 e)
    with run call show ?thesis by (intro Same [of e]) (auto simp: Http_DeleteObject_def)
  next
    case 2
    with run call have "s' = moved orig h t s"
      by (auto simp: Http_DeleteObject_def moved_def split: sum.splits if_splits)
    with o(1) node(4) dl show ?thesis by (rule Ran)
  qed
qed

text \<open>A read: what arrives is the object, or a beginning of it with an error.\<close>

lemma http_read_step:
  assumes inv: "http_inv N D C I P s" and ok: "http_ok N D P (n, k, v)"
    and run: "Http_ReadObject n k v s = Inr (len, rd)"
  shows "\<exists>d rest. http_content N D C s (n, k, v) = Some d \<and> len = int (length d) \<and>
      d = fst (drain (rd_reads rd)) @ rest \<and> (snd (drain (rd_reads rd)) = None \<longrightarrow> rest = [])"
proof -
  from http_ok_node [OF inv ok] obtain orig addr h where o: "N n = Some orig" "http_key k" "v \<noteq> 0" "P orig (D orig, k, v)"
    and node: "gm_get (ho_nodes s) n = Some addr" "TrimRightSlash addr = orig" "is_origin orig"
      "map_of (net_servers (ho_net s)) orig = Some h"
    and h: "sh_nodeID h = D orig" "object_store (sh_objects h) (C orig) (I orig) (P orig)" "I orig (sh_state h)"
    and c: "http_content N D C s (n, k, v) = C orig (sh_state h) (D orig, k, v)"
    by metis
  let ?fault = "net_fault (ho_net s) MethodGet (objectURL s n k v)"
  obtain res tk' net' where call: "http_Do MethodGet (objectURL s n k v) no_body (ho_net s) = (res, tk', net')"
    by (metis prod_cases3)
  from run call obtain b where res: "res = Inr (200, len, b)" and rd: "rd = \<lparr>rd_reads = b, rd_close = None\<rparr>"
    by (auto simp: Http_ReadObject_def split: sum.splits if_splits)
  from http_Do_object(1) [OF node call] res obtain resp tk h' where
    served: "StorageServeHTTP h (object_req MethodGet k v (sent_body ?fault no_body)) = (resp, tk, h')"
    and resp: "rs_Status resp = 200" "len = (case rs_ContentLength resp of None \<Rightarrow> - 1 | Some i \<Rightarrow> i)"
      "b = received_body ?fault resp"
    by (metis prod_cases3 fst_conv sum.distinct(1) sum.inject(2) old.prod.inject)
  from served resp(1) obtain sz data where read: "os_ReadObject (sh_objects h) (D orig) k v (sh_state h) = Inr (sz, data)"
    and r: "rs_ContentLength resp = Some sz" "rs_Body resp = StreamBody (rd_reads data)"
    unfolding serve_get [OF o(2,3)] h(1) by (auto split: sum.splits)
  from object_store.read_size [OF h(2,3) o(4) read] obtain d rest where d: "C orig (sh_state h) (D orig, k, v) = Some d"
    "sz = int (length d)" "d = fst (drain (rd_reads data)) @ rest" by blast
  have wire: "fst (drain (wire_body (Some sz) (rd_reads data))) = fst (drain (rd_reads data))"
    "snd (drain (wire_body (Some sz) (rd_reads data))) = None \<longrightarrow> rest = []"
    using d(2,3) by (auto simp: wire_body_def Let_def)
  have "\<exists>rest'. d = fst (drain b) @ rest' \<and> (snd (drain b) = None \<longrightarrow> rest' = [])"
  proof (cases "\<exists>i msg. ?fault = Some (ReplyCut i msg)")
    case True
    then obtain i msg where "?fault = Some (ReplyCut i msg)" by blast
    with resp(3) r have b: "b = cut_stream i msg (wire_body (Some sz) (rd_reads data))"
      by (simp add: received_body_def Let_def)
    have "d = take i (fst (drain (rd_reads data))) @ (drop i (fst (drain (rd_reads data))) @ rest)"
      using d(3) by (metis append.assoc append_take_drop_id)
    then show ?thesis by (auto simp: b wire)
  next
    case False
    with resp(3) r have "b = wire_body (Some sz) (rd_reads data)"
      by (auto simp: received_body_def Let_def split: option.splits net_fault.splits)
    with wire d(3) show ?thesis by auto
  qed
  with d c r resp rd show ?thesis by auto
qed

text \<open>The same content law for every object but the one written, whatever origin it is at.\<close>

lemma moved_frame:
  assumes inv: "http_inv N D C I P s" and o: "N n = Some orig" "map_of (net_servers (ho_net s)) orig = Some h"
    and x: "http_ok N D P x" "x \<noteq> (n, k, v)"
    and frame: "\<And>y. P orig y \<Longrightarrow> y \<noteq> (D orig, k, v) \<Longrightarrow> C orig t y = C orig (sh_state h) y"
  shows "http_content N D C (moved orig h t s) x = http_content N D C s x"
proof -
  obtain n' k' v' where eq: "x = (n', k', v')" by (cases x)
  from inv have cl: "http_cluster N D s" by (simp add: http_inv_def)
  show ?thesis
  proof (cases "N n' = Some orig")
    case True
    with cl o(1) have "n' = n" by (auto elim: http_clusterE)
    moreover from x(1) True have "P orig (D orig, k', v')" by (simp add: eq http_ok_def)
    moreover have "http_content N D C s (n, k', v') = C orig (sh_state h) (D orig, k', v')"
      using o by (simp add: http_content_def)
    ultimately show ?thesis using frame x(2) by (simp add: eq moved_content(1) [OF cl o])
  next
    case False
    then show ?thesis unfolding eq by (rule moved_content(2) [OF cl o])
  qed
qed

interpretation http: object_store HttpObjects "http_content N D C" "http_inv N D C I P" "http_ok N D P"
  for N D and C :: "string \<Rightarrow> 's \<Rightarrow> object_id \<Rightarrow> byte list option" and I P
proof (unfold_locales, goal_cases)
  case (1 s n k v rd)
  obtain w taken s' where run: "Http_WriteObject n k v rd s = (w, taken, s')" by (metis prod_cases3)
  from 1 run show ?case
  proof (cases rule: http_write_step)
    case (Ran orig h body r t)
    note h = http_ok_at [OF 1 Ran(1,2)]
    from object_store.write_inv [OF h(2-4), of body] Ran(3) h(1) have "I orig t" by simp
    with Ran 1 run show ?thesis by (simp add: moved_inv)
  qed (use run 1 in auto)
next
  case (2 s n k v rd len taken s')
  then have run: "Http_WriteObject n k v rd s = (Inr len, taken, s')" by simp
  from 2(1,2) run show ?case
  proof (cases rule: http_write_step)
    case (Ran orig h body r t)
    then obtain i where w: "os_WriteObject (sh_objects h) (sh_nodeID h) k v rd (sh_state h) = (Inr i, taken, t)"
      and len: "len = int (length taken)" by auto
    note h = http_ok_at [OF 2(1,2) Ran(1,2)]
    from 2(1) have "http_cluster N D s" by (simp add: http_inv_def)
    from object_store.write_done [OF h(2-4) w [unfolded h(1)]] len Ran(4) moved_content(1) [OF this Ran(1,2)]
    show ?thesis by simp
  qed simp
next
  case (3 s n k v x rd)
  obtain w taken s' where run: "Http_WriteObject n k v rd s = (w, taken, s')" by (metis prod_cases3)
  from 3(1,2) run show ?case
  proof (cases rule: http_write_step)
    case (Ran orig h body r t)
    note h = http_ok_at [OF 3(1,2) Ran(1,2)]
    have "C orig t y = C orig (sh_state h) y" if "P orig y" "y \<noteq> (D orig, k, v)" for y
      using object_store.write_frame [OF h(2-4) that, of body] Ran(3) h(1) by simp
    with moved_frame [OF 3(1) Ran(1,2) 3(3,4)] Ran(4) run show ?thesis by simp
  qed (use run in auto)
next
  case (4 s n k v len rd d)
  with http_read_step [of N D C I P s n k v len rd] show ?case by auto
next
  case (5 s n k v len rd)
  with http_read_step [of N D C I P s n k v len rd] show ?case by auto
next
  case (6 s n k v)
  obtain w s' where run: "Http_DeleteObject n k v s = (w, s')" by fastforce
  from 6 run show ?case
  proof (cases rule: http_delete_step)
    case (Ran orig h r t)
    note h = http_ok_at [OF 6 Ran(1,2)]
    from object_store.delete_inv [OF h(2-4)] Ran(3) h(1) have "I orig t" by simp
    with Ran 6 run show ?thesis by (simp add: moved_inv)
  qed (use run 6 in auto)
next
  case (7 s n k v)
  obtain w s' where run: "Http_DeleteObject n k v s = (w, s')" by fastforce
  from 7 run show ?case
  proof (cases rule: http_delete_step)
    case (Ran orig h r t)
    note h = http_ok_at [OF 7 Ran(1,2)]
    from 7(1) have "http_cluster N D s" by (simp add: http_inv_def)
    from object_store.delete_self [OF h(2-4)] Ran(3,4) h(1,5) run moved_content(1) [OF this Ran(1,2)]
    show ?thesis by simp
  qed (use run in auto)
next
  case (8 s n k v x)
  obtain w s' where run: "Http_DeleteObject n k v s = (w, s')" by fastforce
  from 8(1,2) run show ?case
  proof (cases rule: http_delete_step)
    case (Ran orig h r t)
    note h = http_ok_at [OF 8(1,2) Ran(1,2)]
    have "C orig t y = C orig (sh_state h) y" if "P orig y" "y \<noteq> (D orig, k, v)" for y
      using object_store.delete_frame [OF h(2-4) that] Ran(3) h(1) by simp
    with moved_frame [OF 8(1) Ran(1,2) 8(3,4)] Ran(4) run show ?thesis by simp
  qed (use run in auto)
qed

section \<open>Reliable nodes behind a network without faults\<close>

definition http_reliable_inv ::
  "(string \<Rightarrow> string option) \<Rightarrow> (string \<Rightarrow> string) \<Rightarrow> (string \<Rightarrow> 's \<Rightarrow> object_id \<Rightarrow> byte list option)
    \<Rightarrow> (string \<Rightarrow> 's \<Rightarrow> bool) \<Rightarrow> (string \<Rightarrow> object_id \<Rightarrow> bool) \<Rightarrow> 's HTTPObjectStore \<Rightarrow> bool" where
  "http_reliable_inv N D C I P s \<longleftrightarrow> http_cluster N D s \<and> net_fault (ho_net s) = (\<lambda>meth u. None) \<and>
     (\<forall>orig h. map_of (net_servers (ho_net s)) orig = Some h \<longrightarrow>
        reliable_object_store (sh_objects h) (C orig) (I orig) (P orig) \<and> I orig (sh_state h))"

lemma http_reliable_inv_inv: "http_reliable_inv N D C I P s \<Longrightarrow> http_inv N D C I P s"
  by (simp add: http_reliable_inv_def http_inv_def reliable_object_store_def)

lemma http_reliable_at:
  assumes "http_reliable_inv N D C I P s" and "http_ok N D P (n, k, v)"
  obtains orig addr h where "N n = Some orig" and "http_key k" and "v \<noteq> 0" and "P orig (D orig, k, v)"
    and "gm_get (ho_nodes s) n = Some addr" and "TrimRightSlash addr = orig" and "is_origin orig"
    and "map_of (net_servers (ho_net s)) orig = Some h" and "sh_nodeID h = D orig"
    and "reliable_object_store (sh_objects h) (C orig) (I orig) (P orig)" and "I orig (sh_state h)"
    and "http_content N D C s (n, k, v) = C orig (sh_state h) (D orig, k, v)"
    and "\<And>meth u. net_fault (ho_net s) meth u = None"
proof -
  from http_ok_node [OF http_reliable_inv_inv [OF assms(1)] assms(2)] obtain orig addr h where
    o: "N n = Some orig" "http_key k" "v \<noteq> 0" "P orig (D orig, k, v)" "gm_get (ho_nodes s) n = Some addr"
      "TrimRightSlash addr = orig" "is_origin orig" "map_of (net_servers (ho_net s)) orig = Some h"
      "sh_nodeID h = D orig" "I orig (sh_state h)"
      "http_content N D C s (n, k, v) = C orig (sh_state h) (D orig, k, v)"
    by metis
  with assms(1) have "reliable_object_store (sh_objects h) (C orig) (I orig) (P orig)"
    and "net_fault (ho_net s) meth u = None" for meth u by (auto simp: http_reliable_inv_def)
  with o that show ?thesis by blast
qed

lemma moved_reliable:
  assumes "http_reliable_inv N D C I P s" and "map_of (net_servers (ho_net s)) orig = Some h" and "I orig t"
  shows "http_reliable_inv N D C I P (moved orig h t s)"
  using assms moved_cluster [of N D s orig h t]
  by (auto simp: http_reliable_inv_def moved_servers) (auto simp: moved_def)

lemma http_write_succeeds:
  assumes "http_reliable_inv N D C I P s" and "http_ok N D P (n, k, v)" and "drain (rd_reads rd) = (d, None)"
  shows "\<exists>s'. Http_WriteObject n k v rd s = (Inr (int (length d)), d, s') \<and> http_reliable_inv N D C I P s'"
proof -
  from http_reliable_at [OF assms(1,2)] obtain orig addr h where o: "http_key k" "v \<noteq> 0" "P orig (D orig, k, v)"
    and node: "gm_get (ho_nodes s) n = Some addr" "TrimRightSlash addr = orig" "is_origin orig"
      "map_of (net_servers (ho_net s)) orig = Some h"
    and h: "sh_nodeID h = D orig" "reliable_object_store (sh_objects h) (C orig) (I orig) (P orig)" "I orig (sh_state h)"
    and nf: "\<And>meth u. net_fault (ho_net s) meth u = None" by metis
  from reliable_object_store.write_succeeds [OF h(2,3) o(3) assms(3)] obtain t where
    w: "os_WriteObject (sh_objects h) (sh_nodeID h) k v rd (sh_state h) = (Inr (int (length d)), d, t)"
    unfolding h(1) by blast
  have "object_store (sh_objects h) (C orig) (I orig) (P orig)" using h(2) by (simp add: reliable_object_store_def)
  from object_store.write_inv [OF this h(3) o(3), of rd] w h(1) have "I orig t" by simp
  with assms(1) node(4) have inv: "http_reliable_inv N D C I P (moved orig h t s)" by (rule moved_reliable)
  obtain r taken net' where call: "http_Do MethodPut (objectURL s n k v) rd (ho_net s) = (r, taken, net')"
    by (metis prod_cases3)
  have sent: "sent_body None rd = rd" by (simp add: sent_body_def)
  from http_Do_object(1) [OF node call] http_Do_object(2) [OF node call] assms(3)
  have "Http_WriteObject n k v rd s = (Inr (int (length d)), d, moved orig h t s)"
    unfolding nf sent serve_put [OF o(1,2) w] by (auto simp: Http_WriteObject_def call moved_def)
  with inv show ?thesis by blast
qed

lemma http_read_reliable:
  assumes "http_reliable_inv N D C I P s" and "http_ok N D P (n, k, v)"
  shows "case http_content N D C s (n, k, v) of
      Some d \<Rightarrow> Http_ReadObject n k v s = Inr (int (length d), \<lparr>rd_reads = [(d, ReadEOF)], rd_close = None\<rparr>)
    | None \<Rightarrow> Http_ReadObject n k v s = Inl (ErrOther (''storage read failed: '' @ status_line 404))"
    and "Http_HasObject n k v s \<longleftrightarrow> http_content N D C s (n, k, v) \<noteq> None"
proof -
  from http_reliable_at [OF assms] obtain orig addr h where o: "http_key k" "v \<noteq> 0" "P orig (D orig, k, v)"
    and node: "gm_get (ho_nodes s) n = Some addr" "TrimRightSlash addr = orig" "is_origin orig"
      "map_of (net_servers (ho_net s)) orig = Some h"
    and h: "sh_nodeID h = D orig" "reliable_object_store (sh_objects h) (C orig) (I orig) (P orig)" "I orig (sh_state h)"
    and nf: "\<And>meth u. net_fault (ho_net s) meth u = None"
    and c: "http_content N D C s (n, k, v) = C orig (sh_state h) (D orig, k, v)" by metis
  obtain r taken net' where call: "http_Do MethodGet (objectURL s n k v) no_body (ho_net s) = (r, taken, net')"
    by (metis prod_cases3)
  obtain r2 taken2 net2 where call2: "http_Do MethodHead (objectURL s n k v) no_body (ho_net s) = (r2, taken2, net2)"
    by (metis prod_cases3)
  have sent: "sent_body None no_body = no_body" "snd (drain (rd_reads no_body)) = None"
    by (simp_all add: sent_body_def no_body_def)
  note get = http_Do_object(2) [OF node call, unfolded nf sent serve_get [OF o(1,2)] h(1)]
  show "case http_content N D C s (n, k, v) of
      Some d \<Rightarrow> Http_ReadObject n k v s = Inr (int (length d), \<lparr>rd_reads = [(d, ReadEOF)], rd_close = None\<rparr>)
    | None \<Rightarrow> Http_ReadObject n k v s = Inl (ErrOther (''storage read failed: '' @ status_line 404))"
  proof (cases "C orig (sh_state h) (D orig, k, v)")
    case None
    from reliable_object_store.read_absent [OF h(2,3) o(3) None] obtain e where
      "os_ReadObject (sh_objects h) (D orig) k v (sh_state h) = Inl e" by blast
    with get show ?thesis by (simp add: c None Http_ReadObject_def call)
  next
    case (Some d)
    from reliable_object_store.read_succeeds [OF h(2,3) o(3) Some] obtain rd where
      "os_ReadObject (sh_objects h) (D orig) k v (sh_state h) = Inr (int (length d), rd)"
      "drain (rd_reads rd) = (d, None)" by blast
    with get show ?thesis
      by (simp add: c Some Http_ReadObject_def call received_body_def wire_body_def)
  qed
  from reliable_object_store.has_iff [OF h(2,3) o(3)] http_Do_object(2) [OF node call2, unfolded nf sent serve_head [OF o(1,2)] h(1)]
  show "Http_HasObject n k v s \<longleftrightarrow> http_content N D C s (n, k, v) \<noteq> None"
    by (simp add: c Http_HasObject_def call2)
qed

lemma http_delete_reliable:
  assumes "http_reliable_inv N D C I P s" and "http_ok N D P (n, k, v)"
  shows "\<exists>s'. Http_DeleteObject n k v s = (Inr (), s') \<and> http_reliable_inv N D C I P s' \<and>
     http_content N D C s' (n, k, v) = None"
proof -
  from http_reliable_at [OF assms] obtain orig addr h where o: "http_key k" "v \<noteq> 0" "P orig (D orig, k, v)"
    and node: "gm_get (ho_nodes s) n = Some addr" "TrimRightSlash addr = orig" "is_origin orig"
      "map_of (net_servers (ho_net s)) orig = Some h"
    and h: "sh_nodeID h = D orig" "reliable_object_store (sh_objects h) (C orig) (I orig) (P orig)" "I orig (sh_state h)"
    and nf: "\<And>meth u. net_fault (ho_net s) meth u = None" and n: "N n = Some orig" by metis
  obtain r t where dl: "os_DeleteObject (sh_objects h) (sh_nodeID h) k v (sh_state h) = (r, t)" by fastforce
  have os: "object_store (sh_objects h) (C orig) (I orig) (P orig)" using h(2) by (simp add: reliable_object_store_def)
  from object_store.delete_inv [OF os h(3) o(3)] dl h(1) have "I orig t" by simp
  with assms(1) node(4) have inv: "http_reliable_inv N D C I P (moved orig h t s)" by (rule moved_reliable)
  from reliable_object_store.delete_succeeds [OF h(2,3) o(3)] dl h(1) have r: "r = Inr ()" by simp
  from reliable_object_store.delete_removes [OF h(2,3) o(3)] dl h(1) have gone: "C orig t (D orig, k, v) = None" by simp
  obtain res taken net' where call: "http_Do MethodDelete (objectURL s n k v) no_body (ho_net s) = (res, taken, net')"
    by (metis prod_cases3)
  have sent: "sent_body None no_body = no_body" "snd (drain (rd_reads no_body)) = None"
    by (simp_all add: sent_body_def no_body_def)
  from http_Do_object(1) [OF node call] http_Do_object(2) [OF node call]
  have "Http_DeleteObject n k v s = (Inr (), moved orig h t s)"
    unfolding nf sent serve_delete [OF o(1,2) dl] r by (auto simp: Http_DeleteObject_def call moved_def)
  moreover have cl: "http_cluster N D s" using assms(1) by (simp add: http_reliable_inv_def)
  have "http_content N D C (moved orig h t s) (n, k, v) = None"
    using gone moved_content(1) [OF cl n node(4)] by simp
  ultimately show ?thesis using inv by blast
qed

interpretation http_reliable: reliable_object_store HttpObjects "http_content N D C" "http_reliable_inv N D C I P"
  "http_ok N D P" for N D and C :: "string \<Rightarrow> 's \<Rightarrow> object_id \<Rightarrow> byte list option" and I P
proof (unfold_locales, goal_cases)
  case (1 s n k v rd)
  note inv = http_reliable_inv_inv [OF 1(1)]
  obtain w taken s' where run: "Http_WriteObject n k v rd s = (w, taken, s')" by (metis prod_cases3)
  from inv 1(2) run show ?case
  proof (cases rule: http_write_step)
    case (Ran orig h body r t)
    note h = http_ok_at [OF inv 1(2) Ran(1,2)]
    from object_store.write_inv [OF h(2-4), of body] Ran(3) h(1) have "I orig t" by simp
    with 1(1) Ran(2) have "http_reliable_inv N D C I P (moved orig h t s)" by (rule moved_reliable)
    with Ran(4) run show ?thesis by simp
  qed (use run 1 in auto)
next
  case (2 s n k v rd len taken s')
  then show ?case using http.write_done [OF http_reliable_inv_inv [OF 2(1)]] by blast
next
  case (3 s n k v x rd)
  then show ?case using http.write_frame [OF http_reliable_inv_inv [OF 3(1)]] by blast
next
  case (4 s n k v len rd d)
  then show ?case using http.read_done [OF http_reliable_inv_inv [OF 4(1)]] by blast
next
  case (5 s n k v len rd)
  then show ?case using http.read_size [OF http_reliable_inv_inv [OF 5(1)]] by blast
next
  case (6 s n k v)
  from http_delete_reliable [OF 6] show ?case by auto
next
  case (7 s n k v)
  from http_delete_reliable [OF 7] show ?case by auto
next
  case (8 s n k v x)
  then show ?case using http.delete_frame [OF http_reliable_inv_inv [OF 8(1)]] by blast
next
  case (9 s n k v rd d)
  from http_write_succeeds [OF 9] show ?case by auto
next
  case (10 s n k v d)
  with http_read_reliable(1) [OF 10(1,2)] show ?case by auto
next
  case (11 s n k v)
  with http_read_reliable(1) [OF 11(1,2)] show ?case by auto
next
  case (12 s n k v)
  from http_delete_reliable [OF 12] show ?case by auto
next
  case (13 s n k v)
  from http_delete_reliable [OF 13] show ?case by auto
next
  case (14 s n k v)
  from http_read_reliable(2) [OF 14] show ?case by simp
qed

section \<open>Storage nodes on disk behind HTTP\<close>

text \<open>
  A cluster of storage nodes as \<open>runStorage\<close> starts them: the handler at each origin serves a
  local store on a file system of its own. \<open>st\<close> gives the store of each origin, \<open>Dg\<close> is the
  hash of its paths and \<open>K\<close> the set of object names on which it has no collision.
\<close>

definition storage_cluster ::
  "(string \<Rightarrow> string option) \<Rightarrow> (string \<Rightarrow> string) \<Rightarrow> (string \<Rightarrow> Store) \<Rightarrow> (string \<Rightarrow> string) \<Rightarrow> string set
    \<Rightarrow> file_system HTTPObjectStore \<Rightarrow> bool" where
  "storage_cluster N D st Dg K s \<longleftrightarrow> http_cluster N D s \<and>
     (\<forall>orig h. map_of (net_servers (ho_net s)) orig = Some h \<longrightarrow>
        sh_objects h = LocalObjectStore (st orig) \<and> local_inv (st orig) Dg K (sh_state h))"

definition cluster_fault_free :: "file_system HTTPObjectStore \<Rightarrow> bool" where
  "cluster_fault_free s \<longleftrightarrow> net_fault (ho_net s) = (\<lambda>meth u. None) \<and>
     (\<forall>orig h. map_of (net_servers (ho_net s)) orig = Some h \<longrightarrow> fault_free (sh_state h))"

abbreviation cluster_content ::
  "(string \<Rightarrow> string option) \<Rightarrow> (string \<Rightarrow> string) \<Rightarrow> (string \<Rightarrow> Store) \<Rightarrow> (string \<Rightarrow> string)
    \<Rightarrow> file_system HTTPObjectStore \<Rightarrow> object_id \<Rightarrow> byte list option" where
  "cluster_content N D st Dg \<equiv> http_content N D (\<lambda>orig. local_content (st orig) Dg)"

abbreviation cluster_ok ::
  "(string \<Rightarrow> string option) \<Rightarrow> (string \<Rightarrow> string) \<Rightarrow> (string \<Rightarrow> Store) \<Rightarrow> (string \<Rightarrow> string) \<Rightarrow> string set
    \<Rightarrow> object_id \<Rightarrow> bool" where
  "cluster_ok N D st Dg K \<equiv> http_ok N D (\<lambda>orig. local_ok (st orig) Dg K)"

abbreviation cluster_inv where
  "cluster_inv N D st Dg K \<equiv> http_inv N D (\<lambda>orig. local_content (st orig) Dg)
     (\<lambda>orig. local_inv (st orig) Dg K) (\<lambda>orig. local_ok (st orig) Dg K)"

abbreviation cluster_reliable where
  "cluster_reliable N D st Dg K \<equiv> http_reliable_inv N D (\<lambda>orig. local_content (st orig) Dg)
     (\<lambda>orig fs. local_inv (st orig) Dg K fs \<and> fault_free fs) (\<lambda>orig. local_ok (st orig) Dg K)"

lemma storage_cluster_inv: "storage_cluster N D st Dg K s \<Longrightarrow> cluster_inv N D st Dg K s"
  by (auto simp: storage_cluster_def http_inv_def local.object_store_axioms)

lemma storage_cluster_reliable:
  "storage_cluster N D st Dg K s \<Longrightarrow> cluster_fault_free s \<Longrightarrow> cluster_reliable N D st Dg K s"
  by (auto simp: storage_cluster_def cluster_fault_free_def http_reliable_inv_def
      local_reliable.reliable_object_store_axioms)

text \<open>
  C39. Faults below the client never corrupt what it reports. Over any storage cluster, whatever
  the disks do and whether requests are refused, cut off or their answers lost: a write that is
  reported as done has stored exactly the bytes of the stream under the name it was given; a
  read announces the size of the object and delivers a beginning of its bytes, and all of them
  if the stream ends without an error; and no call, successful or not, touches another object.
\<close>

theorem http_faults_contained:
  assumes "storage_cluster N D st Dg K s" and "cluster_ok N D st Dg K (n, k, v)"
    and "Http_WriteObject n k v rd s = (w, taken, s1)" and "Http_DeleteObject n k v s = (r, s2)"
  shows "(\<forall>len. w = Inr len \<longrightarrow> (\<exists>d. drain (rd_reads rd) = (d, None) \<and> len = int (length d) \<and>
             cluster_content N D st Dg s1 (n, k, v) = Some d)) \<and>
     (\<forall>len src. Http_ReadObject n k v s = Inr (len, src) \<longrightarrow>
        (\<exists>d rest. cluster_content N D st Dg s (n, k, v) = Some d \<and> len = int (length d) \<and>
           d = fst (drain (rd_reads src)) @ rest \<and> (snd (drain (rd_reads src)) = None \<longrightarrow> rest = []))) \<and>
     cluster_content N D st Dg s2 (n, k, v) \<in> {None, cluster_content N D st Dg s (n, k, v)} \<and>
     (\<forall>x. cluster_ok N D st Dg K x \<and> x \<noteq> (n, k, v) \<longrightarrow>
        cluster_content N D st Dg s1 x = cluster_content N D st Dg s x \<and>
        cluster_content N D st Dg s2 x = cluster_content N D st Dg s x)"
proof -
  note inv = storage_cluster_inv [OF assms(1)]
  have "drain (rd_reads rd) = (taken, None) \<and> len = int (length taken) \<and>
      cluster_content N D st Dg s1 (n, k, v) = Some taken" if "w = Inr len" for len
    using http.write_done [OF inv assms(2)] assms(3) that by simp
  moreover have "cluster_content N D st Dg s2 (n, k, v) \<in> {None, cluster_content N D st Dg s (n, k, v)}"
    using http.delete_self [OF inv assms(2)] assms(4) by simp
  moreover have "cluster_content N D st Dg s1 x = cluster_content N D st Dg s x \<and>
      cluster_content N D st Dg s2 x = cluster_content N D st Dg s x"
    if "cluster_ok N D st Dg K x" "x \<noteq> (n, k, v)" for x
    using http.write_frame [OF inv assms(2) that, of rd] http.delete_frame [OF inv assms(2) that] assms(3,4) by simp
  ultimately show ?thesis using http_read_step [OF inv assms(2)] by blast
qed

text \<open>Two storage nodes with empty disks, for the witnesses.\<close>

definition demo_handler :: "string \<Rightarrow> file_system StorageHTTPHandler" where
  "demo_handler nid = NewStorageHTTPHandler nid (LocalObjectStore demo_store) demo_disk"

definition demo_http :: "file_system HTTPObjectStore" where
  "demo_http = NewHTTPObjectStore [(''n1'', ''http://a/''), (''n2'', ''http://b'')]
     \<lparr>net_servers = [(''http://a'', demo_handler ''n1''), (''http://b'', demo_handler ''n2'')],
      net_fault = (\<lambda>meth u. None)\<rparr>"

definition demo_origins :: "string \<Rightarrow> string option" where
  "demo_origins = map_of [(''n1'', ''http://a''), (''n2'', ''http://b'')]"

definition demo_ids :: "string \<Rightarrow> string" where
  "demo_ids orig = (if orig = ''http://a'' then ''n1'' else ''n2'')"

lemma is_origin_demo: "is_origin ''http://a''" "is_origin ''http://b''"
  unfolding is_origin_def
  by (rule exI [of _ "''http''"], rule exI [of _ "''a''"], simp)
    (rule exI [of _ "''http''"], rule exI [of _ "''b''"], simp)

lemma demo_cluster:
  "storage_cluster demo_origins demo_ids (\<lambda>_. demo_store) demo_digest K demo_http"
  "cluster_fault_free demo_http"
proof -
  have "http_cluster demo_origins demo_ids demo_http"
    by (auto simp: http_cluster_def demo_origins_def demo_http_def NewHTTPObjectStore_def is_origin_demo
        TrimRightSlash_def demo_ids_def demo_handler_def NewStorageHTTPHandler_def split: if_splits)
  then show "storage_cluster demo_origins demo_ids (\<lambda>_. demo_store) demo_digest K demo_http"
    and "cluster_fault_free demo_http"
    using demo_disk_inv
    by (auto simp: storage_cluster_def cluster_fault_free_def demo_http_def NewHTTPObjectStore_def demo_handler_def
        NewStorageHTTPHandler_def split: if_splits)
qed

lemma demo_cluster_local_ok:
  assumes "local_ok demo_store demo_digest K (n, k, v)" and "http_key k" and "v \<noteq> 0" and "n \<in> {''n1'', ''n2''}"
  shows "cluster_ok demo_origins demo_ids (\<lambda>_. demo_store) demo_digest K (n, k, v)"
  using assms by (auto simp: http_ok_def demo_origins_def demo_ids_def)

lemma demo_cluster_ok:
  assumes "http_key k" and "v \<noteq> 0" and "n \<in> {''n1'', ''n2''}"
  shows "cluster_ok demo_origins demo_ids (\<lambda>_. demo_store) demo_digest {versionedObjectKey k v} (n, k, v)"
  using assms by (intro demo_cluster_local_ok demo_ok) (auto simp: plain_def)

lemma demo_http_key: "http_key ''k''"
  by (simp add: http_key_def HasPrefix_def)

theorem http_faults_contained_witness:
  "\<exists>taken s1. Http_WriteObject ''n1'' ''k'' 1 (bytes_reader [1, 2, 3]) demo_http = (Inr 3, taken, s1) \<and>
     cluster_content demo_origins demo_ids (\<lambda>_. demo_store) demo_digest s1 (''n1'', ''k'', 1) = Some [1, 2, 3]"
proof -
  obtain w taken s1 where wr: "Http_WriteObject ''n1'' ''k'' 1 (bytes_reader [1, 2, 3]) demo_http = (w, taken, s1)"
    by (metis prod_cases3)
  obtain r s2 where dl: "Http_DeleteObject ''n1'' ''k'' 1 demo_http = (r, s2)" by fastforce
  have ok: "cluster_ok demo_origins demo_ids (\<lambda>_. demo_store) demo_digest {versionedObjectKey ''k'' 1} (''n1'', ''k'', 1)"
    by (rule demo_cluster_ok [OF demo_http_key]) simp_all
  have w: "w = Inr 3"
    using http_write_succeeds [OF storage_cluster_reliable [OF demo_cluster] ok bytes_reader_sel(1), of "[1, 2, 3]"] wr by auto
  have "cluster_content demo_origins demo_ids (\<lambda>_. demo_store) demo_digest s1 (''n1'', ''k'', 1) = Some [1, 2, 3]"
    using conjunct1 [OF http_faults_contained [OF demo_cluster(1) ok wr dl]] w by simp
  with wr w show ?thesis by blast
qed

text \<open>
  Over HTTP, what is written to a node is what is read from it. On a storage cluster whose
  disks and network have no faults: writing a stream answers with its length; the object is then
  there, a read announces its size and yields exactly its bytes; deleting it succeeds, after
  which it is not there; every object of another node, key or version is untouched throughout.
\<close>

theorem http_write_read_delete:
  assumes "storage_cluster N D st Dg K s" and "cluster_fault_free s" and "cluster_ok N D st Dg K (n, k, v)"
    and "drain (rd_reads rd) = (d, None)"
    and "Http_WriteObject n k v rd s = (w, taken, s1)" and "Http_DeleteObject n k v s1 = (r, s2)"
  shows "w = Inr (int (length d)) \<and> Http_HasObject n k v s1 \<and>
     (\<exists>src. Http_ReadObject n k v s1 = Inr (int (length d), src) \<and> drain (rd_reads src) = (d, None)) \<and>
     r = Inr () \<and> \<not> Http_HasObject n k v s2 \<and> (\<exists>e. Http_ReadObject n k v s2 = Inl e) \<and>
     (\<forall>x. cluster_ok N D st Dg K x \<and> x \<noteq> (n, k, v) \<longrightarrow>
        cluster_content N D st Dg s1 x = cluster_content N D st Dg s x \<and>
        cluster_content N D st Dg s2 x = cluster_content N D st Dg s x)"
proof -
  note inv = storage_cluster_reliable [OF assms(1,2)]
  from http_write_succeeds [OF inv assms(3,4)] assms(5)
  have w: "w = Inr (int (length d))" "taken = d" and inv1: "cluster_reliable N D st Dg K s1" by auto
  have c1: "cluster_content N D st Dg s1 (n, k, v) = Some d"
    using http_reliable.write_done [OF inv assms(3), unfolded http_objects_sel, OF assms(5) [unfolded w]] by blast
  from http_delete_reliable [OF inv1 assms(3)] assms(6)
  have r: "r = Inr ()" and inv2: "cluster_reliable N D st Dg K s2"
    and c2: "cluster_content N D st Dg s2 (n, k, v) = None" by auto
  have "cluster_content N D st Dg s1 x = cluster_content N D st Dg s x \<and>
      cluster_content N D st Dg s2 x = cluster_content N D st Dg s x"
    if "cluster_ok N D st Dg K x" "x \<noteq> (n, k, v)" for x
    using http_reliable.write_frame [OF inv assms(3) that, of rd] http_reliable.delete_frame [OF inv1 assms(3) that]
      assms(5,6) by simp
  with w r c1 c2 http_read_reliable [OF inv1 assms(3)] http_read_reliable [OF inv2 assms(3)] show ?thesis by auto
qed

theorem http_write_read_delete_witness:
  "\<exists>taken s1 src. Http_WriteObject ''n2'' ''k'' 7 (bytes_reader [1, 2, 3]) demo_http = (Inr 3, taken, s1) \<and>
     Http_ReadObject ''n2'' ''k'' 7 s1 = Inr (3, src) \<and> drain (rd_reads src) = ([1, 2, 3], None)"
proof -
  obtain w taken s1 where wr: "Http_WriteObject ''n2'' ''k'' 7 (bytes_reader [1, 2, 3]) demo_http = (w, taken, s1)"
    by (metis prod_cases3)
  obtain r s2 where dl: "Http_DeleteObject ''n2'' ''k'' 7 s1 = (r, s2)" by fastforce
  have ok: "cluster_ok demo_origins demo_ids (\<lambda>_. demo_store) demo_digest {versionedObjectKey ''k'' 7} (''n2'', ''k'', 7)"
    by (rule demo_cluster_ok [OF demo_http_key]) simp_all
  from http_write_read_delete [OF demo_cluster ok bytes_reader_sel(1) wr dl] wr show ?thesis by auto
qed

text \<open>
  Which requests reach the object they name. The URL the client builds for a key and a
  version at a node with a well-formed address is read by the handler as exactly that key and
  version if and only if the key is not empty, has no \<open>..\<close> and no percent sign, and the version
  is not 0; for every other key the handler refuses the request or addresses another object,
  because it unescapes a path that the server has unescaped already.
\<close>

theorem object_request_exact:
  assumes "gm_get (ho_nodes s) n = Some addr" and "is_origin (TrimRightSlash addr)"
  shows "\<exists>path query. parse_url (objectURL s n k v) = Inr (TrimRightSlash addr, path, query) \<and>
     (objectRequest \<lparr>rq_Method = meth, rq_Path = path, rq_Query = query, rq_Body = body\<rparr> = Inr (k, v) \<longleftrightarrow>
      http_key k \<and> v \<noteq> 0)"
proof -
  let ?r = "object_req meth k v body"
  have "http_key k \<and> v \<noteq> 0" if "objectRequest ?r = Inr (k, v)"
  proof -
    from that have "PathUnescape k = Inr k" and "k \<noteq> ''''" and "\<not> Contains k ''..''" and "v \<noteq> 0"
      using TrimPrefix_append [of "''/objects/''" k]
      by (auto simp: objectRequest_def object_req_def bind_result_eq_Inr Let_def split: if_splits sum.splits)
    then show ?thesis by (simp add: http_key_def PathUnescape_id_iff)
  qed
  moreover have "objectRequest ?r = Inr (k, v)" if "http_key k" and "v \<noteq> 0"
    using that by (rule objectRequest_ok)
  ultimately show ?thesis
    using parse_objectURL [OF assms(1) refl assms(2), of k v] by (auto simp: object_req_def)
qed

theorem object_request_exact_witness:
  "\<exists>path query. parse_url (objectURL demo_http ''n1'' ''100%'' 1) = Inr (''http://a'', path, query) \<and>
     objectRequest \<lparr>rq_Method = MethodGet, rq_Path = path, rq_Query = query, rq_Body = no_body\<rparr> \<noteq> Inr (''100%'', 1)"
proof -
  have addr: "gm_get (ho_nodes demo_http) ''n1'' = Some ''http://a/''"
    by (simp add: demo_http_def NewHTTPObjectStore_def)
  have orig: "TrimRightSlash ''http://a/'' = ''http://a''" by (simp add: TrimRightSlash_def)
  from object_request_exact [OF addr, unfolded orig, OF is_origin_demo(1), of "''100%''" 1 MethodGet no_body]
  show ?thesis by (auto simp: http_key_def)
qed

text \<open>
  C40. A failed deletion is reported as done. If the disk of a node refuses to delete an object,
  the handler answers 404, which the client takes for success: the call succeeds and the object
  is as the failed deletion has left it.
\<close>

theorem http_delete_hides_failure:
  assumes "storage_cluster N D st Dg K s" and "cluster_ok N D st Dg K (n, k, v)"
    and "net_fault (ho_net s) = (\<lambda>meth u. None)" and "N n = Some orig"
    and "map_of (net_servers (ho_net s)) orig = Some h"
    and "os_DeleteObject (LocalObjectStore (st orig)) (D orig) k v (sh_state h) = (Inl e, t)"
  shows "\<exists>s'. Http_DeleteObject n k v s = (Inr (), s') \<and>
     cluster_content N D st Dg s' (n, k, v) = local_content (st orig) Dg t (D orig, k, v)"
proof -
  note inv = storage_cluster_inv [OF assms(1)]
  from http_ok_node [OF inv assms(2)] assms(4,5) obtain addr where o: "http_key k" "v \<noteq> 0"
    and node: "gm_get (ho_nodes s) n = Some addr" "TrimRightSlash addr = orig" "is_origin orig"
    and h: "sh_nodeID h = D orig" by (metis option.inject)
  have objs: "sh_objects h = LocalObjectStore (st orig)" using assms(1,5) by (simp add: storage_cluster_def)
  have dl: "os_DeleteObject (sh_objects h) (sh_nodeID h) k v (sh_state h) = (Inl e, t)"
    using assms(6) by (simp add: objs h)
  obtain res taken net' where call: "http_Do MethodDelete (objectURL s n k v) no_body (ho_net s) = (res, taken, net')"
    by (metis prod_cases3)
  have sent: "sent_body None no_body = no_body" "snd (drain (rd_reads no_body)) = None"
    by (simp_all add: sent_body_def no_body_def)
  from http_Do_object(1) [OF node assms(5) call] http_Do_object(2) [OF node assms(5) call]
  have "Http_DeleteObject n k v s = (Inr (), moved orig h t s)"
    unfolding assms(3) sent serve_delete [OF o dl] by (auto simp: Http_DeleteObject_def call moved_def)
  moreover have cl: "http_cluster N D s" using assms(1) by (simp add: storage_cluster_def)
  note moved_content(1) [OF cl assms(4,5), of "\<lambda>orig. local_content (st orig) Dg" t k v]
  ultimately show ?thesis by blast
qed

definition demo_bad_disk :: file_system where
  "demo_bad_disk = demo_disk\<lparr>fs_fault := (\<lambda>op p. if op = OpRemove then Some ''input/output error'' else None)\<rparr>"

definition demo_bad_http :: "file_system HTTPObjectStore" where
  "demo_bad_http = demo_http\<lparr>ho_net := (ho_net demo_http)\<lparr>net_servers :=
     [(''http://a'', (demo_handler ''n1'')\<lparr>sh_state := demo_bad_disk\<rparr>), (''http://b'', demo_handler ''n2'')]\<rparr>\<rparr>"

theorem http_delete_hides_failure_witness:
  "fst (os_DeleteObject (LocalObjectStore demo_store) ''n1'' ''k'' 1 demo_bad_disk) = Inl (ErrOther ''input/output error'') \<and>
   fst (Http_DeleteObject ''n1'' ''k'' 1 demo_bad_http) = Inr ()"
proof -
  have fault: "fs_fault demo_bad_disk OpRemove p = Some ''input/output error''" for p
    by (simp add: demo_bad_disk_def)
  have dl: "os_DeleteObject (LocalObjectStore demo_store) (demo_ids ''http://a'') ''k'' 1
      (sh_state ((demo_handler ''n1'')\<lparr>sh_state := demo_bad_disk\<rparr>)) = (Inl (ErrOther ''input/output error''), demo_bad_disk)"
    by (simp add: Delete_def os_Remove_def fault Let_def)
  have "http_cluster demo_origins demo_ids demo_bad_http"
    by (auto simp: http_cluster_def demo_origins_def demo_http_def demo_bad_http_def NewHTTPObjectStore_def is_origin_demo
        TrimRightSlash_def demo_ids_def demo_handler_def NewStorageHTTPHandler_def split: if_splits)
  moreover have "local_inv demo_store demo_digest {versionedObjectKey ''k'' 1} demo_bad_disk"
    by (simp add: local_inv_empty demo_bad_disk_def demo_disk_def)
  ultimately have cl: "storage_cluster demo_origins demo_ids (\<lambda>_. demo_store) demo_digest
      {versionedObjectKey ''k'' 1} demo_bad_http"
    using demo_disk_inv
    by (auto simp: storage_cluster_def demo_bad_http_def demo_http_def NewHTTPObjectStore_def demo_handler_def
        NewStorageHTTPHandler_def split: if_splits)
  have ok: "cluster_ok demo_origins demo_ids (\<lambda>_. demo_store) demo_digest {versionedObjectKey ''k'' 1} (''n1'', ''k'', 1)"
    by (rule demo_cluster_ok [OF demo_http_key]) simp_all
  have nf: "net_fault (ho_net demo_bad_http) = (\<lambda>meth u. None)"
    by (simp add: demo_bad_http_def demo_http_def NewHTTPObjectStore_def)
  have srv: "map_of (net_servers (ho_net demo_bad_http)) ''http://a'' = Some ((demo_handler ''n1'')\<lparr>sh_state := demo_bad_disk\<rparr>)"
    by (simp add: demo_bad_http_def)
  have n1: "demo_origins ''n1'' = Some ''http://a''" by (simp add: demo_origins_def)
  from http_delete_hides_failure [OF cl ok nf n1 srv dl] dl show ?thesis
    by (auto simp: demo_ids_def simp del: local_store_sel)
qed

end
