(* ===== verification/Http_Api.thy ===== *)
theory Http_Api
  imports Http_Storage
begin

text \<open>
  The HTTP interface of the manager: \<open>ManagerHTTPHandler\<close> of \<open>src/distributed-fs/http_api.go\<close>
  over the file service.

  A handler is a function of the request and the service. A request is that of
  \<open>Http_Storage\<close> with one more field, the document that a JSON decoder finds in the body. A
  panic of the service is caught by \<open>net/http\<close>, which closes the connection: then there is no
  answer.
\<close>

section \<open>Data\<close>

record api_request = request +
  rq_Json :: "json result"

text \<open>
  The optional \<open>httpStore\<close> of the code is the object store of the service itself, so its method
  \<open>SetNode\<close> acts on the service's objects.
\<close>

record ('m, 'q, 's) ManagerHTTPHandler =
  mh_service :: "('m, 'q, 's) ManagedFileService"
  mh_httpStore :: "(string \<Rightarrow> string \<Rightarrow> 's \<Rightarrow> 's) option"

definition NewManagerHTTPHandler ::
  "('m, 'q, 's) ManagedFileService \<Rightarrow> (string \<Rightarrow> string \<Rightarrow> 's \<Rightarrow> 's) list \<Rightarrow> ('m, 'q, 's) ManagerHTTPHandler" where
  "NewManagerHTTPHandler service httpStore =
     \<lparr>mh_service = service, mh_httpStore = (case httpStore of [] \<Rightarrow> None | h # _ \<Rightarrow> Some h)\<rparr>"

section \<open>Helpers\<close>

fun statusForError :: "error \<Rightarrow> int" where
  "statusForError ErrMetadataNotFound = 404"
| "statusForError ErrFileDeleted = 404"
| "statusForError ErrNoPendingTasks = 204"
| "statusForError ErrNoHealthyNodes = 503"
| "statusForError ErrNoReadableReplicas = 503"
| "statusForError _ = 500"

definition fileKeyFromPath :: "string \<Rightarrow> (string \<times> bool) result" where
  "fileKeyFromPath path =
     (let raw = TrimPrefix path ''/files/'';
          metadataOnly = HasSuffix raw ''/metadata'';
          raw' = (if metadataOnly then TrimSuffix raw ''/metadata'' else raw)
      in bind_result (PathUnescape raw') (\<lambda>key.
           if key = '''' \<or> Contains key ''..'' then Inl (ErrOther ''invalid file key'')
           else Inr (key, metadataOnly)))"

text \<open>An error of the service as the answer with a status; a panic closes the connection.\<close>

definition answerError :: "int \<Rightarrow> error \<Rightarrow> response option" where
  "answerError status err = (case err of Panic _ \<Rightarrow> None | _ \<Rightarrow> Some (writeAPIError status err))"

definition enc_tally :: "('k \<Rightarrow> string) \<Rightarrow> ('k \<times> nat) list \<Rightarrow> json" where
  "enc_tally f t = JObj (map (\<lambda>(k, n). (f k, JNum (int n))) t)"

definition enc_ServiceMetrics :: "ServiceMetrics \<Rightarrow> json" where
  "enc_ServiceMetrics sm =
     JObj [(''files'', JNum (int (sm_Files sm))), (''deletedFiles'', JNum (int (sm_DeletedFiles sm))),
           (''pendingTasks'', JNum (int (sm_PendingTasks sm))),
           (''replicationTasks'', enc_tally ReplicationTaskState_string (sm_ReplicationTasks sm)),
           (''nodes'', enc_tally NodeState_string (sm_Nodes sm)),
           (''replicas'', enc_tally ReplicaState_string (sm_Replicas sm))]"

text \<open>
  The body of a heartbeat, a structure with the member \<open>addr\<close>: names match without regard to
  case, the last one counts, \<open>null\<close> changes nothing.
\<close>

definition ascii_lower :: "char \<Rightarrow> char" where
  "ascii_lower c = (if CHR ''A'' \<le> c \<and> c \<le> CHR ''Z'' then char_of (of_char c + 32 :: nat) else c)"

fun heartbeat_members :: "(string \<times> json) list \<Rightarrow> string \<Rightarrow> string result" where
  "heartbeat_members [] addr = Inr addr"
| "heartbeat_members ((name, j) # members) addr =
     (if map ascii_lower name \<noteq> ''addr'' then heartbeat_members members addr
      else case j of
             JStr s \<Rightarrow> heartbeat_members members s
           | JNull \<Rightarrow> heartbeat_members members addr
           | _ \<Rightarrow> Inl json_error)"

fun dec_heartbeat :: "json \<Rightarrow> string result" where
  "dec_heartbeat (JObj members) = heartbeat_members members ''''"
| "dec_heartbeat JNull = Inr ''''"
| "dec_heartbeat _ = Inl json_error"

section \<open>The handlers\<close>

type_synonym ('m, 'q, 's) answer = "response option \<times> ('m, 'q, 's) ManagerHTTPHandler"

definition handleMetadata ::
  "'m MetadataBackend \<Rightarrow> api_request \<Rightarrow> string \<Rightarrow> ('m, 'q, 's) ManagerHTTPHandler \<Rightarrow> ('m, 'q, 's) answer" where
  "handleMetadata B r key h =
     (if rq_Method r \<noteq> MethodGet then (Some (WriteHeader 405), h)
      else case Service_Metadata B key (mh_service h) of
             Inl err \<Rightarrow> (answerError 500 err, h)
           | Inr None \<Rightarrow> (Some (writeAPIError 404 ErrMetadataNotFound), h)
           | Inr (Some meta) \<Rightarrow> (Some (writeAPIJSON 200 (enc_FileMetadata meta)), h))"

definition handleFile ::
  "(byte list \<Rightarrow> string) \<Rightarrow> tempEnv \<Rightarrow> 'm MetadataBackend \<Rightarrow> 'q ReplicationTaskQueue \<Rightarrow> 's ObjectStore
    \<Rightarrow> api_request \<Rightarrow> ('m, 'q, 's) ManagerHTTPHandler \<Rightarrow> ('m, 'q, 's) answer" where
  "handleFile H te B Q OS r h =
     (case fileKeyFromPath (rq_Path r) of
        Inl err \<Rightarrow> (Some (writeAPIError 400 err), h)
      | Inr (key, metadataOnly) \<Rightarrow>
          if metadataOnly then handleMetadata B r key h
          else
            (case rq_Method r of
               MethodPut \<Rightarrow>
                 (case Put H te B Q OS key (rq_Body r) (mh_service h) of
                    (Inl err, sv) \<Rightarrow> (answerError 503 err, h\<lparr>mh_service := sv\<rparr>)
                  | (Inr meta, sv) \<Rightarrow> (Some (writeAPIJSON 201 (enc_FileMetadata meta)), h\<lparr>mh_service := sv\<rparr>))
             | MethodGet \<Rightarrow>
                 (case Get H te B OS key (mh_service h) of
                    (Inl err, sv) \<Rightarrow> (answerError (statusForError err) err, h\<lparr>mh_service := sv\<rparr>)
                  | (Inr (data, meta), sv) \<Rightarrow>
                      (Some ((WriteHeader 200)\<lparr>
                          rs_Header := [(''X-DFS-Version'', dec (unat (fm_Version meta))),
                                        (''X-DFS-Checksum'', fm_Checksum meta)],
                          rs_Body := StreamBody (rd_reads (bytes_reader data))\<rparr>),
                       h\<lparr>mh_service := sv\<rparr>))
             | MethodDelete \<Rightarrow>
                 (case Service_Delete B OS key (mh_service h) of
                    (Inl err, sv) \<Rightarrow> (answerError (statusForError err) err, h\<lparr>mh_service := sv\<rparr>)
                  | (Inr _, sv) \<Rightarrow> (Some (WriteHeader 204), h\<lparr>mh_service := sv\<rparr>))
             | _ \<Rightarrow> (Some (WriteHeader 405), h)))"

definition handleNodes ::
  "'m MetadataBackend \<Rightarrow> api_request \<Rightarrow> ('m, 'q, 's) ManagerHTTPHandler \<Rightarrow> ('m, 'q, 's) answer" where
  "handleNodes B r h =
     (if rq_Method r \<noteq> MethodGet then (Some (WriteHeader 405), h)
      else case Service_Nodes B (mh_service h) of
             Inl err \<Rightarrow> (answerError 500 err, h)
           | Inr nodes \<Rightarrow>
               (Some (writeAPIJSON 200 (bind_result (map_result enc_NodeMetadata nodes) (\<lambda>js. Inr (JArr js)))), h))"

definition handleMetrics ::
  "'m MetadataBackend \<Rightarrow> 'q ReplicationTaskQueue \<Rightarrow> api_request
    \<Rightarrow> ('m, 'q, 's) ManagerHTTPHandler \<Rightarrow> ('m, 'q, 's) answer" where
  "handleMetrics B Q r h =
     (if rq_Method r \<noteq> MethodGet then (Some (WriteHeader 405), h)
      else case Metrics B Q (mh_service h) of
             Inl err \<Rightarrow> (answerError 500 err, h)
           | Inr metrics \<Rightarrow> (Some (writeAPIJSON 200 (Inr (enc_ServiceMetrics metrics))), h))"

definition handleNodeHeartbeat ::
  "'m MetadataBackend \<Rightarrow> api_request \<Rightarrow> ('m, 'q, 's) ManagerHTTPHandler \<Rightarrow> ('m, 'q, 's) answer" where
  "handleNodeHeartbeat B r h =
     (if rq_Method r \<noteq> MethodPut then (Some (WriteHeader 405), h)
      else case PathUnescape (TrimPrefix (rq_Path r) ''/internal/nodes/'') of
             Inl _ \<Rightarrow> (Some (writeAPIError 400 (ErrOther ''invalid node id'')), h)
           | Inr nid \<Rightarrow>
               if nid = '''' then (Some (writeAPIError 400 (ErrOther ''invalid node id'')), h)
               else case bind_result (rq_Json r) dec_heartbeat of
                      Inl err \<Rightarrow> (Some (writeAPIError 400 err), h)
                    | Inr addr \<Rightarrow>
                        if addr = '''' then (Some (writeAPIError 400 (ErrOther ''node addr is required'')), h)
                        else (case Service_RegisterNode B nid addr (mh_service h) of
                                (Inl err, sv) \<Rightarrow> (answerError 500 err, h\<lparr>mh_service := sv\<rparr>)
                              | (Inr node, sv) \<Rightarrow>
                                  (let sv' = (case mh_httpStore h of
                                                None \<Rightarrow> sv
                                              | Some set_node \<Rightarrow> sv\<lparr>sv_objects := set_node nid addr (sv_objects sv)\<rparr>)
                                   in (Some (writeAPIJSON 200 (enc_NodeMetadata node)), h\<lparr>mh_service := sv'\<rparr>))))"

text \<open>\<open>RunReplicationOnce\<close> without an error always has a task, so the last branch is not taken.\<close>

definition handleReplicationRun ::
  "(byte list \<Rightarrow> string) \<Rightarrow> 'm MetadataBackend \<Rightarrow> 'q ReplicationTaskQueue \<Rightarrow> 's ObjectStore
    \<Rightarrow> api_request \<Rightarrow> ('m, 'q, 's) ManagerHTTPHandler \<Rightarrow> ('m, 'q, 's) answer" where
  "handleReplicationRun H B Q OS r h =
     (if rq_Method r \<noteq> MethodPost then (Some (WriteHeader 405), h)
      else case RunReplicationOnce H B Q OS (mh_service h) of
             ((_, Some err), sv) \<Rightarrow> (answerError (statusForError err) err, h\<lparr>mh_service := sv\<rparr>)
           | ((Some task, None), sv) \<Rightarrow>
               (Some (writeAPIJSON 200 (enc_ReplicationTask task)), h\<lparr>mh_service := sv\<rparr>)
           | ((None, None), sv) \<Rightarrow> (Some (writeAPIJSON 200 (Inr JNull)), h\<lparr>mh_service := sv\<rparr>))"

definition ManagerServeHTTP ::
  "(byte list \<Rightarrow> string) \<Rightarrow> tempEnv \<Rightarrow> 'm MetadataBackend \<Rightarrow> 'q ReplicationTaskQueue \<Rightarrow> 's ObjectStore
    \<Rightarrow> api_request \<Rightarrow> ('m, 'q, 's) ManagerHTTPHandler \<Rightarrow> ('m, 'q, 's) answer" where
  "ManagerServeHTTP H te B Q OS r h =
     (if HasPrefix (rq_Path r) ''/files/'' then handleFile H te B Q OS r h
      else if rq_Path r = ''/nodes'' then handleNodes B r h
      else if rq_Path r = ''/metrics'' then handleMetrics B Q r h
      else if rq_Path r = ''/replication/run'' then handleReplicationRun H B Q OS r h
      else if HasPrefix (rq_Path r) ''/internal/nodes/'' then handleNodeHeartbeat B r h
      else if rq_Path r = ''/healthz'' then (Some (WriteHeader 200), h)
      else (Some http_NotFound, h))"

section \<open>Keys\<close>

text \<open>The keys under which the interface for files can be used.\<close>

definition api_key :: "string \<Rightarrow> bool" where
  "api_key k \<longleftrightarrow> http_key k \<and> \<not> HasSuffix k ''/metadata''"

lemma fileKeyFromPath_key: "fileKeyFromPath (''/files/'' @ k) = Inr (k, False) \<longleftrightarrow> api_key k"
  using TrimPrefix_append [of "''/files/''" k] PathUnescape_id_iff [of k]
  by (auto simp: fileKeyFromPath_def api_key_def http_key_def Let_def bind_result_eq_Inr)

lemma fileKeyFromPath_metadata: "fileKeyFromPath (''/files/'' @ k @ ''/metadata'') = Inr (k, True) \<longleftrightarrow> http_key k"
  using TrimPrefix_append [of "''/files/''" "k @ ''/metadata''"] HasSuffix_append [of k "''/metadata''"]
    PathUnescape_id_iff [of k]
  by (auto simp: fileKeyFromPath_def http_key_def Let_def bind_result_eq_Inr)

lemma dec06_chars: "c \<in> set (dec06 i) \<Longrightarrow> is_digit c \<or> c = CHR ''-''"
  by (auto simp: dec06_def pad_zero_def is_digit_def dest: dec_digits split: if_splits)

lemma dec06_Cons: "\<exists>c cs. dec06 i = c # cs"
  by (cases "dec06 i") (auto simp: dec06_def pad_zero_def split: if_splits)

text \<open>The object of a chunk can be addressed unless the key ends in a full stop.\<close>

lemma http_chunk_key: "http_key k \<Longrightarrow> http_key (chunkObjectKey k i) \<longleftrightarrow> last k \<noteq> CHR ''.''"
proof -
  assume k: "http_key k"
  obtain c cs where d: "dec06 i = c # cs" using dec06_Cons by blast
  have dot: "CHR ''.'' \<notin> set (dec06 i)" and pct: "CHR ''%'' \<notin> set (dec06 i)"
    using dec06_chars [of "CHR ''.''" i] dec06_chars [of "CHR ''%''" i] by (auto simp: is_digit_def)
  have no_dots: "CHR ''.'' \<notin> set s \<Longrightarrow> \<not> Contains s ''..''" for s
    by (induction s) (auto simp: HasPrefix_def)
  have "\<not> Contains (''.chunk.'' @ dec06 i) ''..''"
    using dot no_dots [OF dot] d by (auto simp: Contains_pair_append HasPrefix_def)
  then have "Contains (chunkObjectKey k i) ''..'' \<longleftrightarrow> last k = CHR ''.''"
    using k by (auto simp: chunkObjectKey_def Contains_pair_append http_key_def)
  with k pct show ?thesis by (auto simp: http_key_def chunkObjectKey_def)
qed

section \<open>Files over the whole system\<close>

text \<open>A request for a file, as the client sends it.\<close>

definition file_req :: "http_method \<Rightarrow> string \<Rightarrow> reader \<Rightarrow> api_request" where
  "file_req meth key body = \<lparr>rq_Method = meth, rq_Path = ''/files/'' @ key, rq_Query = '''', rq_Body = body,
     rq_Json = Inl (ErrOther ''EOF'')\<rparr>"

lemma file_req_serve:
  assumes "api_key key"
  shows "ManagerServeHTTP H te B Q OS (file_req MethodPut key body) h =
      (case Put H te B Q OS key body (mh_service h) of
         (Inl err, sv) \<Rightarrow> (answerError 503 err, h\<lparr>mh_service := sv\<rparr>)
       | (Inr meta, sv) \<Rightarrow> (Some (writeAPIJSON 201 (enc_FileMetadata meta)), h\<lparr>mh_service := sv\<rparr>))"
    and "ManagerServeHTTP H te B Q OS (file_req MethodGet key body) h =
      (case Get H te B OS key (mh_service h) of
         (Inl err, sv) \<Rightarrow> (answerError (statusForError err) err, h\<lparr>mh_service := sv\<rparr>)
       | (Inr (data, meta), sv) \<Rightarrow>
           (Some ((WriteHeader 200)\<lparr>
               rs_Header := [(''X-DFS-Version'', dec (unat (fm_Version meta))), (''X-DFS-Checksum'', fm_Checksum meta)],
               rs_Body := StreamBody (rd_reads (bytes_reader data))\<rparr>), h\<lparr>mh_service := sv\<rparr>))"
    and "ManagerServeHTTP H te B Q OS (file_req MethodDelete key body) h =
      (case Service_Delete B OS key (mh_service h) of
         (Inl err, sv) \<Rightarrow> (answerError (statusForError err) err, h\<lparr>mh_service := sv\<rparr>)
       | (Inr _, sv) \<Rightarrow> (Some (WriteHeader 204), h\<lparr>mh_service := sv\<rparr>))"
proof -
  have "HasPrefix (''/files/'' @ key) ''/files/''" by (rule HasPrefix_append)
  moreover have "fileKeyFromPath (''/files/'' @ key) = Inr (key, False)" using assms by (simp only: fileKeyFromPath_key)
  ultimately show "ManagerServeHTTP H te B Q OS (file_req MethodPut key body) h =
      (case Put H te B Q OS key body (mh_service h) of
         (Inl err, sv) \<Rightarrow> (answerError 503 err, h\<lparr>mh_service := sv\<rparr>)
       | (Inr meta, sv) \<Rightarrow> (Some (writeAPIJSON 201 (enc_FileMetadata meta)), h\<lparr>mh_service := sv\<rparr>))"
    and "ManagerServeHTTP H te B Q OS (file_req MethodGet key body) h =
      (case Get H te B OS key (mh_service h) of
         (Inl err, sv) \<Rightarrow> (answerError (statusForError err) err, h\<lparr>mh_service := sv\<rparr>)
       | (Inr (data, meta), sv) \<Rightarrow>
           (Some ((WriteHeader 200)\<lparr>
               rs_Header := [(''X-DFS-Version'', dec (unat (fm_Version meta))), (''X-DFS-Checksum'', fm_Checksum meta)],
               rs_Body := StreamBody (rd_reads (bytes_reader data))\<rparr>), h\<lparr>mh_service := sv\<rparr>))"
    and "ManagerServeHTTP H te B Q OS (file_req MethodDelete key body) h =
      (case Service_Delete B OS key (mh_service h) of
         (Inl err, sv) \<Rightarrow> (answerError (statusForError err) err, h\<lparr>mh_service := sv\<rparr>)
       | (Inr _, sv) \<Rightarrow> (Some (WriteHeader 204), h\<lparr>mh_service := sv\<rparr>))"
    unfolding ManagerServeHTTP_def handleFile_def file_req_def request.simps api_request.simps
    by (simp_all only: if_True sum.case prod.case if_False simp_thms http_method.case)
qed

type_synonym http_manager = "(MetadataStore, MemoryReplicationTaskQueue, file_system HTTPObjectStore) ManagerHTTPHandler"

text \<open>
  From the HTTP interface down to the disks of the nodes, what is put is what is got. For a
  manager with at least one healthy node over a storage cluster whose network and disks have no
  faults, and a key that the interface can express: the answer to \<open>PUT\<close> of a stream is 201 with
  the record of the next version, and to \<open>GET\<close> directly after it 200 with that version and the
  checksum in the headers and exactly the bytes of the stream as body.
\<close>

theorem put_get_over_http:
  fixes h :: http_manager
  assumes "wf_metadata (mc_metadata (sv_coordinator (mh_service h)))"
    and "0 < rp_ReplicaCount (mc_planner (sv_coordinator (mh_service h)))"
    and "HealthyNodes (mc_metadata (sv_coordinator (mh_service h))) \<noteq> []"
    and "storage_cluster N D st Dg K (sv_objects (mh_service h))" and "cluster_fault_free (sv_objects (mh_service h))"
    and "temp_ok te" and "drain (rd_reads body) = (data, None)"
    and "put_names_ok (cluster_ok N D st Dg K) (mc_metadata (sv_coordinator (mh_service h))) key (chunk_manifest H data)"
    and "api_key key"
    and "ManagerServeHTTP H te MemoryMetadataBackend MemoryTaskQueue HttpObjects (file_req MethodPut key body) h = (ans, h')"
  shows "\<exists>f resp es. ans = Some (writeAPIJSON 201 (enc_FileMetadata f)) \<and> fm_Key f = key \<and>
      fm_Size f = int (length data) \<and> fm_Checksum f = H data \<and>
      fm_Version f = NextVersion key (mc_metadata (sv_coordinator (mh_service h))) \<and>
      ManagerServeHTTP H te MemoryMetadataBackend MemoryTaskQueue HttpObjects (file_req MethodGet key no_body) h' =
        (Some resp, h') \<and>
      rs_Status resp = 200 \<and> map_of (rs_Header resp) ''X-DFS-Version'' = Some (dec (unat (fm_Version f))) \<and>
      map_of (rs_Header resp) ''X-DFS-Checksum'' = Some (H data) \<and>
      rs_Body resp = StreamBody es \<and> drain es = (data, None)"
proof -
  obtain res sv' where put: "Put H te MemoryMetadataBackend MemoryTaskQueue HttpObjects key body (mh_service h) = (res, sv')"
    by fastforce
  note run = http_reliable.Put_Get [OF assms(1-3) storage_cluster_reliable [OF assms(4,5)] assms(6-8) put]
  then obtain f where f: "res = Inr f" "fm_Key f = key" "fm_Size f = int (length data)" "fm_Checksum f = H data"
      "fm_Version f = NextVersion key (mc_metadata (sv_coordinator (mh_service h)))"
    and got: "Get H te MemoryMetadataBackend HttpObjects key sv' = (Inr (data, f), sv')" by blast
  from assms(10) put f(1) have "ans = Some (writeAPIJSON 201 (enc_FileMetadata f))" "h' = h\<lparr>mh_service := sv'\<rparr>"
    by (simp_all add: file_req_serve [OF assms(9)])
  moreover from this got have "ManagerServeHTTP H te MemoryMetadataBackend MemoryTaskQueue HttpObjects
      (file_req MethodGet key no_body) h' = (Some ((WriteHeader 200)\<lparr>
        rs_Header := [(''X-DFS-Version'', dec (unat (fm_Version f))), (''X-DFS-Checksum'', H data)],
        rs_Body := StreamBody (rd_reads (bytes_reader data))\<rparr>), h')"
    by (simp add: file_req_serve [OF assms(9)] f(4))
  ultimately show ?thesis using f by (intro exI [of _ f]) simp
qed

text \<open>A manager over the two storage nodes of the demonstration cluster.\<close>

definition demo_manager :: http_manager where
  "demo_manager = NewManagerHTTPHandler
     (NewManagedFileServiceWithMetadataAndQueue 2 demo_http (mc_metadata demo_coordinator) (mc_tasks demo_coordinator))
     [SetNode]"

lemma demo_manager_facts:
  "wf_metadata (mc_metadata (sv_coordinator (mh_service demo_manager)))"
  "0 < rp_ReplicaCount (mc_planner (sv_coordinator (mh_service demo_manager)))"
  "HealthyNodes (mc_metadata (sv_coordinator (mh_service demo_manager))) \<noteq> []"
  "sv_objects (mh_service demo_manager) = demo_http"
  "put_names_ok (cluster_ok demo_origins demo_ids (\<lambda>_. demo_store) demo_digest demo_names)
     (mc_metadata (sv_coordinator (mh_service demo_manager))) ''k'' (chunk_manifest (\<lambda>b. ''h'') [1, 2, 3])"
proof -
  have md: "mc_metadata (sv_coordinator (mh_service demo_manager)) = mc_metadata (sv_coordinator demo_service)"
    by (simp add: demo_manager_def NewManagerHTTPHandler_def NewManagedFileServiceWithMetadataAndQueue_def
        NewMetadataCoordinatorWithBackendAndQueue_def demo_service_def)
  show "wf_metadata (mc_metadata (sv_coordinator (mh_service demo_manager)))"
    and "HealthyNodes (mc_metadata (sv_coordinator (mh_service demo_manager))) \<noteq> []"
    unfolding md by (rule demo_service_facts)+
  show "0 < rp_ReplicaCount (mc_planner (sv_coordinator (mh_service demo_manager)))"
    and "sv_objects (mh_service demo_manager) = demo_http"
    by (simp_all add: demo_manager_def NewManagerHTTPHandler_def NewManagedFileServiceWithMetadataAndQueue_def
        NewMetadataCoordinatorWithBackendAndQueue_def NewReplicationPlanner_def)
  have ok: "cluster_ok demo_origins demo_ids (\<lambda>_. demo_store) demo_digest demo_names (chunk_id (nm_ID nd) ''k'' 1 c)"
    if "nd \<in> set (HealthyNodes (mc_metadata demo_coordinator))" "local_ok demo_store demo_digest demo_names (chunk_id (nm_ID nd) ''k'' 1 c)"
    for nd c
    using that demo_healthy(1) unfolding chunk_id_def
    by (intro demo_cluster_local_ok) (auto simp: http_chunk_key demo_http_key)
  show "put_names_ok (cluster_ok demo_origins demo_ids (\<lambda>_. demo_store) demo_digest demo_names)
     (mc_metadata (sv_coordinator (mh_service demo_manager))) ''k'' (chunk_manifest (\<lambda>b. ''h'') [1, 2, 3])"
    using demo_service_facts(7) ok demo_healthy(2)
    unfolding md put_names_ok_def demo_service_def ManagedFileService.simps by auto
qed

theorem put_get_over_http_witness:
  "\<exists>ans h' resp. ManagerServeHTTP (\<lambda>b. ''h'') demo_temp MemoryMetadataBackend MemoryTaskQueue HttpObjects
       (file_req MethodPut ''k'' (bytes_reader [1, 2, 3])) demo_manager = (Some ans, h') \<and> rs_Status ans = 201 \<and>
     ManagerServeHTTP (\<lambda>b. ''h'') demo_temp MemoryMetadataBackend MemoryTaskQueue HttpObjects
       (file_req MethodGet ''k'' no_body) h' = (Some resp, h') \<and> rs_Status resp = 200"
proof -
  obtain ans h' where run: "ManagerServeHTTP (\<lambda>b. ''h'') demo_temp MemoryMetadataBackend MemoryTaskQueue HttpObjects
       (file_req MethodPut ''k'' (bytes_reader [1, 2, 3])) demo_manager = (ans, h')" by fastforce
  have key: "api_key ''k''" by (simp add: api_key_def demo_http_key HasSuffix_def)
  note cl = demo_cluster [folded demo_manager_facts(4)]
  from put_get_over_http [OF demo_manager_facts(1-3) cl demo_service_facts(6) bytes_reader_sel(1)
      demo_manager_facts(5) key run] run
  show ?thesis by auto
qed

section \<open>A key that cannot be stored\<close>

lemma parse_no_host: "\<exists>e. parse_url (''/objects/'' @ PathEscape k @ ''?'' @ ''version='' @ dec n) = Inl e"
proof -
  let ?p = "''/objects/'' @ PathEscape k" and ?q = "''version='' @ dec n"
  have q: "CHR ''#'' \<notin> set ?q" using not_digit_in_dec [of "CHR ''#''" n] by (auto simp: is_digit_def)
  have p: "CHR ''#'' \<notin> set ?p" "CHR ''?'' \<notin> set ?p" "CHR ''/'' \<notin> set (PathEscape k)"
    using PathEscape_no_delim [of _ k] by auto
  have u: "''/objects/'' @ PathEscape k @ ''?'' @ ''version='' @ dec n = ?p @ CHR ''?'' # ?q" by simp
  have hash: "CHR ''#'' \<notin> set (?p @ CHR ''?'' # ?q)" using p q by auto
  have "set (dropWhile (\<lambda>c. c \<noteq> CHR '':'') ?p) \<subseteq> set (PathEscape k)"
    by (auto dest: set_dropWhileD)
  then have "r \<noteq> CHR ''/'' # r'" if "snd (Cut (CHR '':'') ?p) = Some r" for r r'
    using that p(3) by (auto simp: Cut_def split: list.splits)
  then show ?thesis
    unfolding u parse_url_def Cut_none [OF hash] fst_conv Let_def Cut_append [OF p(2)] prod.case case_prod_beta
    by (cases "snd (Cut (CHR '':'') ?p)") (auto split: list.split char.split bool.split)
qed

text \<open>The address of every node that the client knows is well-formed.\<close>

definition nodes_well_formed :: "'s HTTPObjectStore \<Rightarrow> bool" where
  "nodes_well_formed s \<longleftrightarrow> (\<forall>n addr. gm_get (ho_nodes s) n = Some addr \<longrightarrow> is_origin (TrimRightSlash addr))"

text \<open>A node refuses a name with \<open>..\<close>, so a write to it fails.\<close>

lemma http_write_refused:
  assumes "nodes_well_formed s" and "Contains k ''..''" and "CHR ''%'' \<notin> set k"
    and "Http_WriteObject n k v rd s = (w, taken, s')"
  shows "\<exists>e. w = Inl e"
proof -
  obtain r tk net' where call: "http_Do MethodPut (objectURL s n k v) rd (ho_net s) = (r, tk, net')"
    by (metis prod_cases3)
  have "w = Inl e" if "r = Inl e" for e using that assms(4) call by (simp add: Http_WriteObject_def)
  moreover have "\<exists>e. w = Inl e" if r: "r = Inr x" for x
  proof (cases "gm_get (ho_nodes s) n")
    case None
    with parse_no_host [of k "unat v"] call r show ?thesis
      by (auto simp: objectURL_def TrimRightSlash_def http_Do_def)
  next
    case (Some addr)
    let ?orig = "TrimRightSlash addr"
    from assms(1) Some have orig: "is_origin ?orig" by (simp add: nodes_well_formed_def)
    show ?thesis
    proof (cases "map_of (net_servers (ho_net s)) ?orig")
      case None
      with call r parse_objectURL [OF Some refl orig, of k v] show ?thesis by (simp add: http_Do_def)
    next
      case (Some h)
      have "objectRequest (object_req MethodPut k v b) = Inl (ErrOther ''invalid object key'')" for b
        using assms(2,3) TrimPrefix_append [of "''/objects/''" k] PathUnescape_plain [of k]
        by (simp add: objectRequest_def object_req_def Let_def)
      then have "StorageServeHTTP h (object_req MethodPut k v b) =
          (writeAPIError 400 (ErrOther ''invalid object key''), [], h)" for b
        by (simp add: StorageServeHTTP_def object_path_routes)
      with http_Do_object(1) [OF \<open>gm_get (ho_nodes s) n = Some addr\<close> refl orig Some call] r assms(4) call
      show ?thesis by (cases x) (auto simp: Http_WriteObject_def)
    qed
  qed
  ultimately show ?thesis by (cases r) auto
qed

lemma writeChunks_refused:
  assumes "nodes_well_formed s" and "http_key k" and "last k = CHR ''.''"
    and "writeChunks te HttpObjects n k v staged (chunk_manifest H data) s = (e, s')"
  shows "\<exists>err. e = Some err"
proof -
  obtain c cs where m: "chunk_manifest H data = c # cs" using manifest_facts(1) [of H data] by (cases "chunk_manifest H data") auto
  obtain w taken s1 where wr: "Http_WriteObject n (chunkObjectKey k (cm_Index c)) v
      (LimitReader staged (cm_Offset c) (cm_Size c)) s = (w, taken, s1)" by (metis prod_cases3)
  have "CHR ''%'' \<notin> set (dec06 (cm_Index c))" using dec06_chars [of "CHR ''%''" "cm_Index c"] by (auto simp: is_digit_def)
  with assms(2) have "CHR ''%'' \<notin> set (chunkObjectKey k (cm_Index c))" by (simp add: chunkObjectKey_def http_key_def)
  moreover from this have "Contains (chunkObjectKey k (cm_Index c)) ''..''"
    using http_chunk_key [OF assms(2)] assms(3) by (auto simp: http_key_def chunkObjectKey_def)
  ultimately obtain err where "w = Inl err" using http_write_refused [OF assms(1) _ _ wr] by blast
  show ?thesis
  proof (cases "staged_Seek te (cm_Offset c)")
    case None
    with \<open>w = Inl err\<close> assms(4) wr have "e = Some err" by (auto simp: writeChunks_def m)
    then show ?thesis ..
  next
    case (Some a)
    with assms(4) have "e = Some a" by (auto simp: writeChunks_def m)
    then show ?thesis ..
  qed
qed

text \<open>
  C38. A key that ends in a full stop is accepted and can never be stored. The manager takes the
  request: it reads the key out of the path as it is. The name of a chunk puts another full stop
  behind the key, and the storage nodes refuse names with two of them in a row; so over the HTTP
  object store, whatever the backend, the content and the faults, every answer to \<open>PUT\<close> of such
  a key is 503, and metadata and task queue are as before.
\<close>

theorem dot_key_unstorable:
  assumes "http_key key" and "last key = CHR ''.''" and "nodes_well_formed (sv_objects (mh_service h))"
    and "ManagerServeHTTP H te B Q HttpObjects (file_req MethodPut key body) h = (ans, h')"
  shows "fileKeyFromPath (''/files/'' @ key) = Inr (key, False) \<and> (\<forall>resp. ans = Some resp \<longrightarrow> rs_Status resp = 503) \<and>
    sv_coordinator (mh_service h') = sv_coordinator (mh_service h)"
proof -
  have key: "api_key key" using assms(1,2) by (auto simp: api_key_def HasSuffix_iff)
  obtain res sv' where put: "Put H te B Q HttpObjects key body (mh_service h) = (res, sv')" by fastforce
  have "(\<exists>e. res = Inl e) \<and> sv_coordinator sv' = sv_coordinator (mh_service h)"
  proof (cases "stageReader H te (rd_reads body)")
    case (Inl e)
    with put show ?thesis by (auto simp: Put_def)
  next
    case (Inr x)
    then obtain data where staged: "stageReader H te (rd_reads body) = Inr (data, int (length data), H data, chunk_manifest H data)"
      by (auto simp: stageReader_eq split: option.splits if_splits prod.splits)
    show ?thesis
    proof (cases "PrepareWrite B key (int (length data)) (H data) (chunk_manifest H data) (sv_coordinator (mh_service h))")
      case (Inl e)
      with put staged show ?thesis by (auto simp: Put_def)
    next
      case (Inr p)
      obtain e s1 where wr: "writeChunks te HttpObjects (nm_ID (pw_Primary p)) key (pw_Version p) data
          (chunk_manifest H data) (sv_objects (mh_service h)) = (e, s1)" by fastforce
      from writeChunks_refused [OF assms(3,1,2) wr] put staged Inr wr show ?thesis by (auto simp: Put_def)
    qed
  qed
  then obtain e where "res = Inl e" "sv_coordinator sv' = sv_coordinator (mh_service h)" by blast
  with assms(4) put have "ans = answerError 503 e" "sv_coordinator (mh_service h') = sv_coordinator (mh_service h)"
    by (simp_all add: file_req_serve [OF key], auto)
  then show ?thesis unfolding fileKeyFromPath_key using key by (auto simp: answerError_def split: error.splits)
qed

theorem dot_key_unstorable_witness:
  "\<exists>ans h'. ManagerServeHTTP (\<lambda>b. ''h'') demo_temp MemoryMetadataBackend MemoryTaskQueue HttpObjects
      (file_req MethodPut ''report.'' (bytes_reader [1])) demo_manager = (ans, h') \<and>
      (\<forall>resp. ans = Some resp \<longrightarrow> rs_Status resp = 503) \<and>
      sv_coordinator (mh_service h') = sv_coordinator (mh_service demo_manager)"
proof -
  have wf: "nodes_well_formed (sv_objects (mh_service demo_manager))"
    by (auto simp: demo_manager_facts nodes_well_formed_def demo_http_def NewHTTPObjectStore_def is_origin_demo
        TrimRightSlash_def split: if_splits)
  have key: "http_key ''report.''" by (simp add: http_key_def HasPrefix_def)
  obtain ans h' where run: "ManagerServeHTTP (\<lambda>b. ''h'') demo_temp MemoryMetadataBackend MemoryTaskQueue HttpObjects
      (file_req MethodPut ''report.'' (bytes_reader [1])) demo_manager = (ans, h')" by fastforce
  from dot_key_unstorable [OF key _ wf run] show ?thesis using run by auto
qed

section \<open>What a request may change\<close>

text \<open>The only thing a read changes: it marks replicas that it could not use.\<close>

definition mark_replicas ::
  "'m MetadataBackend \<Rightarrow> string \<Rightarrow> (string \<times> ReplicaState) list \<Rightarrow> 'm \<Rightarrow> 'm" where
  "mark_replicas B key marks = fold (\<lambda>(n, st) m. snd (mb_MarkReplica B key n st m)) marks"

definition with_metadata :: "('m, 'q, 's) ManagedFileService \<Rightarrow> 'm \<Rightarrow> ('m, 'q, 's) ManagedFileService" where
  "with_metadata sv m = sv\<lparr>sv_coordinator := (sv_coordinator sv)\<lparr>mc_metadata := m\<rparr>\<rparr>"

lemma getLoop_marks:
  "\<exists>marks. snd (getLoop H te B OS key meta replicas sv) =
     with_metadata sv (mark_replicas B key marks (mc_metadata (sv_coordinator sv))) \<and>
     snd ` set marks \<subseteq> {ReplicaMissing, ReplicaStale}"
proof (induction replicas arbitrary: sv)
  case Nil
  show ?case by (rule exI [of _ "[]"]) (simp add: with_metadata_def mark_replicas_def)
next
  case (Cons x replicas)
  have none: "\<exists>marks. sv = with_metadata sv (mark_replicas B key marks (mc_metadata (sv_coordinator sv))) \<and>
      snd ` set marks \<subseteq> {ReplicaMissing, ReplicaStale}"
    by (rule exI [of _ "[]"]) (simp add: with_metadata_def mark_replicas_def)
  show ?case
  proof (cases "stageReplica H te OS (rm_NodeID x) meta (sv_objects sv)")
    case (Inl e)
    let ?st = "if e = ErrChecksumMismatch then ReplicaStale else ReplicaMissing"
    let ?m = "snd (mb_MarkReplica B key (rm_NodeID x) ?st (mc_metadata (sv_coordinator sv)))"
    from Cons.IH [of "with_metadata sv ?m"] obtain marks where
      run: "snd (getLoop H te B OS key meta replicas (with_metadata sv ?m)) =
        with_metadata (with_metadata sv ?m) (mark_replicas B key marks (mc_metadata (sv_coordinator (with_metadata sv ?m))))"
      and sub: "snd ` set marks \<subseteq> {ReplicaMissing, ReplicaStale}" by blast
    have "snd (getLoop H te B OS key meta (x # replicas) sv) = snd (getLoop H te B OS key meta replicas (with_metadata sv ?m))"
      using Inl by (simp add: Let_def case_prod_beta with_metadata_def)
    with run sub show ?thesis
      by (intro exI [of _ "(rm_NodeID x, ?st) # marks"]) (auto simp: with_metadata_def mark_replicas_def)
  next
    case (Inr b)
    then show ?thesis using none by (simp split: option.split)
  qed
qed

lemma Get_marks:
  "\<exists>marks. snd (Get H te B OS key sv) = with_metadata sv (mark_replicas B key marks (mc_metadata (sv_coordinator sv))) \<and>
     snd ` set marks \<subseteq> {ReplicaMissing, ReplicaStale}"
proof (cases "ReadCandidates B key (sv_coordinator sv)")
  case (Inl e)
  then show ?thesis by (intro exI [of _ "[]"]) (simp add: Get_def with_metadata_def mark_replicas_def)
next
  case (Inr plan)
  with getLoop_marks [of H te B OS key "rd_Metadata plan" "rd_Replicas plan" sv] show ?thesis
    by (simp add: Get_def)
qed

text \<open>
  C37. Reading through the interface is safe. Whatever the backend, the queue and the object
  store do: a request whose method is not \<open>PUT\<close>, \<open>POST\<close> or \<open>DELETE\<close> leaves objects, task queue
  and placement as they are; it leaves everything as it is unless it is a \<open>GET\<close> of the content
  of a file, which can only mark replicas of that file as missing or stale. A request to a path
  that the manager does not know is answered with 404 and one with a key it refuses with 400,
  whatever the method, without any change.
\<close>

theorem safe_requests:
  assumes "ManagerServeHTTP H te B Q OS r h = (ans, h')"
  shows "(rq_Method r \<notin> {MethodPut, MethodPost, MethodDelete} \<longrightarrow>
      h' = h \<or> (\<exists>key marks. rq_Method r = MethodGet \<and> fileKeyFromPath (rq_Path r) = Inr (key, False) \<and>
        h' = h\<lparr>mh_service := with_metadata (mh_service h)
               (mark_replicas B key marks (mc_metadata (sv_coordinator (mh_service h))))\<rparr> \<and>
        snd ` set marks \<subseteq> {ReplicaMissing, ReplicaStale})) \<and>
    (HasPrefix (rq_Path r) ''/files/'' \<and> fileKeyFromPath (rq_Path r) = Inl e \<longrightarrow>
       ans = Some (writeAPIError 400 e) \<and> h' = h) \<and>
    (\<not> HasPrefix (rq_Path r) ''/files/'' \<and> \<not> HasPrefix (rq_Path r) ''/internal/nodes/'' \<and>
       rq_Path r \<notin> {''/nodes'', ''/metrics'', ''/replication/run'', ''/healthz''} \<longrightarrow>
       ans = Some http_NotFound \<and> h' = h)"
proof (intro conjI impI)
  assume m: "rq_Method r \<notin> {MethodPut, MethodPost, MethodDelete}"
  show "h' = h \<or> (\<exists>key marks. rq_Method r = MethodGet \<and> fileKeyFromPath (rq_Path r) = Inr (key, False) \<and>
        h' = h\<lparr>mh_service := with_metadata (mh_service h)
               (mark_replicas B key marks (mc_metadata (sv_coordinator (mh_service h))))\<rparr> \<and>
        snd ` set marks \<subseteq> {ReplicaMissing, ReplicaStale})"
  proof (cases "HasPrefix (rq_Path r) ''/files/''")
    case False
    with assms m have "h' = h"
      by (auto simp: ManagerServeHTTP_def handleNodes_def handleMetrics_def handleReplicationRun_def
          handleNodeHeartbeat_def split: if_splits sum.splits)
    then show ?thesis ..
  next
    case True
    with assms have run: "handleFile H te B Q OS r h = (ans, h')" by (simp add: ManagerServeHTTP_def)
    show ?thesis
    proof (cases "\<exists>key. rq_Method r = MethodGet \<and> fileKeyFromPath (rq_Path r) = Inr (key, False)")
      case True
      then obtain key where key: "rq_Method r = MethodGet" "fileKeyFromPath (rq_Path r) = Inr (key, False)" by blast
      with run have "h' = h\<lparr>mh_service := snd (Get H te B OS key (mh_service h))\<rparr>"
        by (auto simp: handleFile_def split: sum.splits prod.splits)
      with Get_marks [of H te B OS key "mh_service h"] key show ?thesis by fastforce
    next
      case False
      with run m have "h' = h"
        by (auto simp: handleFile_def handleMetadata_def
            split: sum.splits prod.splits if_splits http_method.splits option.splits)
      then show ?thesis ..
    qed
  qed
qed (use assms in \<open>simp_all add: ManagerServeHTTP_def handleFile_def\<close>)

theorem safe_requests_witness:
  "\<exists>ans h'. ManagerServeHTTP (\<lambda>b. ''h'') demo_temp MemoryMetadataBackend MemoryTaskQueue HttpObjects
       (file_req MethodGet ''a..b'' no_body) demo_manager = (ans, h') \<and>
     ans = Some (writeAPIError 400 (ErrOther ''invalid file key'')) \<and> h' = demo_manager"
proof -
  let ?r = "file_req MethodGet ''a..b'' no_body"
  obtain ans h' where run: "ManagerServeHTTP (\<lambda>b. ''h'') demo_temp MemoryMetadataBackend MemoryTaskQueue HttpObjects
       ?r demo_manager = (ans, h')" by fastforce
  have "HasPrefix (rq_Path ?r) ''/files/''" by (simp add: file_req_def HasPrefix_def)
  moreover have "fileKeyFromPath (rq_Path ?r) = Inl (ErrOther ''invalid file key'')"
    by (simp add: file_req_def fileKeyFromPath_def TrimPrefix_def HasPrefix_def HasSuffix_def Let_def)
  ultimately show ?thesis using safe_requests [OF run, of "ErrOther ''invalid file key''"] run by blast
qed

end
