(* ===== verification/Manager_Loop.thy ===== *)
theory Manager_Loop
  imports Http_Api
begin

text \<open>
  The background loop of the manager, \<open>managerLoop\<close> of \<open>src/distributed-fs/main.go\<close>: once a
  second it expires nodes, frees abandoned tasks, plans repairs and then runs copies until one
  reports an error.

  Shown here: the inner loop ends, whatever the object store does; over a reliable object store
  with good sources it runs every task, after which every replica of a new file is healthy and
  holds its content.
\<close>

section \<open>One tick\<close>

text \<open>The inner loop; its value is the error that ended it. A loop that does not end has the value \<open>None\<close>.\<close>

partial_function (option) replicationLoop ::
  "(byte list \<Rightarrow> string) \<Rightarrow> 'm MetadataBackend \<Rightarrow> 'q ReplicationTaskQueue \<Rightarrow> 's ObjectStore
    \<Rightarrow> ('m, 'q, 's) ManagedFileService \<Rightarrow> (error \<times> ('m, 'q, 's) ManagedFileService) option" where
  "replicationLoop H B Q OS sv =
     (case RunReplicationOnce H B Q OS sv of
        ((_, Some err), sv') \<Rightarrow> Some (err, sv')
      | ((_, None), sv') \<Rightarrow> replicationLoop H B Q OS sv')"

definition nodeTTL :: duration where
  "nodeTTL = 10 * nanosecondsPerSecond"

text \<open>The errors of the first three steps are only logged.\<close>

definition managerTick ::
  "(byte list \<Rightarrow> string) \<Rightarrow> 'm MetadataBackend \<Rightarrow> 'q ReplicationTaskQueue \<Rightarrow> 's ObjectStore
    \<Rightarrow> ('m, 'q, 's) ManagedFileService \<Rightarrow> ('m, 'q, 's) ManagedFileService option" where
  "managerTick H B Q OS sv =
     (let (_, sv1) = Service_MarkExpiredNodes B nodeTTL sv;
          (_, sv2) = Service_RequeueExpired Q sv1;
          (_, sv3) = Service_PlanRepair B Q sv2
      in map_option snd (replicationLoop H B Q OS sv3))"

section \<open>The loop ends\<close>


text \<open>A round of the worker without an error: a pending task is done, and its target replica healthy.\<close>

lemma WorkOnce_ok:
  fixes c :: "('m, MemoryReplicationTaskQueue) MetadataCoordinator"
  assumes "wf_queue (mc_tasks c)"
    and "WorkOnce B MemoryTaskQueue rep \<lparr>rw_coordinator = c, rw_objects = s\<rparr> = ((r, None), w')"
  obtains t t' f where "Pending (mc_tasks c) \<noteq> []" and "t = hd (Pending (mc_tasks c))"
    and "rep (started t (mq_now (mc_tasks c))) s = (None, rw_objects w')"
    and "rt_State t' = ReplicationTaskDone" and "wf_queue (mc_tasks (rw_coordinator w'))"
    and "mq_now (mc_tasks (rw_coordinator w')) = mq_now (mc_tasks c)"
    and "\<And>i. gm_get (mq_tasks (mc_tasks (rw_coordinator w'))) i =
           (if i = rt_ID t then Some t' else gm_get (mq_tasks (mc_tasks c)) i)"
    and "mb_MarkReplica B (rt_Key t) (rt_Target t) ReplicaHealthy (mc_metadata c) = (Inr f, mc_metadata (rw_coordinator w'))"
    and "mc_planner (rw_coordinator w') = mc_planner c"
proof (cases "Pending (mc_tasks c)")
  case Nil
  with assms(2) show ?thesis by (simp add: WorkOnce_def PendingTasks_def)
next
  case (Cons t ts)
  note head = Pending_head [OF assms(1) Cons]
  let ?q = "mc_tasks c" and ?t1 = "started t (mq_now (mc_tasks c))"
  let ?t2 = "?t1\<lparr>rt_State := ReplicationTaskDone, rt_LeaseUntil := 0, rt_RunAfter := 0, rt_LastError := '''',
     rt_UpdatedAt := mq_now ?q\<rparr>"
  let ?c2 = "c\<lparr>mc_tasks := ?q\<lparr>mq_tasks := gm_put (rt_ID t) ?t2 (gm_put (rt_ID t) ?t1 (mq_tasks ?q))\<rparr>\<rparr>"
  have start: "StartReplication MemoryTaskQueue (rt_ID t) c =
      (Inr ?t1, c\<lparr>mc_tasks := ?q\<lparr>mq_tasks := gm_put (rt_ID t) ?t1 (mq_tasks ?q)\<rparr>\<rparr>)"
    using head(1) by (simp add: StartReplication_def MarkRunning_def started_def Let_def)
  obtain e s' where rep: "rep ?t1 s = (e, s')" by fastforce
  obtain m m' where mark: "mb_MarkReplica B (rt_Key t) (rt_Target t) ReplicaHealthy (mc_metadata c) = (m, m')" by fastforce
  have e: "e = None"
    using assms(2) Cons start rep
    by (cases e) (auto simp: WorkOnce_def PendingTasks_def Let_def split: prod.splits sum.splits)
  have fin: "FinishReplication B MemoryTaskQueue (rt_ID t)
      (c\<lparr>mc_tasks := ?q\<lparr>mq_tasks := gm_put (rt_ID t) ?t1 (mq_tasks ?q)\<rparr>\<rparr>) =
      (case m of Inl err \<Rightarrow> Inl err | Inr f \<Rightarrow> Inr (f, ?t2), ?c2\<lparr>mc_metadata := m'\<rparr>)"
    using mark by (simp add: FinishReplication_def MarkDone_def Let_def split: sum.split)
  from assms(2) Cons start rep e fin obtain f where m: "m = Inr f"
    and w: "w' = \<lparr>rw_coordinator = ?c2\<lparr>mc_metadata := m'\<rparr>, rw_objects = s'\<rparr>"
    by (auto simp: WorkOnce_def PendingTasks_def Let_def split: sum.splits)
  show ?thesis
  proof (rule that [of t ?t2 f])
    show "wf_queue (mc_tasks (rw_coordinator w'))"
      using assms(1) by (simp add: w wf_queue_def)
  qed (use Cons rep e m mark w in simp_all)
qed

lemma Pending_finished:
  assumes "wf_queue q" and "wf_queue q'" and "mq_now q' = mq_now q" and "t \<in> set (Pending q)"
    and "rt_State t' = ReplicationTaskDone"
    and "\<And>i. gm_get (mq_tasks q') i = (if i = rt_ID t then Some t' else gm_get (mq_tasks q) i)"
  shows "set (Pending q') = set (Pending q) - {t}"
proof -
  have t: "gm_get (mq_tasks q) (rt_ID t) = Some t" using assms(1,4) by (simp add: Pending_mem)
  show ?thesis
  proof (rule set_eqI)
    fix u
    have "u \<in> set (Pending q') \<longleftrightarrow> rt_ID u \<noteq> rt_ID t \<and> u \<in> set (Pending q)"
      using assms(5) by (cases "rt_ID u = rt_ID t")
        (auto simp only: Pending_mem [OF assms(1)] Pending_mem [OF assms(2)] assms(3,6) if_True if_False
          option.inject ReplicationTaskState.distinct simp_thms)
    moreover have "rt_ID u \<noteq> rt_ID t \<longleftrightarrow> u \<noteq> t" if "u \<in> set (Pending q)"
      using that t assms(1) by (metis Pending_mem option.inject)
    ultimately show "u \<in> set (Pending q') \<longleftrightarrow> u \<in> set (Pending q) - {t}" by blast
  qed
qed

lemma Pending_ID_inj:
  assumes "wf_queue q" and "t \<in> set (Pending q)" and "u \<in> set (Pending q)" and "rt_ID t = rt_ID u"
  shows "t = u"
proof -
  have "gm_get (mq_tasks q) (rt_ID t) = Some t" and "gm_get (mq_tasks q) (rt_ID u) = Some u"
    using assms(1-3) Pending_mem by blast+
  with assms(4) show ?thesis by (metis option.inject)
qed

lemma RunReplicationOnce_eq:
  "RunReplicationOnce H B Q OS sv = ((r, e), sv') \<longleftrightarrow>
     WorkOnce B Q (Replicate H OS) \<lparr>rw_coordinator = sv_coordinator sv, rw_objects = sv_objects sv\<rparr> =
       ((r, e), \<lparr>rw_coordinator = sv_coordinator sv', rw_objects = sv_objects sv'\<rparr>)"
proof -
  obtain x w where x: "WorkOnce B Q (Replicate H OS) \<lparr>rw_coordinator = sv_coordinator sv, rw_objects = sv_objects sv\<rparr> = (x, w)"
    by fastforce
  have "w = \<lparr>rw_coordinator = sv_coordinator sv', rw_objects = sv_objects sv'\<rparr> \<longleftrightarrow>
      \<lparr>sv_coordinator = rw_coordinator w, sv_objects = rw_objects w\<rparr> = sv'"
    by (cases w; cases sv') auto
  with x show ?thesis by (auto simp: RunReplicationOnce_def)
qed

text \<open>Without an error the worker has taken a pending task away, so the loop ends.\<close>

lemma replicationLoop_returns:
  assumes "wf_queue (mc_tasks (sv_coordinator sv))"
  shows "\<exists>err sv'. replicationLoop H B MemoryTaskQueue OS sv = Some (err, sv') \<and>
    (\<exists>sv1 r. RunReplicationOnce H B MemoryTaskQueue OS sv1 = ((r, Some err), sv'))"
  using assms
proof (induction "card (set (Pending (mc_tasks (sv_coordinator sv))))" arbitrary: sv rule: less_induct)
  case less
  obtain r e sv1 where run: "RunReplicationOnce H B MemoryTaskQueue OS sv = ((r, e), sv1)" by (metis prod.collapse)
  show ?case
  proof (cases e)
    case (Some err)
    with run have loop: "replicationLoop H B MemoryTaskQueue OS sv = Some (err, sv1)"
      by (subst replicationLoop.simps) simp
    show ?thesis using loop run Some by blast
  next
    case None
    from less.prems run [unfolded None RunReplicationOnce_eq] show ?thesis
    proof (cases rule: WorkOnce_ok [case_names ok])
      case (ok t t' f)
      have "t \<in> set (Pending (mc_tasks (sv_coordinator sv)))" using ok(1,2) by simp
      with ok less.prems have "set (Pending (mc_tasks (sv_coordinator sv1))) =
          set (Pending (mc_tasks (sv_coordinator sv))) - {t}"
        by (intro Pending_finished) simp_all
      then have "card (set (Pending (mc_tasks (sv_coordinator sv1)))) < card (set (Pending (mc_tasks (sv_coordinator sv))))"
        using \<open>t \<in> _\<close> by (metis List.finite_set card_Diff1_less)
      from less.hyps [OF this] ok(5) run None show ?thesis
        by (subst replicationLoop.simps) simp
    qed
  qed
qed

lemma repair_keeps_tasks:
  "mc_tasks (snd (repairMissingLoop B meta source nodes tasks c)) = mc_tasks c"
  "mc_tasks (snd (repairFiles B nodes files acc c)) = mc_tasks c"
proof -
  have loop: "mc_tasks (snd (repairMissingLoop B meta source nodes tasks c)) = mc_tasks c" for meta source tasks c
    by (induction B meta source nodes tasks c rule: repairMissingLoop.induct)
      (auto simp: Let_def split: prod.split sum.split)
  then show "mc_tasks (snd (repairMissingLoop B meta source nodes tasks c)) = mc_tasks c" .
  have miss: "mc_tasks (snd (repairMissingReplicas B meta source nodes c)) = mc_tasks c" for meta source c
    by (simp add: repairMissingReplicas_def loop)
  show "mc_tasks (snd (repairFiles B nodes files acc c)) = mc_tasks c"
    by (induction files arbitrary: acc c) (simp_all add: miss Let_def case_prod_beta)
qed

lemma wf_queue_PlanRepair:
  assumes "wf_queue (mc_tasks c)"
  shows "wf_queue (mc_tasks (snd (PlanRepair B MemoryTaskQueue c)))"
proof -
  have "mc_tasks c1 = mc_tasks c" if "repairFiles B nodes files [] c = (tasks, c1)" for nodes files tasks c1
    using repair_keeps_tasks(2) [of B nodes files "[]" c] that by simp
  with assms show ?thesis
    by (auto simp: PlanRepair_def Let_def split: sum.split prod.split intro: wf_Enqueue)
qed

text \<open>
  C26. A tick of the manager comes to an end. For any metadata backend and any object store, with
  whatever faults, and the in-memory queue: the loop that runs copies until one reports an error
  terminates, because every round without an error takes a task away that is pending; the tick
  then ends with the state after the round that reported the error.
\<close>

theorem managerTick_ends:
  assumes "wf_queue (mc_tasks (sv_coordinator sv))"
  shows "\<exists>sv' sv1 r err. managerTick H B MemoryTaskQueue OS sv = Some sv' \<and>
    RunReplicationOnce H B MemoryTaskQueue OS sv1 = ((r, Some err), sv')"
proof -
  define sv1 where "sv1 = snd (Service_MarkExpiredNodes B nodeTTL sv)"
  define sv2 where "sv2 = snd (Service_RequeueExpired MemoryTaskQueue sv1)"
  define sv3 where "sv3 = snd (Service_PlanRepair B MemoryTaskQueue sv2)"
  have "mc_tasks (sv_coordinator sv1) = mc_tasks (sv_coordinator sv)"
    by (simp add: sv1_def Service_MarkExpiredNodes_def case_prod_beta)
  with assms have "wf_queue (mc_tasks (sv_coordinator sv2))"
    by (simp add: sv2_def Service_RequeueExpired_def RequeueExpiredReplicationTasks_def case_prod_beta wf_Requeue)
  then have "wf_queue (mc_tasks (sv_coordinator sv3))"
    using wf_queue_PlanRepair by (simp add: sv3_def Service_PlanRepair_def case_prod_beta)
  from replicationLoop_returns [OF this] obtain err sv' sv4 r where
    "replicationLoop H B MemoryTaskQueue OS sv3 = Some (err, sv')"
    "RunReplicationOnce H B MemoryTaskQueue OS sv4 = ((r, Some err), sv')" by blast
  moreover have "managerTick H B MemoryTaskQueue OS sv = map_option snd (replicationLoop H B MemoryTaskQueue OS sv3)"
    by (simp add: managerTick_def sv1_def sv2_def sv3_def Let_def case_prod_beta)
  ultimately show ?thesis by auto
qed

theorem managerTick_ends_witness:
  "\<exists>sv'. managerTick (\<lambda>b. ''h'') MemoryMetadataBackend MemoryTaskQueue HttpObjects (mh_service demo_manager) = Some sv'"
proof -
  have "wf_queue (mc_tasks (sv_coordinator (mh_service demo_manager)))"
    using demo_wf(2) by (simp add: demo_manager_def NewManagerHTTPHandler_def
        NewManagedFileServiceWithMetadataAndQueue_def NewMetadataCoordinatorWithBackendAndQueue_def)
  from managerTick_ends [OF this] show ?thesis by blast
qed

section \<open>The loop completes every copy that is possible\<close>

definition replica_at :: "MetadataStore \<Rightarrow> string \<Rightarrow> string \<Rightarrow> ReplicaMetadata option" where
  "replica_at m k n = (case gm_get (ms_files m) k of None \<Rightarrow> None | Some f \<Rightarrow> gm_get (fm_Replicas f) n)"

definition version_at :: "MetadataStore \<Rightarrow> string \<Rightarrow> (uint64 \<times> (string \<times> int \<times> string \<times> string \<times> bool \<times> ChunkMetadata list)) option" where
  "version_at m k = map_option (\<lambda>f. (fm_Version f, published f)) (gm_get (ms_files m) k)"

lemma MarkReplica_at:
  assumes "MarkReplica k n st m = (Inr f, m')"
  shows "\<exists>x. replica_at m' k n = Some x \<and> rm_State x = st"
    and "(k', n') \<noteq> (k, n) \<Longrightarrow> replica_at m' k' n' = replica_at m k' n'"
    and "version_at m' = version_at m"
proof -
  from assms obtain g x where g: "gm_get (ms_files m) k = Some g" "gm_get (fm_Replicas g) n = Some x"
    and m': "m' = m\<lparr>ms_files := gm_put k (g\<lparr>fm_Replicas := gm_put n (x\<lparr>rm_State := st, rm_UpdatedAt := ms_now m\<rparr>)
      (fm_Replicas g), fm_UpdatedAt := ms_now m\<rparr>) (ms_files m)\<rparr>"
    by (auto simp: MarkReplica_def Let_def split: option.splits)
  show "\<exists>x. replica_at m' k n = Some x \<and> rm_State x = st" by (simp add: m' replica_at_def)
  show "(k', n') \<noteq> (k, n) \<Longrightarrow> replica_at m' k' n' = replica_at m k' n'"
    using g by (cases "k' = k") (simp_all add: m' replica_at_def)
  show "version_at m' = version_at m"
    using g by (auto simp: m' version_at_def published_def fun_eq_iff)
qed

lemma MarkReplica_found: "replica_at m k n \<noteq> None \<Longrightarrow> \<exists>f m'. MarkReplica k n st m = (Inr f, m')"
  by (auto simp: MarkReplica_def replica_at_def Let_def split: option.splits)

definition target_ids :: "ReplicationTask \<Rightarrow> object_id set" where
  "target_ids t = chunk_id (rt_Target t) (rt_Key t) (rt_Version t) ` set (rt_Chunks t)"

text \<open>The source of a task has every chunk as the manifest says, and the names are usable.\<close>

definition copyable ::
  "(byte list \<Rightarrow> string) \<Rightarrow> (object_id \<Rightarrow> bool) \<Rightarrow> (object_id \<Rightarrow> byte list option) \<Rightarrow> ReplicationTask \<Rightarrow> bool" where
  "copyable H okid cont t \<longleftrightarrow> rt_Source t \<noteq> rt_Target t \<and> rt_Chunks t \<noteq> [] \<and>
     (\<forall>n \<in> {rt_Source t, rt_Target t}. \<forall>c \<in> set (rt_Chunks t). okid (chunk_id n (rt_Key t) (rt_Version t) c)) \<and>
     (\<exists>datas. list_all2 (\<lambda>c d. cont (chunk_id (rt_Source t) (rt_Key t) (rt_Version t) c) = Some d \<and>
          int (length d) = cm_Size c \<and> H d = cm_Checksum c) (rt_Chunks t) datas \<and>
        (rt_Checksum t = '''' \<or> H (concat datas) = rt_Checksum t))"

text \<open>No task writes what another one reads or writes.\<close>

definition independent :: "ReplicationTask set \<Rightarrow> bool" where
  "independent T \<longleftrightarrow> (\<forall>t \<in> T. \<forall>u \<in> T.
     (rt_Target u, rt_Key u, rt_Version u) \<noteq> (rt_Source t, rt_Key t, rt_Version t) \<and>
     (t \<noteq> u \<longrightarrow> (rt_Target u, rt_Key u, rt_Version u) \<noteq> (rt_Target t, rt_Key t, rt_Version t)))"

text \<open>All tasks of a set are done, and nothing but their replicas and objects has changed.\<close>

definition all_copied ::
  "(object_id \<Rightarrow> bool) \<Rightarrow> ReplicationTask set
    \<Rightarrow> MemoryReplicationTaskQueue \<Rightarrow> MetadataStore \<Rightarrow> (object_id \<Rightarrow> byte list option)
    \<Rightarrow> MemoryReplicationTaskQueue \<Rightarrow> MetadataStore \<Rightarrow> (object_id \<Rightarrow> byte list option) \<Rightarrow> bool" where
  "all_copied okid T q m cont q' m' cont' \<longleftrightarrow>
     (\<forall>t \<in> T. (\<exists>t'. gm_get (mq_tasks q') (rt_ID t) = Some t' \<and> rt_State t' = ReplicationTaskDone) \<and>
        (\<exists>x. replica_at m' (rt_Key t) (rt_Target t) = Some x \<and> rm_State x = ReplicaHealthy) \<and>
        (\<forall>c \<in> set (rt_Chunks t). cont' (chunk_id (rt_Target t) (rt_Key t) (rt_Version t) c) =
           cont (chunk_id (rt_Source t) (rt_Key t) (rt_Version t) c))) \<and>
     (\<forall>i. i \<notin> rt_ID ` T \<longrightarrow> gm_get (mq_tasks q') i = gm_get (mq_tasks q) i) \<and>
     (\<forall>k n. (k, n) \<notin> (\<lambda>t. (rt_Key t, rt_Target t)) ` T \<longrightarrow> replica_at m' k n = replica_at m k n) \<and>
     version_at m' = version_at m \<and>
     (\<forall>x. okid x \<longrightarrow> x \<notin> \<Union> (target_ids ` T) \<longrightarrow> cont' x = cont x)"

lemma all_copiedD:
  assumes "all_copied okid T q m cont q' m' cont'"
  shows "t \<in> T \<Longrightarrow> \<exists>t'. gm_get (mq_tasks q') (rt_ID t) = Some t' \<and> rt_State t' = ReplicationTaskDone"
    and "t \<in> T \<Longrightarrow> \<exists>x. replica_at m' (rt_Key t) (rt_Target t) = Some x \<and> rm_State x = ReplicaHealthy"
    and "t \<in> T \<Longrightarrow> c \<in> set (rt_Chunks t) \<Longrightarrow> cont' (chunk_id (rt_Target t) (rt_Key t) (rt_Version t) c) =
           cont (chunk_id (rt_Source t) (rt_Key t) (rt_Version t) c)"
    and "i \<notin> rt_ID ` T \<Longrightarrow> gm_get (mq_tasks q') i = gm_get (mq_tasks q) i"
    and "(k, n) \<notin> (\<lambda>t. (rt_Key t, rt_Target t)) ` T \<Longrightarrow> replica_at m' k n = replica_at m k n"
    and "version_at m' = version_at m"
    and "okid x \<Longrightarrow> x \<notin> \<Union> (target_ids ` T) \<Longrightarrow> cont' x = cont x"
  using assms unfolding all_copied_def by blast+

lemma independent_ids:
  assumes "independent T" and "t \<in> T" and "u \<in> T"
  shows "chunk_id (rt_Source t) (rt_Key t) (rt_Version t) c \<notin> target_ids u"
    and "t \<noteq> u \<Longrightarrow> chunk_id (rt_Target t) (rt_Key t) (rt_Version t) c \<notin> target_ids u"
  using assms by (fastforce simp: independent_def target_ids_def chunk_id_eq_iff)+

lemma all_copied_insert:
  assumes one: "all_copied okid {t} q m cont q1 m1 cont1" and rest: "all_copied okid T q1 m1 cont1 q' m' cont'"
    and ind: "independent (insert t T)" and t: "t \<notin> T" and ids: "rt_ID t \<notin> rt_ID ` T"
    and ok: "\<And>u n c. u \<in> insert t T \<Longrightarrow> n \<in> {rt_Source u, rt_Target u} \<Longrightarrow> c \<in> set (rt_Chunks u) \<Longrightarrow>
      okid (chunk_id n (rt_Key u) (rt_Version u) c)"
  shows "all_copied okid (insert t T) q m cont q' m' cont'"
  unfolding all_copied_def
proof (intro conjI ballI allI impI)
  fix u assume u: "u \<in> insert t T"
  show "\<exists>t'. gm_get (mq_tasks q') (rt_ID u) = Some t' \<and> rt_State t' = ReplicationTaskDone"
    using u one rest ids by (cases "u = t") (auto simp: all_copied_def)
  show "\<exists>x. replica_at m' (rt_Key u) (rt_Target u) = Some x \<and> rm_State x = ReplicaHealthy"
  proof (cases "(rt_Key u, rt_Target u) \<in> (\<lambda>t. (rt_Key t, rt_Target t)) ` T")
    case True
    then show ?thesis using rest by (auto simp: all_copied_def)
  next
    case False
    then have "u = t" using u by auto
    with False one rest show ?thesis by (auto simp: all_copied_def)
  qed
  fix c assume c: "c \<in> set (rt_Chunks u)"
  show "cont' (chunk_id (rt_Target u) (rt_Key u) (rt_Version u) c) =
      cont (chunk_id (rt_Source u) (rt_Key u) (rt_Version u) c)"
  proof (cases "u = t")
    case True
    have "chunk_id (rt_Target t) (rt_Key t) (rt_Version t) c \<notin> \<Union> (target_ids ` T)"
      using independent_ids(2) [OF ind] t by blast
    from all_copiedD(7) [OF rest _ this] ok [OF u _ c] True
    have "cont' (chunk_id (rt_Target t) (rt_Key t) (rt_Version t) c) = cont1 (chunk_id (rt_Target t) (rt_Key t) (rt_Version t) c)"
      by blast
    with all_copiedD(3) [OF one, of t c] c True show ?thesis by simp
  next
    case False
    then have "u \<in> T" using u by simp
    have "chunk_id (rt_Source u) (rt_Key u) (rt_Version u) c \<notin> \<Union> (target_ids ` {t})"
      using independent_ids(1) [OF ind] u by blast
    from all_copiedD(7) [OF one _ this] ok [OF u _ c]
    have "cont1 (chunk_id (rt_Source u) (rt_Key u) (rt_Version u) c) = cont (chunk_id (rt_Source u) (rt_Key u) (rt_Version u) c)"
      by blast
    with all_copiedD(3) [OF rest \<open>u \<in> T\<close> c] show ?thesis by simp
  qed
next
  fix i assume "i \<notin> rt_ID ` insert t T"
  then show "gm_get (mq_tasks q') i = gm_get (mq_tasks q) i"
    using all_copiedD(4) [OF one, of i] all_copiedD(4) [OF rest, of i] by auto
next
  fix k n assume "(k, n) \<notin> (\<lambda>t. (rt_Key t, rt_Target t)) ` insert t T"
  then show "replica_at m' k n = replica_at m k n"
    using all_copiedD(5) [OF one, of k n] all_copiedD(5) [OF rest, of k n] by auto
next
  show "version_at m' = version_at m" using all_copiedD(6) [OF one] all_copiedD(6) [OF rest] by simp
next
  fix x assume "okid x" and "x \<notin> \<Union> (target_ids ` insert t T)"
  then show "cont' x = cont x" using all_copiedD(7) [OF one, of x] all_copiedD(7) [OF rest, of x] by simp
qed

lemma list_all2_left: "list_all2 P xs ys \<Longrightarrow> x \<in> set xs \<Longrightarrow> \<exists>y. P x y"
  by (induction rule: list_all2_induct) auto

lemma WorkOnce_None:
  fixes c :: "('m, MemoryReplicationTaskQueue) MetadataCoordinator"
  assumes "wf_queue (mc_tasks c)" and "Pending (mc_tasks c) = t # ts"
    and "rep (started t (mq_now (mc_tasks c))) s = (None, s')"
    and "mb_MarkReplica B (rt_Key t) (rt_Target t) ReplicaHealthy (mc_metadata c) = (Inr f, m')"
  shows "\<exists>r w'. WorkOnce B MemoryTaskQueue rep \<lparr>rw_coordinator = c, rw_objects = s\<rparr> = ((r, None), w')"
proof -
  let ?q = "mc_tasks c" and ?t1 = "started t (mq_now (mc_tasks c))"
  have "StartReplication MemoryTaskQueue (rt_ID t) c =
      (Inr ?t1, c\<lparr>mc_tasks := ?q\<lparr>mq_tasks := gm_put (rt_ID t) ?t1 (mq_tasks ?q)\<rparr>\<rparr>)"
    using Pending_head(1) [OF assms(1,2)] by (simp add: StartReplication_def MarkRunning_def started_def Let_def)
  with assms(2-4) show ?thesis
    by (auto simp: WorkOnce_def PendingTasks_def FinishReplication_def MarkDone_def Let_def)
qed

context reliable_object_store begin

lemma Replicate_copies:
  assumes "oinv s" and "copyable H okid (content s) t"
  obtains s' where "Replicate H OS t s = (None, s')" and "oinv s'"
    and "\<And>c. c \<in> set (rt_Chunks t) \<Longrightarrow> content s' (chunk_id (rt_Target t) (rt_Key t) (rt_Version t) c) =
           content s (chunk_id (rt_Source t) (rt_Key t) (rt_Version t) c)"
    and "\<And>x. okid x \<Longrightarrow> x \<notin> target_ids t \<Longrightarrow> content s' x = content s x"
proof -
  from assms(2) obtain datas where t: "rt_Source t \<noteq> rt_Target t" "rt_Chunks t \<noteq> []"
    and ok: "\<And>n c. n \<in> {rt_Source t, rt_Target t} \<Longrightarrow> c \<in> set (rt_Chunks t) \<Longrightarrow> okid (chunk_id n (rt_Key t) (rt_Version t) c)"
    and d: "list_all2 (\<lambda>c d. content s (chunk_id (rt_Source t) (rt_Key t) (rt_Version t) c) = Some d \<and>
        int (length d) = cm_Size c \<and> H d = cm_Checksum c) (rt_Chunks t) datas"
      "rt_Checksum t = '''' \<or> H ([] @ concat datas) = rt_Checksum t"
    by (auto simp: copyable_def)
  obtain e s' where run: "replicateLoop H OS t (rt_Chunks t) [] [] s = (e, s')" by fastforce
  with replicateLoop_completes [OF assms(1) ok t(1) d, of "[]"] have run': "replicateLoop H OS t (rt_Chunks t) [] [] s = (None, s')"
    by simp
  note succ = replicateLoop_success [OF assms(1) ok t(1) run']
  show ?thesis
  proof (rule that [of s'])
    show "Replicate H OS t s = (None, s')" using run' t(2) by (simp add: Replicate_chunked)
    show "oinv s'" and "\<And>x. okid x \<Longrightarrow> x \<notin> target_ids t \<Longrightarrow> content s' x = content s x"
      using succ unfolding target_ids_def by blast+
    from succ obtain datas' where "list_all2 (\<lambda>c d. content s (chunk_id (rt_Source t) (rt_Key t) (rt_Version t) c) = Some d \<and>
        content s' (chunk_id (rt_Target t) (rt_Key t) (rt_Version t) c) = Some d \<and>
        int (length d) = cm_Size c \<and> H d = cm_Checksum c) (rt_Chunks t) datas'" by blast
    then show "content s' (chunk_id (rt_Target t) (rt_Key t) (rt_Version t) c) =
        content s (chunk_id (rt_Source t) (rt_Key t) (rt_Version t) c)" if "c \<in> set (rt_Chunks t)" for c
      using list_all2_left [OF _ that] by fastforce
  qed
qed

lemma round_copies:
  fixes sv :: "'a memory_service"
  assumes "wf_queue (mc_tasks (sv_coordinator sv))" and "oinv (sv_objects sv)"
    and "Pending (mc_tasks (sv_coordinator sv)) = t # ts" and "copyable H okid (content (sv_objects sv)) t"
    and "replica_at (mc_metadata (sv_coordinator sv)) (rt_Key t) (rt_Target t) \<noteq> None"
  obtains r sv' where "RunReplicationOnce H MemoryMetadataBackend MemoryTaskQueue OS sv = ((r, None), sv')"
    and "wf_queue (mc_tasks (sv_coordinator sv'))" and "oinv (sv_objects sv')"
    and "set (Pending (mc_tasks (sv_coordinator sv'))) = set (Pending (mc_tasks (sv_coordinator sv))) - {t}"
    and "all_copied okid {t} (mc_tasks (sv_coordinator sv)) (mc_metadata (sv_coordinator sv)) (content (sv_objects sv))
           (mc_tasks (sv_coordinator sv')) (mc_metadata (sv_coordinator sv')) (content (sv_objects sv'))"
proof -
  let ?c = "sv_coordinator sv" and ?s = "sv_objects sv"
  let ?t = "started t (mq_now (mc_tasks ?c))"
  have "copyable H okid (content ?s) ?t" using assms(4) by (simp add: copyable_def)
  from Replicate_copies [OF assms(2) this] obtain s' where rep: "Replicate H OS ?t ?s = (None, s')" and inv: "oinv s'"
    and copied: "\<And>c. c \<in> set (rt_Chunks t) \<Longrightarrow> content s' (chunk_id (rt_Target t) (rt_Key t) (rt_Version t) c) =
           content ?s (chunk_id (rt_Source t) (rt_Key t) (rt_Version t) c)"
    and frame: "\<And>x. okid x \<Longrightarrow> x \<notin> target_ids t \<Longrightarrow> content s' x = content ?s x"
    by (auto simp: target_ids_def)
  from MarkReplica_found [OF assms(5)] obtain f m' where
    mark: "MarkReplica (rt_Key t) (rt_Target t) ReplicaHealthy (mc_metadata ?c) = (Inr f, m')" by blast
  obtain r w' where run: "WorkOnce MemoryMetadataBackend MemoryTaskQueue (Replicate H OS)
      \<lparr>rw_coordinator = ?c, rw_objects = ?s\<rparr> = ((r, None), w')"
    using WorkOnce_None [OF assms(1,3), of "Replicate H OS", OF rep, of MemoryMetadataBackend] mark by auto
  let ?sv' = "\<lparr>sv_coordinator = rw_coordinator w', sv_objects = rw_objects w'\<rparr>"
  have once: "RunReplicationOnce H MemoryMetadataBackend MemoryTaskQueue OS sv = ((r, None), ?sv')"
    using run by (simp add: RunReplicationOnce_def)
  from assms(1) run show ?thesis
  proof (cases rule: WorkOnce_ok [case_names ok])
    case (ok u t' g)
    have u: "u = t" using ok(2) assms(3) by simp
    have w: "rw_objects w' = s'" "mc_metadata (rw_coordinator w') = m'" using ok(3,8) rep mark by (simp_all add: u)
    have pend: "set (Pending (mc_tasks (rw_coordinator w'))) = set (Pending (mc_tasks ?c)) - {t}"
      using ok(4-7) assms(1,3) by (intro Pending_finished) (simp_all add: u)
    have "all_copied okid {t} (mc_tasks ?c) (mc_metadata ?c) (content ?s)
        (mc_tasks (rw_coordinator w')) (mc_metadata (rw_coordinator w')) (content (rw_objects w'))"
      unfolding all_copied_def w
      using MarkReplica_at [OF mark] ok(4) ok(7) [unfolded u] copied frame by auto
    with once ok(5) inv pend show ?thesis by (intro that [of r ?sv']) (simp_all add: w)
  qed
qed

end

lemma copyable_frame:
  assumes "copyable H okid cont u"
    and "\<And>c. c \<in> set (rt_Chunks u) \<Longrightarrow> cont' (chunk_id (rt_Source u) (rt_Key u) (rt_Version u) c) =
          cont (chunk_id (rt_Source u) (rt_Key u) (rt_Version u) c)"
  shows "copyable H okid cont' u"
proof -
  have "list_all2 (\<lambda>c d. cont' (chunk_id (rt_Source u) (rt_Key u) (rt_Version u) c) = Some d \<and>
      int (length d) = cm_Size c \<and> H d = cm_Checksum c) (rt_Chunks u) datas"
    if "list_all2 (\<lambda>c d. cont (chunk_id (rt_Source u) (rt_Key u) (rt_Version u) c) = Some d \<and>
      int (length d) = cm_Size c \<and> H d = cm_Checksum c) (rt_Chunks u) datas" for datas
    using that by (rule list.rel_mono_strong) (simp add: assms(2))
  with assms(1) show ?thesis unfolding copyable_def by blast
qed

context reliable_object_store begin

lemma replicationLoop_completes:
  fixes sv :: "'a memory_service"
  assumes "wf_queue (mc_tasks (sv_coordinator sv))" and "oinv (sv_objects sv)"
    and "\<And>t. t \<in> set (Pending (mc_tasks (sv_coordinator sv))) \<Longrightarrow> copyable H okid (content (sv_objects sv)) t \<and>
          replica_at (mc_metadata (sv_coordinator sv)) (rt_Key t) (rt_Target t) \<noteq> None"
    and "independent (set (Pending (mc_tasks (sv_coordinator sv))))"
  shows "\<exists>sv'. replicationLoop H MemoryMetadataBackend MemoryTaskQueue OS sv = Some (ErrNoPendingTasks, sv') \<and>
    oinv (sv_objects sv') \<and>
    all_copied okid (set (Pending (mc_tasks (sv_coordinator sv))))
      (mc_tasks (sv_coordinator sv)) (mc_metadata (sv_coordinator sv)) (content (sv_objects sv))
      (mc_tasks (sv_coordinator sv')) (mc_metadata (sv_coordinator sv')) (content (sv_objects sv'))"
  using assms
proof (induction "card (set (Pending (mc_tasks (sv_coordinator sv))))" arbitrary: sv rule: less_induct)
  case less
  let ?P = "set (Pending (mc_tasks (sv_coordinator sv)))"
  show ?case
  proof (cases "Pending (mc_tasks (sv_coordinator sv))")
    case Nil
    then have "RunReplicationOnce H MemoryMetadataBackend MemoryTaskQueue OS sv = ((None, Some ErrNoPendingTasks), sv)"
      by (simp add: RunReplicationOnce_def WorkOnce_def PendingTasks_def)
    then have "replicationLoop H MemoryMetadataBackend MemoryTaskQueue OS sv = Some (ErrNoPendingTasks, sv)"
      by (subst replicationLoop.simps) simp
    with Nil less.prems(2) show ?thesis by (intro exI [of _ sv]) (simp add: all_copied_def)
  next
    case (Cons t ts)
    then have t: "t \<in> ?P" by simp
    from round_copies [OF less.prems(1,2) Cons] less.prems(3) [OF t] obtain r sv1 where
      once: "RunReplicationOnce H MemoryMetadataBackend MemoryTaskQueue OS sv = ((r, None), sv1)"
      and wf1: "wf_queue (mc_tasks (sv_coordinator sv1))" and inv1: "oinv (sv_objects sv1)"
      and P1: "set (Pending (mc_tasks (sv_coordinator sv1))) = ?P - {t}"
      and one: "all_copied okid {t} (mc_tasks (sv_coordinator sv)) (mc_metadata (sv_coordinator sv)) (content (sv_objects sv))
           (mc_tasks (sv_coordinator sv1)) (mc_metadata (sv_coordinator sv1)) (content (sv_objects sv1))"
      by metis
    have ok: "okid (chunk_id n (rt_Key u) (rt_Version u) c)"
      if "u \<in> ?P" "n \<in> {rt_Source u, rt_Target u}" "c \<in> set (rt_Chunks u)" for u n c
      using less.prems(3) [OF that(1)] that(2,3) unfolding copyable_def by blast
    have good: "copyable H okid (content (sv_objects sv1)) u \<and>
        replica_at (mc_metadata (sv_coordinator sv1)) (rt_Key u) (rt_Target u) \<noteq> None" if "u \<in> ?P - {t}" for u
    proof
      have u: "u \<in> ?P" using that by simp
      have "content (sv_objects sv1) (chunk_id (rt_Source u) (rt_Key u) (rt_Version u) c) =
          content (sv_objects sv) (chunk_id (rt_Source u) (rt_Key u) (rt_Version u) c)" if "c \<in> set (rt_Chunks u)" for c
        using independent_ids(1) [OF less.prems(4) u t] ok [OF u _ that] by (intro all_copiedD(7) [OF one]) auto
      then show "copyable H okid (content (sv_objects sv1)) u"
        by (rule copyable_frame [OF conjunct1 [OF less.prems(3) [OF u]]])
      show "replica_at (mc_metadata (sv_coordinator sv1)) (rt_Key u) (rt_Target u) \<noteq> None"
      proof (cases "(rt_Key u, rt_Target u) \<in> (\<lambda>t. (rt_Key t, rt_Target t)) ` {t}")
        case True
        then show ?thesis using all_copiedD(2) [OF one, of t] by auto
      next
        case False
        from all_copiedD(5) [OF one this] less.prems(3) [OF u] show ?thesis by metis
      qed
    qed
    have "card (?P - {t}) < card ?P" using t by (metis List.finite_set card_Diff1_less)
    moreover have "independent (?P - {t})" using less.prems(4) by (simp add: independent_def)
    ultimately obtain sv' where loop: "replicationLoop H MemoryMetadataBackend MemoryTaskQueue OS sv1 = Some (ErrNoPendingTasks, sv')"
      and inv': "oinv (sv_objects sv')"
      and rest: "all_copied okid (?P - {t})
        (mc_tasks (sv_coordinator sv1)) (mc_metadata (sv_coordinator sv1)) (content (sv_objects sv1))
        (mc_tasks (sv_coordinator sv')) (mc_metadata (sv_coordinator sv')) (content (sv_objects sv'))"
      using less.hyps [of sv1, OF _ wf1 inv1, unfolded P1, OF _ good] by blast
    have "replicationLoop H MemoryMetadataBackend MemoryTaskQueue OS sv = Some (ErrNoPendingTasks, sv')"
      using once loop by (subst replicationLoop.simps) simp
    moreover have P: "insert t (?P - {t}) = ?P" using t by (rule insert_Diff)
    have "rt_ID t \<notin> rt_ID ` (?P - {t})" using Pending_ID_inj [OF less.prems(1) t] by blast
    with all_copied_insert [OF one rest, unfolded P] less.prems(4) ok
    have "all_copied okid ?P
        (mc_tasks (sv_coordinator sv)) (mc_metadata (sv_coordinator sv)) (content (sv_objects sv))
        (mc_tasks (sv_coordinator sv')) (mc_metadata (sv_coordinator sv')) (content (sv_objects sv'))"
      by blast
    ultimately show ?thesis using inv' by blast
  qed
qed

end

section \<open>A new file reaches every replica\<close>

lemma find_SomeD: "List.find P xs = Some x \<Longrightarrow> x \<in> set xs \<and> P x"
  by (induction xs) (auto split: if_splits)

lemma Pending_Enqueue:
  assumes "wf_queue q" and "Pending q = []" and "distinct (map rt_ID ts)"
    and "\<And>t. t \<in> set ts \<Longrightarrow> gm_get (mq_tasks q) (rt_ID t) = None \<and> rt_State t = ReplicationTaskPending \<and> rt_RunAfter t = 0"
  shows "set (Pending (Enqueue ts q)) = set ts"
proof (rule set_eqI)
  fix u
  have wf: "wf_queue (Enqueue ts q)" using assms(1) by (rule wf_Enqueue)
  have found: "List.find (\<lambda>t. rt_ID t = rt_ID u) ts = Some u" if "u \<in> set ts"
    using that assms(3) by (induction ts) auto
  have old: "gm_get (mq_tasks q) (rt_ID u) = Some u \<Longrightarrow> rt_State u = ReplicationTaskPending \<Longrightarrow> \<not> readyToRun u (mq_now q)"
    using assms(2) Pending_mem [OF assms(1), of u] by simp
  show "u \<in> set (Pending (Enqueue ts q)) \<longleftrightarrow> u \<in> set ts"
  proof
    assume "u \<in> set ts"
    with assms(4) [OF this] found show "u \<in> set (Pending (Enqueue ts q))"
      by (simp add: Pending_mem [OF wf] gm_get_Enqueue readyToRun_def)
  next
    assume "u \<in> set (Pending (Enqueue ts q))"
    with old show "u \<in> set ts"
      by (auto simp: Pending_mem [OF wf] gm_get_Enqueue dest: find_SomeD split: option.splits)
  qed
qed

text \<open>The tasks of a new version: one from the primary to every other chosen node.\<close>

lemma new_version_tasks:
  assumes f_def: "f = fst (BeginFileVersion key sz cs chs n rs m)" and "TasksForFile f now = Inr tasks"
  shows "\<And>t. t \<in> set tasks \<Longrightarrow> t = newReplicationTask f n (rt_Target t) now now \<and> rt_Target t \<in> set rs \<and> rt_Target t \<noteq> n"
    and "x \<in> set rs \<Longrightarrow> x \<noteq> n \<Longrightarrow> newReplicationTask f n x now now \<in> set tasks"
    and "distinct (map rt_ID tasks)" and "independent (set tasks)"
proof -
  note b = BeginFileVersion_result [of key sz cs chs n rs m, folded f_def]
  have prim: "fm_Primary f = n" using b(5) by (simp add: published_def)
  have reps: "gm_get (fm_Replicas f) x = (if x \<in> set rs then Some \<lparr>rm_NodeID = x,
      rm_State = (if x = n then ReplicaHealthy else ReplicaPending), rm_UpdatedAt = ms_now m\<rparr> else None)" for x
    by (simp add: b(7) initialReplicas_spec)
  have need: "needs_copy f x \<longleftrightarrow> x \<in> set rs \<and> x \<noteq> n" for x
    using reps by (auto simp: needs_copy_def prim)
  let ?ns = "filter (needs_copy f) (sort (gm_keys (fm_Replicas f)))"
  have ts: "tasks = map (\<lambda>x. newReplicationTask f n x now now) ?ns"
    using assms(2) by (simp add: TasksForFile_eq prim split: if_splits)
  have "distinct (gm_keys (fm_Replicas f))" using b(4) by (simp add: wf_file_def gm_wf_def gm_keys_def)
  then have dist: "distinct ?ns" by simp
  have ns: "x \<in> set ?ns \<longleftrightarrow> x \<in> set rs \<and> x \<noteq> n" for x
    using reps by (auto simp: need gm_get_keys)
  show tgt: "t = newReplicationTask f n (rt_Target t) now now \<and> rt_Target t \<in> set rs \<and> rt_Target t \<noteq> n"
    if "t \<in> set tasks" for t
  proof -
    from that obtain x where "x \<in> set ?ns" and t: "t = newReplicationTask f n x now now"
      unfolding ts set_map by blast
    then have "x \<in> set rs \<and> x \<noteq> n" using ns by blast
    then show ?thesis by (simp add: t)
  qed
  show "x \<in> set rs \<Longrightarrow> x \<noteq> n \<Longrightarrow> newReplicationTask f n x now now \<in> set tasks"
    using ns [of x] unfolding ts set_map by blast
  have "inj_on (\<lambda>x. rt_ID (newReplicationTask f n x now now)) A" for A
    by (auto simp: inj_on_def newReplicationTask_def replicationTaskID_def)
  with dist show "distinct (map rt_ID tasks)" by (simp add: ts distinct_map comp_def)
  have same: "rt_Source t = n \<and> rt_Key t = fm_Key f \<and> rt_Version t = fm_Version f" if "t \<in> set tasks" for t
    using that by (auto simp: ts)
  show "independent (set tasks)"
    unfolding independent_def
  proof (intro ballI conjI impI)
    fix t u assume t: "t \<in> set tasks" and u: "u \<in> set tasks"
    show "(rt_Target u, rt_Key u, rt_Version u) \<noteq> (rt_Source t, rt_Key t, rt_Version t)"
      using tgt [OF u] same [OF t] by simp
    assume "t \<noteq> u"
    with tgt [OF t] tgt [OF u] have "rt_Target t \<noteq> rt_Target u" by metis
    then show "(rt_Target u, rt_Key u, rt_Version u) \<noteq> (rt_Target t, rt_Key t, rt_Version t)" by simp
  qed
qed

context reliable_object_store begin

lemma replicate_new_version:
  fixes sv :: "'a memory_service"
  assumes f_def: "f = fst (BeginFileVersion key (int (length data)) (H data) (chunk_manifest H data) n rs m)"
    and md: "mc_metadata (sv_coordinator sv) = snd (BeginFileVersion key (int (length data)) (H data) (chunk_manifest H data) n rs m)"
    and tasks: "TasksForFile f now = Inr tasks" and wf: "wf_queue (mc_tasks (sv_coordinator sv))"
    and inv: "oinv (sv_objects sv)" and pend: "set (Pending (mc_tasks (sv_coordinator sv))) = set tasks" and n: "n \<in> set rs"
    and ok: "\<And>x c. x \<in> set rs \<Longrightarrow> c \<in> set (chunk_manifest H data) \<Longrightarrow> okid (chunk_id x key (fm_Version f) c)"
    and new: "\<And>c. c \<in> set (chunk_manifest H data) \<Longrightarrow>
      content (sv_objects sv) (chunk_id n key (fm_Version f) c) = Some (chunk_range data c)"
  shows "\<exists>sv2. replicationLoop H MemoryMetadataBackend MemoryTaskQueue OS sv = Some (ErrNoPendingTasks, sv2) \<and>
    oinv (sv_objects sv2) \<and> version_at (mc_metadata (sv_coordinator sv2)) key = Some (fm_Version f, published f) \<and>
    (\<forall>x \<in> set rs. (\<exists>y. replica_at (mc_metadata (sv_coordinator sv2)) key x = Some y \<and> rm_State y = ReplicaHealthy) \<and>
       (\<forall>c \<in> set (chunk_manifest H data).
          content (sv_objects sv2) (chunk_id x key (fm_Version f) c) = Some (chunk_range data c)))"
proof -
  let ?M = "chunk_manifest H data"
  note b = BeginFileVersion_result [of key "int (length data)" "H data" ?M n rs m, folded f_def md]
  note nt = new_version_tasks [OF f_def tasks]
  have f: "fm_Key f = key" "fm_Checksum f = H data" "fm_Chunks f = ?M" using b(5) by (simp_all add: published_def)
  have same: "rt_Key t = key" "rt_Version t = fm_Version f" "rt_Source t = n" "rt_Chunks t = ?M" "rt_Checksum t = H data"
    if "t \<in> set tasks" for t
    using nt(1) [OF that] f by (metis newReplicationTask_sel)+
  have at: "replica_at (mc_metadata (sv_coordinator sv)) key x = (if x \<in> set rs then Some \<lparr>rm_NodeID = x,
      rm_State = (if x = n then ReplicaHealthy else ReplicaPending), rm_UpdatedAt = ms_now m\<rparr> else None)" for x
    by (simp add: replica_at_def b(1) b(7) initialReplicas_spec)
  have tgt: "rt_Target t \<in> set rs" "rt_Target t \<noteq> n" if "t \<in> set tasks" for t using nt(1) [OF that] by simp_all
  have "list_all2 (\<lambda>c d. content (sv_objects sv) (chunk_id n key (fm_Version f) c) = Some d \<and>
      int (length d) = cm_Size c \<and> H d = cm_Checksum c) ?M (map (chunk_range data) ?M)"
    using new manifest_facts(4) by (auto simp: list.rel_map intro!: list.rel_refl_strong)
  moreover have "H (concat (map (chunk_range data) ?M)) = H data" by (simp only: manifest_facts(3))
  ultimately have good: "copyable H okid (content (sv_objects sv)) t \<and>
      replica_at (mc_metadata (sv_coordinator sv)) (rt_Key t) (rt_Target t) \<noteq> None" if "t \<in> set tasks" for t
    unfolding copyable_def same [OF that] using tgt [OF that] n ok manifest_facts(1) [of H data] by (auto simp: at)
  from replicationLoop_completes [OF wf inv, unfolded pend, OF good nt(4)] obtain sv2 where
    loop: "replicationLoop H MemoryMetadataBackend MemoryTaskQueue OS sv = Some (ErrNoPendingTasks, sv2)" "oinv (sv_objects sv2)"
    and all: "all_copied okid (set tasks) (mc_tasks (sv_coordinator sv)) (mc_metadata (sv_coordinator sv))
      (content (sv_objects sv)) (mc_tasks (sv_coordinator sv2)) (mc_metadata (sv_coordinator sv2)) (content (sv_objects sv2))"
    by blast
  have "(\<exists>y. replica_at (mc_metadata (sv_coordinator sv2)) key x = Some y \<and> rm_State y = ReplicaHealthy) \<and>
      (\<forall>c \<in> set ?M. content (sv_objects sv2) (chunk_id x key (fm_Version f) c) = Some (chunk_range data c))" if x: "x \<in> set rs" for x
  proof (cases "x = n")
    case True
    have "(key, n) \<notin> (\<lambda>t. (rt_Key t, rt_Target t)) ` set tasks" using tgt(2) by blast
    moreover have "chunk_id n key (fm_Version f) c \<notin> \<Union> (target_ids ` set tasks)" for c
      using tgt(2) by (fastforce simp: target_ids_def chunk_id_eq_iff)
    ultimately show ?thesis
      using all_copiedD(5) [OF all, of key n] all_copiedD(7) [OF all] new ok n True by (simp add: at)
  next
    case False
    note t = nt(2) [OF x False]
    from all_copiedD(2) [OF all t] all_copiedD(3) [OF all t] new show ?thesis by (simp add: f)
  qed
  moreover have "version_at (mc_metadata (sv_coordinator sv2)) key = Some (fm_Version f, published f)"
    using all_copiedD(6) [OF all] by (simp add: version_at_def b(1))
  ultimately show ?thesis using loop by blast
qed

lemma Put_replicated:
  fixes sv :: "'a memory_service"
  assumes "wf_metadata (mc_metadata (sv_coordinator sv))"
    and "0 < rp_ReplicaCount (mc_planner (sv_coordinator sv))"
    and "HealthyNodes (mc_metadata (sv_coordinator sv)) \<noteq> []"
    and "oinv (sv_objects sv)" and "temp_ok te" and "drain (rd_reads r) = (data, None)"
    and "put_names_ok okid (mc_metadata (sv_coordinator sv)) key (chunk_manifest H data)"
    and "wf_queue (mc_tasks (sv_coordinator sv))" and "Pending (mc_tasks (sv_coordinator sv)) = []"
    and fresh: "\<And>src tgt. gm_get (mq_tasks (mc_tasks (sv_coordinator sv)))
          (replicationTaskID key (NextVersion key (mc_metadata (sv_coordinator sv))) src tgt) = None"
    and "Put H te MemoryMetadataBackend MemoryTaskQueue OS key r sv = (res, sv1)"
  shows "\<exists>f sv2 rs. res = Inr f \<and> fm_Version f = NextVersion key (mc_metadata (sv_coordinator sv)) \<and>
    replicationLoop H MemoryMetadataBackend MemoryTaskQueue OS sv1 = Some (ErrNoPendingTasks, sv2) \<and>
    distinct rs \<and> set rs \<subseteq> nm_ID ` set (HealthyNodes (mc_metadata (sv_coordinator sv))) \<and>
    length rs = min (nat (rp_ReplicaCount (mc_planner (sv_coordinator sv)))) (length (HealthyNodes (mc_metadata (sv_coordinator sv)))) \<and>
    version_at (mc_metadata (sv_coordinator sv2)) key = Some (fm_Version f, published f) \<and>
    (\<forall>n \<in> set rs. (\<exists>x. replica_at (mc_metadata (sv_coordinator sv2)) key n = Some x \<and> rm_State x = ReplicaHealthy) \<and>
       stageReplica H te OS n f (sv_objects sv2) = Inr data)"
proof -
  let ?c = "sv_coordinator sv" and ?M = "chunk_manifest H data"
  let ?m = "mc_metadata ?c" let ?v = "NextVersion key ?m"
  obtain n rs tasks s1 where n: "n \<in> set rs" and rs: "distinct rs"
      "length rs = min (nat (rp_ReplicaCount (mc_planner ?c))) (length (HealthyNodes ?m))"
      "set rs \<subseteq> nm_ID ` set (HealthyNodes ?m)"
    and tasks: "TasksForFile (fst (BeginFileVersion key (int (length data)) (H data) ?M n rs ?m)) (ms_now ?m) = Inr tasks"
    and put: "Put H te MemoryMetadataBackend MemoryTaskQueue OS key r sv =
      (let b = BeginFileVersion key (int (length data)) (H data) ?M n rs ?m
       in (Inr (fst b), \<lparr>sv_coordinator = ?c\<lparr>mc_metadata := snd b,
              mc_tasks := Enqueue tasks (mc_tasks ?c)\<rparr>, sv_objects = s1\<rparr>))"
    and inv: "oinv s1"
    and new: "\<And>c. c \<in> set ?M \<Longrightarrow> content s1 (chunk_id n key ?v c) = Some (chunk_range data c)"
    by (rule Put_run [OF assms(1-7)]) blast
  define f where "f = fst (BeginFileVersion key (int (length data)) (H data) ?M n rs ?m)"
  have res: "res = Inr f" and sv1: "sv1 = \<lparr>sv_coordinator = ?c\<lparr>mc_metadata :=
      snd (BeginFileVersion key (int (length data)) (H data) ?M n rs ?m),
      mc_tasks := Enqueue tasks (mc_tasks ?c)\<rparr>, sv_objects = s1\<rparr>"
    using assms(11) put by (auto simp: Let_def f_def)
  have f: "fm_Key f = key" "fm_Version f = ?v" "fm_Chunks f = ?M" "fm_Size f = int (length data)" "fm_Checksum f = H data"
    using BeginFileVersion_result(5,6) [of key "int (length data)" "H data" ?M n rs ?m, folded f_def]
    by (simp_all add: published_def)
  note nt = new_version_tasks [OF f_def tasks [folded f_def]]
  have "gm_get (mq_tasks (mc_tasks ?c)) (rt_ID t) = None \<and> rt_State t = ReplicationTaskPending \<and> rt_RunAfter t = 0"
    if "t \<in> set tasks" for t
    using nt(1) [OF that] fresh f by (metis newReplicationTask_sel)
  from Pending_Enqueue [OF assms(8,9) nt(3) this]
  have pend: "set (Pending (mc_tasks (sv_coordinator sv1))) = set tasks" by (simp add: sv1)
  have ok: "okid (chunk_id x key (fm_Version f) c)" if "x \<in> set rs" "c \<in> set ?M" for x c
    using assms(7) rs(3) that by (auto simp: put_names_ok_def f)
  obtain sv2 where loop: "replicationLoop H MemoryMetadataBackend MemoryTaskQueue OS sv1 = Some (ErrNoPendingTasks, sv2)"
      "oinv (sv_objects sv2)" "version_at (mc_metadata (sv_coordinator sv2)) key = Some (fm_Version f, published f)"
    and node: "\<And>x. x \<in> set rs \<Longrightarrow> (\<exists>y. replica_at (mc_metadata (sv_coordinator sv2)) key x = Some y \<and> rm_State y = ReplicaHealthy) \<and>
       (\<forall>c \<in> set ?M. content (sv_objects sv2) (chunk_id x key (fm_Version f) c) = Some (chunk_range data c))"
    using replicate_new_version [OF f_def _ tasks [folded f_def] _ _ pend n ok] inv new assms(8)
    by (auto simp: sv1 wf_Enqueue f)
  have "stageReplica H te OS x f (sv_objects sv2) = Inr data" if "x \<in> set rs" for x
    using node [OF that] ok [OF that] by (intro stageReplica_manifest loop(2) assms(5)) (simp_all add: f)
  then show ?thesis using res f(2) loop rs node by blast
qed

end

text \<open>
  C3. One run of the copy loop after a \<open>PUT\<close> brings the file to all its replicas. For a manager
  over a storage cluster whose network and disks have no faults, with no task waiting: after
  \<open>Put\<close> the loop runs until no task is pending; then the new version has as many replicas as are
  configured, or as there are healthy nodes if these are fewer, on distinct healthy nodes; each
  of them is recorded as healthy, and from each of them alone the exact content can be read back.
\<close>

theorem put_reaches_every_replica:
  fixes sv :: "file_system HTTPObjectStore memory_service"
  assumes "wf_metadata (mc_metadata (sv_coordinator sv))"
    and "0 < rp_ReplicaCount (mc_planner (sv_coordinator sv))"
    and "HealthyNodes (mc_metadata (sv_coordinator sv)) \<noteq> []"
    and "storage_cluster N D st Dg K (sv_objects sv)" and "cluster_fault_free (sv_objects sv)"
    and "temp_ok te" and "drain (rd_reads r) = (data, None)"
    and "put_names_ok (cluster_ok N D st Dg K) (mc_metadata (sv_coordinator sv)) key (chunk_manifest H data)"
    and "wf_queue (mc_tasks (sv_coordinator sv))" and "Pending (mc_tasks (sv_coordinator sv)) = []"
    and "\<And>src tgt. gm_get (mq_tasks (mc_tasks (sv_coordinator sv)))
          (replicationTaskID key (NextVersion key (mc_metadata (sv_coordinator sv))) src tgt) = None"
    and "Put H te MemoryMetadataBackend MemoryTaskQueue HttpObjects key r sv = (res, sv1)"
  shows "\<exists>f sv2 rs. res = Inr f \<and> fm_Version f = NextVersion key (mc_metadata (sv_coordinator sv)) \<and>
    replicationLoop H MemoryMetadataBackend MemoryTaskQueue HttpObjects sv1 = Some (ErrNoPendingTasks, sv2) \<and>
    distinct rs \<and> set rs \<subseteq> nm_ID ` set (HealthyNodes (mc_metadata (sv_coordinator sv))) \<and>
    length rs = min (nat (rp_ReplicaCount (mc_planner (sv_coordinator sv)))) (length (HealthyNodes (mc_metadata (sv_coordinator sv)))) \<and>
    version_at (mc_metadata (sv_coordinator sv2)) key = Some (fm_Version f, published f) \<and>
    (\<forall>n \<in> set rs. (\<exists>x. replica_at (mc_metadata (sv_coordinator sv2)) key n = Some x \<and> rm_State x = ReplicaHealthy) \<and>
       stageReplica H te HttpObjects n f (sv_objects sv2) = Inr data)"
  by (rule http_reliable.Put_replicated [OF assms(1-3) storage_cluster_reliable [OF assms(4,5)] assms(6-12)])

lemma demo_manager_queue:
  "wf_queue (mc_tasks (sv_coordinator (mh_service demo_manager)))"
  "mq_tasks (mc_tasks (sv_coordinator (mh_service demo_manager))) = []"
  "Pending (mc_tasks (sv_coordinator (mh_service demo_manager))) = []"
  "rp_ReplicaCount (mc_planner (sv_coordinator (mh_service demo_manager))) = 2"
  using demo_wf(2) by (simp_all add: demo_manager_def NewManagerHTTPHandler_def
        NewManagedFileServiceWithMetadataAndQueue_def NewMetadataCoordinatorWithBackendAndQueue_def
        demo_coordinator_eq Pending_def sortReplicationTasks_def gm_vals_def NewReplicationPlanner_def)

theorem put_reaches_every_replica_witness:
  "\<exists>f sv1 sv2 rs. Put (\<lambda>b. ''h'') demo_temp MemoryMetadataBackend MemoryTaskQueue HttpObjects ''k''
       (bytes_reader [1, 2, 3]) (mh_service demo_manager) = (Inr f, sv1) \<and>
     replicationLoop (\<lambda>b. ''h'') MemoryMetadataBackend MemoryTaskQueue HttpObjects sv1 = Some (ErrNoPendingTasks, sv2) \<and>
     length rs = 2 \<and> distinct rs \<and> (\<forall>n \<in> set rs. stageReplica (\<lambda>b. ''h'') demo_temp HttpObjects n f (sv_objects sv2) = Inr [1, 2, 3])"
proof -
  obtain res sv1 where run: "Put (\<lambda>b. ''h'') demo_temp MemoryMetadataBackend MemoryTaskQueue HttpObjects ''k''
       (bytes_reader [1, 2, 3]) (mh_service demo_manager) = (res, sv1)" by fastforce
  have two: "length (HealthyNodes (mc_metadata (sv_coordinator (mh_service demo_manager)))) = 2"
    by (simp add: demo_manager_def NewManagerHTTPHandler_def NewManagedFileServiceWithMetadataAndQueue_def
        NewMetadataCoordinatorWithBackendAndQueue_def demo_coordinator_eq HealthyNodes_def gm_vals_def)
  note cl = demo_cluster [folded demo_manager_facts(4)]
  have fresh: "gm_get (mq_tasks (mc_tasks (sv_coordinator (mh_service demo_manager)))) i = None" for i
    by (simp add: demo_manager_queue(2))
  from put_reaches_every_replica [OF demo_manager_facts(1-3) cl demo_service_facts(6) bytes_reader_sel(1)
      demo_manager_facts(5) demo_manager_queue(1,3) fresh run] run two
  show ?thesis unfolding demo_manager_queue(4) two by (elim exE conjE) (intro exI conjI, auto)
qed

end
