(* ===== verification/Bolt_Tables.thy ===== *)
theory Bolt_Tables
  imports Json_Codec
begin

text \<open>
  What \<open>metadata_disk.go\<close> and \<open>replication_disk.go\<close> of \<open>src/distributed-fs\<close> use of the
  embedded database bbolt, and the tables they keep in it.

  bbolt is not part of the repository: the record \<open>boltDB\<close> holds the calls the code makes, and
  \<open>bolt_laws\<close> states what its documentation promises of them: a transaction sees the
  committed buckets; a commit that succeeds makes exactly the transaction's buckets the new
  content, and one that fails changes nothing. \<open>bolt_Update\<close> and \<open>bolt_View\<close> run a closure:
  a closure that returns an error rolls back. The documentation leaves undefined what a scan
  does once its closure has modified the bucket; that is a field of the record
  (\<open>bolt_ForEach_modified\<close>) about which \<open>bolt_laws\<close> says nothing, so no lemma depends on it.

  A table is a bucket of JSON documents of one record type. The locale \<open>codec\<close> is the contract
  of an encoder and decoder, and holds the lemmas on tables once for nodes, files and tasks.
\<close>

section \<open>The database\<close>

type_synonym bucket = "json gomap"
type_synonym buckets = "bucket gomap"

record 'd boltDB =
  bolt_Open :: "string \<Rightarrow> 'd result"
  bolt_Close :: "'d \<Rightarrow> unit result"
  bolt_begin :: "'d \<Rightarrow> buckets result"
  bolt_commit :: "buckets \<Rightarrow> 'd \<Rightarrow> unit result \<times> 'd"
  bolt_create_error :: "string \<Rightarrow> error option"
  bolt_put_error :: "string \<Rightarrow> json \<Rightarrow> error option"
  bolt_ForEach_modified :: "string \<Rightarrow> bucket \<Rightarrow> ((string \<times> json) list \<times> bucket) result"

text \<open>\<open>db.Update\<close>: the closure's error rolls back; \<open>db.View\<close> never commits.\<close>

definition bolt_Update ::
  "'d boltDB \<Rightarrow> (buckets \<Rightarrow> ('a \<times> buckets) result) \<Rightarrow> 'd \<Rightarrow> 'a result \<times> 'd" where
  "bolt_Update BD f db =
     (case bolt_begin BD db of
        Inl e \<Rightarrow> (Inl e, db)
      | Inr tx \<Rightarrow>
          (case f tx of
             Inl e \<Rightarrow> (Inl e, db)
           | Inr (v, tx') \<Rightarrow>
               (let (r, db') = bolt_commit BD tx' db in (bind_result r (\<lambda>_. Inr v), db'))))"

definition bolt_View :: "'d boltDB \<Rightarrow> (buckets \<Rightarrow> 'a result) \<Rightarrow> 'd \<Rightarrow> 'a result" where
  "bolt_View BD f db = bind_result (bolt_begin BD db) f"

definition bolt_laws :: "'d boltDB \<Rightarrow> ('d \<Rightarrow> buckets) \<Rightarrow> bool" where
  "bolt_laws BD content \<longleftrightarrow>
     (\<forall>db. read_ok (bolt_begin BD db) (content db)) \<and>
     (\<forall>tx db. case bolt_commit BD tx db of
        (Inr _, db') \<Rightarrow> content db' = tx
      | (Inl e, db') \<Rightarrow> io_error e \<and> content db' = content db) \<and>
     (\<forall>name e. bolt_create_error BD name = Some e \<longrightarrow> io_error e) \<and>
     (\<forall>key v e. bolt_put_error BD key v = Some e \<longrightarrow> io_error e)"

text \<open>\<open>tx.Bucket\<close> gives nil for an unknown bucket, and every method of it then panics.\<close>

definition tx_Bucket :: "buckets \<Rightarrow> string \<Rightarrow> bucket result" where
  "tx_Bucket tx name =
     (case gm_get tx name of
        None \<Rightarrow> Inl (Panic ''runtime error: invalid memory address or nil pointer dereference'')
      | Some b \<Rightarrow> Inr b)"

text \<open>A closure that works on one bucket: the bucket it leaves is part of the transaction.\<close>

definition in_bucket ::
  "string \<Rightarrow> (bucket \<Rightarrow> ('a \<times> bucket) result) \<Rightarrow> buckets \<Rightarrow> ('a \<times> buckets) result" where
  "in_bucket name f tx =
     bind_result (tx_Bucket tx name) (\<lambda>b.
     bind_result (f b) (\<lambda>(v, b'). Inr (v, gm_put name b' tx)))"

definition CreateBucketIfNotExists :: "'d boltDB \<Rightarrow> string \<Rightarrow> buckets \<Rightarrow> buckets result" where
  "CreateBucketIfNotExists BD name tx =
     (case bolt_create_error BD name of
        Some e \<Rightarrow> Inl e
      | None \<Rightarrow> Inr (if gm_get tx name = None then gm_put name [] tx else tx))"

definition bucket_Put :: "'d boltDB \<Rightarrow> bucket \<Rightarrow> string \<Rightarrow> json \<Rightarrow> bucket result" where
  "bucket_Put BD b key v =
     (case bolt_put_error BD key v of Some e \<Rightarrow> Inl e | None \<Rightarrow> Inr (gm_put key v b))"

text \<open>
  \<open>b.ForEach\<close> with a closure that leaves the bucket alone: it runs once per entry and the
  first error ends the scan. \<open>'s\<close> is what the closure changes, a slice or a count. bbolt visits
  the entries in byte order of their keys; the callers sort or count what they collect, so the
  order of the list, which stands for it here, does not matter.
\<close>

fun bucket_ForEach :: "(string \<Rightarrow> json \<Rightarrow> 's \<Rightarrow> 's result) \<Rightarrow> bucket \<Rightarrow> 's \<Rightarrow> 's result" where
  "bucket_ForEach f [] s = Inr s"
| "bucket_ForEach f ((k, v) # entries) s = bind_result (f k v s) (bucket_ForEach f entries)"

text \<open>
  \<open>b.ForEach\<close> with a closure that may put a value into the bucket it is called on, which it
  answers with the bucket after the put. bbolt documents the scan for as long as the bucket is
  not modified. What follows the first put is undefined: the field \<open>bolt_ForEach_modified\<close>
  gives, for the key and the bucket of that put, either an error, or the entries the scan goes
  on to visit, whatever they are, and the content the bucket has at the end. The closure runs
  on those entries, and an error of it still ends the scan.
\<close>

fun bucket_ForEach_Put ::
  "'d boltDB \<Rightarrow> (string \<Rightarrow> json \<Rightarrow> 's \<Rightarrow> bucket \<Rightarrow> ('s \<times> bucket option) result)
    \<Rightarrow> (string \<times> json) list \<Rightarrow> 's \<Rightarrow> bucket \<Rightarrow> ('s \<times> bucket) result" where
  "bucket_ForEach_Put BD f [] s b = Inr (s, b)"
| "bucket_ForEach_Put BD f ((k, v) # entries) s b =
     bind_result (f k v s b) (\<lambda>(s', modified).
       case modified of
         None \<Rightarrow> bucket_ForEach_Put BD f entries s' b
       | Some b' \<Rightarrow>
           bind_result (bolt_ForEach_modified BD k b') (\<lambda>(visited, last).
           bind_result (bucket_ForEach (\<lambda>k v s. bind_result (f k v s last) (\<lambda>(s', _). Inr s')) visited s')
             (\<lambda>s''. Inr (s'', last))))"

lemma tx_Bucket_Some [simp]: "gm_get tx name = Some b \<Longrightarrow> tx_Bucket tx name = Inr b"
  by (simp add: tx_Bucket_def)

lemma bolt_lawsD:
  assumes "bolt_laws BD content"
  shows "read_ok (bolt_begin BD db) (content db)"
    and "bolt_commit BD tx db = (Inr u, db') \<Longrightarrow> content db' = tx"
    and "bolt_commit BD tx db = (Inl e, db') \<Longrightarrow> io_error e \<and> content db' = content db"
    and "bolt_create_error BD name = Some e \<Longrightarrow> io_error e"
    and "bolt_put_error BD key v = Some e \<Longrightarrow> io_error e"
proof -
  have commit: "case bolt_commit BD tx db of (Inr _, db') \<Rightarrow> content db' = tx
      | (Inl e, db') \<Rightarrow> io_error e \<and> content db' = content db"
    using assms by (simp only: bolt_laws_def)
  show "bolt_commit BD tx db = (Inr u, db') \<Longrightarrow> content db' = tx"
    and "bolt_commit BD tx db = (Inl e, db') \<Longrightarrow> io_error e \<and> content db' = content db"
    using commit by simp_all
qed (use assms in \<open>auto simp: bolt_laws_def\<close>)

lemma bolt_View_cases [case_names Value Failure]:
  assumes "bolt_laws BD content"
  obtains (Value) "bolt_View BD f db = f (content db)"
    | (Failure) e where "bolt_View BD f db = Inl e" and "io_error e"
  using bolt_lawsD(1) [OF assms, of db] by (cases rule: read_okE) (auto simp: bolt_View_def intro: that)

text \<open>An update commits what the closure built, or the content is what it was.\<close>

lemma bolt_Update_cases [case_names Commit Refused Failure]:
  assumes "bolt_laws BD content"
  obtains (Commit) v tx db' where "f (content db) = Inr (v, tx)" and "bolt_Update BD f db = (Inr v, db')"
      and "content db' = tx"
    | (Refused) e where "f (content db) = Inl e" and "bolt_Update BD f db = (Inl e, db)"
    | (Failure) e db' where "bolt_Update BD f db = (Inl e, db')" and "io_error e"
      and "content db' = content db"
proof (cases "bolt_begin BD db")
  case (Inl e)
  with bolt_lawsD(1) [OF assms, of db] have "io_error e" by (simp add: read_ok_def)
  with Inl show ?thesis by (intro Failure [of e db]) (auto simp: bolt_Update_def)
next
  case (Inr tx)
  with bolt_lawsD(1) [OF assms, of db] have tx: "tx = content db" by simp
  show ?thesis
  proof (cases "f tx")
    case (Inl e)
    with Inr tx show ?thesis by (intro Refused [of e]) (auto simp: bolt_Update_def)
  next
    case fine: (Inr w)
    obtain v tx' where w: "w = (v, tx')" by (cases w)
    obtain r db' where c: "bolt_commit BD tx' db = (r, db')" by (cases "bolt_commit BD tx' db")
    with Inr tx fine w c show ?thesis
      using bolt_lawsD(2,3) [OF assms, of tx' db]
      by (cases r) (auto simp: bolt_Update_def intro: Commit Failure)
  qed
qed

text \<open>
  Two facts that hold whatever the closure does to its bucket: the other buckets stay, and an
  update that answers an error has changed nothing.
\<close>

lemma bolt_Update_frame:
  assumes "bolt_laws BD content" and "name' \<noteq> name"
  shows "gm_get (content (snd (bolt_Update BD (in_bucket name f) db))) name' = gm_get (content db) name'"
  using assms(1)
proof (cases rule: bolt_Update_cases [where f = "in_bucket name f" and db = db])
  case (Commit v tx db')
  then obtain b where "gm_put name b (content db) = content db'"
    by (auto simp: in_bucket_def bind_result_eq_Inr)
  then have "gm_get (content db') name' = gm_get (gm_put name b (content db)) name'" by simp
  with Commit assms(2) show ?thesis by simp
qed simp_all

lemma bolt_Update_rollback:
  assumes "bolt_laws BD content" and "fst (bolt_Update BD f db) = Inl e"
  shows "content (snd (bolt_Update BD f db)) = content db"
  using assms(1) by (cases rule: bolt_Update_cases [where f = f and db = db]) (use assms(2) in auto)

definition bucket_of :: "buckets \<Rightarrow> string \<Rightarrow> bucket" where
  "bucket_of tx name = (case gm_get tx name of None \<Rightarrow> [] | Some b \<Rightarrow> b)"

lemma bucket_of_Some [simp]: "gm_get tx name = Some b \<Longrightarrow> bucket_of tx name = b"
  by (simp add: bucket_of_def)

lemma bucket_of_put [simp]: "bucket_of (gm_put name b tx) name' = (if name' = name then b else bucket_of tx name')"
  by (simp add: bucket_of_def)

lemma fold_snoc:
  "fold (\<lambda>v s. s @ [g v]) vs s = s @ map g vs" "fold (\<lambda>v s. s @ [v]) vs s = s @ vs"
  by (induction vs arbitrary: s) auto

lemma read_ok_bind: "read_ok r v \<Longrightarrow> read_ok (bind_result r (\<lambda>x. Inr (g x))) (g v)"
  by (auto simp: read_ok_def)

lemma bolt_View_reads: "bolt_laws BD content \<Longrightarrow> f (content db) = Inr v \<Longrightarrow> read_ok (bolt_View BD f db) v"
  using bolt_lawsD(1) [of BD content db] by (auto simp: bolt_View_def read_ok_def)

lemma CreateBucketIfNotExists_bucket_of:
  assumes "CreateBucketIfNotExists BD name tx = Inr tx'"
  shows "bucket_of tx' n = bucket_of tx n \<and> gm_get tx' name \<noteq> None \<and>
         (gm_get tx n \<noteq> None \<longrightarrow> gm_get tx' n \<noteq> None)"
  using assms by (auto simp: CreateBucketIfNotExists_def bucket_of_def split: option.splits if_splits)

text \<open>A database in memory that never fails, for the witnesses.\<close>

definition demo_bolt :: "buckets boltDB" where
  "demo_bolt = \<lparr>bolt_Open = (\<lambda>_. Inr []), bolt_Close = (\<lambda>_. Inr ()), bolt_begin = Inr,
     bolt_commit = (\<lambda>tx _. (Inr (), tx)), bolt_create_error = (\<lambda>_. None), bolt_put_error = (\<lambda>_ _. None),
     bolt_ForEach_modified = (\<lambda>_ b. Inr ([], b))\<rparr>"

lemma demo_bolt_laws [simp]: "bolt_laws demo_bolt (\<lambda>db. db)"
  by (simp add: bolt_laws_def demo_bolt_def)

section \<open>Tables\<close>

definition table :: "(json \<Rightarrow> 'a result) \<Rightarrow> bucket \<Rightarrow> 'a gomap" where
  "table decode b = map (\<lambda>(k, j). (k, projr (decode j))) b"

definition table_ok :: "(json \<Rightarrow> 'a result) \<Rightarrow> ('a \<Rightarrow> bool) \<Rightarrow> bucket \<Rightarrow> bool" where
  "table_ok decode good b \<longleftrightarrow> gm_wf b \<and>
     list_all (\<lambda>(k, j). case decode j of Inl _ \<Rightarrow> False | Inr v \<Rightarrow> good v) b"

text \<open>The write both files use: encode, then put.\<close>

definition put_json :: "'d boltDB \<Rightarrow> ('a \<Rightarrow> json result) \<Rightarrow> bucket \<Rightarrow> string \<Rightarrow> 'a \<Rightarrow> bucket result" where
  "put_json BD encode b key v = bind_result (encode v) (bucket_Put BD b key)"

locale codec =
  fixes encode :: "'a \<Rightarrow> json result" and decode :: "json \<Rightarrow> 'a result" and good :: "'a \<Rightarrow> bool"
  assumes round_trip: "good v \<Longrightarrow> encode v = Inr j \<Longrightarrow> decode j = Inr v"
    and encode_error: "encode v = Inl e \<Longrightarrow> io_error e"
begin

lemma table_get: "gm_get (table decode b) k = map_option (\<lambda>j. projr (decode j)) (gm_get b k)"
  by (induction b) (auto simp: table_def)

lemma table_get_None: "table_ok decode good b \<Longrightarrow> gm_get b k = None \<Longrightarrow> gm_get (table decode b) k = None"
  by (simp add: table_get)

lemma table_get_Some:
  assumes "table_ok decode good b" and "gm_get b k = Some j"
  obtains v where "decode j = Inr v" and "good v" and "gm_get (table decode b) k = Some v"
proof -
  from assms(2) have "(k, j) \<in> set b" by (rule map_of_SomeD)
  with assms(1) obtain v where "decode j = Inr v" and "good v"
    by (cases "decode j") (auto simp: table_ok_def list_all_iff)
  with assms(2) that show ?thesis by (simp add: table_get)
qed

lemma table_put [simp]: "decode j = Inr v \<Longrightarrow> table decode (gm_put k j b) = gm_put k v (table decode b)"
  by (induction b) (auto simp: table_def)

lemma table_ok_put:
  assumes "table_ok decode good b" and "decode j = Inr v" and "good v"
  shows "table_ok decode good (gm_put k j b)"
proof -
  let ?P = "\<lambda>k j. case decode j of Inl _ \<Rightarrow> False | Inr v \<Rightarrow> good v"
  from assms(1) have "gm_wf b" and "gm_all ?P b" by (auto simp: table_ok_def gm_all_def list_all_iff)
  with assms(2,3) have "gm_wf (gm_put k j b)" and "gm_all ?P (gm_put k j b)" by auto
  then show ?thesis by (auto simp: table_ok_def gm_all_def list_all_iff)
qed

text \<open>Storing a record that JSON represents: the table gets the record, or there is an error below.\<close>

lemma put_json_cases [case_names Stored Failure]:
  assumes "bolt_laws BD content" and "good v"
  obtains (Stored) j where "put_json BD encode b k v = Inr (gm_put k j b)" and "decode j = Inr v"
    | (Failure) e where "put_json BD encode b k v = Inl e" and "io_error e"
proof (cases "encode v")
  case (Inl e)
  then show ?thesis by (intro Failure [of e]) (auto simp: put_json_def encode_error)
next
  case (Inr j)
  with round_trip [OF assms(2)] have "decode j = Inr v" by simp
  with Inr assms(1) show ?thesis
    by (cases "bolt_put_error BD k j")
      (auto simp: put_json_def bucket_Put_def intro: Stored Failure dest: bolt_lawsD(5))
qed

text \<open>A scan that decodes every entry and folds the records.\<close>

lemma foreach_decode:
  assumes "table_ok decode good b"
  shows "bucket_ForEach (\<lambda>_ j s. bind_result (decode j) (\<lambda>v. Inr (g v s))) b s =
           Inr (fold g (gm_vals (table decode b)) s)"
  using assms
proof (induction b arbitrary: s)
  case Nil
  then show ?case by (simp add: table_def gm_vals_def)
next
  case (Cons entry b)
  obtain k j where e: "entry = (k, j)" by (cases entry)
  with Cons.prems obtain v where "decode j = Inr v" by (auto simp: table_ok_def split: sum.splits)
  moreover from Cons.prems have "table_ok decode good b" by (simp add: table_ok_def gm_wf_def)
  ultimately show ?case using Cons.IH e by (simp add: table_def gm_vals_def)
qed

text \<open>
  A scan whose test picks no record puts nothing: it ends with the slice and the bucket it
  began with, whatever bbolt does with a modified bucket.
\<close>

lemma foreach_none_picked:
  assumes "table_ok decode good b" and "list_all (\<lambda>(_, v). \<not> P v) (table decode b)"
  shows "bucket_ForEach_Put BD
      (\<lambda>k j s b. bind_result (decode j) (\<lambda>v. if P v then g k v s b else Inr (s, None))) b s b' = Inr (s, b')"
  using assms
proof (induction b)
  case Nil
  then show ?case by simp
next
  case (Cons entry b)
  obtain k j where e: "entry = (k, j)" by (cases entry)
  with Cons.prems(1) obtain v where "decode j = Inr v" by (auto simp: table_ok_def split: sum.splits)
  moreover from Cons.prems(1) have "table_ok decode good b" by (simp add: table_ok_def gm_wf_def)
  ultimately show ?case using Cons e by (simp add: table_def)
qed

end

section \<open>The codecs of the three record types\<close>

definition good_file :: "FileMetadata \<Rightarrow> bool" where
  "good_file f \<longleftrightarrow> safe_file f \<and> gm_wf (fm_Replicas f)"

lemma enc_time_error: "enc_time t = Inl e \<Longrightarrow> io_error e"
  by (auto simp: enc_time_def io_error_def split: if_splits)

lemma map_result_error: "map_result f xs = Inl e \<Longrightarrow> (\<And>x. x \<in> set xs \<Longrightarrow> f x = Inl e \<Longrightarrow> io_error e) \<Longrightarrow> io_error e"
  by (induction xs) (auto simp: bind_result_eq_Inl)

lemma enc_Replicas_error: "enc_Replicas m = Inl e \<Longrightarrow> io_error e"
  by (auto simp: enc_Replicas_def enc_ReplicaMetadata_def bind_result_eq_Inl dest: enc_time_error
      elim!: map_result_error)

interpretation node_codec: codec enc_NodeMetadata dec_NodeMetadata safe_node
  by unfold_locales
    (auto simp: enc_NodeMetadata_def bind_result_eq_Inl intro: node_round_trip dest: enc_time_error)

interpretation file_codec: codec enc_FileMetadata dec_FileMetadata good_file
  by unfold_locales
    (auto simp: enc_FileMetadata_def good_file_def bind_result_eq_Inl intro: file_round_trip
      dest: enc_time_error enc_Replicas_error)

interpretation task_codec: codec enc_ReplicationTask dec_ReplicationTask safe_task
  by unfold_locales
    (auto simp: enc_ReplicationTask_def bind_result_eq_Inl intro: task_round_trip dest: enc_time_error)

end
