(* ===== verification/Metadata_Disk.thy ===== *)
theory Metadata_Disk
  imports Bolt_Tables Metadata_Backend
begin

text \<open>
  The metadata store on disk, \<open>src/distributed-fs/metadata_disk.go\<close>: one definition per method
  of \<open>DiskMetadataStore\<close>, over any database that meets \<open>bolt_laws\<close>.

  Shown here: opening creates the two buckets and keeps what is in them; every method does what
  the in-memory store does on the table of decoded records, or reports an error of the layers
  below and leaves the store as it was. The interpretation \<open>disk_metadata\<close> of the locale
  \<open>metadata_backend\<close> says so for all methods at once, for strings that are UTF-8: JSON replaces
  other bytes, and the record read back then differs from the one written.

  \<open>MarkExpiredNodes\<close> puts into the bucket it scans, which bbolt leaves undefined. For it the
  refinement holds when no heartbeat is too old, so that nothing is put; in every other case
  only that the files stay and that an error changes nothing.
\<close>

section \<open>Operations\<close>

definition metadataFilesBucket :: string where
  "metadataFilesBucket = ''files''"

definition metadataNodesBucket :: string where
  "metadataNodesBucket = ''nodes''"

record 'd DiskMetadataStore =
  ds_db :: 'd
  ds_now :: instant

definition initMetadataBuckets :: "'d boltDB \<Rightarrow> 'd DiskMetadataStore \<Rightarrow> unit result \<times> 'd DiskMetadataStore" where
  "initMetadataBuckets BD m =
     (let (r, db') = bolt_Update BD
            (\<lambda>tx. bind_result (CreateBucketIfNotExists BD metadataFilesBucket tx) (\<lambda>tx1.
                   bind_result (CreateBucketIfNotExists BD metadataNodesBucket tx1) (\<lambda>tx2.
                   Inr ((), tx2)))) (ds_db m)
      in (r, m\<lparr>ds_db := db'\<rparr>))"

text \<open>If the buckets cannot be made the database is closed, whatever \<open>Close\<close> answers.\<close>

definition OpenDiskMetadataStore :: "'d boltDB \<Rightarrow> instant \<Rightarrow> string \<Rightarrow> 'd DiskMetadataStore result" where
  "OpenDiskMetadataStore BD now path =
     bind_result (bolt_Open BD path) (\<lambda>db.
       let (r, store) = initMetadataBuckets BD \<lparr>ds_db = db, ds_now = now\<rparr>
       in bind_result r (\<lambda>_. Inr store))"

definition Disk_Close :: "'d boltDB \<Rightarrow> 'd DiskMetadataStore \<Rightarrow> unit result" where
  "Disk_Close BD m = bolt_Close BD (ds_db m)"

definition getFileFromBucket :: "bucket \<Rightarrow> string \<Rightarrow> FileMetadata option result" where
  "getFileFromBucket b key =
     (case gm_get b key of
        None \<Rightarrow> Inr None
      | Some raw \<Rightarrow> bind_result (dec_FileMetadata raw) (\<lambda>meta. Inr (Some meta)))"

definition putMetadataJSON ::
  "'d boltDB \<Rightarrow> ('v \<Rightarrow> json result) \<Rightarrow> bucket \<Rightarrow> string \<Rightarrow> 'v \<Rightarrow> bucket result" where
  "putMetadataJSON BD marshal b key v = put_json BD marshal b key v"

text \<open>\<open>m.db.Update\<close> with a closure on one bucket.\<close>

definition disk_update ::
  "'d boltDB \<Rightarrow> string \<Rightarrow> (bucket \<Rightarrow> ('a \<times> bucket) result) \<Rightarrow> 'd DiskMetadataStore
    \<Rightarrow> 'a result \<times> 'd DiskMetadataStore" where
  "disk_update BD name f m =
     (let (r, db') = bolt_Update BD (in_bucket name f) (ds_db m) in (r, m\<lparr>ds_db := db'\<rparr>))"

definition Disk_UpsertNode ::
  "'d boltDB \<Rightarrow> string \<Rightarrow> string \<Rightarrow> 'd DiskMetadataStore \<Rightarrow> NodeMetadata result \<times> 'd DiskMetadataStore" where
  "Disk_UpsertNode BD nid addr m =
     (let node = \<lparr>nm_ID = nid, nm_Addr = addr, nm_State = NodeHealthy, nm_LastHeartbeat = ds_now m\<rparr>
      in disk_update BD metadataNodesBucket
           (\<lambda>b. bind_result (putMetadataJSON BD enc_NodeMetadata b nid node) (\<lambda>b'. Inr (node, b'))) m)"

definition Disk_MarkExpiredNodes ::
  "'d boltDB \<Rightarrow> duration \<Rightarrow> 'd DiskMetadataStore \<Rightarrow> unit result \<times> 'd DiskMetadataStore" where
  "Disk_MarkExpiredNodes BD ttl m =
     (let cutoff = ds_now m - ttl
      in disk_update BD metadataNodesBucket
           (\<lambda>b. bucket_ForEach_Put BD
              (\<lambda>k v _ b. bind_result (dec_NodeMetadata v) (\<lambda>node.
                 if nm_LastHeartbeat node < cutoff
                 then bind_result (putMetadataJSON BD enc_NodeMetadata b k (node\<lparr>nm_State := NodeDown\<rparr>))
                        (\<lambda>b'. Inr ((), Some b'))
                 else Inr ((), None)))
              b () b) m)"

definition Disk_Nodes :: "'d boltDB \<Rightarrow> 'd DiskMetadataStore \<Rightarrow> NodeMetadata list result" where
  "Disk_Nodes BD m =
     bind_result
       (bolt_View BD
          (\<lambda>tx. bind_result (tx_Bucket tx metadataNodesBucket) (\<lambda>b.
             bucket_ForEach
               (\<lambda>_ v nodes. bind_result (dec_NodeMetadata v) (\<lambda>node. Inr (nodes @ [node]))) b []))
          (ds_db m))
       (\<lambda>nodes. Inr (go_sort (less_by nm_ID) nodes))"

definition Disk_HealthyNodes :: "'d boltDB \<Rightarrow> 'd DiskMetadataStore \<Rightarrow> NodeMetadata list result" where
  "Disk_HealthyNodes BD m =
     bind_result (Disk_Nodes BD m) (\<lambda>all. Inr (filter (\<lambda>node. nm_State node = NodeHealthy) all))"

definition Disk_BeginFileVersion ::
  "'d boltDB \<Rightarrow> string \<Rightarrow> int \<Rightarrow> string \<Rightarrow> ChunkMetadata list \<Rightarrow> string \<Rightarrow> string list
    \<Rightarrow> 'd DiskMetadataStore \<Rightarrow> FileMetadata result \<times> 'd DiskMetadataStore" where
  "Disk_BeginFileVersion BD key sz checksum chunks primary replicas m =
     disk_update BD metadataFilesBucket
       (\<lambda>b. let now = ds_now m in
          bind_result (getFileFromBucket b key) (\<lambda>found.
            let (version, createdAt) =
                  (case found of None \<Rightarrow> (1, now) | Some prev \<Rightarrow> (fm_Version prev + 1, fm_CreatedAt prev));
                meta = \<lparr>fm_Key = key, fm_Version = version, fm_Size = sz, fm_Checksum = checksum,
                        fm_Primary = primary, fm_Deleted = False,
                        fm_Chunks = cloneChunkMetadata chunks,
                        fm_Replicas = initialReplicas primary now replicas,
                        fm_CreatedAt = createdAt, fm_UpdatedAt = now\<rparr>
            in bind_result (putMetadataJSON BD enc_FileMetadata b key meta)
                 (\<lambda>b'. Inr (cloneFileMetadata meta, b')))) m"

definition Disk_NextVersion :: "'d boltDB \<Rightarrow> string \<Rightarrow> 'd DiskMetadataStore \<Rightarrow> uint64 result" where
  "Disk_NextVersion BD key m =
     bolt_View BD
       (\<lambda>tx. bind_result (tx_Bucket tx metadataFilesBucket) (\<lambda>b.
          bind_result (getFileFromBucket b key) (\<lambda>found.
            case found of None \<Rightarrow> Inr 1 | Some meta \<Rightarrow> Inr (fm_Version meta + 1))))
       (ds_db m)"

definition Disk_MarkReplica ::
  "'d boltDB \<Rightarrow> string \<Rightarrow> string \<Rightarrow> ReplicaState \<Rightarrow> 'd DiskMetadataStore
    \<Rightarrow> FileMetadata result \<times> 'd DiskMetadataStore" where
  "Disk_MarkReplica BD key nodeID state m =
     disk_update BD metadataFilesBucket
       (\<lambda>b. bind_result (getFileFromBucket b key) (\<lambda>found.
          case found of
            None \<Rightarrow> Inl ErrMetadataNotFound
          | Some meta \<Rightarrow>
              (case gm_get (fm_Replicas meta) nodeID of
                 None \<Rightarrow> Inl ErrReplicaNotFound
               | Some replica \<Rightarrow>
                   (let now = ds_now m;
                        replica' = replica\<lparr>rm_State := state, rm_UpdatedAt := now\<rparr>;
                        meta' = meta\<lparr>fm_Replicas := gm_put nodeID replica' (fm_Replicas meta),
                                     fm_UpdatedAt := now\<rparr>
                    in bind_result (putMetadataJSON BD enc_FileMetadata b key meta')
                         (\<lambda>b'. Inr (cloneFileMetadata meta', b')))))) m"

definition Disk_Tombstone ::
  "'d boltDB \<Rightarrow> string \<Rightarrow> 'd DiskMetadataStore \<Rightarrow> FileMetadata result \<times> 'd DiskMetadataStore" where
  "Disk_Tombstone BD key m =
     disk_update BD metadataFilesBucket
       (\<lambda>b. bind_result (getFileFromBucket b key) (\<lambda>found.
          case found of
            None \<Rightarrow> Inl ErrMetadataNotFound
          | Some meta \<Rightarrow>
              (let now = ds_now m;
                   meta' = meta\<lparr>fm_Version := fm_Version meta + 1, fm_Deleted := True, fm_UpdatedAt := now,
                                fm_Replicas := gm_update_all
                                  (\<lambda>_ replica. replica\<lparr>rm_State := ReplicaDeleted, rm_UpdatedAt := now\<rparr>)
                                  (fm_Replicas meta)\<rparr>
               in bind_result (putMetadataJSON BD enc_FileMetadata b key meta')
                    (\<lambda>b'. Inr (cloneFileMetadata meta', b'))))) m"

definition Disk_GetFile :: "'d boltDB \<Rightarrow> string \<Rightarrow> 'd DiskMetadataStore \<Rightarrow> FileMetadata option result" where
  "Disk_GetFile BD key m =
     bind_result
       (bolt_View BD
          (\<lambda>tx. bind_result (tx_Bucket tx metadataFilesBucket) (\<lambda>b. getFileFromBucket b key)) (ds_db m))
       (\<lambda>found. Inr (map_option cloneFileMetadata found))"

definition Disk_ListFiles :: "'d boltDB \<Rightarrow> 'd DiskMetadataStore \<Rightarrow> FileMetadata list result" where
  "Disk_ListFiles BD m =
     bind_result
       (bolt_View BD
          (\<lambda>tx. bind_result (tx_Bucket tx metadataFilesBucket) (\<lambda>b.
             bucket_ForEach
               (\<lambda>_ v files. bind_result (dec_FileMetadata v) (\<lambda>meta. Inr (files @ [cloneFileMetadata meta])))
               b []))
          (ds_db m))
       (\<lambda>files. Inr (go_sort (less_by fm_Key) files))"

definition Disk_AddReplica ::
  "'d boltDB \<Rightarrow> string \<Rightarrow> string \<Rightarrow> ReplicaState \<Rightarrow> 'd DiskMetadataStore
    \<Rightarrow> FileMetadata result \<times> 'd DiskMetadataStore" where
  "Disk_AddReplica BD key nodeID state m =
     disk_update BD metadataFilesBucket
       (\<lambda>b. bind_result (getFileFromBucket b key) (\<lambda>found.
          case found of
            None \<Rightarrow> Inl ErrMetadataNotFound
          | Some meta \<Rightarrow>
              (let now = ds_now m;
                   meta' = meta\<lparr>fm_Replicas := gm_put nodeID
                                  \<lparr>rm_NodeID = nodeID, rm_State = state, rm_UpdatedAt = now\<rparr>
                                  (fm_Replicas meta),
                                fm_UpdatedAt := now\<rparr>
               in bind_result (putMetadataJSON BD enc_FileMetadata b key meta')
                    (\<lambda>b'. Inr (cloneFileMetadata meta', b'))))) m"

definition Disk_Now :: "'d DiskMetadataStore \<Rightarrow> instant" where
  "Disk_Now m = ds_now m"

definition DiskMetadataBackend :: "'d boltDB \<Rightarrow> 'd DiskMetadataStore MetadataBackend" where
  "DiskMetadataBackend BD =
     \<lparr>mb_UpsertNode = Disk_UpsertNode BD, mb_MarkExpiredNodes = Disk_MarkExpiredNodes BD,
      mb_HealthyNodes = Disk_HealthyNodes BD, mb_Nodes = Disk_Nodes BD,
      mb_BeginFileVersion = Disk_BeginFileVersion BD, mb_NextVersion = Disk_NextVersion BD,
      mb_MarkReplica = Disk_MarkReplica BD, mb_Tombstone = Disk_Tombstone BD,
      mb_GetFile = Disk_GetFile BD, mb_ListFiles = Disk_ListFiles BD,
      mb_AddReplica = Disk_AddReplica BD, mb_Now = Disk_Now\<rparr>"

section \<open>The store a database represents\<close>

definition disk_metadata_abs :: "('d \<Rightarrow> buckets) \<Rightarrow> 'd DiskMetadataStore \<Rightarrow> MetadataStore" where
  "disk_metadata_abs content m =
     \<lparr>ms_files = table dec_FileMetadata (bucket_of (content (ds_db m)) metadataFilesBucket),
      ms_nodes = table dec_NodeMetadata (bucket_of (content (ds_db m)) metadataNodesBucket),
      ms_now = ds_now m\<rparr>"

definition disk_metadata_inv :: "'d boltDB \<Rightarrow> ('d \<Rightarrow> buckets) \<Rightarrow> 'd DiskMetadataStore \<Rightarrow> bool" where
  "disk_metadata_inv BD content m \<longleftrightarrow>
     bolt_laws BD content \<and>
     gm_get (content (ds_db m)) metadataFilesBucket \<noteq> None \<and>
     gm_get (content (ds_db m)) metadataNodesBucket \<noteq> None \<and>
     table_ok dec_FileMetadata good_file (bucket_of (content (ds_db m)) metadataFilesBucket) \<and>
     table_ok dec_NodeMetadata safe_node (bucket_of (content (ds_db m)) metadataNodesBucket) \<and>
     wf_metadata (disk_metadata_abs content m)"

lemma bucket_names [simp]:
  "metadataFilesBucket \<noteq> metadataNodesBucket" "metadataNodesBucket \<noteq> metadataFilesBucket"
  by (simp_all add: metadataFilesBucket_def metadataNodesBucket_def)

lemma disk_metadata_invE:
  assumes "disk_metadata_inv BD content m"
  obtains fb nb where "bolt_laws BD content"
    and "gm_get (content (ds_db m)) metadataFilesBucket = Some fb"
    and "gm_get (content (ds_db m)) metadataNodesBucket = Some nb"
    and "table_ok dec_FileMetadata good_file fb" and "table_ok dec_NodeMetadata safe_node nb"
    and "wf_metadata (disk_metadata_abs content m)"
    and "disk_metadata_abs content m =
           \<lparr>ms_files = table dec_FileMetadata fb, ms_nodes = table dec_NodeMetadata nb, ms_now = ds_now m\<rparr>"
  using assms by (auto simp: disk_metadata_inv_def disk_metadata_abs_def)

section \<open>Every method refines the in-memory method\<close>

text \<open>
  A closure that refuses, and one that ends with storing one record: the two ways in which the
  methods change a bucket.
\<close>

lemma disk_update_refused:
  assumes inv: "disk_metadata_inv BD content m" and b: "gm_get (content (ds_db m)) name = Some b"
    and f: "f b = Inl e" and ref: "ref = (Inl e, disk_metadata_abs content m) \<or> io_error e"
  shows "write_ok (disk_metadata_inv BD content) (disk_metadata_abs content) m (disk_update BD name f m) ref"
proof -
  from inv have laws: "bolt_laws BD content" by (simp add: disk_metadata_inv_def)
  have refuse: "in_bucket name f (content (ds_db m)) = Inl e" using b f by (simp add: in_bucket_def)
  show ?thesis
    using laws
  proof (cases rule: bolt_Update_cases [where f = "in_bucket name f" and db = "ds_db m"])
    case (Commit v tx db')
    with refuse show ?thesis by simp
  next
    case (Refused e')
    with refuse ref inv show ?thesis by (auto simp: disk_update_def write_ok_def)
  next
    case (Failure e' db')
    with inv show ?thesis
      by (auto simp: disk_update_def write_ok_def disk_metadata_inv_def disk_metadata_abs_def)
  qed
qed

lemma disk_update_bucket:
  assumes inv: "disk_metadata_inv BD content m" and b: "gm_get (content (ds_db m)) name = Some b"
    and f: "f b = Inr (v, b')"
    and new: "\<And>db'. content db' = gm_put name b' (content (ds_db m)) \<Longrightarrow>
      disk_metadata_inv BD content (m\<lparr>ds_db := db'\<rparr>) \<and>
      ref = (Inr v, disk_metadata_abs content (m\<lparr>ds_db := db'\<rparr>))"
  shows "write_ok (disk_metadata_inv BD content) (disk_metadata_abs content) m (disk_update BD name f m) ref"
proof -
  from inv have laws: "bolt_laws BD content" by (simp add: disk_metadata_inv_def)
  have run: "in_bucket name f (content (ds_db m)) = Inr (v, gm_put name b' (content (ds_db m)))"
    using b f by (simp add: in_bucket_def)
  show ?thesis
    using laws
  proof (cases rule: bolt_Update_cases [where f = "in_bucket name f" and db = "ds_db m"])
    case (Commit w tx db')
    with run new [of db'] show ?thesis by (auto simp: disk_update_def write_ok_def)
  next
    case (Refused e)
    with run show ?thesis by simp
  next
    case (Failure e db')
    with inv show ?thesis
      by (auto simp: disk_update_def write_ok_def disk_metadata_inv_def disk_metadata_abs_def)
  qed
qed

lemma disk_put_file:
  assumes inv: "disk_metadata_inv BD content m"
    and fb: "gm_get (content (ds_db m)) metadataFilesBucket = Some fb"
    and f: "f fb = bind_result (putMetadataJSON BD enc_FileMetadata fb k meta) (\<lambda>b'. Inr (v, b'))"
    and meta: "safe_file meta" "wf_file meta" "fm_Key meta = k"
    and ref: "ref = (Inr v, (disk_metadata_abs content m)\<lparr>ms_files :=
                gm_put k meta (ms_files (disk_metadata_abs content m))\<rparr>)"
  shows "write_ok (disk_metadata_inv BD content) (disk_metadata_abs content) m
           (disk_update BD metadataFilesBucket f m) ref"
proof -
  from inv have laws: "bolt_laws BD content" by (simp add: disk_metadata_inv_def)
  have good: "good_file meta" using meta by (simp add: good_file_def wf_file_def)
  from laws good show ?thesis
  proof (cases rule: file_codec.put_json_cases [where b = fb and k = k])
    case (Failure e)
    with inv fb f show ?thesis by (intro disk_update_refused) (auto simp: putMetadataJSON_def)
  next
    case (Stored j)
    show ?thesis
      using inv fb
    proof (rule disk_update_bucket)
      show "f fb = Inr (v, gm_put k j fb)" using f Stored by (simp add: putMetadataJSON_def)
      fix db' assume "content db' = gm_put metadataFilesBucket (gm_put k j fb) (content (ds_db m))"
      moreover from this have "disk_metadata_abs content (m\<lparr>ds_db := db'\<rparr>) =
          (disk_metadata_abs content m)\<lparr>ms_files := gm_put k meta (ms_files (disk_metadata_abs content m))\<rparr>"
        using Stored fb by (simp add: disk_metadata_abs_def)
      moreover have "wf_metadata ((disk_metadata_abs content m)\<lparr>ms_files :=
          gm_put k meta (ms_files (disk_metadata_abs content m))\<rparr>)"
        using inv meta by (intro wf_put_file) (auto simp: disk_metadata_inv_def)
      ultimately show "disk_metadata_inv BD content (m\<lparr>ds_db := db'\<rparr>) \<and>
          ref = (Inr v, disk_metadata_abs content (m\<lparr>ds_db := db'\<rparr>))"
        using inv ref fb Stored good by (auto simp: disk_metadata_inv_def intro: file_codec.table_ok_put)
    qed
  qed
qed

lemma disk_put_nodes:
  assumes inv: "disk_metadata_inv BD content m"
    and nb: "gm_get (content (ds_db m)) metadataNodesBucket = Some nb"
    and f: "(\<exists>e. f nb = Inl e \<and> io_error e) \<or>
            (\<exists>b'. f nb = Inr (v, b') \<and> table_ok dec_NodeMetadata safe_node b' \<and>
                  table dec_NodeMetadata b' = ns)"
    and wf: "wf_metadata ((disk_metadata_abs content m)\<lparr>ms_nodes := ns\<rparr>)"
    and ref: "ref = (Inr v, (disk_metadata_abs content m)\<lparr>ms_nodes := ns\<rparr>)"
  shows "write_ok (disk_metadata_inv BD content) (disk_metadata_abs content) m
           (disk_update BD metadataNodesBucket f m) ref"
  using f
proof
  assume "\<exists>e. f nb = Inl e \<and> io_error e"
  with inv nb show ?thesis by (auto intro: disk_update_refused)
next
  assume "\<exists>b'. f nb = Inr (v, b') \<and> table_ok dec_NodeMetadata safe_node b' \<and> table dec_NodeMetadata b' = ns"
  then obtain b' where b': "f nb = Inr (v, b')" "table_ok dec_NodeMetadata safe_node b'"
    "table dec_NodeMetadata b' = ns" by blast
  show ?thesis
    using inv nb b'(1)
  proof (rule disk_update_bucket)
    fix db' assume "content db' = gm_put metadataNodesBucket b' (content (ds_db m))"
    moreover from this have "disk_metadata_abs content (m\<lparr>ds_db := db'\<rparr>) =
        (disk_metadata_abs content m)\<lparr>ms_nodes := ns\<rparr>"
      using b' by (simp add: disk_metadata_abs_def)
    ultimately show "disk_metadata_inv BD content (m\<lparr>ds_db := db'\<rparr>) \<and>
        ref = (Inr v, disk_metadata_abs content (m\<lparr>ds_db := db'\<rparr>))"
      using inv ref wf b' nb by (auto simp: disk_metadata_inv_def)
  qed
qed

text \<open>Reading one record.\<close>

lemma getFileFromBucket_table:
  assumes "table_ok dec_FileMetadata good_file fb"
  shows "getFileFromBucket fb k = Inr (gm_get (table dec_FileMetadata fb) k)"
  using assms
  by (cases "gm_get fb k")
    (auto simp: getFileFromBucket_def file_codec.table_get_None elim: file_codec.table_get_Some)

lemma table_file_good:
  assumes "table_ok dec_FileMetadata good_file fb" and "gm_get (table dec_FileMetadata fb) k = Some f"
  shows "safe_file f"
proof (cases "gm_get fb k")
  case None
  with assms show ?thesis by (simp add: file_codec.table_get_None)
next
  case (Some j)
  from assms(1) Some obtain v where "good_file v" "gm_get (table dec_FileMetadata fb) k = Some v"
    by (rule file_codec.table_get_Some)
  with assms(2) show ?thesis by (simp add: good_file_def)
qed

lemma Disk_UpsertNode_refines:
  assumes inv: "disk_metadata_inv BD content m" and ok: "safe_str nid" "safe_str addr"
  shows "write_ok (disk_metadata_inv BD content) (disk_metadata_abs content) m (Disk_UpsertNode BD nid addr m)
           (mb_UpsertNode MemoryMetadataBackend nid addr (disk_metadata_abs content m))"
proof -
  define node where "node = \<lparr>nm_ID = nid, nm_Addr = addr, nm_State = NodeHealthy, nm_LastHeartbeat = ds_now m\<rparr>"
  from inv obtain nb where laws: "bolt_laws BD content"
    and nb: "gm_get (content (ds_db m)) metadataNodesBucket = Some nb"
    and nok: "table_ok dec_NodeMetadata safe_node nb" and wf: "wf_metadata (disk_metadata_abs content m)"
    and a: "ms_nodes (disk_metadata_abs content m) = table dec_NodeMetadata nb"
      "ms_now (disk_metadata_abs content m) = ds_now m"
    by (elim disk_metadata_invE) auto
  have safe: "safe_node node" using ok by (simp add: node_def safe_node_def)
  let ?f = "\<lambda>b. bind_result (putMetadataJSON BD enc_NodeMetadata b nid node) (\<lambda>b'. Inr (node, b'))"
  let ?ns = "gm_put nid node (ms_nodes (disk_metadata_abs content m))"
  have f: "(\<exists>e. ?f nb = Inl e \<and> io_error e) \<or> (\<exists>b'. ?f nb = Inr (node, b') \<and>
      table_ok dec_NodeMetadata safe_node b' \<and> table dec_NodeMetadata b' = ?ns)"
    using laws safe
    by (cases rule: node_codec.put_json_cases [where b = nb and k = nid])
      (auto simp: putMetadataJSON_def a safe nok intro: node_codec.table_ok_put)
  have up: "UpsertNode nid addr (disk_metadata_abs content m) =
      (node, (disk_metadata_abs content m)\<lparr>ms_nodes := ?ns\<rparr>)"
    by (simp add: UpsertNode_def node_def a Let_def)
  with wf_UpsertNode [OF wf, of nid addr]
  have "wf_metadata ((disk_metadata_abs content m)\<lparr>ms_nodes := ?ns\<rparr>)" by simp
  from disk_put_nodes [where f = ?f, OF inv nb f this] up show ?thesis
    by (simp add: Disk_UpsertNode_def node_def [symmetric])
qed

lemma Disk_MarkExpiredNodes_refines:
  assumes inv: "disk_metadata_inv BD content m" and none: "none_expired ttl (disk_metadata_abs content m)"
  shows "write_ok (disk_metadata_inv BD content) (disk_metadata_abs content) m (Disk_MarkExpiredNodes BD ttl m)
           (mb_MarkExpiredNodes MemoryMetadataBackend ttl (disk_metadata_abs content m))"
proof -
  from inv obtain nb where nb: "gm_get (content (ds_db m)) metadataNodesBucket = Some nb"
    and nok: "table_ok dec_NodeMetadata safe_node nb" and wf: "wf_metadata (disk_metadata_abs content m)"
    and a: "ms_nodes (disk_metadata_abs content m) = table dec_NodeMetadata nb"
      "ms_now (disk_metadata_abs content m) = ds_now m"
    by (elim disk_metadata_invE) auto
  let ?old = "\<lambda>n. nm_LastHeartbeat n < ds_now m - ttl"
  have "list_all (\<lambda>(_, n). \<not> ?old n) (table dec_NodeMetadata nb)"
    using none by (simp add: none_expired_def a)
  from node_codec.foreach_none_picked [where P = ?old and s = "()" and b' = nb and BD = BD and
      g = "\<lambda>k n s b. bind_result (putMetadataJSON BD enc_NodeMetadata b k (n\<lparr>nm_State := NodeDown\<rparr>)) (\<lambda>b'. Inr ((), Some b'))",
      OF nok this]
  have scan: "bucket_ForEach_Put BD (\<lambda>k v _ b. bind_result (dec_NodeMetadata v) (\<lambda>n.
      if ?old n then bind_result (putMetadataJSON BD enc_NodeMetadata b k (n\<lparr>nm_State := NodeDown\<rparr>)) (\<lambda>b'. Inr ((), Some b'))
      else Inr ((), None))) nb () nb = Inr ((), nb)" by (simp cong: if_cong)
  have same: "(disk_metadata_abs content m)\<lparr>ms_nodes := table dec_NodeMetadata nb\<rparr> = disk_metadata_abs content m"
    by (simp add: a [symmetric])
  show ?thesis
    unfolding Disk_MarkExpiredNodes_def Let_def
    by (rule disk_put_nodes [where v = "()" and ns = "table dec_NodeMetadata nb", OF inv nb])
      (use wf nok in \<open>simp_all add: scan same MarkExpiredNodes_none [OF none]\<close>)
qed

text \<open>
  What holds of it when heartbeats are too old, and of any other closure on the nodes: the
  files stay as they are, and an error leaves everything as it is.
\<close>

lemma disk_update_nodes_frame:
  assumes "disk_metadata_inv BD content m"
  shows "ms_files (disk_metadata_abs content (snd (disk_update BD metadataNodesBucket f m))) =
           ms_files (disk_metadata_abs content m) \<and>
         (isl (fst (disk_update BD metadataNodesBucket f m)) \<longrightarrow>
            disk_metadata_abs content (snd (disk_update BD metadataNodesBucket f m)) = disk_metadata_abs content m)"
proof -
  from assms have laws: "bolt_laws BD content" by (simp add: disk_metadata_inv_def)
  note frame = bolt_Update_frame [OF laws, of metadataFilesBucket metadataNodesBucket f "ds_db m"]
  note rollback = bolt_Update_rollback [OF laws, of "in_bucket metadataNodesBucket f" "ds_db m"]
  show ?thesis
    using frame rollback
    by (auto simp: disk_update_def disk_metadata_abs_def bucket_of_def case_prod_beta Let_def isl_def)
qed

lemma safe_initialReplicas:
  assumes "list_all safe_str rs"
  shows "list_all (\<lambda>(k, r). safe_str k \<and> safe_str (rm_NodeID r)) (initialReplicas p t rs)"
proof -
  have "gm_all (\<lambda>k r. safe_str k \<and> safe_str (rm_NodeID r)) (initialReplicas p t rs)"
    using assms by (auto simp: gm_all_iff initialReplicas_spec list_all_iff split: if_splits)
  then show ?thesis by (auto simp: gm_all_def list_all_iff)
qed

lemma Disk_BeginFileVersion_refines:
  assumes inv: "disk_metadata_inv BD content m"
    and ok: "safe_str k" "safe_str cs" "list_all (\<lambda>ch. safe_str (cm_Checksum ch)) chs" "safe_str p" "list_all safe_str rs"
  shows "write_ok (disk_metadata_inv BD content) (disk_metadata_abs content) m
           (Disk_BeginFileVersion BD k sz cs chs p rs m)
           (mb_BeginFileVersion MemoryMetadataBackend k sz cs chs p rs (disk_metadata_abs content m))"
proof -
  from inv obtain fb where fb: "gm_get (content (ds_db m)) metadataFilesBucket = Some fb"
    and fok: "table_ok dec_FileMetadata good_file fb"
    and a: "ms_files (disk_metadata_abs content m) = table dec_FileMetadata fb"
      "ms_now (disk_metadata_abs content m) = ds_now m"
    by (elim disk_metadata_invE) auto
  define vc where "vc = nextVersionLocked (disk_metadata_abs content m) k (ds_now m)"
  define meta where "meta = \<lparr>fm_Key = k, fm_Version = fst vc, fm_Size = sz, fm_Checksum = cs, fm_Primary = p,
      fm_Deleted = False, fm_Chunks = cloneChunkMetadata chs, fm_Replicas = initialReplicas p (ds_now m) rs,
      fm_CreatedAt = snd vc, fm_UpdatedAt = ds_now m\<rparr>"
  have vc: "vc = (case gm_get (table dec_FileMetadata fb) k of None \<Rightarrow> (1, ds_now m)
      | Some prev \<Rightarrow> (fm_Version prev + 1, fm_CreatedAt prev))"
    by (simp add: vc_def nextVersionLocked_def a)
  have ref: "BeginFileVersion k sz cs chs p rs (disk_metadata_abs content m) =
      (cloneFileMetadata meta, (disk_metadata_abs content m)\<lparr>ms_files :=
         gm_put k meta (ms_files (disk_metadata_abs content m))\<rparr>)"
    by (simp add: BeginFileVersion_def a vc_def [symmetric] meta_def case_prod_beta Let_def)
  show ?thesis
    unfolding Disk_BeginFileVersion_def
    using inv fb
  proof (rule disk_put_file)
    show "safe_file meta"
      using ok safe_initialReplicas [OF ok(5)] by (simp add: meta_def safe_file_def safe_chunk_def [abs_def])
    show "wf_file meta" by (simp add: meta_def wf_file_def initialReplicas_spec)
    show "fm_Key meta = k" by (simp add: meta_def)
  qed (simp_all add: ref getFileFromBucket_table [OF fok] vc [symmetric] meta_def case_prod_beta Let_def)
qed

text \<open>The three methods that change the record of a known file.\<close>

lemma safe_file_put_replica:
  assumes "safe_file f" and "safe_str n" and "safe_str (rm_NodeID r)" and "wf_file f"
  shows "safe_file (f\<lparr>fm_Replicas := gm_put n r (fm_Replicas f), fm_UpdatedAt := t\<rparr>)"
proof -
  let ?P = "\<lambda>k r. safe_str k \<and> safe_str (rm_NodeID r)"
  from assms(1,4) have "gm_all ?P (fm_Replicas f)" and "gm_wf (fm_Replicas f)"
    by (auto simp: safe_file_def wf_file_def gm_all_def list_all_iff)
  with assms(2,3) have "gm_all ?P (gm_put n r (fm_Replicas f))" by auto
  with assms(1) show ?thesis by (auto simp: safe_file_def gm_all_def list_all_iff)
qed

lemma Disk_MarkReplica_refines:
  assumes inv: "disk_metadata_inv BD content m"
  shows "write_ok (disk_metadata_inv BD content) (disk_metadata_abs content) m (Disk_MarkReplica BD k n st m)
           (MarkReplica k n st (disk_metadata_abs content m))"
proof -
  from inv obtain fb where fb: "gm_get (content (ds_db m)) metadataFilesBucket = Some fb"
    and fok: "table_ok dec_FileMetadata good_file fb" and wf: "wf_metadata (disk_metadata_abs content m)"
    and a: "ms_files (disk_metadata_abs content m) = table dec_FileMetadata fb"
      "ms_now (disk_metadata_abs content m) = ds_now m"
    by (elim disk_metadata_invE) auto
  note get = getFileFromBucket_table [OF fok]
  show ?thesis
  proof (cases "gm_get (table dec_FileMetadata fb) k")
    case None
    with inv fb show ?thesis unfolding Disk_MarkReplica_def
      by (intro disk_update_refused [where e = ErrMetadataNotFound]) (auto simp: get MarkReplica_def a)
  next
    case (Some f)
    with wf a have wff: "wf_file f" and key: "fm_Key f = k" by (auto dest: wf_file_of wf_key_of)
    have safe: "safe_file f" using fok Some by (rule table_file_good)
    show ?thesis
    proof (cases "gm_get (fm_Replicas f) n")
      case None
      with Some inv fb show ?thesis unfolding Disk_MarkReplica_def
        by (intro disk_update_refused [where e = ErrReplicaNotFound]) (auto simp: get MarkReplica_def a)
    next
      case (Some r)
      define f' where "f' = f\<lparr>fm_Replicas := gm_put n (r\<lparr>rm_State := st, rm_UpdatedAt := ds_now m\<rparr>)
          (fm_Replicas f), fm_UpdatedAt := ds_now m\<rparr>"
      from Some have "(n, r) \<in> set (fm_Replicas f)" by (rule map_of_SomeD)
      with safe have "safe_str n" and "safe_str (rm_NodeID r)" by (auto simp: safe_file_def list_all_iff)
      with safe wff have "safe_file f'" unfolding f'_def by (intro safe_file_put_replica) auto
      moreover have "wf_file f'" unfolding f'_def
        using wff Some by (intro wf_put_replica) (auto dest: wf_replica_of)
      moreover have "fm_Key f' = k" by (simp add: f'_def key)
      ultimately show ?thesis
        unfolding Disk_MarkReplica_def using inv fb \<open>gm_get (table dec_FileMetadata fb) k = Some f\<close> Some
        by (intro disk_put_file [where meta = f']) (auto simp: get MarkReplica_def a f'_def Let_def)
    qed
  qed
qed

lemma Disk_Tombstone_refines:
  assumes inv: "disk_metadata_inv BD content m"
  shows "write_ok (disk_metadata_inv BD content) (disk_metadata_abs content) m (Disk_Tombstone BD k m)
           (Tombstone k (disk_metadata_abs content m))"
proof -
  from inv obtain fb where fb: "gm_get (content (ds_db m)) metadataFilesBucket = Some fb"
    and fok: "table_ok dec_FileMetadata good_file fb" and wf: "wf_metadata (disk_metadata_abs content m)"
    and a: "ms_files (disk_metadata_abs content m) = table dec_FileMetadata fb"
      "ms_now (disk_metadata_abs content m) = ds_now m"
    by (elim disk_metadata_invE) auto
  note get = getFileFromBucket_table [OF fok]
  show ?thesis
  proof (cases "gm_get (table dec_FileMetadata fb) k")
    case None
    with inv fb show ?thesis unfolding Disk_Tombstone_def
      by (intro disk_update_refused [where e = ErrMetadataNotFound]) (auto simp: get Tombstone_def a)
  next
    case (Some f)
    with wf a have wff: "wf_file f" and key: "fm_Key f = k" by (auto dest: wf_file_of wf_key_of)
    define f' where "f' = f\<lparr>fm_Version := fm_Version f + 1, fm_Deleted := True, fm_UpdatedAt := ds_now m,
        fm_Replicas := gm_update_all (\<lambda>_ r. r\<lparr>rm_State := ReplicaDeleted, rm_UpdatedAt := ds_now m\<rparr>)
          (fm_Replicas f)\<rparr>"
    have "safe_file f'" using table_file_good [OF fok Some]
      by (auto simp: f'_def safe_file_def gm_update_all_def list_all_iff)
    moreover have "wf_file f'" using wff by (auto simp: f'_def wf_file_def)
    moreover have "fm_Key f' = k" by (simp add: f'_def key)
    ultimately show ?thesis
      unfolding Disk_Tombstone_def using inv fb Some
      by (intro disk_put_file [where meta = f']) (auto simp: get Tombstone_def a f'_def Let_def)
  qed
qed

lemma Disk_AddReplica_refines:
  assumes inv: "disk_metadata_inv BD content m" and ok: "safe_str n"
  shows "write_ok (disk_metadata_inv BD content) (disk_metadata_abs content) m (Disk_AddReplica BD k n st m)
           (AddReplica k n st (disk_metadata_abs content m))"
proof -
  from inv obtain fb where fb: "gm_get (content (ds_db m)) metadataFilesBucket = Some fb"
    and fok: "table_ok dec_FileMetadata good_file fb" and wf: "wf_metadata (disk_metadata_abs content m)"
    and a: "ms_files (disk_metadata_abs content m) = table dec_FileMetadata fb"
      "ms_now (disk_metadata_abs content m) = ds_now m"
    by (elim disk_metadata_invE) auto
  note get = getFileFromBucket_table [OF fok]
  show ?thesis
  proof (cases "gm_get (table dec_FileMetadata fb) k")
    case None
    with inv fb show ?thesis unfolding Disk_AddReplica_def
      by (intro disk_update_refused [where e = ErrMetadataNotFound]) (auto simp: get AddReplica_def a)
  next
    case (Some f)
    with wf a have wff: "wf_file f" and key: "fm_Key f = k" by (auto dest: wf_file_of wf_key_of)
    define f' where "f' = f\<lparr>fm_Replicas := gm_put n \<lparr>rm_NodeID = n, rm_State = st, rm_UpdatedAt = ds_now m\<rparr>
        (fm_Replicas f), fm_UpdatedAt := ds_now m\<rparr>"
    have "safe_file f'" unfolding f'_def
      using table_file_good [OF fok Some] ok wff by (intro safe_file_put_replica) auto
    moreover have "wf_file f'" unfolding f'_def using wff by (intro wf_put_replica) auto
    moreover have "fm_Key f' = k" by (simp add: f'_def key)
    ultimately show ?thesis
      unfolding Disk_AddReplica_def using inv fb Some
      by (intro disk_put_file [where meta = f']) (auto simp: get AddReplica_def a f'_def Let_def)
  qed
qed

text \<open>The readers.\<close>

lemma filter_go_sort_by:
  fixes key :: "'a \<Rightarrow> 'b::linorder"
  assumes "distinct (map key xs)"
  shows "filter P (go_sort (less_by key) xs) = go_sort (less_by key) (filter P xs)"
proof (rule by_key.sorted_unique)
  show "sorted_wrt (less_by key) (filter P (go_sort (less_by key) xs))"
    using assms by (intro sorted_wrt_filter by_key.sorted_go_sort)
  show "sorted_wrt (less_by key) (go_sort (less_by key) (filter P xs))"
    using assms by (intro by_key.sorted_go_sort distinct_map_filter)
qed auto

lemma GetFile_eq_map: "GetFile k m = map_option cloneFileMetadata (gm_get (ms_files m) k)"
  by (simp add: GetFile_def split: option.split)

lemma Disk_Nodes_reads:
  assumes inv: "disk_metadata_inv BD content m"
  shows "read_ok (Disk_Nodes BD m) (Nodes (disk_metadata_abs content m))"
proof -
  from inv obtain nb where laws: "bolt_laws BD content"
    and nb: "gm_get (content (ds_db m)) metadataNodesBucket = Some nb"
    and nok: "table_ok dec_NodeMetadata safe_node nb"
    and a: "ms_nodes (disk_metadata_abs content m) = table dec_NodeMetadata nb"
    by (elim disk_metadata_invE) auto
  have scan: "bucket_ForEach (\<lambda>_ v s. bind_result (dec_NodeMetadata v) (\<lambda>n. Inr (s @ [n]))) nb [] =
      Inr (gm_vals (table dec_NodeMetadata nb))"
    using node_codec.foreach_decode [where g = "\<lambda>n s. s @ [n]", OF nok, of "[]"]
    by (simp add: fold_snoc)
  show ?thesis
    unfolding Disk_Nodes_def Nodes_def a
    by (rule read_ok_bind, rule bolt_View_reads [OF laws]) (simp add: nb scan)
qed

lemma Disk_HealthyNodes_reads:
  assumes inv: "disk_metadata_inv BD content m"
  shows "read_ok (Disk_HealthyNodes BD m) (HealthyNodes (disk_metadata_abs content m))"
proof -
  let ?ns = "ms_nodes (disk_metadata_abs content m)"
  from inv have "gm_wf ?ns" and "gm_all (\<lambda>k n. nm_ID n = k) ?ns"
    by (auto simp: disk_metadata_inv_def wf_metadata_def)
  from gm_vals_distinct [OF this, of "\<lambda>_. True"] have "distinct (map nm_ID (gm_vals ?ns))" by simp
  from filter_go_sort_by [OF this] have "filter (\<lambda>n. nm_State n = NodeHealthy) (Nodes (disk_metadata_abs content m)) =
      HealthyNodes (disk_metadata_abs content m)" by (simp add: Nodes_def HealthyNodes_def)
  with Disk_Nodes_reads [OF inv] show ?thesis by (auto simp: Disk_HealthyNodes_def read_ok_def)
qed

lemma Disk_file_reads:
  assumes inv: "disk_metadata_inv BD content m"
  shows "read_ok (Disk_NextVersion BD k m) (NextVersion k (disk_metadata_abs content m))"
    and "read_ok (Disk_GetFile BD k m) (GetFile k (disk_metadata_abs content m))"
    and "read_ok (Disk_ListFiles BD m) (ListFiles (disk_metadata_abs content m))"
proof -
  from inv obtain fb where laws: "bolt_laws BD content"
    and fb: "gm_get (content (ds_db m)) metadataFilesBucket = Some fb"
    and fok: "table_ok dec_FileMetadata good_file fb"
    and a: "ms_files (disk_metadata_abs content m) = table dec_FileMetadata fb"
    by (elim disk_metadata_invE) auto
  note get = getFileFromBucket_table [OF fok]
  have scan: "bucket_ForEach (\<lambda>_ v s. bind_result (dec_FileMetadata v) (\<lambda>f. Inr (s @ [cloneFileMetadata f]))) fb [] =
      Inr (map cloneFileMetadata (gm_vals (table dec_FileMetadata fb)))"
    using file_codec.foreach_decode [where g = "\<lambda>f s. s @ [cloneFileMetadata f]", OF fok, of "[]"]
    by (simp add: fold_snoc)
  show "read_ok (Disk_NextVersion BD k m) (NextVersion k (disk_metadata_abs content m))"
    unfolding Disk_NextVersion_def
    by (rule bolt_View_reads [OF laws])
      (simp add: fb get a NextVersion_def nextVersionLocked_def split: option.split)
  show "read_ok (Disk_GetFile BD k m) (GetFile k (disk_metadata_abs content m))"
    unfolding Disk_GetFile_def GetFile_eq_map
    by (rule read_ok_bind, rule bolt_View_reads [OF laws]) (simp add: fb get a)
  show "read_ok (Disk_ListFiles BD m) (ListFiles (disk_metadata_abs content m))"
    unfolding Disk_ListFiles_def ListFiles_def a
    by (rule read_ok_bind, rule bolt_View_reads [OF laws]) (simp add: fb scan)
qed

lemma disk_backend_sel [simp]:
  "mb_UpsertNode (DiskMetadataBackend BD) = Disk_UpsertNode BD"
  "mb_MarkExpiredNodes (DiskMetadataBackend BD) = Disk_MarkExpiredNodes BD"
  "mb_HealthyNodes (DiskMetadataBackend BD) = Disk_HealthyNodes BD"
  "mb_Nodes (DiskMetadataBackend BD) = Disk_Nodes BD"
  "mb_BeginFileVersion (DiskMetadataBackend BD) = Disk_BeginFileVersion BD"
  "mb_NextVersion (DiskMetadataBackend BD) = Disk_NextVersion BD"
  "mb_MarkReplica (DiskMetadataBackend BD) = Disk_MarkReplica BD"
  "mb_Tombstone (DiskMetadataBackend BD) = Disk_Tombstone BD"
  "mb_GetFile (DiskMetadataBackend BD) = Disk_GetFile BD"
  "mb_ListFiles (DiskMetadataBackend BD) = Disk_ListFiles BD"
  "mb_AddReplica (DiskMetadataBackend BD) = Disk_AddReplica BD"
  "mb_Now (DiskMetadataBackend BD) = Disk_Now"
  by (simp_all add: DiskMetadataBackend_def)

lemmas disk_metadata_refinements =
  Disk_UpsertNode_refines Disk_MarkExpiredNodes_refines Disk_BeginFileVersion_refines
  Disk_MarkReplica_refines Disk_Tombstone_refines Disk_AddReplica_refines

lemmas disk_metadata_reads = Disk_Nodes_reads Disk_HealthyNodes_reads Disk_file_reads

interpretation disk_metadata: metadata_backend "DiskMetadataBackend BD" "disk_metadata_abs content"
  "disk_metadata_inv BD content" safe_str
  for BD :: "'d boltDB" and content :: "'d \<Rightarrow> buckets"
proof (unfold_locales, goal_cases)
  case (1 s)
  then show ?case by (simp add: disk_metadata_inv_def)
next
  case (13 s)
  then show ?case by (simp add: Disk_Now_def disk_metadata_abs_def)
qed (auto simp only: disk_backend_sel intro!: disk_metadata_refinements disk_metadata_reads)

section \<open>Opening a database\<close>

text \<open>What a database file can hold when it is opened: each bucket is missing or holds a table.\<close>

definition metadata_file_ok :: "buckets \<Rightarrow> instant \<Rightarrow> bool" where
  "metadata_file_ok tx t \<longleftrightarrow>
     table_ok dec_FileMetadata good_file (bucket_of tx metadataFilesBucket) \<and>
     table_ok dec_NodeMetadata safe_node (bucket_of tx metadataNodesBucket) \<and>
     wf_metadata (disk_metadata_abs (\<lambda>db. db) \<lparr>ds_db = tx, ds_now = t\<rparr>)"

lemma OpenDiskMetadataStore_opens:
  assumes "bolt_laws BD content" and "bolt_Open BD path = Inr db" and "metadata_file_ok (content db) t"
  shows "case OpenDiskMetadataStore BD now path of
      Inl e \<Rightarrow> io_error e
    | Inr m \<Rightarrow> disk_metadata_inv BD content m \<and>
        disk_metadata_abs content m = (disk_metadata_abs content \<lparr>ds_db = db, ds_now = t\<rparr>)\<lparr>ms_now := now\<rparr> \<and>
        (content db = [] \<longrightarrow> disk_metadata_abs content m = NewMetadataStore now) \<and>
        (\<forall>n. bucket_of (content (ds_db m)) n = bucket_of (content db) n)"
proof -
  define mk where "mk = (\<lambda>tx. bind_result (CreateBucketIfNotExists BD metadataFilesBucket tx) (\<lambda>tx1.
      bind_result (CreateBucketIfNotExists BD metadataNodesBucket tx1) (\<lambda>tx2. Inr ((), tx2))))"
  have run: "OpenDiskMetadataStore BD now path =
      bind_result (fst (bolt_Update BD mk db)) (\<lambda>_. Inr \<lparr>ds_db = snd (bolt_Update BD mk db), ds_now = now\<rparr>)"
    by (simp add: OpenDiskMetadataStore_def initMetadataBuckets_def assms(2) mk_def [symmetric] case_prod_beta Let_def)
  have made: "(\<forall>n. bucket_of tx n = bucket_of (content db) n) \<and>
      gm_get tx metadataFilesBucket \<noteq> None \<and> gm_get tx metadataNodesBucket \<noteq> None"
    if "mk (content db) = Inr ((), tx)" for tx
  proof -
    from that obtain tx1 where tx1: "CreateBucketIfNotExists BD metadataFilesBucket (content db) = Inr tx1"
      and tx2: "CreateBucketIfNotExists BD metadataNodesBucket tx1 = Inr tx"
      by (auto simp: mk_def bind_result_eq_Inr)
    show ?thesis using CreateBucketIfNotExists_bucket_of [OF tx1] CreateBucketIfNotExists_bucket_of [OF tx2] by simp
  qed
  have io: "io_error e" if "mk (content db) = Inl e" for e
    using that bolt_lawsD(4) [OF assms(1)]
    by (auto simp: mk_def bind_result_eq_Inl CreateBucketIfNotExists_def split: option.splits)
  show ?thesis
    using assms(1)
  proof (cases rule: bolt_Update_cases [where f = mk and db = db])
    case (Commit v tx db')
    let ?m = "\<lparr>ds_db = db', ds_now = now\<rparr>"
    from Commit have tx: "mk (content db) = Inr ((), content db')" by simp
    have abst: "disk_metadata_abs content ?m = (disk_metadata_abs content \<lparr>ds_db = db, ds_now = t\<rparr>)\<lparr>ms_now := now\<rparr>"
      using made [OF tx] by (simp add: disk_metadata_abs_def)
    moreover have "disk_metadata_inv BD content ?m"
      using assms(1,3) made [OF tx] abst
      by (simp add: disk_metadata_inv_def metadata_file_ok_def) (simp add: disk_metadata_abs_def)
    moreover have "disk_metadata_abs content ?m = NewMetadataStore now" if "content db = []"
      using made [OF tx] that by (simp add: disk_metadata_abs_def bucket_of_def table_def NewMetadataStore_def)
    ultimately show ?thesis using Commit made [OF tx] by (simp add: run)
  qed (use io in \<open>auto simp: run\<close>)
qed

text \<open>
  A restart loses no metadata. Opening the store on a database file whose buckets hold
  tables, or are missing as in a new file, either fails with an error of the database and
  leaves nothing changed, or gives a store that represents exactly the files and nodes the file
  holds, ready for every method; on a new file that is the empty store.
\<close>

theorem OpenDiskMetadataStore_keeps:
  assumes "bolt_laws BD content" and "bolt_Open BD path = Inr db" and "metadata_file_ok (content db) t"
  shows "case OpenDiskMetadataStore BD now path of
      Inl e \<Rightarrow> io_error e
    | Inr m \<Rightarrow> disk_metadata_inv BD content m \<and>
        disk_metadata_abs content m = (disk_metadata_abs content \<lparr>ds_db = db, ds_now = t\<rparr>)\<lparr>ms_now := now\<rparr> \<and>
        (content db = [] \<longrightarrow> disk_metadata_abs content m = NewMetadataStore now)"
  using OpenDiskMetadataStore_opens [OF assms, of now] by (cases "OpenDiskMetadataStore BD now path") auto

theorem OpenDiskMetadataStore_keeps_witness:
  "\<exists>m. OpenDiskMetadataStore demo_bolt 7 ''meta.db'' = Inr m \<and>
       disk_metadata_inv demo_bolt (\<lambda>db. db) m \<and> disk_metadata_abs (\<lambda>db. db) m = NewMetadataStore 7"
proof -
  have "bolt_Open demo_bolt ''meta.db'' = Inr []" by (simp add: demo_bolt_def)
  moreover have "metadata_file_ok [] 0"
    by (simp add: metadata_file_ok_def bucket_of_def table_ok_def disk_metadata_abs_def table_def wf_metadata_def)
  moreover obtain m where "OpenDiskMetadataStore demo_bolt 7 ''meta.db'' = Inr m"
    by (simp add: OpenDiskMetadataStore_def initMetadataBuckets_def demo_bolt_def bolt_Update_def
        CreateBucketIfNotExists_def)
  ultimately show ?thesis using OpenDiskMetadataStore_keeps [OF demo_bolt_laws, of "''meta.db''" "[]" 0 7] by auto
qed

text \<open>
  C21. The disk store is the in-memory store. On a store whose buckets hold tables, over a
  database that meets its documentation, every method called with UTF-8 strings returns what
  the in-memory method returns on the decoded tables and leaves the buckets holding the
  tables the in-memory method leaves, or it reports an error of the layers below and the
  tables are what they were; a failing transaction is never half applied. The one exception
  is \<open>MarkExpiredNodes\<close> when some heartbeat is older than the time to live: it then puts into
  the bucket it is scanning, which bbolt leaves undefined, and all that is claimed is that the
  files are what they were and that, if it reports an error, the nodes are too.
\<close>

theorem disk_metadata_refines:
  assumes "disk_metadata_inv BD content m"
    and "safe_str nid" and "safe_str addr" and "safe_str k" and "safe_str cs" and "safe_str p"
    and "list_all (\<lambda>ch. safe_str (cm_Checksum ch)) chs" and "list_all safe_str rs"
  shows "let I = disk_metadata_inv BD content; A = disk_metadata_abs content in
     write_ok I A m (Disk_UpsertNode BD nid addr m) (Memory_UpsertNode nid addr (A m)) \<and>
     (none_expired ttl (A m) \<longrightarrow>
        write_ok I A m (Disk_MarkExpiredNodes BD ttl m) (Memory_MarkExpiredNodes ttl (A m))) \<and>
     ms_files (A (snd (Disk_MarkExpiredNodes BD ttl m))) = ms_files (A m) \<and>
     (isl (fst (Disk_MarkExpiredNodes BD ttl m)) \<longrightarrow> A (snd (Disk_MarkExpiredNodes BD ttl m)) = A m) \<and>
     write_ok I A m (Disk_BeginFileVersion BD k sz cs chs p rs m)
       (Memory_BeginFileVersion k sz cs chs p rs (A m)) \<and>
     write_ok I A m (Disk_MarkReplica BD k nid st m) (MarkReplica k nid st (A m)) \<and>
     write_ok I A m (Disk_Tombstone BD k m) (Tombstone k (A m)) \<and>
     write_ok I A m (Disk_AddReplica BD k nid st m) (AddReplica k nid st (A m)) \<and>
     read_ok (Disk_Nodes BD m) (Nodes (A m)) \<and>
     read_ok (Disk_HealthyNodes BD m) (HealthyNodes (A m)) \<and>
     read_ok (Disk_NextVersion BD k m) (NextVersion k (A m)) \<and>
     read_ok (Disk_GetFile BD k m) (GetFile k (A m)) \<and>
     read_ok (Disk_ListFiles BD m) (ListFiles (A m))"
  using disk_metadata.upsert [OF assms(1-3)] disk_metadata.expire [OF assms(1)]
    disk_update_nodes_frame [OF assms(1)]
    disk_metadata.begin_version [OF assms(1,4,5,7,6,8)] disk_metadata.mark_replica [OF assms(1)]
    disk_metadata.tombstone [OF assms(1)] disk_metadata.add_replica [OF assms(1,2)]
    disk_metadata_reads [OF assms(1)]
  by (simp add: MemoryMetadataBackend_def Disk_MarkExpiredNodes_def Let_def)

theorem disk_metadata_refines_witness:
  "let m = \<lparr>ds_db = [(metadataFilesBucket, []), (metadataNodesBucket, [])], ds_now = 5\<rparr>;
       w = Disk_BeginFileVersion demo_bolt ''k'' 3 ''h'' [] ''n1'' [''n1''] m
   in fst w = fst (Memory_BeginFileVersion ''k'' 3 ''h'' [] ''n1'' [''n1''] (NewMetadataStore 5)) \<and>
      disk_metadata_abs (\<lambda>db. db) (snd w) = snd (Memory_BeginFileVersion ''k'' 3 ''h'' [] ''n1'' [''n1''] (NewMetadataStore 5))"
proof -
  define m :: "buckets DiskMetadataStore" where
    "m = \<lparr>ds_db = [(metadataFilesBucket, []), (metadataNodesBucket, [])], ds_now = 5\<rparr>"
  have a: "disk_metadata_abs (\<lambda>db. db) m = NewMetadataStore 5"
    by (simp add: m_def disk_metadata_abs_def bucket_of_def table_def NewMetadataStore_def)
  have inv: "disk_metadata_inv demo_bolt (\<lambda>db. db) m"
    by (simp add: disk_metadata_inv_def a) (simp add: m_def bucket_of_def table_ok_def)
  have safe: "safe_str ''k''" "safe_str ''h''" "safe_str ''n1''" by (simp_all add: ascii_safe)
  let ?w = "Disk_BeginFileVersion demo_bolt ''k'' 3 ''h'' [] ''n1'' [''n1''] m"
  have "\<exists>f. fst ?w = Inr f"
    by (simp add: m_def Disk_BeginFileVersion_def disk_update_def bolt_Update_def in_bucket_def demo_bolt_def
        getFileFromBucket_def putMetadataJSON_def put_json_def bucket_Put_def enc_FileMetadata_def
        enc_Replicas_def enc_ReplicaMetadata_def initialReplicas_def enc_time_def time_ok_def
        nanosecondsPerSecond_def Let_def)
  moreover have "write_ok (disk_metadata_inv demo_bolt (\<lambda>db. db)) (disk_metadata_abs (\<lambda>db. db)) m ?w
      (Memory_BeginFileVersion ''k'' 3 ''h'' [] ''n1'' [''n1''] (NewMetadataStore 5))"
    using disk_metadata_refines [OF inv safe(1,1,1,2,3), of "[]" "[''n1'']" _ 3] safe
    unfolding Let_def a by simp
  ultimately show ?thesis by (auto simp: write_ok_def m_def [symmetric] Let_def)
qed

end
