(* ===== verification/Replication_Disk.thy ===== *)
theory Replication_Disk
  imports Bolt_Tables Task_Queue
begin

text \<open>
  The replication queue on disk, \<open>src/distributed-fs/replication_disk.go\<close>: one definition per
  method of \<open>DiskReplicationTaskQueue\<close>, over any database that meets \<open>bolt_laws\<close>.

  Shown here: every method does what the in-memory queue does on the table of decoded tasks, or
  reports an error of the layers below and leaves the table as it was (the interpretation
  \<open>disk_queue\<close> of the locale \<open>task_queue\<close>), and what opening a queue keeps of the tasks of a
  database.

  \<open>RequeueExpiredRunning\<close> and \<open>restoreRetryableTasks\<close> put into the bucket they scan, which bbolt
  leaves undefined. What is shown of them is what happens when they find nothing to put, and
  that an error of theirs changes nothing.
\<close>

section \<open>Operations\<close>

definition replicationTasksBucket :: string where
  "replicationTasksBucket = ''replication_tasks''"

record 'd DiskReplicationTaskQueue =
  dq_db :: 'd
  dq_now :: instant

definition decodeReplicationTask :: "json \<Rightarrow> ReplicationTask result" where
  "decodeReplicationTask raw = dec_ReplicationTask raw"

definition putReplicationTask :: "'d boltDB \<Rightarrow> bucket \<Rightarrow> string \<Rightarrow> ReplicationTask \<Rightarrow> bucket result" where
  "putReplicationTask BD b tid task = put_json BD enc_ReplicationTask b tid task"

text \<open>\<open>q.db.Update\<close> with a closure on the bucket of tasks.\<close>

definition queue_update ::
  "'d boltDB \<Rightarrow> (bucket \<Rightarrow> ('a \<times> bucket) result) \<Rightarrow> 'd DiskReplicationTaskQueue
    \<Rightarrow> 'a result \<times> 'd DiskReplicationTaskQueue" where
  "queue_update BD f q =
     (let (r, db') = bolt_Update BD (in_bucket replicationTasksBucket f) (dq_db q) in (r, q\<lparr>dq_db := db'\<rparr>))"

definition initTaskBucket ::
  "'d boltDB \<Rightarrow> 'd DiskReplicationTaskQueue \<Rightarrow> unit result \<times> 'd DiskReplicationTaskQueue" where
  "initTaskBucket BD q =
     (let (r, db') = bolt_Update BD
            (\<lambda>tx. bind_result (CreateBucketIfNotExists BD replicationTasksBucket tx) (\<lambda>tx'. Inr ((), tx')))
            (dq_db q)
      in (r, q\<lparr>dq_db := db'\<rparr>))"

definition restoreRetryableTasks ::
  "'d boltDB \<Rightarrow> 'd DiskReplicationTaskQueue \<Rightarrow> unit result \<times> 'd DiskReplicationTaskQueue" where
  "restoreRetryableTasks BD q =
     queue_update BD
       (\<lambda>b. bucket_ForEach_Put BD
          (\<lambda>k v _ b. bind_result (decodeReplicationTask v) (\<lambda>task.
             if \<not> (rt_State task \<noteq> ReplicationTaskRunning \<and> rt_State task \<noteq> ReplicationTaskFailed)
             then bind_result
                    (putReplicationTask BD b k
                       (task\<lparr>rt_State := ReplicationTaskPending, rt_LeaseUntil := 0, rt_RunAfter := 0,
                             rt_UpdatedAt := dq_now q\<rparr>))
                    (\<lambda>b'. Inr ((), Some b'))
             else Inr ((), None)))
          b () b) q"

definition NewDiskReplicationTaskQueue :: "'d boltDB \<Rightarrow> instant \<Rightarrow> 'd \<Rightarrow> 'd DiskReplicationTaskQueue result" where
  "NewDiskReplicationTaskQueue BD now db =
     (let (r, q1) = initTaskBucket BD \<lparr>dq_db = db, dq_now = now\<rparr>
      in bind_result r (\<lambda>_.
           let (r2, q2) = restoreRetryableTasks BD q1 in bind_result r2 (\<lambda>_. Inr q2)))"

text \<open>The loop of \<open>Enqueue\<close>: \<open>continue\<close> for a known identifier, return on an error.\<close>

fun enqueueLoop :: "'d boltDB \<Rightarrow> ReplicationTask list \<Rightarrow> bucket \<Rightarrow> bucket result" where
  "enqueueLoop BD [] b = Inr b"
| "enqueueLoop BD (task # tasks) b =
     (if gm_get b (rt_ID task) \<noteq> None then enqueueLoop BD tasks b
      else bind_result (putReplicationTask BD b (rt_ID task) task) (enqueueLoop BD tasks))"

definition Disk_Enqueue ::
  "'d boltDB \<Rightarrow> ReplicationTask list \<Rightarrow> 'd DiskReplicationTaskQueue
    \<Rightarrow> unit result \<times> 'd DiskReplicationTaskQueue" where
  "Disk_Enqueue BD tasks q =
     queue_update BD (\<lambda>b. bind_result (enqueueLoop BD tasks b) (\<lambda>b'. Inr ((), b'))) q"

definition Disk_Pending :: "'d boltDB \<Rightarrow> 'd DiskReplicationTaskQueue \<Rightarrow> ReplicationTask list result" where
  "Disk_Pending BD q =
     (let now = dq_now q
      in bind_result
           (bolt_View BD
              (\<lambda>tx. bind_result (tx_Bucket tx replicationTasksBucket) (\<lambda>b.
                 bucket_ForEach
                   (\<lambda>_ v tasks. bind_result (decodeReplicationTask v) (\<lambda>task.
                      Inr (if rt_State task = ReplicationTaskPending \<and> readyToRun task now
                           then tasks @ [task] else tasks)))
                   b []))
              (dq_db q))
           (\<lambda>tasks. Inr (sortReplicationTasks tasks)))"

definition updateTask ::
  "'d boltDB \<Rightarrow> string \<Rightarrow> (ReplicationTask \<Rightarrow> ReplicationTask) \<Rightarrow> 'd DiskReplicationTaskQueue
    \<Rightarrow> ReplicationTask result \<times> 'd DiskReplicationTaskQueue" where
  "updateTask BD tid update q =
     queue_update BD
       (\<lambda>b. case gm_get b tid of
              None \<Rightarrow> Inl ErrTaskNotFound
            | Some raw \<Rightarrow>
                bind_result (decodeReplicationTask raw) (\<lambda>task.
                  bind_result (putReplicationTask BD b tid (update task)) (\<lambda>b'. Inr (update task, b')))) q"

definition Disk_MarkRunning ::
  "'d boltDB \<Rightarrow> string \<Rightarrow> 'd DiskReplicationTaskQueue
    \<Rightarrow> ReplicationTask result \<times> 'd DiskReplicationTaskQueue" where
  "Disk_MarkRunning BD tid q =
     updateTask BD tid
       (\<lambda>task. let now = dq_now q
                in task\<lparr>rt_State := ReplicationTaskRunning, rt_Attempts := rt_Attempts task + 1,
                        rt_LeaseUntil := now + defaultReplicationTaskLease, rt_UpdatedAt := now\<rparr>) q"

definition Disk_MarkDone ::
  "'d boltDB \<Rightarrow> string \<Rightarrow> 'd DiskReplicationTaskQueue
    \<Rightarrow> ReplicationTask result \<times> 'd DiskReplicationTaskQueue" where
  "Disk_MarkDone BD tid q =
     updateTask BD tid
       (\<lambda>task. task\<lparr>rt_State := ReplicationTaskDone, rt_LeaseUntil := 0, rt_RunAfter := 0,
                    rt_LastError := '''', rt_UpdatedAt := dq_now q\<rparr>) q"

definition Disk_MarkFailed ::
  "'d boltDB \<Rightarrow> string \<Rightarrow> error option \<Rightarrow> 'd DiskReplicationTaskQueue
    \<Rightarrow> ReplicationTask result \<times> 'd DiskReplicationTaskQueue" where
  "Disk_MarkFailed BD tid cause q =
     updateTask BD tid (\<lambda>task. failReplicationTask task (dq_now q) cause) q"

definition Disk_RequeueExpiredRunning ::
  "'d boltDB \<Rightarrow> 'd DiskReplicationTaskQueue \<Rightarrow> ReplicationTask list result \<times> 'd DiskReplicationTaskQueue" where
  "Disk_RequeueExpiredRunning BD q =
     (let now = dq_now q;
          (r, q') = queue_update BD
            (\<lambda>b. bucket_ForEach_Put BD
               (\<lambda>k v requeued b. bind_result (decodeReplicationTask v) (\<lambda>task.
                  if leaseExpired task now
                  then bind_result (putReplicationTask BD b k (expireReplicationTask task now))
                         (\<lambda>b'. Inr (requeued @ [expireReplicationTask task now], Some b'))
                  else Inr (requeued, None)))
               b [] b) q
      in (bind_result r (\<lambda>requeued. Inr (sortReplicationTasks requeued)), q'))"

definition Disk_Stats ::
  "'d boltDB \<Rightarrow> 'd DiskReplicationTaskQueue \<Rightarrow> (ReplicationTaskState \<times> nat) list result" where
  "Disk_Stats BD q =
     bolt_View BD
       (\<lambda>tx. bind_result (tx_Bucket tx replicationTasksBucket) (\<lambda>b.
          bucket_ForEach
            (\<lambda>_ v stats. bind_result (decodeReplicationTask v) (\<lambda>task.
               Inr (AList.update (rt_State task)
                      (Suc (case map_of stats (rt_State task) of None \<Rightarrow> 0 | Some n \<Rightarrow> n)) stats)))
            b []))
       (dq_db q)"

definition DiskTaskQueue :: "'d boltDB \<Rightarrow> 'd DiskReplicationTaskQueue ReplicationTaskQueue" where
  "DiskTaskQueue BD =
     \<lparr>tq_Enqueue = Disk_Enqueue BD, tq_Pending = Disk_Pending BD, tq_MarkRunning = Disk_MarkRunning BD,
      tq_MarkDone = Disk_MarkDone BD, tq_MarkFailed = Disk_MarkFailed BD,
      tq_RequeueExpiredRunning = Disk_RequeueExpiredRunning BD, tq_Stats = Disk_Stats BD\<rparr>"

section \<open>The queue a database represents\<close>

definition disk_queue_abs :: "('d \<Rightarrow> buckets) \<Rightarrow> 'd DiskReplicationTaskQueue \<Rightarrow> MemoryReplicationTaskQueue" where
  "disk_queue_abs content q =
     \<lparr>mq_tasks = table dec_ReplicationTask (bucket_of (content (dq_db q)) replicationTasksBucket),
      mq_now = dq_now q\<rparr>"

definition disk_queue_inv :: "'d boltDB \<Rightarrow> ('d \<Rightarrow> buckets) \<Rightarrow> 'd DiskReplicationTaskQueue \<Rightarrow> bool" where
  "disk_queue_inv BD content q \<longleftrightarrow>
     bolt_laws BD content \<and>
     gm_get (content (dq_db q)) replicationTasksBucket \<noteq> None \<and>
     table_ok dec_ReplicationTask safe_task (bucket_of (content (dq_db q)) replicationTasksBucket) \<and>
     wf_queue (disk_queue_abs content q)"

lemma disk_queue_invE:
  assumes "disk_queue_inv BD content q"
  obtains b where "bolt_laws BD content"
    and "gm_get (content (dq_db q)) replicationTasksBucket = Some b"
    and "table_ok dec_ReplicationTask safe_task b" and "wf_queue (disk_queue_abs content q)"
    and "disk_queue_abs content q = \<lparr>mq_tasks = table dec_ReplicationTask b, mq_now = dq_now q\<rparr>"
  using assms by (auto simp: disk_queue_inv_def disk_queue_abs_def)

text \<open>A transaction on the bucket of tasks, by what its closure does.\<close>

lemma queue_update_refines:
  assumes inv: "disk_queue_inv BD content q"
    and b: "gm_get (content (dq_db q)) replicationTasksBucket = Some b"
    and f: "(\<exists>e. f b = Inl e \<and> (io_error e \<or> ref = (Inl e, disk_queue_abs content q))) \<or>
            (\<exists>v b'. f b = Inr (v, b') \<and> table_ok dec_ReplicationTask safe_task b' \<and>
               ref = (Inr v, (disk_queue_abs content q)\<lparr>mq_tasks := table dec_ReplicationTask b'\<rparr>))"
    and wf: "wf_queue (snd ref)"
  shows "write_ok (disk_queue_inv BD content) (disk_queue_abs content) q (queue_update BD f q) ref"
proof -
  from inv have laws: "bolt_laws BD content" by (simp add: disk_queue_inv_def)
  let ?f = "in_bucket replicationTasksBucket f"
  show ?thesis
    using laws
  proof (cases rule: bolt_Update_cases [where f = ?f and db = "dq_db q"])
    case (Commit v tx db')
    with b obtain b' where fb: "f b = Inr (v, b')"
      and c: "content db' = gm_put replicationTasksBucket b' (content (dq_db q))"
      by (auto simp: in_bucket_def bind_result_eq_Inr)
    from f fb have "table_ok dec_ReplicationTask safe_task b'"
      and "ref = (Inr v, (disk_queue_abs content q)\<lparr>mq_tasks := table dec_ReplicationTask b'\<rparr>)" by auto
    with Commit c wf laws show ?thesis
      by (auto simp: queue_update_def write_ok_def disk_queue_inv_def disk_queue_abs_def)
  next
    case (Refused e)
    with b have "f b = Inl e" by (auto simp: in_bucket_def bind_result_eq_Inl)
    with Refused f inv show ?thesis by (auto simp: queue_update_def write_ok_def)
  next
    case (Failure e db')
    with inv show ?thesis
      by (auto simp: queue_update_def write_ok_def disk_queue_inv_def disk_queue_abs_def)
  qed
qed

section \<open>Every method refines the in-memory method\<close>

lemma put_task_cases [case_names Stored Failure]:
  assumes "bolt_laws BD content" and "safe_task v"
  obtains (Stored) j where "putReplicationTask BD b k v = Inr (gm_put k j b)" and "dec_ReplicationTask j = Inr v"
    | (Failure) e where "putReplicationTask BD b k v = Inl e" and "io_error e"
  using assms unfolding putReplicationTask_def by (cases rule: task_codec.put_json_cases [where b = b and k = k])

text \<open>The three methods that update one task.\<close>

lemma updateTask_refines:
  assumes inv: "disk_queue_inv BD content q"
    and upd: "\<And>t. safe_task t \<Longrightarrow> safe_task (u t) \<and> rt_ID (u t) = rt_ID t"
    and ref: "ref = (case gm_get (mq_tasks (disk_queue_abs content q)) tid of
        None \<Rightarrow> (Inl ErrTaskNotFound, disk_queue_abs content q)
      | Some t \<Rightarrow> (Inr (u t), (disk_queue_abs content q)\<lparr>mq_tasks :=
                     gm_put tid (u t) (mq_tasks (disk_queue_abs content q))\<rparr>))"
  shows "write_ok (disk_queue_inv BD content) (disk_queue_abs content) q (updateTask BD tid u q) ref"
proof -
  from inv obtain b where laws: "bolt_laws BD content"
    and b: "gm_get (content (dq_db q)) replicationTasksBucket = Some b"
    and ok: "table_ok dec_ReplicationTask safe_task b" and wf: "wf_queue (disk_queue_abs content q)"
    and a: "disk_queue_abs content q = \<lparr>mq_tasks = table dec_ReplicationTask b, mq_now = dq_now q\<rparr>"
    by (rule disk_queue_invE)
  show ?thesis
  proof (cases "gm_get b tid")
    case None
    with ref wf inv b show ?thesis
      unfolding updateTask_def
      by (intro queue_update_refines) (auto simp: a task_codec.table_get)
  next
    case (Some j)
    with ok obtain t where t: "dec_ReplicationTask j = Inr t" "safe_task t"
      "gm_get (table dec_ReplicationTask b) tid = Some t"
      by (auto elim: task_codec.table_get_Some)
    then have tid: "rt_ID t = tid" using wf by (auto simp: a dest: wf_queue_ID)
    from upd [OF t(2)] tid wf have wf': "wf_queue (snd ref)"
      using ref t(3) by (auto simp: a intro: wf_queue_put [of "\<lparr>mq_tasks = table dec_ReplicationTask b, mq_now = dq_now q\<rparr>", simplified])
    from upd [OF t(2)] have safe: "safe_task (u t)" by simp
    show ?thesis
      unfolding updateTask_def using inv b _ wf'
    proof (rule queue_update_refines, goal_cases)
      case 1
      from laws safe show ?case
        by (cases rule: put_task_cases [where b = b and k = tid])
          (auto simp: Some t ref a decodeReplicationTask_def ok safe intro: task_codec.table_ok_put)
    qed
  qed
qed

lemma safe_LastError [simp]: "safe_str ''replication task lease expired''"
  by (rule ascii_safe) simp

lemma Disk_Mark_refines:
  assumes inv: "disk_queue_inv BD content q"
  shows "write_ok (disk_queue_inv BD content) (disk_queue_abs content) q (Disk_MarkRunning BD tid q)
           (MarkRunning tid (disk_queue_abs content q))"
    and "write_ok (disk_queue_inv BD content) (disk_queue_abs content) q (Disk_MarkDone BD tid q)
           (MarkDone tid (disk_queue_abs content q))"
    and "safe_str (cause_text e) \<Longrightarrow>
         write_ok (disk_queue_inv BD content) (disk_queue_abs content) q (Disk_MarkFailed BD tid e q)
           (MarkFailed tid e (disk_queue_abs content q))"
proof -
  have now: "mq_now (disk_queue_abs content q) = dq_now q" by (simp add: disk_queue_abs_def)
  show "write_ok (disk_queue_inv BD content) (disk_queue_abs content) q (Disk_MarkRunning BD tid q)
          (MarkRunning tid (disk_queue_abs content q))"
    unfolding Disk_MarkRunning_def using inv
    by (rule updateTask_refines) (auto simp: safe_task_def MarkRunning_def now Let_def split: option.split)
  show "write_ok (disk_queue_inv BD content) (disk_queue_abs content) q (Disk_MarkDone BD tid q)
          (MarkDone tid (disk_queue_abs content q))"
    unfolding Disk_MarkDone_def using inv
    by (rule updateTask_refines) (auto simp: safe_task_def MarkDone_def now Let_def split: option.split)
  assume "safe_str (cause_text e)"
  then show "write_ok (disk_queue_inv BD content) (disk_queue_abs content) q (Disk_MarkFailed BD tid e q)
          (MarkFailed tid e (disk_queue_abs content q))"
    unfolding Disk_MarkFailed_def using inv
    by (intro updateTask_refines)
      (auto simp: safe_task_def MarkFailed_def failReplicationTask_def cause_text_def now Let_def split: option.split)
qed

text \<open>Inserting tasks.\<close>

lemma enqueueLoop_refines:
  assumes "bolt_laws BD content" and "table_ok dec_ReplicationTask safe_task b" and "list_all safe_task ts"
  shows "(\<exists>e. enqueueLoop BD ts b = Inl e \<and> io_error e) \<or>
         (\<exists>b'. enqueueLoop BD ts b = Inr b' \<and> table_ok dec_ReplicationTask safe_task b' \<and>
            Enqueue ts \<lparr>mq_tasks = table dec_ReplicationTask b, mq_now = t\<rparr> =
              \<lparr>mq_tasks = table dec_ReplicationTask b', mq_now = t\<rparr>)"
  using assms(2,3)
proof (induction ts arbitrary: b)
  case Nil
  then show ?case by simp
next
  case (Cons task ts)
  show ?case
  proof (cases "gm_get b (rt_ID task)")
    case (Some j)
    with Cons.IH [OF Cons.prems(1)] Cons.prems(2) show ?thesis by (simp add: task_codec.table_get)
  next
    case None
    from Cons.prems(2) have safe: "safe_task task" by simp
    with assms(1) show ?thesis
    proof (cases rule: put_task_cases [where b = b and k = "rt_ID task"])
      case (Failure e)
      with None show ?thesis by simp
    next
      case (Stored j)
      from task_codec.table_ok_put [OF Cons.prems(1) Stored(2) safe]
      have "table_ok dec_ReplicationTask safe_task (gm_put (rt_ID task) j b)" .
      from Cons.IH [OF this] Cons.prems(2) None Stored show ?thesis
        by (simp add: task_codec.table_get)
    qed
  qed
qed

lemma safe_task_strings: "task_strings safe_str t \<longleftrightarrow> safe_task t"
  by (auto simp: task_strings_def safe_task_def safe_chunk_def [abs_def])

lemma Disk_Enqueue_refines:
  assumes inv: "disk_queue_inv BD content q" and ts: "list_all safe_task ts"
  shows "write_ok (disk_queue_inv BD content) (disk_queue_abs content) q (Disk_Enqueue BD ts q)
           (Inr (), Enqueue ts (disk_queue_abs content q))"
proof -
  from inv obtain b where laws: "bolt_laws BD content"
    and b: "gm_get (content (dq_db q)) replicationTasksBucket = Some b"
    and ok: "table_ok dec_ReplicationTask safe_task b" and wf: "wf_queue (disk_queue_abs content q)"
    and a: "disk_queue_abs content q = \<lparr>mq_tasks = table dec_ReplicationTask b, mq_now = dq_now q\<rparr>"
    by (rule disk_queue_invE)
  from enqueueLoop_refines [OF laws ok ts, of "dq_now q"] inv b wf show ?thesis
    unfolding Disk_Enqueue_def
    by (intro queue_update_refines) (auto simp: a wf_Enqueue)
qed

text \<open>Expired leases.\<close>

lemma Requeue_none:
  assumes "no_lease_expired q"
  shows "RequeueExpiredRunning q = ([], q)"
proof -
  have "filter (\<lambda>t. leaseExpired t (mq_now q)) (gm_vals (mq_tasks q)) = []"
    using assms by (auto simp: no_lease_expired_def gm_vals_def list_all_iff filter_empty_conv)
  moreover have "gm_update_all (\<lambda>_ t. if leaseExpired t (mq_now q) then expireReplicationTask t (mq_now q) else t)
      (mq_tasks q) = mq_tasks q"
    using assms by (auto simp: no_lease_expired_def gm_update_all_def list_all_iff intro!: map_idI)
  ultimately show ?thesis by (simp add: RequeueExpiredRunning_def sortReplicationTasks_def Let_def)
qed

lemma Disk_Requeue_refines:
  assumes inv: "disk_queue_inv BD content q" and none: "no_lease_expired (disk_queue_abs content q)"
  shows "write_ok (disk_queue_inv BD content) (disk_queue_abs content) q (Disk_RequeueExpiredRunning BD q)
           (Inr (fst (RequeueExpiredRunning (disk_queue_abs content q))),
            snd (RequeueExpiredRunning (disk_queue_abs content q)))"
proof -
  from inv obtain b where b: "gm_get (content (dq_db q)) replicationTasksBucket = Some b"
    and ok: "table_ok dec_ReplicationTask safe_task b" and wf: "wf_queue (disk_queue_abs content q)"
    and a: "disk_queue_abs content q = \<lparr>mq_tasks = table dec_ReplicationTask b, mq_now = dq_now q\<rparr>"
    by (rule disk_queue_invE)
  let ?P = "\<lambda>t. leaseExpired t (dq_now q)" and ?u = "\<lambda>t. expireReplicationTask t (dq_now q)"
  let ?f = "\<lambda>b. bucket_ForEach_Put BD (\<lambda>k v requeued b. bind_result (decodeReplicationTask v) (\<lambda>task.
      if ?P task then bind_result (putReplicationTask BD b k (?u task)) (\<lambda>b'. Inr (requeued @ [?u task], Some b'))
      else Inr (requeued, None))) b [] b"
  have "list_all (\<lambda>(_, t). \<not> ?P t) (table dec_ReplicationTask b)"
    using none by (simp add: no_lease_expired_def a)
  then have scan: "?f b = Inr ([], b)"
    unfolding decodeReplicationTask_def using ok by (intro task_codec.foreach_none_picked)
  have "write_ok (disk_queue_inv BD content) (disk_queue_abs content) q (queue_update BD ?f q)
      (Inr [], disk_queue_abs content q)"
    by (rule queue_update_refines [OF inv b disjI2], rule exI, rule exI, rule conjI, rule scan)
      (use wf ok in \<open>simp_all add: a\<close>)
  then show ?thesis
    by (auto simp: Requeue_none [OF none] Disk_RequeueExpiredRunning_def Let_def write_ok_def case_prod_beta
        sortReplicationTasks_def)
qed

text \<open>What holds of every transaction on the tasks: an error leaves them as they are.\<close>

lemma queue_update_rollback:
  assumes "disk_queue_inv BD content q" and "isl (fst (queue_update BD f q))"
  shows "disk_queue_abs content (snd (queue_update BD f q)) = disk_queue_abs content q"
proof -
  from assms(1) have laws: "bolt_laws BD content" by (simp add: disk_queue_inv_def)
  from bolt_Update_rollback [OF laws, of "in_bucket replicationTasksBucket f" "dq_db q"] assms(2)
  show ?thesis by (auto simp: queue_update_def disk_queue_abs_def case_prod_beta Let_def isl_def)
qed

lemma Disk_Requeue_rollback:
  assumes "disk_queue_inv BD content q" and "isl (fst (Disk_RequeueExpiredRunning BD q))"
  shows "disk_queue_abs content (snd (Disk_RequeueExpiredRunning BD q)) = disk_queue_abs content q"
  using assms(2) queue_update_rollback [OF assms(1)]
  by (auto simp: Disk_RequeueExpiredRunning_def case_prod_beta Let_def isl_def bind_result_eq_Inl)

text \<open>The readers.\<close>

lemma fold_filter_snoc: "fold (\<lambda>v s. if P v then s @ [v] else s) vs s = s @ filter P vs"
  by (induction vs arbitrary: s) auto

lemma Disk_queue_reads:
  assumes inv: "disk_queue_inv BD content q"
  shows "read_ok (Disk_Pending BD q) (Pending (disk_queue_abs content q))"
    and "read_ok (Disk_Stats BD q) (Stats (disk_queue_abs content q))"
proof -
  from inv obtain b where laws: "bolt_laws BD content"
    and b: "gm_get (content (dq_db q)) replicationTasksBucket = Some b"
    and ok: "table_ok dec_ReplicationTask safe_task b"
    and a: "disk_queue_abs content q = \<lparr>mq_tasks = table dec_ReplicationTask b, mq_now = dq_now q\<rparr>"
    by (rule disk_queue_invE)
  show "read_ok (Disk_Pending BD q) (Pending (disk_queue_abs content q))"
    unfolding Disk_Pending_def Let_def Pending_def
    by (rule read_ok_bind, rule bolt_View_reads [OF laws])
      (simp add: b a decodeReplicationTask_def task_codec.foreach_decode [OF ok] fold_filter_snoc)
  show "read_ok (Disk_Stats BD q) (Stats (disk_queue_abs content q))"
    unfolding Disk_Stats_def Stats_def
    by (rule bolt_View_reads [OF laws])
      (simp add: b a decodeReplicationTask_def task_codec.foreach_decode [OF ok] go_tally_def fold_map comp_def)
qed

lemma disk_queue_sel [simp]:
  "tq_Enqueue (DiskTaskQueue BD) = Disk_Enqueue BD"
  "tq_Pending (DiskTaskQueue BD) = Disk_Pending BD"
  "tq_MarkRunning (DiskTaskQueue BD) = Disk_MarkRunning BD"
  "tq_MarkDone (DiskTaskQueue BD) = Disk_MarkDone BD"
  "tq_MarkFailed (DiskTaskQueue BD) = Disk_MarkFailed BD"
  "tq_RequeueExpiredRunning (DiskTaskQueue BD) = Disk_RequeueExpiredRunning BD"
  "tq_Stats (DiskTaskQueue BD) = Disk_Stats BD"
  by (simp_all add: DiskTaskQueue_def)

interpretation disk_queue: task_queue "DiskTaskQueue BD" "disk_queue_abs content"
  "disk_queue_inv BD content" safe_str
  for BD :: "'d boltDB" and content :: "'d \<Rightarrow> buckets"
proof (unfold_locales, goal_cases)
  case (1 s)
  then show ?case by (simp add: disk_queue_inv_def)
next
  case (2 s ts)
  then have "list_all safe_task ts" by (simp add: list_all_iff safe_task_strings)
  with 2 show ?case by (simp add: Disk_Enqueue_refines)
next
  case (8 s)
  then show ?case using Disk_queue_reads(2) by auto
qed (auto intro!: Disk_Mark_refines Disk_Requeue_refines Disk_queue_reads)

text \<open>
  C22. The disk queue is the in-memory queue. On a queue whose bucket holds a table of tasks, over
  a database that meets its documentation, every method called with UTF-8 strings returns what
  the in-memory method returns on the decoded tasks and leaves the bucket holding the tasks the
  in-memory method leaves, or it reports an error of the layers below and the tasks are what
  they were; in particular a batch of tasks is queued as a whole or not at all. The one
  exception is \<open>RequeueExpiredRunning\<close> when some lease has expired: it then puts into the bucket
  it is scanning, which bbolt leaves undefined, and all that is claimed is that the tasks are
  what they were if it reports an error.
\<close>

theorem disk_queue_refines:
  assumes "disk_queue_inv BD content q" and "list_all (task_strings safe_str) ts"
    and "safe_str (cause_text cause)"
  shows "let I = disk_queue_inv BD content; A = disk_queue_abs content in
     write_ok I A q (Disk_Enqueue BD ts q) (Inr (), Enqueue ts (A q)) \<and>
     write_ok I A q (Disk_MarkRunning BD tid q) (MarkRunning tid (A q)) \<and>
     write_ok I A q (Disk_MarkDone BD tid q) (MarkDone tid (A q)) \<and>
     write_ok I A q (Disk_MarkFailed BD tid cause q) (MarkFailed tid cause (A q)) \<and>
     (no_lease_expired (A q) \<longrightarrow>
        write_ok I A q (Disk_RequeueExpiredRunning BD q)
          (Inr (fst (RequeueExpiredRunning (A q))), snd (RequeueExpiredRunning (A q)))) \<and>
     (isl (fst (Disk_RequeueExpiredRunning BD q)) \<longrightarrow> A (snd (Disk_RequeueExpiredRunning BD q)) = A q) \<and>
     read_ok (Disk_Pending BD q) (Pending (A q)) \<and>
     read_ok (Disk_Stats BD q) (Stats (A q))"
  using disk_queue.enqueue [OF assms(1,2)] disk_queue.mark_running [OF assms(1)]
    disk_queue.mark_done [OF assms(1)] disk_queue.mark_failed [OF assms(1,3)]
    disk_queue.requeue [OF assms(1)] Disk_Requeue_rollback [OF assms(1)] Disk_queue_reads [OF assms(1)]
  by simp

text \<open>A queue with one task that waits for its third attempt, for the witnesses.\<close>

definition demo_waiting_task :: ReplicationTask where
  "demo_waiting_task = \<lparr>rt_ID = ''k:1:a:b'', rt_Key = ''k'', rt_Version = 1, rt_Checksum = ''h'', rt_Chunks = [],
     rt_Source = ''a'', rt_Target = ''b'', rt_State = ReplicationTaskPending, rt_Attempts = 2,
     rt_LastError = '''', rt_RunAfter = 0, rt_LeaseUntil = 0, rt_CreatedAt = 5, rt_UpdatedAt = 10\<rparr>"

definition demo_task_json :: json where
  "demo_task_json = (case enc_ReplicationTask demo_waiting_task of Inr j \<Rightarrow> j | Inl _ \<Rightarrow> JNull)"

definition demo_task_db :: buckets where
  "demo_task_db = [(replicationTasksBucket, [(''k:1:a:b'', demo_task_json)])]"

lemma demo_task_codec:
  "safe_task demo_waiting_task"
  "dec_ReplicationTask demo_task_json = Inr demo_waiting_task"
proof -
  show safe: "safe_task demo_waiting_task"
    by (simp add: safe_task_def demo_waiting_task_def ascii_safe)
  have "\<exists>j. enc_ReplicationTask demo_waiting_task = Inr j"
    by (simp add: demo_waiting_task_def enc_ReplicationTask_def enc_time_def time_ok_def nanosecondsPerSecond_def)
  then have "enc_ReplicationTask demo_waiting_task = Inr demo_task_json" by (auto simp: demo_task_json_def)
  with safe show "dec_ReplicationTask demo_task_json = Inr demo_waiting_task"
    by (rule task_codec.round_trip)
qed

lemma demo_task_queue:
  "disk_queue_inv demo_bolt (\<lambda>db. db) \<lparr>dq_db = demo_task_db, dq_now = 20\<rparr>"
  "mq_tasks (disk_queue_abs (\<lambda>db. db) \<lparr>dq_db = demo_task_db, dq_now = t\<rparr>) = [(''k:1:a:b'', demo_waiting_task)]"
proof -
  show a: "mq_tasks (disk_queue_abs (\<lambda>db. db) \<lparr>dq_db = demo_task_db, dq_now = t\<rparr>) =
      [(''k:1:a:b'', demo_waiting_task)]" for t
    by (simp add: disk_queue_abs_def demo_task_db_def table_def demo_task_codec)
  have "rt_ID demo_waiting_task = ''k:1:a:b''" by (simp add: demo_waiting_task_def)
  with a [of 20] show "disk_queue_inv demo_bolt (\<lambda>db. db) \<lparr>dq_db = demo_task_db, dq_now = 20\<rparr>"
    by (simp add: disk_queue_inv_def wf_queue_def gm_wf_def gm_all_def)
      (simp add: demo_task_db_def table_ok_def demo_task_codec gm_wf_def)
qed

theorem disk_queue_refines_witness:
  "let q = \<lparr>dq_db = demo_task_db, dq_now = 20\<rparr> in
   read_ok (Disk_Pending demo_bolt q) [demo_waiting_task] \<and>
   (\<exists>q'. Disk_RequeueExpiredRunning demo_bolt q = (Inr [], q') \<and>
         disk_queue_abs (\<lambda>db. db) q' = disk_queue_abs (\<lambda>db. db) q)"
proof -
  let ?q = "\<lparr>dq_db = demo_task_db, dq_now = 20\<rparr>"
  let ?A = "disk_queue_abs (\<lambda>db. db)"
  have now: "mq_now (?A ?q) = 20" by (simp add: disk_queue_abs_def)
  have none: "no_lease_expired (?A ?q)"
    by (simp add: no_lease_expired_def demo_task_queue(2) leaseExpired_def) (simp add: demo_waiting_task_def)
  have pend: "Pending (?A ?q) = [demo_waiting_task]"
    by (simp add: Pending_def sortReplicationTasks_def demo_task_queue(2) gm_vals_def now Let_def)
      (simp add: demo_waiting_task_def readyToRun_def)
  have ok: "\<not> isl (fst (Disk_RequeueExpiredRunning demo_bolt ?q))"
    by (simp add: Disk_RequeueExpiredRunning_def queue_update_def bolt_Update_def demo_bolt_def in_bucket_def
        demo_task_db_def decodeReplicationTask_def demo_task_codec leaseExpired_def)
      (simp add: demo_waiting_task_def)
  have all: "write_ok (disk_queue_inv demo_bolt (\<lambda>db. db)) ?A ?q (Disk_RequeueExpiredRunning demo_bolt ?q)
        (Inr (fst (RequeueExpiredRunning (?A ?q))), snd (RequeueExpiredRunning (?A ?q))) \<and>
      read_ok (Disk_Pending demo_bolt ?q) (Pending (?A ?q))"
    using disk_queue_refines [OF demo_task_queue(1), of "[]" None] none
    unfolding Let_def by (simp add: cause_text_def)
  then have "\<exists>q'. Disk_RequeueExpiredRunning demo_bolt ?q = (Inr [], q') \<and> ?A q' = ?A ?q"
    using ok by (cases "Disk_RequeueExpiredRunning demo_bolt ?q") (auto simp: Requeue_none [OF none] write_ok_def isl_def)
  with all pend show ?thesis by (simp add: Let_def)
qed

section \<open>Reopening\<close>

text \<open>
  What a database file may hold before the queue is opened, and that it holds no task that was
  interrupted: then \<open>restoreRetryableTasks\<close> has nothing to put.
\<close>

definition none_interrupted :: "MemoryReplicationTaskQueue \<Rightarrow> bool" where
  "none_interrupted q \<longleftrightarrow>
     list_all (\<lambda>(_, t). rt_State t \<noteq> ReplicationTaskRunning \<and> rt_State t \<noteq> ReplicationTaskFailed) (mq_tasks q)"

definition task_file_ok :: "buckets \<Rightarrow> bool" where
  "task_file_ok tx \<longleftrightarrow>
     table_ok dec_ReplicationTask safe_task (bucket_of tx replicationTasksBucket) \<and>
     wf_queue (disk_queue_abs (\<lambda>db. db) \<lparr>dq_db = tx, dq_now = 0\<rparr>)"

lemma restoreRetryableTasks_keeps:
  assumes inv: "disk_queue_inv BD content q" and none: "none_interrupted (disk_queue_abs content q)"
  shows "write_ok (disk_queue_inv BD content) (disk_queue_abs content) q (restoreRetryableTasks BD q)
     (Inr (), disk_queue_abs content q)"
proof -
  from inv obtain b where b: "gm_get (content (dq_db q)) replicationTasksBucket = Some b"
    and ok: "table_ok dec_ReplicationTask safe_task b" and wf: "wf_queue (disk_queue_abs content q)"
    and a: "disk_queue_abs content q = \<lparr>mq_tasks = table dec_ReplicationTask b, mq_now = dq_now q\<rparr>"
    by (rule disk_queue_invE)
  let ?P = "\<lambda>t. \<not> (rt_State t \<noteq> ReplicationTaskRunning \<and> rt_State t \<noteq> ReplicationTaskFailed)"
  let ?put = "\<lambda>k t b. bind_result (putReplicationTask BD b k (t\<lparr>rt_State := ReplicationTaskPending, rt_LeaseUntil := 0,
      rt_RunAfter := 0, rt_UpdatedAt := dq_now q\<rparr>)) (\<lambda>b'. Inr ((), Some b'))"
  have "list_all (\<lambda>(_, t). \<not> ?P t) (table dec_ReplicationTask b)"
    using none by (simp add: none_interrupted_def a)
  from task_codec.foreach_none_picked [where P = ?P and s = "()" and b' = b and BD = BD and
      g = "\<lambda>k t s b. ?put k t b", OF ok this]
  have scan: "bucket_ForEach_Put BD (\<lambda>k v _ b. bind_result (dec_ReplicationTask v) (\<lambda>t.
      if ?P t then ?put k t b else Inr ((), None))) b () b = Inr ((), b)" by (simp cong: if_cong)
  show ?thesis
    unfolding restoreRetryableTasks_def decodeReplicationTask_def
    by (rule queue_update_refines [OF inv b]) (use wf ok scan in \<open>simp_all add: a\<close>)
qed

lemma initTaskBucket_opens:
  assumes "bolt_laws BD content" and "task_file_ok (content db)"
    and "initTaskBucket BD \<lparr>dq_db = db, dq_now = now\<rparr> = (Inr (), q)"
  shows "disk_queue_inv BD content q \<and> dq_now q = now \<and>
         mq_tasks (disk_queue_abs content q) = mq_tasks (disk_queue_abs content \<lparr>dq_db = db, dq_now = now\<rparr>)"
proof -
  let ?mk = "\<lambda>tx. bind_result (CreateBucketIfNotExists BD replicationTasksBucket tx) (\<lambda>tx'. Inr ((), tx'))"
  from assms(3) obtain db' where upd: "bolt_Update BD ?mk db = (Inr (), db')"
    and q: "q = \<lparr>dq_db = db', dq_now = now\<rparr>"
    by (auto simp: initTaskBucket_def Let_def split: prod.splits)
  from assms(1) have made: "CreateBucketIfNotExists BD replicationTasksBucket (content db) = Inr (content db')"
    by (cases rule: bolt_Update_cases [where f = ?mk and db = db]) (use upd in \<open>auto simp: bind_result_eq_Inr\<close>)
  note same = CreateBucketIfNotExists_bucket_of [OF made]
  then have "disk_queue_abs content q = \<lparr>mq_tasks = mq_tasks (disk_queue_abs content \<lparr>dq_db = db, dq_now = now\<rparr>), mq_now = now\<rparr>"
    by (simp add: disk_queue_abs_def q)
  moreover have "wf_queue \<lparr>mq_tasks = mq_tasks (disk_queue_abs content \<lparr>dq_db = db, dq_now = now\<rparr>), mq_now = now\<rparr>"
    using assms(2) by (simp add: task_file_ok_def disk_queue_abs_def wf_queue_def)
  ultimately show ?thesis using assms(1,2) same by (simp add: disk_queue_inv_def task_file_ok_def q)
qed

lemma NewDiskReplicationTaskQueue_opens:
  assumes "bolt_laws BD content" and "task_file_ok (content db)"
    and "none_interrupted (disk_queue_abs content \<lparr>dq_db = db, dq_now = now\<rparr>)"
    and "NewDiskReplicationTaskQueue BD now db = Inr q"
  shows "disk_queue_inv BD content q \<and>
     disk_queue_abs content q = disk_queue_abs content \<lparr>dq_db = db, dq_now = now\<rparr>"
proof -
  from assms(4) obtain q1 where init: "initTaskBucket BD \<lparr>dq_db = db, dq_now = now\<rparr> = (Inr (), q1)"
    and rest: "restoreRetryableTasks BD q1 = (Inr (), q)"
    by (auto simp: NewDiskReplicationTaskQueue_def bind_result_eq_Inr Let_def split: prod.splits)
  note q1 = initTaskBucket_opens [OF assms(1,2) init]
  then have same: "disk_queue_abs content q1 = disk_queue_abs content \<lparr>dq_db = db, dq_now = now\<rparr>"
    by (simp add: disk_queue_abs_def)
  from restoreRetryableTasks_keeps [of BD content q1] q1 assms(3) same rest show ?thesis
    by (simp add: write_ok_def)
qed

text \<open>An opening that fails does so with an error of the database.\<close>

lemma initTaskBucket_error:
  assumes "bolt_laws BD content" and "initTaskBucket BD \<lparr>dq_db = db, dq_now = now\<rparr> = (Inl e, q)"
  shows "io_error e"
proof -
  let ?mk = "\<lambda>tx. bind_result (CreateBucketIfNotExists BD replicationTasksBucket tx) (\<lambda>tx'. Inr ((), tx'))"
  from assms(2) obtain db' where upd: "bolt_Update BD ?mk db = (Inl e, db')"
    by (auto simp: initTaskBucket_def Let_def split: prod.splits)
  have io: "io_error e'" if "?mk (content db) = Inl e'" for e'
    using that bolt_lawsD(4) [OF assms(1)]
    by (auto simp: bind_result_eq_Inl CreateBucketIfNotExists_def split: option.splits)
  from assms(1) show ?thesis
    by (cases rule: bolt_Update_cases [where f = ?mk and db = db]) (use upd io in auto)
qed

lemma NewDiskReplicationTaskQueue_error:
  assumes "bolt_laws BD content" and "task_file_ok (content db)"
    and "none_interrupted (disk_queue_abs content \<lparr>dq_db = db, dq_now = now\<rparr>)"
    and "NewDiskReplicationTaskQueue BD now db = Inl e"
  shows "io_error e"
proof (cases "initTaskBucket BD \<lparr>dq_db = db, dq_now = now\<rparr>")
  case (Pair r q1)
  show ?thesis
  proof (cases r)
    case (Inl e1)
    with Pair assms(4) have "e = e1" by (simp add: NewDiskReplicationTaskQueue_def)
    with initTaskBucket_error [OF assms(1)] Pair Inl show ?thesis by blast
  next
    case (Inr u)
    with Pair have init: "initTaskBucket BD \<lparr>dq_db = db, dq_now = now\<rparr> = (Inr (), q1)" by simp
    note q1 = initTaskBucket_opens [OF assms(1,2) init]
    then have same: "disk_queue_abs content q1 = disk_queue_abs content \<lparr>dq_db = db, dq_now = now\<rparr>"
      by (simp add: disk_queue_abs_def)
    from init assms(4) have "fst (restoreRetryableTasks BD q1) = Inl e"
      by (auto simp: NewDiskReplicationTaskQueue_def bind_result_eq_Inl case_prod_beta)
    with restoreRetryableTasks_keeps [of BD content q1] q1 assms(3) same show ?thesis
      by (auto simp: write_ok_def case_prod_beta)
  qed
qed

text \<open>
  C23. Opening the queue keeps its tasks. On a database file whose bucket holds tasks (or is
  missing, as in a new file), none of them running or failed, the opened queue holds exactly
  those tasks and is ready for every method, or the opening fails with an error of the
  database. (With a running or failed task \<open>restoreRetryableTasks\<close> puts into the bucket it is
  scanning, which bbolt leaves undefined, and nothing is claimed.)
\<close>

theorem NewDiskReplicationTaskQueue_keeps:
  assumes "bolt_laws BD content" and "task_file_ok (content db)"
    and "none_interrupted (disk_queue_abs content \<lparr>dq_db = db, dq_now = now\<rparr>)"
  shows "case NewDiskReplicationTaskQueue BD now db of
      Inl e \<Rightarrow> io_error e
    | Inr q \<Rightarrow> disk_queue_inv BD content q \<and>
        disk_queue_abs content q = disk_queue_abs content \<lparr>dq_db = db, dq_now = now\<rparr>"
  using NewDiskReplicationTaskQueue_opens [OF assms] NewDiskReplicationTaskQueue_error [OF assms]
  by (simp split: sum.split)

lemma demo_task_file: "task_file_ok demo_task_db"
  using demo_task_queue(1)
  by (simp add: task_file_ok_def disk_queue_inv_def wf_queue_def demo_task_queue(2))

lemma demo_task_quiet:
  "none_interrupted (disk_queue_abs (\<lambda>db. db) \<lparr>dq_db = demo_task_db, dq_now = t\<rparr>)"
  by (simp add: none_interrupted_def demo_task_queue(2)) (simp add: demo_waiting_task_def)

lemma demo_reopen:
  "NewDiskReplicationTaskQueue demo_bolt t demo_task_db = Inr \<lparr>dq_db = demo_task_db, dq_now = t\<rparr>"
proof -
  have init: "initTaskBucket demo_bolt \<lparr>dq_db = demo_task_db, dq_now = t\<rparr> =
      (Inr (), \<lparr>dq_db = demo_task_db, dq_now = t\<rparr>)"
    by (simp add: initTaskBucket_def bolt_Update_def demo_bolt_def CreateBucketIfNotExists_def demo_task_db_def)
  have "rt_State demo_waiting_task = ReplicationTaskPending" by (simp add: demo_waiting_task_def)
  then have "restoreRetryableTasks demo_bolt \<lparr>dq_db = demo_task_db, dq_now = t\<rparr> =
      (Inr (), \<lparr>dq_db = demo_task_db, dq_now = t\<rparr>)"
    by (simp add: restoreRetryableTasks_def queue_update_def bolt_Update_def demo_bolt_def in_bucket_def
        demo_task_db_def decodeReplicationTask_def demo_task_codec)
  with init show ?thesis by (simp add: NewDiskReplicationTaskQueue_def)
qed

theorem NewDiskReplicationTaskQueue_keeps_witness:
  "\<exists>q. NewDiskReplicationTaskQueue demo_bolt 30 demo_task_db = Inr q \<and>
     disk_queue_inv demo_bolt (\<lambda>db. db) q \<and>
     mq_tasks (disk_queue_abs (\<lambda>db. db) q) = [(''k:1:a:b'', demo_waiting_task)]"
  using NewDiskReplicationTaskQueue_keeps [OF demo_bolt_laws demo_task_file demo_task_quiet, of 30]
  by (simp add: demo_reopen demo_task_queue(2))

end
