(* ===== verification/Disk_Coordinator.thy ===== *)
theory Disk_Coordinator
  imports Coordinator Metadata_Disk Replication_Disk
begin

text \<open>
  The coordinator over the disk stores, as \<open>runManager\<close> in \<open>src/distributed-fs/main.go\<close> puts
  them together: \<open>NewDiskReplicationTaskQueue\<close> gets the database that \<open>OpenDiskMetadataStore\<close>
  has opened.

  The two stores work on different buckets of that database, so each can be looked at as if it
  had the database for itself; that they do not disturb each other is the first theorem. The
  interpretation \<open>disk_coordinator\<close> then carries what the coordinator does over the in-memory
  stores through the contracts over to the disk stores.
\<close>

section \<open>One database for two stores\<close>

lemma task_bucket_name [simp]:
  "replicationTasksBucket \<noteq> metadataFilesBucket" "replicationTasksBucket \<noteq> metadataNodesBucket"
  "metadataFilesBucket \<noteq> replicationTasksBucket" "metadataNodesBucket \<noteq> replicationTasksBucket"
  by (simp_all add: replicationTasksBucket_def metadataFilesBucket_def metadataNodesBucket_def)

definition same_tasks :: "('d \<Rightarrow> buckets) \<Rightarrow> 'd \<Rightarrow> 'd \<Rightarrow> bool" where
  "same_tasks content db db' \<longleftrightarrow>
     gm_get (content db') replicationTasksBucket = gm_get (content db) replicationTasksBucket"

definition same_metadata :: "('d \<Rightarrow> buckets) \<Rightarrow> 'd \<Rightarrow> 'd \<Rightarrow> bool" where
  "same_metadata content db db' \<longleftrightarrow>
     gm_get (content db') metadataFilesBucket = gm_get (content db) metadataFilesBucket \<and>
     gm_get (content db') metadataNodesBucket = gm_get (content db) metadataNodesBucket"

lemma same_tasks_queue:
  "same_tasks content db db' \<Longrightarrow>
   disk_queue_inv BD content \<lparr>dq_db = db', dq_now = t\<rparr> = disk_queue_inv BD content \<lparr>dq_db = db, dq_now = t\<rparr> \<and>
   disk_queue_abs content \<lparr>dq_db = db', dq_now = t\<rparr> = disk_queue_abs content \<lparr>dq_db = db, dq_now = t\<rparr>"
  by (simp add: same_tasks_def disk_queue_inv_def disk_queue_abs_def bucket_of_def)

lemma same_metadata_store:
  "same_metadata content db db' \<Longrightarrow>
   disk_metadata_inv BD content \<lparr>ds_db = db', ds_now = t\<rparr> = disk_metadata_inv BD content \<lparr>ds_db = db, ds_now = t\<rparr> \<and>
   disk_metadata_abs content \<lparr>ds_db = db', ds_now = t\<rparr> = disk_metadata_abs content \<lparr>ds_db = db, ds_now = t\<rparr>"
  by (simp add: same_metadata_def disk_metadata_inv_def disk_metadata_abs_def bucket_of_def)

lemma disk_update_frame:
  "bolt_laws BD content \<Longrightarrow> name \<noteq> replicationTasksBucket \<Longrightarrow>
   same_tasks content (ds_db m) (ds_db (snd (disk_update BD name f m)))"
  using bolt_Update_frame [of BD content replicationTasksBucket name f "ds_db m"]
  by (simp add: same_tasks_def disk_update_def case_prod_beta Let_def)

lemma queue_update_frame:
  "bolt_laws BD content \<Longrightarrow> same_metadata content (dq_db q) (dq_db (snd (queue_update BD f q)))"
  using bolt_Update_frame [of BD content _ replicationTasksBucket f "dq_db q"]
  by (simp add: same_metadata_def queue_update_def case_prod_beta Let_def)

text \<open>
  C24. The metadata store and the queue share a database without disturbing each other. Whatever
  a method of the metadata store does, succeed or fail, the queue on the same database holds the
  tasks it held and stays usable exactly if it was; and the same the other way round.
\<close>

theorem shared_database:
  assumes "bolt_laws BD content"
  shows "(\<forall>m'. m' \<in> {snd (Disk_UpsertNode BD nid addr m), snd (Disk_MarkExpiredNodes BD ttl m),
            snd (Disk_BeginFileVersion BD k sz cs chs p rs m), snd (Disk_MarkReplica BD k nid st m),
            snd (Disk_Tombstone BD k m), snd (Disk_AddReplica BD k nid st m)} \<longrightarrow>
          disk_queue_abs content \<lparr>dq_db = ds_db m', dq_now = t\<rparr> =
            disk_queue_abs content \<lparr>dq_db = ds_db m, dq_now = t\<rparr> \<and>
          disk_queue_inv BD content \<lparr>dq_db = ds_db m', dq_now = t\<rparr> =
            disk_queue_inv BD content \<lparr>dq_db = ds_db m, dq_now = t\<rparr>) \<and>
         (\<forall>q'. q' \<in> {snd (Disk_Enqueue BD ts q), snd (Disk_MarkRunning BD tid q), snd (Disk_MarkDone BD tid q),
            snd (Disk_MarkFailed BD tid cause q), snd (Disk_RequeueExpiredRunning BD q),
            snd (restoreRetryableTasks BD q)} \<longrightarrow>
          disk_metadata_abs content \<lparr>ds_db = dq_db q', ds_now = t\<rparr> =
            disk_metadata_abs content \<lparr>ds_db = dq_db q, ds_now = t\<rparr> \<and>
          disk_metadata_inv BD content \<lparr>ds_db = dq_db q', ds_now = t\<rparr> =
            disk_metadata_inv BD content \<lparr>ds_db = dq_db q, ds_now = t\<rparr>)"
proof -
  have "same_tasks content (ds_db m) (ds_db m')"
    if "m' \<in> {snd (Disk_UpsertNode BD nid addr m), snd (Disk_MarkExpiredNodes BD ttl m),
            snd (Disk_BeginFileVersion BD k sz cs chs p rs m), snd (Disk_MarkReplica BD k nid st m),
            snd (Disk_Tombstone BD k m), snd (Disk_AddReplica BD k nid st m)}" for m'
    using that
    by (auto simp: Disk_UpsertNode_def Disk_MarkExpiredNodes_def Disk_BeginFileVersion_def Disk_MarkReplica_def
        Disk_Tombstone_def Disk_AddReplica_def Let_def intro!: disk_update_frame [OF assms])
  moreover have "same_metadata content (dq_db q) (dq_db q')"
    if "q' \<in> {snd (Disk_Enqueue BD ts q), snd (Disk_MarkRunning BD tid q), snd (Disk_MarkDone BD tid q),
            snd (Disk_MarkFailed BD tid cause q), snd (Disk_RequeueExpiredRunning BD q),
            snd (restoreRetryableTasks BD q)}" for q'
    using that
    by (auto simp: Disk_Enqueue_def Disk_MarkRunning_def Disk_MarkDone_def Disk_MarkFailed_def updateTask_def
        Disk_RequeueExpiredRunning_def restoreRetryableTasks_def case_prod_beta Let_def
        intro!: queue_update_frame [OF assms])
  ultimately show ?thesis
    by (intro conjI allI impI) (simp_all only: same_tasks_queue same_metadata_store)
qed

theorem shared_database_witness:
  "disk_queue_abs (\<lambda>db. db) \<lparr>dq_db = ds_db (snd (Disk_UpsertNode demo_bolt ''n1'' ''u1''
       \<lparr>ds_db = (metadataNodesBucket, []) # demo_task_db, ds_now = 9\<rparr>)), dq_now = 9\<rparr> =
   disk_queue_abs (\<lambda>db. db) \<lparr>dq_db = (metadataNodesBucket, []) # demo_task_db, dq_now = 9\<rparr>"
  using shared_database [OF demo_bolt_laws, of "''n1''" "''u1''"
      "\<lparr>ds_db = (metadataNodesBucket, []) # demo_task_db, ds_now = 9\<rparr>"] by simp

section \<open>The coordinator\<close>

interpretation disk_coordinator: coordinator "DiskMetadataBackend BD" "disk_metadata_abs content"
  "disk_metadata_inv BD content" "DiskTaskQueue BD" "disk_queue_abs content" "disk_queue_inv BD content" safe_str
  for BD :: "'d boltDB" and content :: "'d \<Rightarrow> buckets"
  by unfold_locales (auto intro: safe_task_id)

abbreviation disk_coordinator_abs ::
  "('d \<Rightarrow> buckets) \<Rightarrow> ('d DiskMetadataStore, 'd DiskReplicationTaskQueue) MetadataCoordinator \<Rightarrow> memory_coordinator" where
  "disk_coordinator_abs content \<equiv> coordinator_abs (disk_metadata_abs content) (disk_queue_abs content)"

abbreviation disk_coordinator_inv ::
  "'d boltDB \<Rightarrow> ('d \<Rightarrow> buckets) \<Rightarrow> ('d DiskMetadataStore, 'd DiskReplicationTaskQueue) MetadataCoordinator \<Rightarrow> bool" where
  "disk_coordinator_inv BD content \<equiv> coordinator_inv (disk_metadata_inv BD content) (disk_queue_inv BD content)"

text \<open>
  C25. Committing a write on disk. With UTF-8 names, \<open>CommitWrite\<close> over the disk stores answers
  and changes both tables exactly as over the in-memory stores, or it fails with an error of the
  database; then either nothing changed, or, if it was the queue that failed, the version is
  published and its copy tasks are missing. There is no third outcome.
\<close>

theorem CommitWrite_on_disk:
  assumes "disk_coordinator_inv BD content c" and "prepared_strings safe_str p"
    and "CommitWrite (DiskMetadataBackend BD) (DiskTaskQueue BD) p c = (r, c')"
  shows "disk_coordinator_inv BD content c' \<and>
     ((r, disk_coordinator_abs content c') =
        CommitWrite MemoryMetadataBackend MemoryTaskQueue p (disk_coordinator_abs content c) \<or>
      (\<exists>e. r = Inl e \<and> io_error e \<and>
         (disk_coordinator_abs content c' = disk_coordinator_abs content c \<or>
          disk_coordinator_abs content c' = (disk_coordinator_abs content c)\<lparr>mc_metadata :=
             snd (BeginFileVersion (pw_Key p) (pw_Size p) (pw_Checksum p) (pw_Chunks p)
               (nm_ID (pw_Primary p)) (map nm_ID (pw_Replicas p)) (mc_metadata (disk_coordinator_abs content c)))\<rparr>)))"
  using disk_coordinator.CommitWrite_refines [OF assms] by simp

definition demo_disk_coordinator ::
  "(buckets DiskMetadataStore, buckets DiskReplicationTaskQueue) MetadataCoordinator" where
  "demo_disk_coordinator = NewMetadataCoordinatorWithBackendAndQueue 2
     \<lparr>ds_db = [(metadataFilesBucket, []), (metadataNodesBucket, [])], ds_now = 5\<rparr>
     \<lparr>dq_db = [(replicationTasksBucket, [])], dq_now = 5\<rparr>"

definition demo_prepared :: PreparedWrite where
  "demo_prepared =
     (let node = (\<lambda>n. \<lparr>nm_ID = n, nm_Addr = ''u'', nm_State = NodeHealthy, nm_LastHeartbeat = 5\<rparr>)
      in \<lparr>pw_Key = ''k'', pw_Version = 1, pw_Size = 3, pw_Checksum = ''h'', pw_Chunks = [],
          pw_Primary = node ''n1'', pw_Replicas = [node ''n1'', node ''n2'']\<rparr>)"

lemma demo_disk_coordinator_inv:
  "disk_coordinator_inv demo_bolt (\<lambda>db. db) demo_disk_coordinator"
  by (simp add: coordinator_inv_def demo_disk_coordinator_def NewMetadataCoordinatorWithBackendAndQueue_def
      disk_metadata_inv_def disk_queue_inv_def disk_metadata_abs_def disk_queue_abs_def bucket_of_def
      table_ok_def table_def wf_metadata_def wf_queue_def)

lemma demo_commit_succeeds:
  "\<not> isl (fst (CommitWrite (DiskMetadataBackend demo_bolt) (DiskTaskQueue demo_bolt) demo_prepared demo_disk_coordinator))"
  by code_simp

lemma demo_commit_memory:
  "case CommitWrite MemoryMetadataBackend MemoryTaskQueue demo_prepared
      (NewMetadataCoordinatorWithBackendAndQueue 2 (NewMetadataStore 5) (NewMemoryReplicationTaskQueue 5)) of
     (Inr wp, c') \<Rightarrow> map rt_Target (wp_Tasks wp) = [''n2''] \<and> map (rt_Target \<circ> snd) (mq_tasks (mc_tasks c')) = [''n2''] \<and>
       map fst (ms_files (mc_metadata c')) = [''k'']
   | _ \<Rightarrow> False"
  by code_simp

theorem CommitWrite_on_disk_witness:
  "\<exists>wp c'. CommitWrite (DiskMetadataBackend demo_bolt) (DiskTaskQueue demo_bolt) demo_prepared
            demo_disk_coordinator = (Inr wp, c') \<and>
     disk_coordinator_inv demo_bolt (\<lambda>db. db) c' \<and> map rt_Target (wp_Tasks wp) = [''n2''] \<and>
     map (rt_Target \<circ> snd) (mq_tasks (disk_queue_abs (\<lambda>db. db) (mc_tasks c'))) = [''n2''] \<and>
     map fst (ms_files (disk_metadata_abs (\<lambda>db. db) (mc_metadata c'))) = [''k'']"
proof -
  obtain wp c' where run: "CommitWrite (DiskMetadataBackend demo_bolt) (DiskTaskQueue demo_bolt) demo_prepared
      demo_disk_coordinator = (Inr wp, c')"
    using demo_commit_succeeds by (metis isl_def prod.collapse sum.exhaust)
  have safe: "prepared_strings safe_str demo_prepared"
    by (simp add: prepared_strings_def demo_prepared_def Let_def ascii_safe)
  have start: "disk_coordinator_abs (\<lambda>db. db) demo_disk_coordinator =
      NewMetadataCoordinatorWithBackendAndQueue 2 (NewMetadataStore 5) (NewMemoryReplicationTaskQueue 5)"
    by (simp add: coordinator_abs_def demo_disk_coordinator_def NewMetadataCoordinatorWithBackendAndQueue_def
        disk_metadata_abs_def disk_queue_abs_def bucket_of_def table_def NewMetadataStore_def NewMemoryReplicationTaskQueue_def)
  from CommitWrite_on_disk [OF demo_disk_coordinator_inv safe run]
  have inv: "disk_coordinator_inv demo_bolt (\<lambda>db. db) c'"
    and "CommitWrite MemoryMetadataBackend MemoryTaskQueue demo_prepared
      (NewMetadataCoordinatorWithBackendAndQueue 2 (NewMetadataStore 5) (NewMemoryReplicationTaskQueue 5)) =
      (Inr wp, disk_coordinator_abs (\<lambda>db. db) c')" by (simp_all add: start)
  with demo_commit_memory run show ?thesis by simp
qed

text \<open>
  The life of a copy on disk. Starting, finishing and failing a replication task over the
  disk stores answers and changes both tables exactly as over the in-memory stores, or it fails
  with an error of the database; then the file's record is what it was, and the task is as it
  was or has been moved on.
\<close>

theorem replication_on_disk:
  assumes "disk_coordinator_inv BD content c" and "safe_str (cause_text cause)"
  shows "write_ok (disk_coordinator_inv BD content) (disk_coordinator_abs content) c
           (StartReplication (DiskTaskQueue BD) tid c)
           (StartReplication MemoryTaskQueue tid (disk_coordinator_abs content c)) \<and>
     (\<forall>r c'. FinishReplication (DiskMetadataBackend BD) (DiskTaskQueue BD) tid c = (r, c') \<longrightarrow>
        disk_coordinator_inv BD content c' \<and>
        ((r, disk_coordinator_abs content c') =
           FinishReplication MemoryMetadataBackend MemoryTaskQueue tid (disk_coordinator_abs content c) \<or>
         (\<exists>e. r = Inl e \<and> io_error e \<and>
            mc_metadata (disk_coordinator_abs content c') = mc_metadata (disk_coordinator_abs content c) \<and>
            mc_tasks (disk_coordinator_abs content c') \<in> {mc_tasks (disk_coordinator_abs content c),
              snd (MarkDone tid (mc_tasks (disk_coordinator_abs content c)))}))) \<and>
     (\<forall>r c'. FailReplication (DiskMetadataBackend BD) (DiskTaskQueue BD) tid cause c = (r, c') \<longrightarrow>
        disk_coordinator_inv BD content c' \<and>
        ((r, disk_coordinator_abs content c') =
           FailReplication MemoryMetadataBackend MemoryTaskQueue tid cause (disk_coordinator_abs content c) \<or>
         (\<exists>e. r = Inl e \<and> io_error e \<and>
            mc_metadata (disk_coordinator_abs content c') = mc_metadata (disk_coordinator_abs content c) \<and>
            mc_tasks (disk_coordinator_abs content c') \<in> {mc_tasks (disk_coordinator_abs content c),
              snd (MarkFailed tid cause (mc_tasks (disk_coordinator_abs content c)))})))"
proof (intro conjI allI impI, goal_cases)
  case 1
  from assms(1) show ?case by (rule disk_coordinator.StartReplication_refines)
next
  case (2 r c')
  from disk_coordinator.FinishReplication_refines [OF assms(1) 2] show ?case by simp
next
  case (3 r c')
  from disk_coordinator.FinishReplication_refines [OF assms(1) 3] show ?case by simp
next
  case (4 r c')
  from disk_coordinator.FailReplication_refines [OF assms 4] show ?case by simp
next
  case (5 r c')
  from disk_coordinator.FailReplication_refines [OF assms 5] show ?case by simp
qed

theorem replication_on_disk_witness:
  "fst (StartReplication (DiskTaskQueue demo_bolt) ''t'' demo_disk_coordinator) = Inl ErrTaskNotFound"
proof -
  have "write_ok (disk_coordinator_inv demo_bolt (\<lambda>db. db)) (disk_coordinator_abs (\<lambda>db. db)) demo_disk_coordinator
      (StartReplication (DiskTaskQueue demo_bolt) ''t'' demo_disk_coordinator)
      (StartReplication MemoryTaskQueue ''t'' (disk_coordinator_abs (\<lambda>db. db) demo_disk_coordinator))"
    using replication_on_disk [OF demo_disk_coordinator_inv, of None "''t''"] by (simp add: cause_text_def)
  moreover have "bolt_begin demo_bolt db = Inr db" for db by (simp add: demo_bolt_def)
  ultimately show ?thesis
    by (simp add: write_ok_def StartReplication_def Disk_MarkRunning_def updateTask_def queue_update_def
        bolt_Update_def in_bucket_def demo_disk_coordinator_def NewMetadataCoordinatorWithBackendAndQueue_def
        io_error_def case_prod_beta Let_def)
qed

end
