(* ===== verification/Commands.thy ===== *)
theory Commands
  imports Manager_Loop Disk_Coordinator
begin

text \<open>
  The commands of \<open>src/distributed-fs/main.go\<close>: how the manager and a storage node are put
  together, the heartbeat of a node, and the client's \<open>put\<close>, \<open>get\<close> and \<open>delete\<close>. Flags come
  parsed (\<open>Command_Line\<close>): a command gets their values and the remaining arguments. What it prints is its
  value.

  Shown here too, for a manager put together in this way: what it has when it starts, and what a
  \<open>Put\<close> that fails leaves behind.

  The client reaches the manager over a network with faults. How \<open>stat\<close> and \<open>nodes\<close> lay out the
  documents they print is not modelled.
\<close>

section \<open>Addresses\<close>

definition nodeFlags_Set :: "string \<Rightarrow> string gomap \<Rightarrow> unit result \<times> string gomap" where
  "nodeFlags_Set v n =
     (case Cut (CHR ''='') v of
        (nid, Some addr) \<Rightarrow>
          if nid = '''' \<or> addr = '''' then (Inl (ErrOther ''node must be id=url''), n)
          else (Inr (), gm_put nid addr n)
      | (_, None) \<Rightarrow> (Inl (ErrOther ''node must be id=url''), n))"

definition fileURL :: "string \<Rightarrow> string \<Rightarrow> string" where
  "fileURL manager key = TrimRightSlash manager @ ''/files/'' @ PathEscape key"

text \<open>
  \<open>mustRequest\<close> panics where \<open>url.Parse\<close> refuses the URL: a colon in the first segment that does
  not end a scheme, or an escape that is none.
\<close>

definition valid_scheme :: "string \<Rightarrow> bool" where
  "valid_scheme s \<longleftrightarrow> s \<noteq> [] \<and>
     list_all (\<lambda>c. CHR ''a'' \<le> ascii_lower c \<and> ascii_lower c \<le> CHR ''z'' \<or> is_digit c \<or> c \<in> set ''+-.'') s \<and>
     CHR ''a'' \<le> ascii_lower (hd s) \<and> ascii_lower (hd s) \<le> CHR ''z''"

definition url_refused :: "string \<Rightarrow> bool" where
  "url_refused u \<longleftrightarrow>
     (let (scheme, rest) = Cut (CHR '':'') (fst (Cut (CHR ''?'') (fst (Cut (CHR ''#'') u))))
      in rest \<noteq> None \<and> CHR ''/'' \<notin> set scheme \<and> \<not> valid_scheme scheme) \<or> parse_url u = Inl EscapeError"

definition mustRequest :: "string \<Rightarrow> string result" where
  "mustRequest u = (if url_refused u then Inl (Panic ''parse'') else Inr u)"

section \<open>The manager at an address\<close>

record ('m, 'q, 's) site =
  si_origin :: string
  si_handler :: "('m, 'q, 's) ManagerHTTPHandler"
  si_fault :: "http_method \<Rightarrow> string \<Rightarrow> net_fault option"

abbreviation site_metadata :: "('m, 'q, 's) site \<Rightarrow> 'm" where
  "site_metadata site \<equiv> mc_metadata (sv_coordinator (mh_service (si_handler site)))"

abbreviation site_tasks :: "('m, 'q, 's) site \<Rightarrow> 'q" where
  "site_tasks site \<equiv> mc_tasks (sv_coordinator (mh_service (si_handler site)))"

abbreviation site_objects :: "('m, 'q, 's) site \<Rightarrow> 's" where
  "site_objects site \<equiv> sv_objects (mh_service (si_handler site))"

text \<open>A reply as the client has it: status, body, and where the network cuts the body off.\<close>

record reply =
  ry_Status :: int
  ry_Body :: http_body
  ry_Cut :: "(nat \<times> string) option"

text \<open>
  \<open>http.DefaultClient.Do\<close> with a body of bytes or of a JSON document. A request that is cut off
  carries no complete document; a handler that panics closes the connection.
\<close>

definition manager_Do ::
  "(byte list \<Rightarrow> string) \<Rightarrow> tempEnv \<Rightarrow> 'm MetadataBackend \<Rightarrow> 'q ReplicationTaskQueue \<Rightarrow> 's ObjectStore
    \<Rightarrow> http_method \<Rightarrow> string \<Rightarrow> reader \<Rightarrow> json result \<Rightarrow> ('m, 'q, 's) site \<Rightarrow> reply result \<times> ('m, 'q, 's) site" where
  "manager_Do H te B Q OS meth u body doc site =
     (case parse_url u of
        Inl err \<Rightarrow> (Inl err, site)
      | Inr (origin, path, query) \<Rightarrow>
          if origin \<noteq> si_origin site then (Inl (ErrOther ''no such host''), site)
          else
            (case si_fault site meth u of
               Some (Unreachable msg) \<Rightarrow> (Inl (ErrOther msg), site)
             | fault \<Rightarrow>
                 (let body' = sent_body fault body;
                      doc' = (case fault of Some (RequestCut _ msg) \<Rightarrow> Inl (ErrOther msg) | _ \<Rightarrow> doc);
                      (ans, h') = ManagerServeHTTP H te B Q OS
                        \<lparr>rq_Method = meth, rq_Path = path, rq_Query = query, rq_Body = body', rq_Json = doc'\<rparr>
                        (si_handler site);
                      site' = site\<lparr>si_handler := h'\<rparr>
                  in case ans of
                       None \<Rightarrow> (Inl (ErrOther ''EOF''), site')
                     | Some resp \<Rightarrow>
                         (case fault of
                            Some (ReplyLost msg) \<Rightarrow> (Inl (ErrOther msg), site')
                          | _ \<Rightarrow>
                              (case snd (drain (rd_reads body')) of
                                 Some err \<Rightarrow> (Inl err, site')
                               | None \<Rightarrow>
                                   (Inr \<lparr>ry_Status = rs_Status resp, ry_Body = rs_Body resp,
                                         ry_Cut = (case fault of Some (ReplyCut n msg) \<Rightarrow> Some (n, msg) | _ \<Rightarrow> None)\<rparr>,
                                    site'))))))"

definition reply_json :: "reply \<Rightarrow> json result" where
  "reply_json ry =
     (case ry_Cut ry of
        Some (_, msg) \<Rightarrow> Inl (ErrOther msg)
      | None \<Rightarrow> (case ry_Body ry of JsonBody j \<Rightarrow> Inr j | _ \<Rightarrow> Inl (ErrOther ''EOF'')))"

definition reply_stream :: "reply \<Rightarrow> read_event list" where
  "reply_stream ry =
     (let es = (case ry_Body ry of StreamBody es \<Rightarrow> wire_body None es | _ \<Rightarrow> [])
      in case ry_Cut ry of Some (n, msg) \<Rightarrow> cut_stream n msg es | None \<Rightarrow> es)"

text \<open>
  The text of an error's body: the page of \<open>NotFound\<close> or the object with the message, as JSON
  writes it, each with the end of the line.
\<close>

definition json_char :: "char \<Rightarrow> string" where
  "json_char c =
     (if c = CHR 0x22 \<or> c = CHR 0x5C then [CHR 0x5C, c]
      else if c = CHR 0x08 then [CHR 0x5C, CHR ''b''] else if c = CHR 0x0C then [CHR 0x5C, CHR ''f'']
      else if c = CHR 0x0A then [CHR 0x5C, CHR ''n''] else if c = CHR 0x0D then [CHR 0x5C, CHR ''r'']
      else if c = CHR 0x09 then [CHR 0x5C, CHR ''t'']
      else if of_char c < (0x20 :: nat) \<or> c \<in> set ''<>&''
      then [CHR 0x5C, CHR ''u'', CHR ''0'', CHR ''0'', ascii_lower (upperhex (of_char c div 16)),
            ascii_lower (upperhex (of_char c mod 16))]
      else [c])"

definition json_quote :: "string \<Rightarrow> string" where
  "json_quote s = [CHR 0x22] @ concat (map json_char s) @ [CHR 0x22]"

fun error_text :: "http_body \<Rightarrow> string" where
  "error_text (TextBody t) = t @ [CHR 0x0A]"
| "error_text (JsonBody (JObj [(name, JStr s)])) = ''{'' @ json_quote name @ '':'' @ json_quote s @ ''}'' @ [CHR 0x0A]"
| "error_text _ = ''''"

definition TrimSpace :: "string \<Rightarrow> string" where
  "TrimSpace s =
     (let space = (\<lambda>c. c \<in> {CHR 0x09, CHR 0x0A, CHR 0x0B, CHR 0x0C, CHR 0x0D, CHR '' ''})
      in rev (dropWhile space (rev (dropWhile space s))))"

definition responseError :: "reply \<Rightarrow> error" where
  "responseError ry =
     (let data = (case ry_Cut ry of
                    None \<Rightarrow> error_text (ry_Body ry)
                  | Some (n, _) \<Rightarrow> take n (error_text (ry_Body ry)))
      in ErrOther (''request failed: '' @ status_line (ry_Status ry) @ '' '' @ TrimSpace data))"

text \<open>The verb \<open>%d\<close>.\<close>

definition fmt_d :: "int \<Rightarrow> string" where
  "fmt_d i = (if i < 0 then ''-'' @ dec (nat (- i)) else dec (nat i))"

section \<open>The client\<close>

text \<open>\<open>runPut\<close>: the file is read from the client's file system.\<close>

definition runPut ::
  "(byte list \<Rightarrow> string) \<Rightarrow> tempEnv \<Rightarrow> 'm MetadataBackend \<Rightarrow> 'q ReplicationTaskQueue \<Rightarrow> 's ObjectStore
    \<Rightarrow> string \<Rightarrow> string list \<Rightarrow> file_system \<Rightarrow> ('m, 'q, 's) site \<Rightarrow> string result \<times> ('m, 'q, 's) site" where
  "runPut H te B Q OS manager args fs site =
     (case args of
        [key, path] \<Rightarrow>
          (case os_Open (filepath_Clean path) fs of
             Inl err \<Rightarrow> (Inl err, site)
           | Inr (_, f) \<Rightarrow>
               (case mustRequest (fileURL manager key) of
                  Inl p \<Rightarrow> (Inl p, site)
                | Inr u \<Rightarrow>
                    (case manager_Do H te B Q OS MethodPut u f (Inl (ErrOther ''EOF'')) site of
                       (Inl err, site') \<Rightarrow> (Inl err, site')
                     | (Inr ry, site') \<Rightarrow>
                         if ry_Status ry div 100 \<noteq> 2 then (Inl (responseError ry), site')
                         else (bind_result (bind_result (reply_json ry) dec_FileMetadata) (\<lambda>meta.
                                 Inr (''stored key='' @ fm_Key meta @ '' version='' @ dec (unat (fm_Version meta)) @
                                      '' size='' @ fmt_d (fm_Size meta) @ '' checksum='' @ fm_Checksum meta)), site'))))
      | _ \<Rightarrow> (Inl (ErrOther ''usage: fs put [flags] <key> <path>''), site))"

text \<open>\<open>runGet\<close>: the content goes to a file that is created, or truncated, first.\<close>

definition runGet ::
  "(byte list \<Rightarrow> string) \<Rightarrow> tempEnv \<Rightarrow> 'm MetadataBackend \<Rightarrow> 'q ReplicationTaskQueue \<Rightarrow> 's ObjectStore
    \<Rightarrow> string \<Rightarrow> string list \<Rightarrow> file_system \<Rightarrow> ('m, 'q, 's) site
    \<Rightarrow> string result \<times> file_system \<times> ('m, 'q, 's) site" where
  "runGet H te B Q OS manager args fs site =
     (case args of
        [key, out] \<Rightarrow>
          (case manager_Do H te B Q OS MethodGet (fileURL manager key) no_body (Inl (ErrOther ''EOF'')) site of
             (Inl err, site') \<Rightarrow> (Inl err, fs, site')
           | (Inr ry, site') \<Rightarrow>
               if ry_Status ry div 100 \<noteq> 2 then (Inl (responseError ry), fs, site')
               else
                 (let p = filepath_Clean out
                  in case os_Create p fs of
                       (Inl err, fs1) \<Rightarrow> (Inl err, fs1, site')
                     | (Inr _, fs1) \<Rightarrow>
                         (let (bytes, _, copyErr) = io_copy (fs_room fs1 p) (reply_stream ry) [];
                              fs2 = fs_set p (File bytes) fs1
                          in case copyErr of
                               Some err \<Rightarrow> (Inl err, fs2, site')
                             | None \<Rightarrow>
                                 (Inr (''fetched key='' @ key @ '' bytes='' @ dec (length bytes)), fs2, site'))))
      | _ \<Rightarrow> (Inl (ErrOther ''usage: fs get [flags] <key> <out>''), fs, site))"

definition runDelete ::
  "(byte list \<Rightarrow> string) \<Rightarrow> tempEnv \<Rightarrow> 'm MetadataBackend \<Rightarrow> 'q ReplicationTaskQueue \<Rightarrow> 's ObjectStore
    \<Rightarrow> string \<Rightarrow> string list \<Rightarrow> ('m, 'q, 's) site \<Rightarrow> string result \<times> ('m, 'q, 's) site" where
  "runDelete H te B Q OS manager args site =
     (case args of
        [key] \<Rightarrow>
          (case mustRequest (fileURL manager key) of
             Inl p \<Rightarrow> (Inl p, site)
           | Inr u \<Rightarrow>
               (case manager_Do H te B Q OS MethodDelete u no_body (Inl (ErrOther ''EOF'')) site of
                  (Inl err, site') \<Rightarrow> (Inl err, site')
                | (Inr ry, site') \<Rightarrow>
                    if ry_Status ry div 100 \<noteq> 2 then (Inl (responseError ry), site')
                    else (Inr (''deleted key='' @ key), site')))
      | _ \<Rightarrow> (Inl (ErrOther ''usage: fs delete [flags] <key>''), site))"

text \<open>
  \<open>stat\<close> and \<open>nodes\<close> fetch a document; their value is the document, before \<open>MarshalIndent\<close>
  lays it out.
\<close>

definition printJSON ::
  "(byte list \<Rightarrow> string) \<Rightarrow> tempEnv \<Rightarrow> 'm MetadataBackend \<Rightarrow> 'q ReplicationTaskQueue \<Rightarrow> 's ObjectStore
    \<Rightarrow> string \<Rightarrow> ('m, 'q, 's) site \<Rightarrow> json result \<times> ('m, 'q, 's) site" where
  "printJSON H te B Q OS endpoint site =
     (case manager_Do H te B Q OS MethodGet endpoint no_body (Inl (ErrOther ''EOF'')) site of
        (Inl err, site') \<Rightarrow> (Inl err, site')
      | (Inr ry, site') \<Rightarrow>
          if ry_Status ry div 100 \<noteq> 2 then (Inl (responseError ry), site') else (reply_json ry, site'))"

definition runStat ::
  "(byte list \<Rightarrow> string) \<Rightarrow> tempEnv \<Rightarrow> 'm MetadataBackend \<Rightarrow> 'q ReplicationTaskQueue \<Rightarrow> 's ObjectStore
    \<Rightarrow> string \<Rightarrow> string list \<Rightarrow> ('m, 'q, 's) site \<Rightarrow> json result \<times> ('m, 'q, 's) site" where
  "runStat H te B Q OS manager args site =
     (case args of
        [key] \<Rightarrow> printJSON H te B Q OS (fileURL manager key @ ''/metadata'') site
      | _ \<Rightarrow> (Inl (ErrOther ''usage: fs stat [flags] <key>''), site))"

definition runNodes ::
  "(byte list \<Rightarrow> string) \<Rightarrow> tempEnv \<Rightarrow> 'm MetadataBackend \<Rightarrow> 'q ReplicationTaskQueue \<Rightarrow> 's ObjectStore
    \<Rightarrow> string \<Rightarrow> string list \<Rightarrow> ('m, 'q, 's) site \<Rightarrow> json result \<times> ('m, 'q, 's) site" where
  "runNodes H te B Q OS manager args site =
     (case args of
        [] \<Rightarrow> printJSON H te B Q OS (TrimRightSlash manager @ ''/nodes'') site
      | _ \<Rightarrow> (Inl (ErrOther ''usage: fs nodes [flags]''), site))"

definition heartbeatURL :: "string \<Rightarrow> string \<Rightarrow> string" where
  "heartbeatURL manager nodeID = TrimRightSlash manager @ ''/internal/nodes/'' @ PathEscape nodeID"

text \<open>\<open>sendHeartbeat\<close>, one round of \<open>storageHeartbeatLoop\<close>.\<close>

definition sendHeartbeat ::
  "(byte list \<Rightarrow> string) \<Rightarrow> tempEnv \<Rightarrow> 'm MetadataBackend \<Rightarrow> 'q ReplicationTaskQueue \<Rightarrow> 's ObjectStore
    \<Rightarrow> string \<Rightarrow> string \<Rightarrow> string \<Rightarrow> ('m, 'q, 's) site \<Rightarrow> unit result \<times> ('m, 'q, 's) site" where
  "sendHeartbeat H te B Q OS manager nodeID addr site =
     (let doc = JObj [(''addr'', enc_str addr)];
          endpoint = heartbeatURL manager nodeID
      in case mustRequest endpoint of
           Inl p \<Rightarrow> (Inl p, site)
         | Inr u \<Rightarrow>
             (case manager_Do H te B Q OS MethodPut u no_body (Inr doc) site of
                (Inl err, site') \<Rightarrow> (Inl err, site')
              | (Inr ry, site') \<Rightarrow>
                  if ry_Status ry div 100 \<noteq> 2 then (Inl (responseError ry), site') else (Inr (), site')))"

section \<open>Putting the processes together\<close>

fun registerNodes ::
  "'m MetadataBackend \<Rightarrow> (string \<times> string) list \<Rightarrow> ('m, 'q, 's) ManagedFileService
    \<Rightarrow> unit result \<times> ('m, 'q, 's) ManagedFileService" where
  "registerNodes B [] sv = (Inr (), sv)"
| "registerNodes B ((nid, addr) # nodes) sv =
     (case Service_RegisterNode B nid addr sv of
        (Inl err, sv') \<Rightarrow> (Inl err, sv')
      | (Inr _, sv') \<Rightarrow> registerNodes B nodes sv')"

text \<open>
  \<open>runManager\<close> up to the point where it serves requests: the handler, over the disk stores on the
  database at a path, and the file system after the directory of the database is made. \<open>net\<close> is
  the network of the storage nodes.
\<close>

definition runManager ::
  "'d boltDB \<Rightarrow> instant \<Rightarrow> 's network \<Rightarrow> string \<Rightarrow> int \<Rightarrow> string gomap \<Rightarrow> file_system
    \<Rightarrow> ('d DiskMetadataStore, 'd DiskReplicationTaskQueue, 's HTTPObjectStore) ManagerHTTPHandler result \<times> file_system" where
  "runManager BD now net metadataDB replicas nodes fs =
     (if length nodes = 0 then (Inl (ErrOther ''at least one -node id=url is required''), fs)
      else
        (case os_MkdirAll (filepath_Dir (filepath_Clean metadataDB)) fs of
           (Inl err, fs1) \<Rightarrow> (Inl err, fs1)
         | (Inr _, fs1) \<Rightarrow>
             (bind_result (OpenDiskMetadataStore BD now metadataDB) (\<lambda>metadata.
              bind_result (NewDiskReplicationTaskQueue BD now (ds_db metadata)) (\<lambda>tasks.
                let objects = NewHTTPObjectStore nodes net;
                    service = NewManagedFileServiceWithMetadataAndQueue replicas objects metadata tasks;
                    (r, service') = registerNodes (DiskMetadataBackend BD) nodes service
                in bind_result r (\<lambda>_. Inr (NewManagerHTTPHandler service' [SetNode])))), fs1)))"

text \<open>\<open>runStorage\<close>: the handler of the node and the address it announces, if it has a manager.\<close>

definition runStorage ::
  "(string \<Rightarrow> string) \<Rightarrow> string \<Rightarrow> string \<Rightarrow> string \<Rightarrow> string \<Rightarrow> string \<Rightarrow> file_system
    \<Rightarrow> (file_system StorageHTTPHandler \<times> string option) result" where
  "runStorage D sid addr advertise manager root fs =
     (if sid = '''' then Inl (ErrOther ''-id is required'')
      else
        let store = NewStore \<lparr>so_Root = root, so_PathTransformFunc = Some (CASPathTransformFunc D)\<rparr>;
            heartbeatAddr = (if advertise = '''' then ''http://127.0.0.1'' @ addr else advertise)
        in Inr (NewStorageHTTPHandler sid (LocalObjectStore store) fs,
                if manager \<noteq> '''' then Some heartbeatAddr else None))"

section \<open>Requests of the client\<close>

text \<open>An address of a manager: \<open>scheme://host\<close>, with any number of slashes behind it.\<close>

definition manager_address :: "string \<Rightarrow> bool" where
  "manager_address mgr \<longleftrightarrow> is_origin (TrimRightSlash mgr) \<and> valid_scheme (fst (Cut (CHR '':'') (TrimRightSlash mgr)))"

lemma parse_escaped:
  assumes "is_origin orig" and "set prefix \<inter> set ''?#%'' = {}" and "set suffix \<inter> set ''?#%'' = {}"
  shows "parse_url (orig @ CHR ''/'' # prefix @ PathEscape k @ suffix) =
    Inr (orig, CHR ''/'' # prefix @ k @ suffix, '''')"
proof -
  let ?path = "CHR ''/'' # prefix @ PathEscape k @ suffix"
  have set: "set ?path \<inter> set ''?#'' = {}" using assms(2,3) PathEscape_no_delim [of _ k] by auto
  have plain: "CHR ''%'' \<notin> set (CHR ''/'' # prefix)" "CHR ''%'' \<notin> set suffix" using assms(2,3) by auto
  have "PathUnescape (a @ b) = bind_result (PathUnescape b) (\<lambda>r. Inr (a @ r))" if "CHR ''%'' \<notin> set a" for a b
    using that by (induction a) (auto simp: bind_result_def split: sum.splits)
  note pre = this [OF plain(1), of "PathEscape k @ suffix"]
  have "PathUnescape (PathEscape k @ suffix) = Inr (k @ suffix)"
    using PathUnescape_plain [OF plain(2)]
    by (induction k) (simp_all add: PathEscape_def PathUnescape_escape_char)
  with pre have "PathUnescape ?path = Inr (CHR ''/'' # prefix @ k @ suffix)" by simp
  with parse_url_origin(2) [OF assms(1) refl set, of "''''"] show ?thesis by simp
qed

lemma fileURL_parsed:
  assumes "is_origin (TrimRightSlash mgr)"
  shows "parse_url (fileURL mgr k) = Inr (TrimRightSlash mgr, ''/files/'' @ k, '''')"
    and "parse_url (fileURL mgr k @ ''/metadata'') = Inr (TrimRightSlash mgr, ''/files/'' @ k @ ''/metadata'', '''')"
  using parse_escaped [OF assms, of "''files/''" "''''" k] parse_escaped [OF assms, of "''files/''" "''/metadata''" k]
  by (simp_all add: fileURL_def)

lemma mustRequest_ok:
  assumes "manager_address mgr" and "parse_url (TrimRightSlash mgr @ CHR ''/'' # p) = Inr x"
    and "set p \<inter> set ''?#'' = {}"
  shows "mustRequest (TrimRightSlash mgr @ CHR ''/'' # p) = Inr (TrimRightSlash mgr @ CHR ''/'' # p)"
proof -
  let ?o = "TrimRightSlash mgr" let ?u = "?o @ CHR ''/'' # p"
  from assms(1) obtain scheme host where o: "?o = scheme @ ''://'' @ host"
    and s: "set scheme \<inter> set ''/?#:'' = {}" and h: "set host \<inter> set ''/?#'' = {}"
    by (auto simp: manager_address_def is_origin_def)
  have no: "CHR ''#'' \<notin> set ?u" "CHR ''?'' \<notin> set ?u" using s h assms(3) by (auto simp: o)
  have c: "Cut (CHR '':'') ?u = (scheme, Some (''//'' @ host @ CHR ''/'' # p))" "fst (Cut (CHR '':'') ?o) = scheme"
    using s Cut_append [of "CHR '':''" scheme "''//'' @ host @ CHR ''/'' # p"]
      Cut_append [of "CHR '':''" scheme "''//'' @ host"] by (simp_all add: o)
  have "valid_scheme scheme" using assms(1) c(2) by (simp add: manager_address_def)
  with assms(2) show ?thesis
    unfolding mustRequest_def url_refused_def Cut_none [OF no(1)] fst_conv Cut_none [OF no(2)] c(1) Let_def prod.case
    by simp
qed

lemma fileURL_requested:
  assumes "manager_address mgr"
  shows "mustRequest (fileURL mgr k) = Inr (fileURL mgr k)"
proof -
  have "set (''files/'' @ PathEscape k) \<inter> set ''?#'' = {}" using PathEscape_no_delim [of _ k] by auto
  with mustRequest_ok [OF assms _ this] fileURL_parsed(1) [of mgr k] assms show ?thesis
    by (simp add: fileURL_def manager_address_def)
qed

text \<open>
  C36. Which file a command of the client is about. At an address of a manager, \<open>put\<close>, \<open>get\<close> and
  \<open>delete\<close> of a key are read by the manager as requests for the content of that key exactly if
  the key is not empty, has no percent sign and no two full stops in a row, and does not end in
  \<open>/metadata\<close>; a key that ends so, and that the manager could read otherwise, is read as a request
  for the record of the key before it. \<open>stat\<close> is read as a request for the record of the key
  exactly if the key has the first three properties.
\<close>

theorem file_request_exact:
  assumes "is_origin (TrimRightSlash mgr)"
  shows "(\<exists>p. parse_url (fileURL mgr k) = Inr (TrimRightSlash mgr, p, '''') \<and>
      (fileKeyFromPath p = Inr (k, False) \<longleftrightarrow> http_key k \<and> \<not> HasSuffix k ''/metadata'') \<and>
      (\<forall>k'. k = k' @ ''/metadata'' \<and> http_key k' \<longrightarrow> fileKeyFromPath p = Inr (k', True))) \<and>
    (\<exists>p. parse_url (fileURL mgr k @ ''/metadata'') = Inr (TrimRightSlash mgr, p, '''') \<and>
      (fileKeyFromPath p = Inr (k, True) \<longleftrightarrow> http_key k))"
  using fileURL_parsed [OF assms, of k] fileKeyFromPath_key [of k] fileKeyFromPath_metadata
  by (auto simp: api_key_def)

lemma demo_address: "manager_address ''http://m''" "TrimRightSlash ''http://m'' = ''http://m''"
proof -
  have "is_origin ''http://m''"
    unfolding is_origin_def by (intro exI [of _ "''http''"] exI [of _ "''m''"]) simp
  then show "TrimRightSlash ''http://m'' = ''http://m''" "manager_address ''http://m''"
    by (simp_all add: TrimRightSlash_def manager_address_def Cut_def valid_scheme_def ascii_lower_def
        less_eq_char_def less_char_def is_digit_def)
qed

theorem file_request_exact_witness:
  "parse_url (fileURL ''http://m'' ''a/metadata'') = Inr (''http://m'', ''/files/a/metadata'', '''') \<and>
   fileKeyFromPath ''/files/a/metadata'' = Inr (''a'', True)"
proof -
  have "http_key ''a''" by (simp add: http_key_def HasPrefix_def)
  moreover have "is_origin (TrimRightSlash ''http://m'')" using demo_address(1) by (simp add: manager_address_def)
  ultimately show ?thesis
    using file_request_exact [of "''http://m''" "''a/metadata''"] fileURL_parsed(1) [of "''http://m''" "''a/metadata''"]
    by (auto simp: demo_address(2))
qed

lemma manager_Do_ok:
  assumes "parse_url u = Inr (si_origin site, path, query)" and "si_fault site meth u = None"
    and "drain (rd_reads body) = (data, None)"
    and "ManagerServeHTTP H te B Q OS
      \<lparr>rq_Method = meth, rq_Path = path, rq_Query = query, rq_Body = body, rq_Json = doc\<rparr> (si_handler site) = (Some resp, h')"
  shows "manager_Do H te B Q OS meth u body doc site =
    (Inr \<lparr>ry_Status = rs_Status resp, ry_Body = rs_Body resp, ry_Cut = None\<rparr>, site\<lparr>si_handler := h'\<rparr>)"
  using assms by (simp add: manager_Do_def sent_body_def Let_def)

lemma file_request_served:
  assumes "is_origin (TrimRightSlash mgr)" and "si_origin site = TrimRightSlash mgr"
    and "si_fault site meth (fileURL mgr key) = None" and "drain (rd_reads body) = (data, None)"
    and "ManagerServeHTTP H te B Q OS (file_req meth key body) (si_handler site) = (Some resp, h')"
  shows "manager_Do H te B Q OS meth (fileURL mgr key) body (Inl (ErrOther ''EOF'')) site =
    (Inr \<lparr>ry_Status = rs_Status resp, ry_Body = rs_Body resp, ry_Cut = None\<rparr>, site\<lparr>si_handler := h'\<rparr>)"
  by (rule manager_Do_ok [OF _ assms(3,4)])
    (use assms fileURL_parsed(1) [OF assms(1), of key] in \<open>auto simp: file_req_def\<close>)

section \<open>Storing and fetching a file\<close>

text \<open>What of a new version's record goes into the JSON document of the answer can be written there.\<close>

definition answer_encodes :: "(byte list \<Rightarrow> string) \<Rightarrow> byte list \<Rightarrow> string \<Rightarrow> MetadataStore \<Rightarrow> bool" where
  "answer_encodes H data key m \<longleftrightarrow>
     safe_str key \<and> safe_str (H data) \<and> list_all safe_chunk (chunk_manifest H data) \<and>
     list_all (\<lambda>n. safe_str (nm_ID n)) (HealthyNodes m) \<and> time_ok (ms_now m) \<and>
     (case gm_get (ms_files m) key of None \<Rightarrow> True | Some f \<Rightarrow> time_ok (fm_CreatedAt f))"

lemma enc_FileMetadata_ok:
  assumes "times_ok_file f"
  shows "\<exists>j. enc_FileMetadata f = Inr j"
proof -
  have "\<exists>js. map_result (\<lambda>(k, r). bind_result (enc_ReplicaMetadata r) (\<lambda>j. Inr (utf8_coerce k, j))) m = Inr js"
    if "list_all (\<lambda>(k, r). time_ok (rm_UpdatedAt r)) m" for m :: "ReplicaMetadata gomap"
    using that by (induction m) (auto simp: enc_ReplicaMetadata_def enc_time_def)
  with assms show ?thesis by (fastforce simp: times_ok_file_def enc_FileMetadata_def enc_Replicas_def enc_time_def)
qed

lemma BeginFileVersion_encodes:
  assumes "answer_encodes H data key m" and "set rs \<subseteq> nm_ID ` set (HealthyNodes m)" and "primary \<in> set rs"
  defines "f \<equiv> fst (BeginFileVersion key (int (length data)) (H data) (chunk_manifest H data) primary rs m)"
  shows "\<exists>j. enc_FileMetadata f = Inr j \<and> dec_FileMetadata j = Inr f"
proof -
  have rs: "list_all safe_str rs" using assms(1,2) by (auto simp: answer_encodes_def list_all_iff)
  have "gm_all (\<lambda>k r. time_ok (rm_UpdatedAt r)) (initialReplicas primary (ms_now m) rs)"
    using assms(1) by (auto simp: gm_all_iff initialReplicas_spec answer_encodes_def split: if_splits)
  moreover have f: "f = \<lparr>fm_Key = key, fm_Version = fst (nextVersionLocked m key (ms_now m)), fm_Size = int (length data),
      fm_Checksum = H data, fm_Primary = primary, fm_Deleted = False, fm_Chunks = chunk_manifest H data,
      fm_Replicas = initialReplicas primary (ms_now m) rs,
      fm_CreatedAt = snd (nextVersionLocked m key (ms_now m)), fm_UpdatedAt = ms_now m\<rparr>"
    unfolding f_def BeginFileVersion_def Let_def case_prod_beta fst_conv
    by (subst cloneFileMetadata_id) (simp_all add: wf_file_def initialReplicas_spec)
  ultimately have times: "times_ok_file f"
    using assms(1) by (auto simp: times_ok_file_def nextVersionLocked_def answer_encodes_def gm_all_def
        list_all_iff split: option.splits)
  have "safe_file f" and "gm_wf (fm_Replicas f)"
    using assms(1,3) rs safe_initialReplicas [OF rs, of primary "ms_now m"]
    by (auto simp: f safe_file_def answer_encodes_def list_all_iff initialReplicas_spec)
  with enc_FileMetadata_ok [OF times] show ?thesis using file_round_trip by blast
qed

lemma runPut_stored:
  assumes "manager_address mgr" and "fs_fault fs OpOpen (filepath_Clean src) = None"
    and "fs_lookup fs (filepath_Clean src) = Inr (File data)"
    and "manager_Do H te B Q OS MethodPut (fileURL mgr key) (bytes_reader data) (Inl (ErrOther ''EOF'')) site =
      (Inr \<lparr>ry_Status = 201, ry_Body = JsonBody j, ry_Cut = None\<rparr>, site')"
    and "dec_FileMetadata j = Inr f"
  shows "runPut H te B Q OS mgr [key, src] fs site =
    (Inr (''stored key='' @ fm_Key f @ '' version='' @ dec (unat (fm_Version f)) @
          '' size='' @ fmt_d (fm_Size f) @ '' checksum='' @ fm_Checksum f), site')"
  using assms by (simp add: runPut_def os_Open_def reply_json_def fileURL_requested)

lemma runGet_fetched:
  assumes "os_Create (filepath_Clean out) fs = (Inr (), fs')"
    and "case fs_room fs' (filepath_Clean out) of None \<Rightarrow> True | Some n \<Rightarrow> length data \<le> n"
    and "manager_Do H te B Q OS MethodGet (fileURL mgr key) no_body (Inl (ErrOther ''EOF'')) site =
      (Inr \<lparr>ry_Status = 200, ry_Body = StreamBody es, ry_Cut = None\<rparr>, site')"
    and "fst (drain es) = data"
  shows "runGet H te B Q OS mgr [key, out] fs site =
    (Inr (''fetched key='' @ key @ '' bytes='' @ dec (length data)), fs_set (filepath_Clean out) (File data) fs', site')"
proof -
  have "drain (wire_body None es) = (data, None)" using assms(4) by (simp add: wire_body_def Let_def)
  then have "io_copy (fs_room fs' (filepath_Clean out)) (wire_body None es) [] = ([] @ data, data, None)"
    by (rule io_copy_complete) (use assms(2) in \<open>simp cong: option.case_cong\<close>)
  with assms(1,3) show ?thesis by (simp add: runGet_def reply_stream_def Let_def)
qed

text \<open>
  The command \<open>get\<close> writes what the command \<open>put\<close> read. For a manager at an address without
  faults, over a storage cluster without faults and with a healthy node, and a key that the
  interface can express: \<open>put\<close> of a readable file prints key, next version, size and checksum;
  \<open>get\<close> directly after it, on any machine where the output file can be created and has room,
  prints the number of bytes and leaves exactly the bytes of the first file in the second.
\<close>

theorem client_put_get:
  fixes site :: "(MetadataStore, MemoryReplicationTaskQueue, file_system HTTPObjectStore) site"
  assumes "wf_metadata (site_metadata site)"
    and "0 < rp_ReplicaCount (mc_planner (sv_coordinator (mh_service (si_handler site))))"
    and "HealthyNodes (site_metadata site) \<noteq> []"
    and "storage_cluster N D st Dg K (site_objects site)"
    and "cluster_fault_free (site_objects site)"
    and "temp_ok te"
    and "put_names_ok (cluster_ok N D st Dg K) (site_metadata site) key
           (chunk_manifest H data)"
    and "api_key key" and "answer_encodes H data key (site_metadata site)"
    and "manager_address mgr" and "si_origin site = TrimRightSlash mgr" and "si_fault site = (\<lambda>_ _. None)"
    and "fs_fault fs OpOpen (filepath_Clean src) = None" and "fs_lookup fs (filepath_Clean src) = Inr (File data)"
    and "os_Create (filepath_Clean out) fs2 = (Inr (), fs3)"
    and "case fs_room fs3 (filepath_Clean out) of None \<Rightarrow> True | Some n \<Rightarrow> length data \<le> n"
  shows "\<exists>site'. runPut H te MemoryMetadataBackend MemoryTaskQueue HttpObjects mgr [key, src] fs site =
      (Inr (''stored key='' @ key @ '' version='' @
            dec (unat (NextVersion key (site_metadata site))) @
            '' size='' @ dec (length data) @ '' checksum='' @ H data), site') \<and>
    runGet H te MemoryMetadataBackend MemoryTaskQueue HttpObjects mgr [key, out] fs2 site' =
      (Inr (''fetched key='' @ key @ '' bytes='' @ dec (length data)),
       fs_set (filepath_Clean out) (File data) fs3, site')"
proof -
  let ?sv = "mh_service (si_handler site)"
  let ?md = "site_metadata site"
  obtain res sv' where put: "Put H te MemoryMetadataBackend MemoryTaskQueue HttpObjects key (bytes_reader data) ?sv = (res, sv')"
    by fastforce
  note clean = storage_cluster_reliable [OF assms(4,5)]
  note drained = bytes_reader_sel(1) [of data]
  from http_reliable.Put_Get [OF assms(1-3) clean assms(6) drained assms(7) put] obtain f where
    f: "res = Inr f" "fm_Key f = key" "fm_Size f = int (length data)" "fm_Checksum f = H data" "fm_Version f = NextVersion key ?md"
    and got: "Get H te MemoryMetadataBackend HttpObjects key sv' = (Inr (data, f), sv')" by blast
  obtain primary rs where "primary \<in> set rs" "set rs \<subseteq> nm_ID ` set (HealthyNodes ?md)"
    and "f = fst (BeginFileVersion key (int (length data)) (H data) (chunk_manifest H data) primary rs ?md)"
    using http_reliable.Put_run [OF assms(1-3) clean assms(6) drained assms(7)] put f(1)
    by (metis (no_types, lifting) Inr_inject prod.inject)
  with BeginFileVersion_encodes [OF assms(9)] obtain j where j: "enc_FileMetadata f = Inr j" "dec_FileMetadata j = Inr f"
    by blast
  let ?h = "(si_handler site)\<lparr>mh_service := sv'\<rparr>" let ?site = "site\<lparr>si_handler := ?h\<rparr>"
  have orig: "is_origin (TrimRightSlash mgr)" using assms(10) by (simp add: manager_address_def)
  have "manager_Do H te MemoryMetadataBackend MemoryTaskQueue HttpObjects MethodPut (fileURL mgr key) (bytes_reader data)
      (Inl (ErrOther ''EOF'')) site = (Inr \<lparr>ry_Status = 201, ry_Body = JsonBody j, ry_Cut = None\<rparr>, ?site)"
    using file_request_served [OF orig assms(11) _ drained, of MethodPut key] put f(1) j(1) assms(12)
    by (simp add: file_req_serve [OF assms(8)] writeAPIJSON_def bodyAllowedForStatus_def WriteHeader_def)
  from runPut_stored [OF assms(10,13,14) this j(2)]
  have "runPut H te MemoryMetadataBackend MemoryTaskQueue HttpObjects mgr [key, src] fs site =
      (Inr (''stored key='' @ key @ '' version='' @ dec (unat (NextVersion key ?md)) @
            '' size='' @ dec (length data) @ '' checksum='' @ H data), ?site)"
    by (simp add: f fmt_d_def)
  moreover have "manager_Do H te MemoryMetadataBackend MemoryTaskQueue HttpObjects MethodGet (fileURL mgr key) no_body
      (Inl (ErrOther ''EOF'')) ?site =
      (Inr \<lparr>ry_Status = 200, ry_Body = StreamBody (rd_reads (bytes_reader data)), ry_Cut = None\<rparr>, ?site)"
    using file_request_served [OF orig, of ?site MethodGet key no_body] got assms(11,12)
    by (simp add: file_req_serve [OF assms(8)] WriteHeader_def no_body_def)
  note runGet_fetched [OF assms(15,16) this]
  ultimately show ?thesis using drained by fastforce
qed

text \<open>The demonstration manager at an address, and a client with one file.\<close>

definition demo_site :: "(MetadataStore, MemoryReplicationTaskQueue, file_system HTTPObjectStore) site" where
  "demo_site = \<lparr>si_origin = ''http://m'', si_handler = demo_manager, si_fault = (\<lambda>_ _. None)\<rparr>"

definition demo_client :: file_system where
  "demo_client = \<lparr>fs_tree = [((False, [''in'']), File [1, 2, 3])], fs_fault = (\<lambda>_ _. None), fs_room = (\<lambda>_. None),
     fs_dirsize = 0\<rparr>"

lemma demo_client_facts:
  "fs_fault demo_client op p = None" "fs_room (fs_set q n demo_client) p = None"
  "fs_lookup demo_client (filepath_Clean ''in'') = Inr (File [1, 2, 3])"
  "os_Create (filepath_Clean ''out'') demo_client = (Inr (), fs_set (filepath_Clean ''out'') (File []) demo_client)"
proof -
  have "filepath_Clean ''in'' = (False, [''in''])" "filepath_Clean ''out'' = (False, [''out''])" by code_simp+
  then show "fs_lookup demo_client (filepath_Clean ''in'') = Inr (File [1, 2, 3])"
    "os_Create (filepath_Clean ''out'') demo_client = (Inr (), fs_set (filepath_Clean ''out'') (File []) demo_client)"
    by (simp_all add: demo_client_def fs_lookup_def fs_node_def os_Create_def base_dir_def prefixes_def filepath_Dir_def)
qed (simp_all add: demo_client_def fs_set_def)

lemma demo_site_facts:
  "si_handler demo_site = demo_manager" "si_origin demo_site = TrimRightSlash ''http://m''" "si_fault demo_site = (\<lambda>_ _. None)"
  "site_metadata demo_site = mc_metadata demo_coordinator"
  by (simp_all add: demo_site_def demo_address demo_manager_def NewManagerHTTPHandler_def
      NewManagedFileServiceWithMetadataAndQueue_def NewMetadataCoordinatorWithBackendAndQueue_def)

lemma demo_put_facts:
  "api_key ''k''" "answer_encodes (\<lambda>b. ''h'') [1, 2, 3] ''k'' (site_metadata demo_site)"
proof -
  have safe: "safe_str [c]" if "of_char c \<le> (0x7F :: nat)" for c using that by (intro ascii_safe) simp
  have ids: "safe_str ''n1''" "safe_str ''n2''" by (intro ascii_safe; simp)+
  show "api_key ''k''" by (simp add: api_key_def demo_http_key HasSuffix_def)
  show "answer_encodes (\<lambda>b. ''h'') [1, 2, 3] ''k'' (site_metadata demo_site)"
    using demo_healthy(1) ids unfolding demo_site_facts(4)
    by (auto simp: answer_encodes_def demo_manifest safe_chunk_def safe list_all_iff demo_coordinator_eq time_ok_def
        nanosecondsPerSecond_def HealthyNodes_def gm_vals_def)
qed

lemma demo_dec: "dec (unat (1 :: uint64)) = ''1''" "dec (length [1, 2, 3 :: byte]) = ''3''"
  by (code_simp, code_simp)

theorem client_put_get_witness:
  "\<exists>site'. runPut (\<lambda>b. ''h'') demo_temp MemoryMetadataBackend MemoryTaskQueue HttpObjects ''http://m'' [''k'', ''in'']
       demo_client demo_site = (Inr ''stored key=k version=1 size=3 checksum=h'', site') \<and>
     runGet (\<lambda>b. ''h'') demo_temp MemoryMetadataBackend MemoryTaskQueue HttpObjects ''http://m'' [''k'', ''out'']
       demo_client site' = (Inr ''fetched key=k bytes=3'',
         fs_set (filepath_Clean ''out'') (File [1, 2, 3]) (fs_set (filepath_Clean ''out'') (File []) demo_client), site')"
proof -
  note h = demo_site_facts(1-3) and cl = demo_cluster [folded demo_manager_facts(4), folded demo_site_facts(1)]
  have "\<exists>site'. runPut (\<lambda>b. ''h'') demo_temp MemoryMetadataBackend MemoryTaskQueue HttpObjects ''http://m'' [''k'', ''in'']
       demo_client demo_site = (Inr (''stored key='' @ ''k'' @ '' version='' @ dec (unat (1 :: uint64)) @ '' size='' @
          dec (length [1, 2, 3 :: byte]) @ '' checksum='' @ ''h''), site') \<and>
     runGet (\<lambda>b. ''h'') demo_temp MemoryMetadataBackend MemoryTaskQueue HttpObjects ''http://m'' [''k'', ''out'']
       demo_client site' = (Inr (''fetched key='' @ ''k'' @ '' bytes='' @ dec (length [1, 2, 3 :: byte])),
         fs_set (filepath_Clean ''out'') (File [1, 2, 3]) (fs_set (filepath_Clean ''out'') (File []) demo_client), site')"
    using client_put_get [OF demo_manager_facts(1-3) [folded h(1)] cl demo_service_facts(6)
        demo_manager_facts(5) [folded h(1)] demo_put_facts demo_address(1) h(2,3) demo_client_facts(1,3,4)]
      demo_client_facts(2) demo_healthy(2) by (simp add: demo_site_facts(4))
  with demo_dec show ?thesis by simp
qed

section \<open>Heartbeats\<close>

lemma heartbeat_served:
  assumes "nid \<noteq> ''''" and "CHR ''%'' \<notin> set nid" and "addr \<noteq> ''''" and "safe_str addr"
  shows "ManagerServeHTTP H te B Q OS \<lparr>rq_Method = MethodPut, rq_Path = ''/internal/nodes/'' @ nid, rq_Query = '''',
      rq_Body = body, rq_Json = Inr (JObj [(''addr'', enc_str addr)])\<rparr> h =
    (case Service_RegisterNode B nid addr (mh_service h) of
       (Inl err, sv) \<Rightarrow> (answerError 500 err, h\<lparr>mh_service := sv\<rparr>)
     | (Inr node, sv) \<Rightarrow>
         (Some (writeAPIJSON 200 (enc_NodeMetadata node)),
          h\<lparr>mh_service := (case mh_httpStore h of
              None \<Rightarrow> sv | Some set_node \<Rightarrow> sv\<lparr>sv_objects := set_node nid addr (sv_objects sv)\<rparr>)\<rparr>))"
proof -
  have route: "\<not> HasPrefix (''/internal/nodes/'' @ nid) ''/files/''" "HasPrefix (''/internal/nodes/'' @ nid) ''/internal/nodes/''"
    by (simp_all add: HasPrefix_def)
  have nid: "PathUnescape (TrimPrefix (''/internal/nodes/'' @ nid) ''/internal/nodes/'') = Inr nid"
    using assms(2) TrimPrefix_append [of "''/internal/nodes/''" nid] PathUnescape_plain [of nid] by simp
  have "map ascii_lower ''addr'' = ''addr''" by (simp add: ascii_lower_def less_eq_char_def)
  with assms(3,4) have "bind_result (Inr (JObj [(''addr'', enc_str addr)])) dec_heartbeat = Inr addr" by simp
  with route nid assms(1,3) show ?thesis
    by (simp add: ManagerServeHTTP_def handleNodeHeartbeat_def Let_def split: prod.split sum.split)
qed

lemma heartbeat_request:
  assumes "manager_address mgr"
  shows "parse_url (heartbeatURL mgr nid) = Inr (TrimRightSlash mgr, ''/internal/nodes/'' @ nid, '''')"
    and "mustRequest (heartbeatURL mgr nid) = Inr (heartbeatURL mgr nid)"
proof -
  have orig: "is_origin (TrimRightSlash mgr)" using assms by (simp add: manager_address_def)
  show parse: "parse_url (heartbeatURL mgr nid) = Inr (TrimRightSlash mgr, ''/internal/nodes/'' @ nid, '''')"
    using parse_escaped [OF orig, of "''internal/nodes/''" "''''" nid] by (simp add: heartbeatURL_def)
  have "set (''internal/nodes/'' @ PathEscape nid) \<inter> set ''?#'' = {}" using PathEscape_no_delim [of _ nid] by auto
  from mustRequest_ok [OF assms _ this] parse
  show "mustRequest (heartbeatURL mgr nid) = Inr (heartbeatURL mgr nid)" by (simp add: heartbeatURL_def)
qed

lemma sendHeartbeat_arrives:
  fixes site :: "(MetadataStore, MemoryReplicationTaskQueue, 's HTTPObjectStore) site"
  assumes "nid \<noteq> ''''" and "CHR ''%'' \<notin> set nid" and "addr \<noteq> ''''" and "safe_str addr"
    and "manager_address mgr" and "si_origin site = TrimRightSlash mgr" and "mh_httpStore (si_handler site) = Some SetNode"
    and "si_fault site MethodPut (heartbeatURL mgr nid) = None"
  shows "sendHeartbeat H te MemoryMetadataBackend MemoryTaskQueue HttpObjects mgr nid addr site =
    (Inr (), site\<lparr>si_handler := (si_handler site)\<lparr>mh_service :=
       \<lparr>sv_coordinator = (sv_coordinator (mh_service (si_handler site)))\<lparr>mc_metadata := snd (UpsertNode nid addr (site_metadata site))\<rparr>,
        sv_objects = SetNode nid addr (site_objects site)\<rparr>\<rparr>\<rparr>)"
proof -
  let ?h = "si_handler site" let ?sv = "mh_service ?h"
  let ?sv' = "\<lparr>sv_coordinator = (sv_coordinator ?sv)\<lparr>mc_metadata := snd (UpsertNode nid addr (site_metadata site))\<rparr>,
      sv_objects = SetNode nid addr (sv_objects ?sv)\<rparr>"
  note parse = heartbeat_request(1) [OF assms(5), of nid]
  have "ManagerServeHTTP H te MemoryMetadataBackend MemoryTaskQueue HttpObjects
      \<lparr>rq_Method = MethodPut, rq_Path = ''/internal/nodes/'' @ nid, rq_Query = '''', rq_Body = no_body,
       rq_Json = Inr (JObj [(''addr'', enc_str addr)])\<rparr> ?h =
      (Some (writeAPIJSON 200 (enc_NodeMetadata (fst (UpsertNode nid addr (site_metadata site))))), ?h\<lparr>mh_service := ?sv'\<rparr>)"
    unfolding heartbeat_served [OF assms(1-4)]
    by (simp add: Service_RegisterNode_def RegisterNode_def Memory_UpsertNode_def assms(7) case_prod_beta Let_def)
  from manager_Do_ok [OF _ assms(8) _ this] parse
  have "manager_Do H te MemoryMetadataBackend MemoryTaskQueue HttpObjects MethodPut (heartbeatURL mgr nid) no_body
      (Inr (JObj [(''addr'', enc_str addr)])) site =
      (Inr \<lparr>ry_Status = 200, ry_Body = rs_Body (writeAPIJSON 200 (enc_NodeMetadata (fst (UpsertNode nid addr (site_metadata site))))),
            ry_Cut = None\<rparr>, site\<lparr>si_handler := ?h\<lparr>mh_service := ?sv'\<rparr>\<rparr>)"
    by (simp add: assms(6) no_body_def)
  with heartbeat_request(2) [OF assms(5)] show ?thesis by (simp add: sendHeartbeat_def Let_def)
qed

lemma heartbeat_lasts:
  assumes "wf_metadata m"
  shows "nid \<in> nm_ID ` set (HealthyNodes (MarkExpiredNodes ttl ((snd (UpsertNode nid addr m))\<lparr>ms_now := t\<rparr>))) \<longleftrightarrow>
    t - ms_now m \<le> ttl"
proof -
  let ?m = "(snd (UpsertNode nid addr m))\<lparr>ms_now := t\<rparr>"
  have wf: "wf_metadata ?m" using wf_UpsertNode [OF assms] by (simp add: wf_set_now)
  have up: "gm_get (ms_nodes ?m) nid = Some n \<longleftrightarrow>
      n = \<lparr>nm_ID = nid, nm_Addr = addr, nm_State = NodeHealthy, nm_LastHeartbeat = ms_now m\<rparr>" for n
    by (auto simp: UpsertNode_def Let_def)
  have "nid \<in> nm_ID ` set (HealthyNodes (MarkExpiredNodes ttl ?m)) \<longleftrightarrow>
      (\<exists>n. nm_ID n = nid \<and> gm_get (ms_nodes ?m) nid = Some n \<and> nm_State n = NodeHealthy \<and> t - nm_LastHeartbeat n \<le> ttl)"
    using HealthyNodes_mem [OF wf] conjunct1 [OF node_expiry [OF wf, of _ ttl nid addr]] by (auto simp: image_iff)
  then show ?thesis unfolding up by auto
qed

text \<open>
  C28. A heartbeat makes a node usable for ten seconds. A node with an identifier without percent
  signs and an address in UTF-8 sends it to a manager that it can reach: the call succeeds; the
  manager then has the node on record as healthy, as of now, and sends requests for its objects
  to the new address, whatever was known of the node before; other nodes, files and the task
  queue are as they were. At any later time the check of the background loop keeps the node in
  the list of healthy nodes if and only if that time is at most ten seconds away. A heartbeat
  that does not reach the manager fails and changes nothing.
\<close>

theorem heartbeat_registers:
  fixes site :: "(MetadataStore, MemoryReplicationTaskQueue, 's HTTPObjectStore) site"
  assumes "nid \<noteq> ''''" and "CHR ''%'' \<notin> set nid" and "addr \<noteq> ''''" and "safe_str addr"
    and "manager_address mgr" and "si_origin site = TrimRightSlash mgr" and "mh_httpStore (si_handler site) = Some SetNode"
    and "wf_metadata (site_metadata site)"
    and "sendHeartbeat H te MemoryMetadataBackend MemoryTaskQueue HttpObjects mgr nid addr site = (r, site')"
  shows "(si_fault site MethodPut (heartbeatURL mgr nid) = None \<longrightarrow> r = Inr () \<and>
      site_metadata site' = snd (UpsertNode nid addr (site_metadata site)) \<and>
      site_tasks site' = site_tasks site \<and>
      (\<forall>n k v. objectURL (site_objects site') n k v =
         (if n = nid then TrimRightSlash addr @ ''/objects/'' @ PathEscape k @ ''?version='' @ dec (unat v)
          else objectURL (site_objects site) n k v)) \<and>
      (\<forall>t. nid \<in> nm_ID ` set (HealthyNodes (MarkExpiredNodes nodeTTL ((site_metadata site')\<lparr>ms_now := t\<rparr>))) \<longleftrightarrow>
         t - ms_now (site_metadata site) \<le> 10 * nanosecondsPerSecond)) \<and>
    (\<forall>msg. si_fault site MethodPut (heartbeatURL mgr nid) = Some (Unreachable msg) \<longrightarrow> r = Inl (ErrOther msg) \<and> site' = site)"
proof -
  let ?h = "si_handler site" let ?sv = "mh_service ?h"
  let ?sv' = "\<lparr>sv_coordinator = (sv_coordinator ?sv)\<lparr>mc_metadata := snd (UpsertNode nid addr (site_metadata site))\<rparr>,
      sv_objects = SetNode nid addr (sv_objects ?sv)\<rparr>"
  note parse = heartbeat_request(1) [OF assms(5), of nid] and must = heartbeat_request(2) [OF assms(5), of nid]
  have "r = Inr () \<and> site' = site\<lparr>si_handler := ?h\<lparr>mh_service := ?sv'\<rparr>\<rparr>"
    if "si_fault site MethodPut (heartbeatURL mgr nid) = None"
    using sendHeartbeat_arrives [OF assms(1-7) that] assms(9) by simp
  moreover have "r = Inl (ErrOther msg) \<and> site' = site"
    if "si_fault site MethodPut (heartbeatURL mgr nid) = Some (Unreachable msg)" for msg
    using that assms(9) must parse by (simp add: sendHeartbeat_def manager_Do_def assms(6) Let_def)
  moreover have "nid \<in> nm_ID ` set (HealthyNodes (MarkExpiredNodes nodeTTL ((snd (UpsertNode nid addr (site_metadata site)))\<lparr>ms_now := t\<rparr>)))
      \<longleftrightarrow> t - ms_now (site_metadata site) \<le> 10 * nanosecondsPerSecond" for t
    using heartbeat_lasts [OF assms(8)] by (simp add: nodeTTL_def)
  ultimately show ?thesis
    by (simp add: objectURL_def SetNode_def Let_def)
qed

theorem heartbeat_registers_witness:
  "\<exists>site'. sendHeartbeat (\<lambda>b. ''h'') demo_temp MemoryMetadataBackend MemoryTaskQueue HttpObjects ''http://m'' ''n3'' ''http://c''
      demo_site = (Inr (), site') \<and>
    site_metadata site' = snd (UpsertNode ''n3'' ''http://c'' (site_metadata demo_site)) \<and>
    ''n3'' \<in> nm_ID ` set (HealthyNodes (MarkExpiredNodes nodeTTL ((site_metadata site')\<lparr>ms_now := 10000000005\<rparr>))) \<and>
    ''n3'' \<notin> nm_ID ` set (HealthyNodes (MarkExpiredNodes nodeTTL ((site_metadata site')\<lparr>ms_now := 10000000006\<rparr>)))"
proof -
  obtain r site' where run: "sendHeartbeat (\<lambda>b. ''h'') demo_temp MemoryMetadataBackend MemoryTaskQueue HttpObjects
      ''http://m'' ''n3'' ''http://c'' demo_site = (r, site')" by fastforce
  have h: "si_handler demo_site = demo_manager" "si_origin demo_site = TrimRightSlash ''http://m''"
    "si_fault demo_site = (\<lambda>_ _. None)" by (simp_all add: demo_site_def demo_address)
  have set_node: "mh_httpStore (si_handler demo_site) = Some SetNode"
    by (simp add: h demo_manager_def NewManagerHTTPHandler_def)
  have safe: "safe_str ''http://c''" by (intro ascii_safe) simp
  have now: "ms_now (site_metadata demo_site) = 5"
    by (simp add: h demo_manager_def NewManagerHTTPHandler_def NewManagedFileServiceWithMetadataAndQueue_def
        NewMetadataCoordinatorWithBackendAndQueue_def demo_coordinator_eq)
  note R = heartbeat_registers [OF _ _ _ safe demo_address(1) h(2) set_node demo_manager_facts(1) [folded h(1)] run]
  have ok: "r = Inr ()" and md: "site_metadata site' = snd (UpsertNode ''n3'' ''http://c'' (site_metadata demo_site))"
    and alive: "''n3'' \<in> nm_ID ` set (HealthyNodes (MarkExpiredNodes nodeTTL ((site_metadata site')\<lparr>ms_now := t\<rparr>))) \<longleftrightarrow>
         t - ms_now (site_metadata demo_site) \<le> 10 * nanosecondsPerSecond" for t
    using R h(3) by force+
  show ?thesis
    using run ok md alive [of 10000000005] alive [of 10000000006] unfolding now
    by (intro exI [of _ site'] conjI) (simp_all add: nanosecondsPerSecond_def)
qed

section \<open>A write that fails\<close>

interpretation disk_http: managed_writes "DiskMetadataBackend BD" "disk_metadata_abs dbc" "disk_metadata_inv BD dbc"
  "DiskTaskQueue BD" "disk_queue_abs dbc" "disk_queue_inv BD dbc" safe_str
  HttpObjects "http_content N D C" "http_inv N D C I P" "http_ok N D P"
  for BD :: "'d boltDB" and dbc :: "'d \<Rightarrow> buckets"
    and N D and C :: "string \<Rightarrow> 's \<Rightarrow> object_id \<Rightarrow> byte list option" and I P
  by unfold_locales

lemma disk_HealthyNodes_safe:
  assumes "disk_metadata_inv BD dbc m" and "nd \<in> set (HealthyNodes (disk_metadata_abs dbc m))"
  shows "safe_str (nm_ID nd)"
proof -
  from assms(1) obtain nb where ok: "table_ok dec_NodeMetadata safe_node nb"
    and a: "ms_nodes (disk_metadata_abs dbc m) = table dec_NodeMetadata nb"
    by (elim disk_metadata_invE) auto
  from assms(2) have "nd \<in> snd ` set (table dec_NodeMetadata nb)"
    by (auto simp: HealthyNodes_def gm_vals_def a)
  then obtain k j where "(k, j) \<in> set nb" and nd: "nd = projr (dec_NodeMetadata j)" by (auto simp: table_def)
  with ok have "safe_node nd" by (cases "dec_NodeMetadata j") (auto simp: table_ok_def list_all_iff)
  then show ?thesis by (simp add: safe_node_def)
qed

text \<open>
  C5. A \<open>Put\<close> that fails is contained. On a manager as \<open>runManager\<close> puts it together, over the disk
  stores and a cluster of storage nodes, with any faults of the database, the network, the
  disks, the stream and the temporary files: if \<open>Put\<close> fails, metadata and task queue are as they
  were, with one exception: the error is one of the database, met after the record of the new
  version was stored, and then that record is all that changed, so that the version stays
  published, without copy tasks. Whether \<open>Put\<close> fails or not, every object of every version that
  was published before, of this key or another, holds what it held, and the stores stay usable.
\<close>

theorem Put_isolated:
  assumes "disk_coordinator_inv BD dbc (sv_coordinator sv)"
    and "0 < rp_ReplicaCount (mc_planner (sv_coordinator sv))"
    and "storage_cluster N D st Dg K (sv_objects sv)"
    and "put_names_ok (cluster_ok N D st Dg K) (disk_metadata_abs dbc (mc_metadata (sv_coordinator sv))) key
           (chunk_manifest H (fst (drain (rd_reads r))))"
    and "safe_str key" and "\<And>d. safe_str (H d)"
    and "Put H te (DiskMetadataBackend BD) (DiskTaskQueue BD) HttpObjects key r sv = (res, sv')"
  shows "let A = disk_coordinator_abs dbc; c = sv_coordinator sv; c' = sv_coordinator sv';
             d = fst (drain (rd_reads r)) in
    disk_coordinator_inv BD dbc c' \<and> cluster_inv N D st Dg K (sv_objects sv') \<and>
    (\<forall>e. res = Inl e \<longrightarrow> A c' = A c \<or>
       io_error e \<and> (\<exists>p ns. A c' = (A c)\<lparr>mc_metadata :=
         snd (BeginFileVersion key (int (length d)) (H d) (chunk_manifest H d) p ns (mc_metadata (A c)))\<rparr>)) \<and>
    (\<forall>k f n ch. gm_get (ms_files (mc_metadata (A c))) k = Some f \<and>
       cluster_ok N D st Dg K (chunk_id n k (fm_Version f) ch) \<longrightarrow>
       cluster_content N D st Dg (sv_objects sv') (chunk_id n k (fm_Version f) ch) =
         cluster_content N D st Dg (sv_objects sv) (chunk_id n k (fm_Version f) ch))"
proof -
  have "safe_str (nm_ID nd)"
    if "nd \<in> set (HealthyNodes (mc_metadata (disk_coordinator_abs dbc (sv_coordinator sv))))" for nd
    using that disk_HealthyNodes_safe [of BD dbc "mc_metadata (sv_coordinator sv)"] assms(1)
    by (simp add: coordinator_inv_def)
  with disk_http.Put_contained [OF assms(1,2) storage_cluster_inv [OF assms(3)] _ assms(5,6) _ assms(7)] assms(4)
  show ?thesis unfolding Let_def by simp
qed

text \<open>A database with two nodes that cannot store the copy task of a file \<open>k\<close>.\<close>

definition demo_full_bolt :: "buckets boltDB" where
  "demo_full_bolt = demo_bolt\<lparr>bolt_put_error := (\<lambda>k _. if k = ''k:1:n1:n2'' then Some (ErrOther ''disk full'') else None)\<rparr>"

definition demo_full_service ::
  "(buckets DiskMetadataStore, buckets DiskReplicationTaskQueue, file_system HTTPObjectStore) ManagedFileService" where
  "demo_full_service = NewManagedFileServiceWithMetadataAndQueue 2 demo_http
     \<lparr>ds_db = [(metadataFilesBucket, []),
        (metadataNodesBucket, map (\<lambda>(k, n). (k, case enc_NodeMetadata n of Inr j \<Rightarrow> j | Inl _ \<Rightarrow> JNull))
           (ms_nodes (mc_metadata demo_coordinator)))], ds_now = 5\<rparr>
     \<lparr>dq_db = [(replicationTasksBucket, [])], dq_now = 5\<rparr>"

definition demo_full_prepared :: PreparedWrite where
  "demo_full_prepared = \<lparr>pw_Key = ''k'', pw_Version = 1, pw_Size = 3, pw_Checksum = ''h'',
     pw_Chunks = [\<lparr>cm_Index = 0, cm_Offset = 0, cm_Size = 3, cm_Checksum = ''h''\<rparr>],
     pw_Primary = snd (hd (ms_nodes (mc_metadata demo_coordinator))),
     pw_Replicas = map snd (ms_nodes (mc_metadata demo_coordinator))\<rparr>"

lemma demo_full_commit:
  "PrepareWrite (DiskMetadataBackend demo_full_bolt) ''k'' 3 ''h'' (pw_Chunks demo_full_prepared)
     (sv_coordinator demo_full_service) = Inr demo_full_prepared"
  "case CommitWrite (DiskMetadataBackend demo_full_bolt) (DiskTaskQueue demo_full_bolt) demo_full_prepared
     (sv_coordinator demo_full_service) of
     (Inl e, c) \<Rightarrow> (case Disk_GetFile demo_full_bolt ''k'' (mc_metadata c) of
         Inr (Some f) \<Rightarrow> fm_Version f = 1 | _ \<Rightarrow> False) \<and> dq_db (mc_tasks c) = [(replicationTasksBucket, [])]
   | _ \<Rightarrow> False"
  by code_simp+

lemma demo_full_facts:
  "disk_coordinator_inv demo_full_bolt (\<lambda>db. db) (sv_coordinator demo_full_service)"
  "disk_metadata_abs (\<lambda>db. db) (mc_metadata (sv_coordinator demo_full_service)) = mc_metadata demo_coordinator"
  "sv_objects demo_full_service = demo_http" "0 < rp_ReplicaCount (mc_planner (sv_coordinator demo_full_service))"
proof -
  let ?ns = "ms_nodes (mc_metadata demo_coordinator)"
  let ?j = "\<lambda>n. case enc_NodeMetadata n of Inr j \<Rightarrow> j | Inl _ \<Rightarrow> JNull"
  have codec: "safe_node n \<and> dec_NodeMetadata (?j n) = Inr n" if "(k, n) \<in> set ?ns" for k n
  proof -
    from that have safe: "safe_node n" by (auto simp: demo_coordinator_eq safe_node_def ascii_safe)
    from that have "\<exists>j. enc_NodeMetadata n = Inr j"
      by (auto simp: demo_coordinator_eq enc_NodeMetadata_def enc_time_def time_ok_def nanosecondsPerSecond_def)
    with safe node_codec.round_trip [OF safe] show ?thesis by auto
  qed
  have store: "mc_metadata (sv_coordinator demo_full_service) =
      \<lparr>ds_db = [(metadataFilesBucket, []), (metadataNodesBucket, map (\<lambda>(k, n). (k, ?j n)) ?ns)], ds_now = 5\<rparr>"
    "mc_tasks (sv_coordinator demo_full_service) = \<lparr>dq_db = [(replicationTasksBucket, [])], dq_now = 5\<rparr>"
    by (simp_all add: demo_full_service_def NewManagedFileServiceWithMetadataAndQueue_def
        NewMetadataCoordinatorWithBackendAndQueue_def)
  have tab: "table dec_NodeMetadata (map (\<lambda>(k, n). (k, ?j n)) ?ns) = ?ns"
    using codec by (auto simp: table_def intro!: map_idI)
  show a: "disk_metadata_abs (\<lambda>db. db) (mc_metadata (sv_coordinator demo_full_service)) = mc_metadata demo_coordinator"
    by (simp add: store disk_metadata_abs_def tab) (simp add: table_def demo_coordinator_eq)
  have "bolt_laws demo_full_bolt (\<lambda>db. db)"
    by (simp add: demo_full_bolt_def bolt_laws_def demo_bolt_def io_error_def)
  moreover have "gm_wf (map (\<lambda>(k, n). (k, ?j n)) ?ns)" using demo_wf by (simp add: wf_metadata_def gm_wf_def comp_def case_prod_beta)
  then have "table_ok dec_NodeMetadata safe_node (map (\<lambda>(k, n). (k, ?j n)) ?ns)"
    using codec by (auto simp: table_ok_def list_all_iff)
  ultimately show "disk_coordinator_inv demo_full_bolt (\<lambda>db. db) (sv_coordinator demo_full_service)"
    by (simp add: coordinator_inv_def disk_metadata_inv_def a demo_wf disk_queue_inv_def disk_queue_abs_def)
      (simp add: store table_ok_def table_def wf_queue_def)
qed (simp_all add: demo_full_service_def NewManagedFileServiceWithMetadataAndQueue_def
    NewMetadataCoordinatorWithBackendAndQueue_def NewReplicationPlanner_def)

lemma demo_full_put:
  "\<exists>e sv' f. Put (\<lambda>b. ''h'') demo_temp (DiskMetadataBackend demo_full_bolt) (DiskTaskQueue demo_full_bolt) HttpObjects ''k''
     (bytes_reader [1, 2, 3]) demo_full_service = (Inl e, sv') \<and>
     Disk_GetFile demo_full_bolt ''k'' (mc_metadata (sv_coordinator sv')) = Inr (Some f) \<and>
     dq_db (mc_tasks (sv_coordinator sv')) = [(replicationTasksBucket, [])]"
proof -
  let ?M = "pw_Chunks demo_full_prepared"
  have M: "chunk_manifest (\<lambda>b. ''h'') [1, 2, 3] = ?M" by (simp add: demo_manifest demo_full_prepared_def)
  note ok = demo_service_facts(6)
  have n: "nm_ID (pw_Primary demo_full_prepared) = ''n1''" "pw_Version demo_full_prepared = 1"
    by (simp_all add: demo_full_prepared_def demo_coordinator_eq)
  have md: "mc_metadata (sv_coordinator (mh_service demo_manager)) = mc_metadata demo_coordinator"
    by (simp add: demo_manager_def NewManagerHTTPHandler_def NewManagedFileServiceWithMetadataAndQueue_def
        NewMetadataCoordinatorWithBackendAndQueue_def)
  obtain nd where nd: "nd \<in> set (HealthyNodes (mc_metadata demo_coordinator))" "nm_ID nd = ''n1''"
    using demo_healthy(1) by (metis (no_types, lifting) imageE insertI1)
  have "cluster_ok demo_origins demo_ids (\<lambda>_. demo_store) demo_digest demo_names (chunk_id ''n1'' ''k'' 1 ch)"
    if "ch \<in> set ?M" for ch
    using demo_manager_facts(5) [unfolded md M put_names_ok_def demo_healthy(2)] nd that by metis
  then obtain s1 where wr: "writeChunkLoop demo_temp HttpObjects ''n1'' ''k'' 1 [1, 2, 3] ?M ?M demo_http = (None, s1)"
    using http_reliable.writeChunkLoop_writes [OF storage_cluster_reliable [OF demo_cluster], where te = demo_temp and
        chunks = ?M and n = "''n1''" and k = "''k''" and v = 1 and staged = "[1, 2, 3]" and all = ?M] manifest_facts(2) [of "\<lambda>b. ''h''" "[1, 2, 3]", unfolded M] manifest_facts(4) [of _ "\<lambda>b. ''h''" "[1, 2, 3]", unfolded M] ok
    unfolding temp_ok_def by blast
  from demo_full_commit(2) obtain e c f where
    commit: "CommitWrite (DiskMetadataBackend demo_full_bolt) (DiskTaskQueue demo_full_bolt) demo_full_prepared
      (sv_coordinator demo_full_service) = (Inl e, c)"
    "Disk_GetFile demo_full_bolt ''k'' (mc_metadata c) = Inr (Some f)" "dq_db (mc_tasks c) = [(replicationTasksBucket, [])]"
    by (auto split: prod.splits sum.splits option.splits)
  have ne: "?M \<noteq> []" by (simp add: demo_full_prepared_def)
  show ?thesis
    using commit demo_full_commit(1) wr n ne
    by (auto simp: Put_def stageReader_temp_ok [OF ok bytes_reader_sel(1)] M writeChunks_def demo_full_facts(3) Let_def)
qed

theorem Put_isolated_witness:
  "\<exists>e sv' f. Put (\<lambda>b. ''h'') demo_temp (DiskMetadataBackend demo_full_bolt) (DiskTaskQueue demo_full_bolt) HttpObjects ''k''
     (bytes_reader [1, 2, 3]) demo_full_service = (Inl e, sv') \<and> io_error e \<and>
     Disk_GetFile demo_full_bolt ''k'' (mc_metadata (sv_coordinator sv')) = Inr (Some f) \<and>
     dq_db (mc_tasks (sv_coordinator sv')) = [(replicationTasksBucket, [])] \<and>
     disk_coordinator_inv demo_full_bolt (\<lambda>db. db) (sv_coordinator sv')"
proof -
  obtain e sv' f where run: "Put (\<lambda>b. ''h'') demo_temp (DiskMetadataBackend demo_full_bolt) (DiskTaskQueue demo_full_bolt)
      HttpObjects ''k'' (bytes_reader [1, 2, 3]) demo_full_service = (Inl e, sv')"
    and f: "Disk_GetFile demo_full_bolt ''k'' (mc_metadata (sv_coordinator sv')) = Inr (Some f)"
    and q: "dq_db (mc_tasks (sv_coordinator sv')) = [(replicationTasksBucket, [])]"
    using demo_full_put by blast
  have names: "put_names_ok (cluster_ok demo_origins demo_ids (\<lambda>_. demo_store) demo_digest demo_names)
      (disk_metadata_abs (\<lambda>db. db) (mc_metadata (sv_coordinator demo_full_service))) ''k''
      (chunk_manifest (\<lambda>b. ''h'') (fst (drain (rd_reads (bytes_reader [1, 2, 3])))))"
    using demo_manager_facts(5) unfolding demo_full_facts(2)
    by (simp add: demo_manager_def NewManagerHTTPHandler_def NewManagedFileServiceWithMetadataAndQueue_def
        NewMetadataCoordinatorWithBackendAndQueue_def)
  have cluster: "storage_cluster demo_origins demo_ids (\<lambda>_. demo_store) demo_digest demo_names (sv_objects demo_full_service)"
    unfolding demo_full_facts(3) by (rule demo_cluster(1))
  have safe: "safe_str ''k''" "safe_str ''h''" by (simp_all add: ascii_safe)
  note T = Put_isolated [OF demo_full_facts(1,4) cluster names safe run, unfolded Let_def]
  then have inv: "disk_coordinator_inv demo_full_bolt (\<lambda>db. db) (sv_coordinator sv')" by blast
  have "read_ok (Disk_GetFile demo_full_bolt ''k'' (mc_metadata (sv_coordinator sv')))
      (GetFile ''k'' (disk_metadata_abs (\<lambda>db. db) (mc_metadata (sv_coordinator sv'))))"
    using inv by (intro Disk_file_reads) (simp add: coordinator_inv_def)
  with f have "GetFile ''k'' (disk_metadata_abs (\<lambda>db. db) (mc_metadata (sv_coordinator sv'))) = Some f" by simp
  then have "disk_coordinator_abs (\<lambda>db. db) (sv_coordinator sv') \<noteq>
      disk_coordinator_abs (\<lambda>db. db) (sv_coordinator demo_full_service)"
    by (auto simp: coordinator_abs_def demo_full_facts(2) GetFile_def demo_coordinator_eq)
  with T have "io_error e" by blast
  with run f q inv show ?thesis by blast
qed

section \<open>The start of the manager\<close>

context metadata_backend begin

lemma registerNodes_registers:
  assumes "minv (mc_metadata (sv_coordinator sv))" and "list_all (\<lambda>(n, a). okstr n \<and> okstr a) nodes"
    and "registerNodes B nodes sv = (Inr (), sv')"
  shows "minv (mc_metadata (sv_coordinator sv')) \<and>
    mabs (mc_metadata (sv_coordinator sv')) =
      fold (\<lambda>(n, a) m. snd (UpsertNode n a m)) nodes (mabs (mc_metadata (sv_coordinator sv))) \<and>
    sv' = sv\<lparr>sv_coordinator := (sv_coordinator sv)\<lparr>mc_metadata := mc_metadata (sv_coordinator sv')\<rparr>\<rparr>"
  using assms
proof (induction nodes arbitrary: sv)
  case (Cons x nodes)
  obtain n a where x: "x = (n, a)" by fastforce
  let ?m = "mc_metadata (sv_coordinator sv)"
  obtain r m' where up: "mb_UpsertNode B n a ?m = (r, m')" by fastforce
  from Cons.prems(3) up obtain node where r: "r = Inr node"
    and rest: "registerNodes B nodes (sv\<lparr>sv_coordinator := (sv_coordinator sv)\<lparr>mc_metadata := m'\<rparr>\<rparr>) = (Inr (), sv')"
    by (auto simp: x Service_RegisterNode_def RegisterNode_def split: sum.splits)
  from upsert [OF Cons.prems(1), of n a] Cons.prems(2) up r
  have "minv m'" "mabs m' = snd (UpsertNode n a (mabs ?m))"
    by (auto simp: x write_ok_def Memory_UpsertNode_def case_prod_beta)
  with Cons.IH [OF _ _ rest] Cons.prems(2) show ?case by (simp add: x)
qed simp

end

lemma fold_UpsertNode:
  assumes "gm_wf nodes"
  shows "ms_files (fold (\<lambda>(n, a) m. snd (UpsertNode n a m)) nodes m) = ms_files m \<and>
    ms_now (fold (\<lambda>(n, a) m. snd (UpsertNode n a m)) nodes m) = ms_now m \<and>
    gm_get (ms_nodes (fold (\<lambda>(n, a) m. snd (UpsertNode n a m)) nodes m)) k =
      (case gm_get nodes k of
         None \<Rightarrow> gm_get (ms_nodes m) k
       | Some a \<Rightarrow> Some \<lparr>nm_ID = k, nm_Addr = a, nm_State = NodeHealthy, nm_LastHeartbeat = ms_now m\<rparr>)"
  using assms
proof (induction nodes arbitrary: m)
  case (Cons x nodes)
  obtain n a where x: "x = (n, a)" by fastforce
  from Cons.prems have "gm_wf nodes" "gm_get nodes n = None" by (auto simp: x gm_wf_def map_of_eq_None_iff)
  with Cons.IH [of "snd (UpsertNode n a m)"] show ?case
    by (auto simp: x UpsertNode_def Let_def split: option.splits)
qed simp

text \<open>
  C27. A manager that starts has the files and tasks that the last one left behind. Over a
  database that meets its documentation and a file whose buckets hold tables, with configured
  nodes named in UTF-8: if the start succeeds, there is at least one configured node; the
  metadata store meets its invariant; the files are those of the database file, exactly; every
  configured node is healthy at its configured address as of now, and every other node is as
  the file has it; objects are looked for at the configured addresses, and heartbeats can
  change these. If no task of the file was running or failed, the queue holds exactly the tasks
  of the file and is ready for use; about the queue nothing is claimed otherwise.
\<close>

theorem manager_start:
  assumes "bolt_laws BD content" and "bolt_Open BD path = Inr db"
    and "metadata_file_ok (content db) t" and "task_file_ok (content db)"
    and "gm_wf nodes" and "list_all (\<lambda>(n, a). safe_str n \<and> safe_str a) nodes"
    and "runManager BD now net path replicas nodes fs = (Inr h, fs')"
  shows "let c = sv_coordinator (mh_service h);
             old = disk_metadata_abs content \<lparr>ds_db = db, ds_now = t\<rparr>;
             old_queue = disk_queue_abs content \<lparr>dq_db = db, dq_now = now\<rparr>;
             m = disk_metadata_abs content (mc_metadata c)
         in nodes \<noteq> [] \<and> disk_metadata_inv BD content (mc_metadata c) \<and> ms_files m = ms_files old \<and> ms_now m = now \<and>
            (\<forall>n. gm_get (ms_nodes m) n =
               (case gm_get nodes n of
                  None \<Rightarrow> gm_get (ms_nodes old) n
                | Some a \<Rightarrow> Some \<lparr>nm_ID = n, nm_Addr = a, nm_State = NodeHealthy, nm_LastHeartbeat = now\<rparr>)) \<and>
            (none_interrupted old_queue \<longrightarrow>
               disk_coordinator_inv BD content c \<and> disk_queue_abs content (mc_tasks c) = old_queue) \<and>
            sv_objects (mh_service h) = NewHTTPObjectStore nodes net \<and> mh_httpStore h = Some SetNode"
proof -
  from assms(7) obtain md q sv where ne: "nodes \<noteq> []"
    and md: "OpenDiskMetadataStore BD now path = Inr md" and q: "NewDiskReplicationTaskQueue BD now (ds_db md) = Inr q"
    and reg: "registerNodes (DiskMetadataBackend BD) nodes
       (NewManagedFileServiceWithMetadataAndQueue replicas (NewHTTPObjectStore nodes net) md q) = (Inr (), sv)"
    and h: "h = NewManagerHTTPHandler sv [SetNode]"
    by (auto simp: runManager_def bind_result_eq_Inr Let_def case_prod_beta prod_eq_iff split: if_splits sum.splits)
  from OpenDiskMetadataStore_opens [OF assms(1-3), of now] md
  have inv: "disk_metadata_inv BD content md"
    and abst: "disk_metadata_abs content md = (disk_metadata_abs content \<lparr>ds_db = db, ds_now = t\<rparr>)\<lparr>ms_now := now\<rparr>"
    and same: "\<And>n. bucket_of (content (ds_db md)) n = bucket_of (content db) n" by simp_all
  from same assms(4) have "task_file_ok (content (ds_db md))" by (simp add: task_file_ok_def disk_queue_abs_def)
  moreover have tasks: "disk_queue_abs content \<lparr>dq_db = ds_db md, dq_now = now\<rparr> =
      disk_queue_abs content \<lparr>dq_db = db, dq_now = now\<rparr>" by (simp add: disk_queue_abs_def same)
  ultimately have queue: "disk_queue_inv BD content q \<and> disk_queue_abs content q =
      disk_queue_abs content \<lparr>dq_db = db, dq_now = now\<rparr>"
    if "none_interrupted (disk_queue_abs content \<lparr>dq_db = db, dq_now = now\<rparr>)"
    using NewDiskReplicationTaskQueue_opens [OF assms(1) _ _ q] that by simp
  note S = NewManagedFileServiceWithMetadataAndQueue_def NewMetadataCoordinatorWithBackendAndQueue_def
  from disk_metadata.registerNodes_registers [OF _ assms(6) reg, of content] inv
  have "disk_metadata_inv BD content (mc_metadata (sv_coordinator sv))"
    and "disk_metadata_abs content (mc_metadata (sv_coordinator sv)) =
      fold (\<lambda>(n, a) m. snd (UpsertNode n a m)) nodes (disk_metadata_abs content md)"
    and "mc_tasks (sv_coordinator sv) = q \<and> sv_objects sv = NewHTTPObjectStore nodes net"
    by (simp_all add: S, metis ManagedFileService.simps MetadataCoordinator.simps)
  with queue ne fold_UpsertNode [OF assms(5), of "disk_metadata_abs content md"] show ?thesis
    by (simp add: h NewManagerHTTPHandler_def Let_def coordinator_inv_def abst cong: option.case_cong)
qed

text \<open>A database file that an earlier manager left: one file, one node and one waiting task.\<close>

definition demo_kept_file :: FileMetadata where
  "demo_kept_file = \<lparr>fm_Key = ''k'', fm_Version = 3, fm_Size = 2, fm_Checksum = ''h'', fm_Primary = ''a'',
     fm_Deleted = False, fm_Chunks = [], fm_Replicas = [], fm_CreatedAt = 2, fm_UpdatedAt = 4\<rparr>"

definition demo_kept_node :: NodeMetadata where
  "demo_kept_node = \<lparr>nm_ID = ''a'', nm_Addr = ''http://old'', nm_State = NodeDown, nm_LastHeartbeat = 3\<rparr>"

definition demo_kept_db :: buckets where
  "demo_kept_db =
     [(metadataFilesBucket, [(''k'', case enc_FileMetadata demo_kept_file of Inr j \<Rightarrow> j | Inl _ \<Rightarrow> JNull)]),
      (metadataNodesBucket, [(''a'', case enc_NodeMetadata demo_kept_node of Inr j \<Rightarrow> j | Inl _ \<Rightarrow> JNull)])] @
     demo_task_db"

definition demo_kept_bolt :: "buckets boltDB" where
  "demo_kept_bolt = demo_bolt\<lparr>bolt_Open := (\<lambda>_. Inr demo_kept_db)\<rparr>"

lemma demo_kept_laws: "bolt_laws demo_kept_bolt (\<lambda>db. db)"
  by (simp add: demo_kept_bolt_def bolt_laws_def demo_bolt_def)

lemma demo_kept_codec:
  "good_file demo_kept_file" "safe_node demo_kept_node"
  "dec_FileMetadata (case enc_FileMetadata demo_kept_file of Inr j \<Rightarrow> j | Inl _ \<Rightarrow> JNull) = Inr demo_kept_file"
  "dec_NodeMetadata (case enc_NodeMetadata demo_kept_node of Inr j \<Rightarrow> j | Inl _ \<Rightarrow> JNull) = Inr demo_kept_node"
proof -
  show f: "good_file demo_kept_file"
    by (simp add: good_file_def safe_file_def demo_kept_file_def ascii_safe gm_wf_def)
  show n: "safe_node demo_kept_node" by (simp add: safe_node_def demo_kept_node_def ascii_safe)
  have "\<exists>j. enc_FileMetadata demo_kept_file = Inr j"
    by (simp add: demo_kept_file_def enc_FileMetadata_def enc_Replicas_def enc_time_def time_ok_def nanosecondsPerSecond_def)
  with file_codec.round_trip [OF f]
  show "dec_FileMetadata (case enc_FileMetadata demo_kept_file of Inr j \<Rightarrow> j | Inl _ \<Rightarrow> JNull) = Inr demo_kept_file"
    by auto
  have "\<exists>j. enc_NodeMetadata demo_kept_node = Inr j"
    by (simp add: demo_kept_node_def enc_NodeMetadata_def enc_time_def time_ok_def nanosecondsPerSecond_def)
  with node_codec.round_trip [OF n]
  show "dec_NodeMetadata (case enc_NodeMetadata demo_kept_node of Inr j \<Rightarrow> j | Inl _ \<Rightarrow> JNull) = Inr demo_kept_node"
    by auto
qed

lemma demo_kept_content:
  "ms_files (disk_metadata_abs (\<lambda>db. db) \<lparr>ds_db = demo_kept_db, ds_now = t\<rparr>) = [(''k'', demo_kept_file)]"
  "ms_nodes (disk_metadata_abs (\<lambda>db. db) \<lparr>ds_db = demo_kept_db, ds_now = t\<rparr>) = [(''a'', demo_kept_node)]"
  "disk_queue_abs (\<lambda>db. db) \<lparr>dq_db = demo_kept_db, dq_now = t\<rparr> =
     \<lparr>mq_tasks = [(''k:1:a:b'', demo_waiting_task)], mq_now = t\<rparr>"
  by (simp_all add: disk_metadata_abs_def disk_queue_abs_def demo_kept_db_def demo_task_db_def bucket_of_def table_def
      demo_kept_codec demo_task_codec)

lemma demo_kept_ok: "metadata_file_ok demo_kept_db 0" "task_file_ok demo_kept_db"
proof -
  have b: "bucket_of demo_kept_db metadataFilesBucket = [(''k'', case enc_FileMetadata demo_kept_file of Inr j \<Rightarrow> j | Inl _ \<Rightarrow> JNull)]"
    "bucket_of demo_kept_db metadataNodesBucket = [(''a'', case enc_NodeMetadata demo_kept_node of Inr j \<Rightarrow> j | Inl _ \<Rightarrow> JNull)]"
    "bucket_of demo_kept_db replicationTasksBucket = [(''k:1:a:b'', demo_task_json)]"
    by (simp_all add: demo_kept_db_def demo_task_db_def bucket_of_def)
  have "wf_metadata (disk_metadata_abs (\<lambda>db. db) \<lparr>ds_db = demo_kept_db, ds_now = 0\<rparr>)"
    by (simp add: wf_metadata_def demo_kept_content gm_wf_def gm_all_def wf_file_def)
      (simp add: demo_kept_file_def demo_kept_node_def)
  then show "metadata_file_ok demo_kept_db 0"
    by (simp add: metadata_file_ok_def b table_ok_def gm_wf_def demo_kept_codec)
  have "rt_ID demo_waiting_task = ''k:1:a:b''" by (simp add: demo_waiting_task_def)
  then show "task_file_ok demo_kept_db"
    by (simp add: task_file_ok_def b table_ok_def gm_wf_def demo_task_codec wf_queue_def demo_kept_content gm_all_def)
qed

lemma demo_start: "\<not> isl (fst (runManager demo_kept_bolt 7 net ''meta.db'' 2 [(''n1'', ''http://a'')] demo_client))"
  by code_simp

theorem manager_start_witness:
  "\<exists>h fs' c m. runManager demo_kept_bolt 7 (ho_net demo_http) ''meta.db'' 2 [(''n1'', ''http://a'')] demo_client = (Inr h, fs') \<and>
     c = sv_coordinator (mh_service h) \<and> disk_coordinator_inv demo_kept_bolt (\<lambda>db. db) c \<and>
     m = disk_metadata_abs (\<lambda>db. db) (mc_metadata c) \<and> ms_files m = [(''k'', demo_kept_file)] \<and>
     gm_get (ms_nodes m) ''a'' = Some demo_kept_node \<and>
     gm_get (ms_nodes m) ''n1'' =
       Some \<lparr>nm_ID = ''n1'', nm_Addr = ''http://a'', nm_State = NodeHealthy, nm_LastHeartbeat = 7\<rparr> \<and>
     mq_tasks (disk_queue_abs (\<lambda>db. db) (mc_tasks c)) = [(''k:1:a:b'', demo_waiting_task)]"
proof -
  let ?nodes = "[(''n1'', ''http://a'')]"
  have safe: "safe_str ''n1''" "safe_str ''http://a''" by (intro ascii_safe; simp)+
  have "\<not> isl (fst (runManager demo_kept_bolt 7 (ho_net demo_http) ''meta.db'' 2 ?nodes demo_client))"
    by (rule demo_start)
  then have "\<exists>h fs'. runManager demo_kept_bolt 7 (ho_net demo_http) ''meta.db'' 2 ?nodes demo_client = (Inr h, fs')"
    by (metis isl_def prod.collapse sum.exhaust)
  then obtain h fs' where run: "runManager demo_kept_bolt 7 (ho_net demo_http) ''meta.db'' 2 ?nodes demo_client = (Inr h, fs')"
    by blast
  have open_file: "bolt_Open demo_kept_bolt ''meta.db'' = Inr demo_kept_db" by (simp add: demo_kept_bolt_def)
  have quiet: "none_interrupted (disk_queue_abs (\<lambda>db. db) \<lparr>dq_db = demo_kept_db, dq_now = 7\<rparr>)"
    by (simp add: none_interrupted_def demo_kept_content) (simp add: demo_waiting_task_def)
  from manager_start [OF demo_kept_laws open_file demo_kept_ok _ _ run] safe run quiet show ?thesis
    by (simp add: gm_wf_def Let_def demo_kept_content)
qed

end
