(* ===== verification/Concurrent_Workers.thy ===== *)
theory Concurrent_Workers
  imports Worker
begin

text \<open>
  Rounds of the worker at the same time: the background loop of the manager runs them, and so does
  every request to \<open>/replication/run\<close>, and no lock of the code surrounds the calls that a round of
  \<open>WorkOnce\<close> makes.

  Here a round is a sequence of its calls, each of which runs from beginning to end. Undisturbed, it
  is \<open>WorkOnce\<close>. Several rounds that share one coordinator take turns in any order, between any
  other calls of the queue.
\<close>

section \<open>A round, call by call\<close>

datatype worker_at =
    AtStart
  | HasPicked string
  | HasStarted ReplicationTask
  | HasCopied ReplicationTask "error option"
  | Returned "ReplicationTask option \<times> error option"

fun worker_step ::
  "'m MetadataBackend \<Rightarrow> 'q ReplicationTaskQueue \<Rightarrow> 's ObjectReplicator \<Rightarrow> worker_at \<times> ('m, 'q, 's) ReplicationWorker
    \<Rightarrow> worker_at \<times> ('m, 'q, 's) ReplicationWorker" where
  "worker_step B Q replicator (AtStart, w) =
     (case PendingTasks Q (rw_coordinator w) of
        Inl err \<Rightarrow> (Returned (None, Some err), w)
      | Inr [] \<Rightarrow> (Returned (None, Some ErrNoPendingTasks), w)
      | Inr (first # _) \<Rightarrow> (HasPicked (rt_ID first), w))"
| "worker_step B Q replicator (HasPicked tid, w) =
     (let (r, c) = StartReplication Q tid (rw_coordinator w)
      in (case r of Inl err \<Rightarrow> Returned (None, Some err) | Inr task \<Rightarrow> HasStarted task, w\<lparr>rw_coordinator := c\<rparr>))"
| "worker_step B Q replicator (HasStarted task, w) =
     (let (e, s) = replicator task (rw_objects w) in (HasCopied task e, w\<lparr>rw_objects := s\<rparr>))"
| "worker_step B Q replicator (HasCopied task (Some err), w) =
     (let (r, c) = FailReplication B Q (rt_ID task) (Some err) (rw_coordinator w)
      in (Returned (case r of Inl failErr \<Rightarrow> (None, Some failErr) | Inr (_, failedTask) \<Rightarrow> (Some failedTask, Some err)),
          w\<lparr>rw_coordinator := c\<rparr>))"
| "worker_step B Q replicator (HasCopied task None, w) =
     (let (r, c) = FinishReplication B Q (rt_ID task) (rw_coordinator w)
      in (Returned (case r of Inl err \<Rightarrow> (None, Some err) | Inr (_, doneTask) \<Rightarrow> (Some doneTask, None)),
          w\<lparr>rw_coordinator := c\<rparr>))"
| "worker_step B Q replicator (Returned r, w) = (Returned r, w)"

text \<open>An undisturbed round, which makes four calls at most, is \<open>WorkOnce\<close>.\<close>

lemma worker_steps_WorkOnce:
  "(worker_step B Q replicator ^^ 4) (AtStart, w) = (Returned (fst (WorkOnce B Q replicator w)), snd (WorkOnce B Q replicator w))"
  by (simp add: numeral_eq_Suc WorkOnce_def Let_def case_prod_beta split: sum.split list.split option.split)

section \<open>Several rounds\<close>

text \<open>
  Any number of rounds over one coordinator with the in-memory queue: a round makes its next call or
  starts again, other parts of the manager call the queue, and metadata and objects change as they like.
\<close>

inductive crew_step ::
  "'m MetadataBackend \<Rightarrow> 's ObjectReplicator
    \<Rightarrow> worker_at list \<times> ('m, MemoryReplicationTaskQueue, 's) ReplicationWorker
    \<Rightarrow> worker_at list \<times> ('m, MemoryReplicationTaskQueue, 's) ReplicationWorker \<Rightarrow> bool" for B replicator where
  work: "i < length ws \<Longrightarrow> worker_step B MemoryTaskQueue replicator (ws ! i, w) = (x, w') \<Longrightarrow>
    crew_step B replicator (ws, w) (ws[i := x], w')"
| again: "i < length ws \<Longrightarrow> ws ! i = Returned r \<Longrightarrow> crew_step B replicator (ws, w) (ws[i := AtStart], w)"
| enqueue: "list_all fresh_task ts \<Longrightarrow> crew_step B replicator (ws, w)
    (ws, w\<lparr>rw_coordinator := (rw_coordinator w)\<lparr>mc_tasks := Enqueue ts (mc_tasks (rw_coordinator w))\<rparr>\<rparr>)"
| requeue: "crew_step B replicator (ws, w)
    (ws, w\<lparr>rw_coordinator := (rw_coordinator w)\<lparr>mc_tasks := snd (RequeueExpiredRunning (mc_tasks (rw_coordinator w)))\<rparr>\<rparr>)"
| clock: "0 < now \<Longrightarrow> crew_step B replicator (ws, w)
    (ws, w\<lparr>rw_coordinator := (rw_coordinator w)\<lparr>mc_tasks := (mc_tasks (rw_coordinator w))\<lparr>mq_now := now\<rparr>\<rparr>\<rparr>)"
| metadata: "crew_step B replicator (ws, w) (ws, w\<lparr>rw_coordinator := (rw_coordinator w)\<lparr>mc_metadata := m\<rparr>\<rparr>)"
| objects: "crew_step B replicator (ws, w) (ws, w\<lparr>rw_objects := s\<rparr>)"

abbreviation crew_tasks :: "worker_at list \<times> ('m, MemoryReplicationTaskQueue, 's) ReplicationWorker \<Rightarrow> MemoryReplicationTaskQueue" where
  "crew_tasks st \<equiv> mc_tasks (rw_coordinator (snd st))"

inductive crew_reachable for B replicator n where
  start: "0 < t \<Longrightarrow> mc_tasks (rw_coordinator w) = NewMemoryReplicationTaskQueue t \<Longrightarrow>
    crew_reachable B replicator n (replicate n AtStart, w)"
| step: "crew_reachable B replicator n st \<Longrightarrow> crew_step B replicator st st' \<Longrightarrow> crew_reachable B replicator n st'"

text \<open>
  Of a task, the starts so far and the rounds that are about to start it are together at most four
  more than there are rounds.
\<close>

definition picked :: "string \<Rightarrow> worker_at list \<Rightarrow> nat" where
  "picked k ws = count (mset ws) (HasPicked k)"

definition queue_bounded :: "(string \<Rightarrow> int) \<Rightarrow> int \<Rightarrow> MemoryReplicationTaskQueue \<Rightarrow> bool" where
  "queue_bounded p L q \<longleftrightarrow> wf_queue q \<and>
     (\<forall>k t. gm_get (mq_tasks q) k = Some t \<longrightarrow>
        (rt_State t = ReplicationTaskPending \<longrightarrow> rt_Attempts t < 5) \<and> rt_Attempts t + p k \<le> L)"

definition crew_inv :: "nat \<Rightarrow> worker_at list \<Rightarrow> MemoryReplicationTaskQueue \<Rightarrow> bool" where
  "crew_inv n ws q \<longleftrightarrow> length ws = n \<and> queue_bounded (\<lambda>k. int (picked k ws)) (4 + int n) q"

lemma picked_update:
  "i < length ws \<Longrightarrow> int (picked k (ws[i := x])) =
    int (picked k ws) - (if ws ! i = HasPicked k then 1 else 0) + (if x = HasPicked k then 1 else 0)"
proof -
  assume i: "i < length ws"
  then have "1 \<le> count (mset ws) (ws ! i)" by (simp add: Suc_le_eq)
  with i show ?thesis by (cases "ws ! i = HasPicked k") (simp_all add: picked_def mset_update of_nat_diff)
qed

lemma picked_le: "picked k ws \<le> length ws"
  by (simp add: picked_def count_mset count_le_length)

lemma queue_bounded_put:
  "queue_bounded p L q \<Longrightarrow> rt_ID t = k \<Longrightarrow> (rt_State t = ReplicationTaskPending \<longrightarrow> rt_Attempts t < 5) \<Longrightarrow>
    rt_Attempts t + p' k \<le> L \<Longrightarrow> (\<And>j. j \<noteq> k \<Longrightarrow> p' j \<le> p j) \<Longrightarrow> queue_bounded p' L (q\<lparr>mq_tasks := gm_put k t (mq_tasks q)\<rparr>)"
  by (fastforce simp: queue_bounded_def wf_queue_put split: if_splits)

lemma queue_bounded_mono: "queue_bounded p L q \<Longrightarrow> (\<And>k. p' k \<le> p k) \<Longrightarrow> queue_bounded p' L q"
  unfolding queue_bounded_def by (meson add_left_mono order_trans)

lemma queue_bounded_Enqueue:
  "queue_bounded p L q \<Longrightarrow> list_all fresh_task ts \<Longrightarrow> (\<And>k. p k \<le> L) \<Longrightarrow> queue_bounded p L (Enqueue ts q)"
proof (induction ts q rule: Enqueue.induct)
  case (2 t ts q)
  have "queue_bounded p L (q\<lparr>mq_tasks := gm_put (rt_ID t) t (mq_tasks q)\<rparr>)"
    using 2(3-5) by (intro queue_bounded_put [OF 2(3)]) (simp_all add: fresh_task_def)
  with 2 show ?case by simp
qed simp

lemma queue_bounded_calls:
  assumes "queue_bounded p L q"
  shows "queue_bounded (p(tid := p tid - 1)) L (snd (MarkRunning tid q))"
    and "queue_bounded p L (snd (MarkDone tid q))" and "queue_bounded p L (snd (MarkFailed tid cause q))"
    and "queue_bounded p L (snd (RequeueExpiredRunning q))" and "queue_bounded p L (q\<lparr>mq_now := now\<rparr>)"
proof -
  have at: "rt_ID t = k \<and> rt_Attempts t + p k \<le> L" if "gm_get (mq_tasks q) k = Some t" for k t
    using assms that wf_queue_ID by (auto simp: queue_bounded_def)
  show "queue_bounded (p(tid := p tid - 1)) L (snd (MarkRunning tid q))"
    using assms at queue_bounded_mono [OF assms, of "p(tid := p tid - 1)"]
    by (auto simp: MarkRunning_def Let_def split: option.split intro!: queue_bounded_put)
  show "queue_bounded p L (snd (MarkDone tid q))"
    using assms at by (auto simp: MarkDone_def Let_def split: option.split intro!: queue_bounded_put)
  show "queue_bounded p L (snd (MarkFailed tid cause q))"
    using assms at
    by (auto simp: MarkFailed_def Let_def defaultReplicationTaskMaxAttempts_def split: option.split if_splits intro!: queue_bounded_put)
  show "queue_bounded p L (snd (RequeueExpiredRunning q))"
    using assms wf_Requeue [of q]
    by (auto simp: queue_bounded_def) (auto simp: RequeueExpiredRunning_def Let_def defaultReplicationTaskMaxAttempts_def split: if_splits)
  show "queue_bounded p L (q\<lparr>mq_now := now\<rparr>)"
    using assms by (simp add: queue_bounded_def wf_queue_def)
qed

text \<open>What a call of a round does to the queue, and which task the round picks.\<close>

lemma worker_step_tasks:
  assumes "worker_step B MemoryTaskQueue replicator (a, w) = (x, w')"
  shows "mc_tasks (rw_coordinator w') =
    (case a of
       HasPicked tid \<Rightarrow> snd (MarkRunning tid (mc_tasks (rw_coordinator w)))
     | HasCopied t (Some err) \<Rightarrow> snd (MarkFailed (rt_ID t) (Some err) (mc_tasks (rw_coordinator w)))
     | HasCopied t None \<Rightarrow> snd (MarkDone (rt_ID t) (mc_tasks (rw_coordinator w)))
     | _ \<Rightarrow> mc_tasks (rw_coordinator w))"
proof (cases a)
  case (HasCopied t e)
  then show ?thesis using assms
    by (cases e) (auto simp: FailReplication_def FinishReplication_def Let_def split: prod.splits sum.splits)
qed (use assms in \<open>auto simp: PendingTasks_def StartReplication_def Let_def split: sum.splits prod.splits list.splits\<close>)

lemma worker_step_picks:
  assumes "worker_step B MemoryTaskQueue replicator (a, w) = (HasPicked k, w')"
  shows "a = AtStart \<and> (\<exists>t \<in> set (Pending (mc_tasks (rw_coordinator w))). rt_ID t = k)"
proof (cases a)
  case (HasCopied t e)
  then show ?thesis using assms by (cases e) (auto simp: Let_def split: prod.splits)
qed (use assms in \<open>auto simp: PendingTasks_def Let_def split: sum.splits prod.splits list.splits\<close>)

lemma round_bounded:
  assumes b: "queue_bounded (\<lambda>k. int (picked k ws)) L (mc_tasks (rw_coordinator w))" and L: "4 + int (length ws) \<le> L"
    and i: "i < length ws" and step: "worker_step B MemoryTaskQueue replicator (ws ! i, w) = (x, w')"
  shows "queue_bounded (\<lambda>k. int (picked k (ws[i := x]))) L (mc_tasks (rw_coordinator w'))"
proof -
  let ?q = "mc_tasks (rw_coordinator w)" let ?p = "\<lambda>k. int (picked k ws)" let ?p' = "\<lambda>k. int (picked k (ws[i := x]))"
  have p': "?p' k = ?p k - (if ws ! i = HasPicked k then 1 else 0) + (if x = HasPicked k then 1 else 0)" for k
    using picked_update [OF i] by simp
  show ?thesis
  proof (cases "\<exists>k. x = HasPicked k")
    case True
    then obtain k t where x: "x = HasPicked k" "ws ! i = AtStart" and t: "t \<in> set (Pending ?q)" "rt_ID t = k"
      using worker_step_picks step by metis
    from b have wf: "wf_queue ?q" by (simp add: queue_bounded_def)
    from t have got: "gm_get (mq_tasks ?q) k = Some t" "rt_State t = ReplicationTaskPending" using Pending_mem [OF wf] by auto
    with b have "rt_Attempts t < 5" by (auto simp: queue_bounded_def)
    moreover have "?p' k \<le> int (length ws)" using picked_le [of k "ws[i := x]"] by simp
    ultimately have "rt_Attempts t + ?p' k \<le> L" using L by simp
    with b got p' x have "queue_bounded ?p' L ?q" by (auto simp: queue_bounded_def)
    then show ?thesis using worker_step_tasks [OF step] x by simp
  next
    case False
    then have le: "?p' k \<le> ?p k" for k using p' by auto
    have same: "queue_bounded ?p' L q" if "queue_bounded ?p L q" for q
      using that le by (rule queue_bounded_mono)
    show ?thesis
    proof (cases "ws ! i")
      case (HasPicked tid)
      have "?p' = ?p(tid := ?p tid - 1)" using False p' HasPicked by (intro ext) auto
      then show ?thesis using queue_bounded_calls(1) [OF b, of tid] worker_step_tasks [OF step] HasPicked by simp
    next
      case (HasCopied t e)
      then show ?thesis using worker_step_tasks [OF step] same queue_bounded_calls(2,3) [OF b] by (cases e) simp_all
    qed (use worker_step_tasks [OF step] same b in simp_all)
  qed
qed

text \<open>A round that is over, or is given up, does not raise the number of rounds about to start a task.\<close>

lemma picked_again: "i < length ws \<Longrightarrow> int (picked k (ws[i := AtStart])) \<le> int (picked k ws)"
  using picked_update [of i ws k AtStart] by (simp split: if_splits)

lemma crew_step_inv: "crew_step B replicator st st' \<Longrightarrow> crew_inv n (fst st) (crew_tasks st) \<Longrightarrow> crew_inv n (fst st') (crew_tasks st')"
proof (induction rule: crew_step.induct)
  case (work i ws w x w')
  then show ?case using round_bounded [of ws "4 + int n" w i B replicator x w'] by (auto simp: crew_inv_def)
next
  case (again i ws r w)
  then have "picked k (ws[i := AtStart]) = picked k ws" for k using picked_update [of i ws k AtStart] by simp
  with again show ?case by (simp add: crew_inv_def)
next
  case (enqueue ts ws w)
  have "int (picked k ws) \<le> 4 + int n" if "length ws = n" for k using picked_le [of k ws] that by simp
  with enqueue show ?case by (auto simp: crew_inv_def intro!: queue_bounded_Enqueue)
qed (simp_all add: crew_inv_def queue_bounded_calls)

lemma crew_reachable_inv: "crew_reachable B replicator n st \<Longrightarrow> crew_inv n (fst st) (crew_tasks st)"
proof (induction rule: crew_reachable.induct)
  case (start t w)
  have "picked k (replicate n AtStart) = 0" for k by (simp add: picked_def)
  with start show ?case
    by (simp add: crew_inv_def queue_bounded_def) (simp add: NewMemoryReplicationTaskQueue_def)
qed (rule crew_step_inv)

section \<open>How often a task is started\<close>

text \<open>
  C17. The bound on attempts is one per concurrent round weaker than the code says. However up to
  \<open>n\<close> rounds of the worker take turns, together with the other users of the queue and with any
  failures of copies, metadata and objects, no task has ever been started more than \<open>4 + n\<close> times,
  and a task that waits has been started fewer than five times. For rounds one after the other,
  \<open>n = 1\<close>, this is the bound of five.
\<close>

theorem crew_attempts_bounded:
  assumes "crew_reachable B replicator n st" and "gm_get (mq_tasks (crew_tasks st)) k = Some t"
  shows "rt_Attempts t \<le> 4 + int n \<and> (rt_State t = ReplicationTaskPending \<longrightarrow> rt_Attempts t < 5)"
  using crew_reachable_inv [OF assms(1)] assms(2) unfolding crew_inv_def queue_bounded_def by fastforce

lemma pick_all:
  assumes "Pending (mc_tasks (rw_coordinator w)) = t # ts"
  shows "(crew_step B replicator)\<^sup>*\<^sup>* (before @ replicate m AtStart, w) (before @ replicate m (HasPicked (rt_ID t)), w)"
proof (induction m arbitrary: before)
  case (Suc m)
  let ?x = "HasPicked (rt_ID t)"
  have "worker_step B MemoryTaskQueue replicator ((before @ AtStart # replicate m AtStart) ! length before, w) = (?x, w)"
    using assms by (simp add: PendingTasks_def)
  from crew_step.work [OF _ this] have "crew_step B replicator (before @ AtStart # replicate m AtStart, w) ((before @ [?x]) @ replicate m AtStart, w)"
    by simp
  from converse_rtranclp_into_rtranclp [OF this Suc.IH [of "before @ [?x]"]] show ?case by simp
qed simp

lemma start_all:
  assumes "gm_get (mq_tasks (mc_tasks (rw_coordinator w))) k = Some t" and "rt_ID t = k"
  shows "\<exists>ts w' t'. (crew_step B replicator)\<^sup>*\<^sup>* (before @ replicate m (HasPicked k), w) (before @ map HasStarted ts, w') \<and>
    length ts = m \<and> list_all (\<lambda>t. rt_ID t = k) ts \<and>
    gm_get (mq_tasks (mc_tasks (rw_coordinator w'))) k = Some t' \<and> rt_Attempts t' = rt_Attempts t + int m"
  using assms
proof (induction m arbitrary: before w t)
  case 0
  then show ?case by (intro exI [of _ "[]"] exI [of _ w] exI [of _ t]) simp
next
  case (Suc m)
  let ?q = "mc_tasks (rw_coordinator w)"
  let ?t1 = "started t (mq_now ?q)" let ?c1 = "(rw_coordinator w)\<lparr>mc_tasks := ?q\<lparr>mq_tasks := gm_put k ?t1 (mq_tasks ?q)\<rparr>\<rparr>"
  let ?w1 = "w\<lparr>rw_coordinator := ?c1\<rparr>"
  have "worker_step B MemoryTaskQueue replicator ((before @ HasPicked k # replicate m (HasPicked k)) ! length before, w) = (HasStarted ?t1, ?w1)"
    using Suc.prems by (simp add: StartReplication_def MarkRunning_def started_def Let_def)
  from crew_step.work [OF _ this] have step: "crew_step B replicator (before @ HasPicked k # replicate m (HasPicked k), w)
      ((before @ [HasStarted ?t1]) @ replicate m (HasPicked k), ?w1)" by simp
  have "gm_get (mq_tasks (mc_tasks (rw_coordinator ?w1))) k = Some ?t1" "rt_ID ?t1 = k"
    using Suc.prems by (simp_all add: started_def)
  from Suc.IH [OF this, of "before @ [HasStarted ?t1]"] obtain ts w' t' where
    "(crew_step B replicator)\<^sup>*\<^sup>* ((before @ [HasStarted ?t1]) @ replicate m (HasPicked k), ?w1) ((before @ [HasStarted ?t1]) @ map HasStarted ts, w')"
    "length ts = m" "list_all (\<lambda>t. rt_ID t = k) ts"
    "gm_get (mq_tasks (mc_tasks (rw_coordinator w'))) k = Some t'" "rt_Attempts t' = rt_Attempts ?t1 + int m" by blast
  with converse_rtranclp_into_rtranclp [where r = "crew_step B replicator", OF step, of "((before @ [HasStarted ?t1]) @ map HasStarted ts, w')"]
    Suc.prems
  show ?case by (intro exI [of _ "?t1 # ts"] exI [of _ w'] exI [of _ t']) (simp add: started_def)
qed

text \<open>
  C18. Concurrent rounds start the same task. Whatever task is first in the queue, \<open>n\<close> rounds that
  begin before any of them has started it can all start it: then all of them are about to make
  the same copy, and \<open>n\<close> attempts are counted for it. With four attempts before, this reaches the
  bound of \<open>4 + n\<close>.
\<close>

theorem crew_starts_twice:
  assumes "wf_queue (mc_tasks (rw_coordinator w))" and "Pending (mc_tasks (rw_coordinator w)) = t # ts"
  shows "\<exists>started_tasks w' t'. (crew_step B replicator)\<^sup>*\<^sup>* (replicate n AtStart, w) (map HasStarted started_tasks, w') \<and>
    length started_tasks = n \<and> list_all (\<lambda>s. rt_ID s = rt_ID t) started_tasks \<and>
    gm_get (mq_tasks (mc_tasks (rw_coordinator w'))) (rt_ID t) = Some t' \<and> rt_Attempts t' = rt_Attempts t + int n"
proof -
  have "t \<in> set (Pending (mc_tasks (rw_coordinator w)))" using assms(2) by simp
  then have "gm_get (mq_tasks (mc_tasks (rw_coordinator w))) (rt_ID t) = Some t" using Pending_mem [OF assms(1)] by blast
  from start_all [OF this refl, of B replicator "[]" n] obtain us w' t' where run:
    "(crew_step B replicator)\<^sup>*\<^sup>* (replicate n (HasPicked (rt_ID t)), w) (map HasStarted us, w')"
    and rest: "length us = n" "list_all (\<lambda>s. rt_ID s = rt_ID t) us"
      "gm_get (mq_tasks (mc_tasks (rw_coordinator w'))) (rt_ID t) = Some t'" "rt_Attempts t' = rt_Attempts t + int n" by auto
  have "(crew_step B replicator)\<^sup>*\<^sup>* (replicate n AtStart, w) (map HasStarted us, w')"
    using pick_all [OF assms(2), of B replicator "[]" n] run by (simp add: rtranclp_trans)
  with rest show ?thesis by blast
qed

text \<open>A queue with one task, shared by two rounds.\<close>

definition race_task :: ReplicationTask where
  "race_task = newReplicationTask (fst (BeginFileVersion ''k'' 3 ''c'' [] ''n1'' [''n1'', ''n2''] (NewMetadataStore 5))) ''n1'' ''n2'' 7 7"

definition race_crew :: "MemoryReplicationTaskQueue \<Rightarrow> (MetadataStore, MemoryReplicationTaskQueue, unit) ReplicationWorker" where
  "race_crew q = \<lparr>rw_coordinator = NewMetadataCoordinatorWithBackendAndQueue 2 (NewMetadataStore 5) q, rw_objects = ()\<rparr>"

lemma race_crew_facts:
  "mc_tasks (rw_coordinator (race_crew q)) = q"
  "(rw_coordinator (race_crew q))\<lparr>mc_tasks := q'\<rparr> = rw_coordinator (race_crew q')"
  "fresh_task race_task"
  "Pending (Enqueue [race_task] (NewMemoryReplicationTaskQueue 7)) = [race_task]"
  by (simp_all add: race_crew_def NewMetadataCoordinatorWithBackendAndQueue_def fresh_task_def race_task_def
      NewMemoryReplicationTaskQueue_def Pending_def sortReplicationTasks_def readyToRun_def gm_vals_def)

lemma crew_reachable_run:
  "(crew_step B replicator)\<^sup>*\<^sup>* st st' \<Longrightarrow> crew_reachable B replicator n st \<Longrightarrow> crew_reachable B replicator n st'"
  by (induction rule: rtranclp_induct) (auto intro: crew_reachable.step)

theorem crew_attempts_bounded_witness:
  "\<exists>ws w t. crew_reachable MemoryMetadataBackend (\<lambda>_ s. (None, s)) 2
       (ws, w :: (MetadataStore, MemoryReplicationTaskQueue, unit) ReplicationWorker) \<and>
     gm_get (mq_tasks (mc_tasks (rw_coordinator w))) (rt_ID race_task) = Some t \<and> rt_Attempts t = 2 \<and>
     rt_Attempts t \<le> 4 + int 2"
proof -
  let ?B = MemoryMetadataBackend let ?rep = "\<lambda>(_ :: ReplicationTask) s :: unit. (None :: error option, s)"
  let ?new = "NewMemoryReplicationTaskQueue 7" let ?q = "Enqueue [race_task] ?new"
  let ?w = "(race_crew ?new)\<lparr>rw_coordinator := rw_coordinator (race_crew ?q)\<rparr>"
  have "crew_reachable ?B ?rep 2 (replicate 2 AtStart, race_crew ?new)"
    by (rule crew_reachable.start [of 7]) (simp_all add: race_crew_facts)
  from crew_reachable.step [OF this crew_step.enqueue [of "[race_task]"]]
  have reach: "crew_reachable ?B ?rep 2 (replicate 2 AtStart, ?w)" by (simp add: race_crew_facts del: Enqueue.simps)
  have got: "gm_get (mq_tasks (mc_tasks (rw_coordinator ?w))) (rt_ID race_task) = Some race_task"
    by (simp add: race_crew_facts NewMemoryReplicationTaskQueue_def)
  have pend: "Pending (mc_tasks (rw_coordinator ?w)) = race_task # []"
    using race_crew_facts(4) by (simp add: race_crew_facts(1) del: Enqueue.simps)
  from start_all [OF got refl, of ?B ?rep "[]" 2] obtain us w' t' where
    run: "(crew_step ?B ?rep)\<^sup>*\<^sup>* (replicate 2 (HasPicked (rt_ID race_task)), ?w) (map HasStarted us, w')"
    and t': "gm_get (mq_tasks (mc_tasks (rw_coordinator w'))) (rt_ID race_task) = Some t'"
      "rt_Attempts t' = rt_Attempts race_task + int 2" by auto
  have zero: "rt_Attempts race_task = 0" by (simp add: race_task_def)
  from pick_all [OF pend, of ?B ?rep "[]" 2] run have "(crew_step ?B ?rep)\<^sup>*\<^sup>* (replicate 2 AtStart, ?w) (map HasStarted us, w')"
    by (simp add: rtranclp_trans)
  from crew_reachable_run [OF this reach] have reached: "crew_reachable ?B ?rep 2 (map HasStarted us, w')" .
  have "rt_Attempts t' \<le> 4 + int 2" using crew_attempts_bounded [OF reached, of "rt_ID race_task" t'] t'(1) by simp
  with reached t' zero show ?thesis by (intro exI [of _ "map HasStarted us"] exI [of _ w'] exI [of _ t']) simp
qed

theorem crew_starts_twice_witness:
  "\<exists>a b w' t'. (crew_step MemoryMetadataBackend (\<lambda>_ s. (None, s)))\<^sup>*\<^sup>*
      ([AtStart, AtStart], race_crew (Enqueue [race_task] (NewMemoryReplicationTaskQueue 7))) ([HasStarted a, HasStarted b], w') \<and>
    gm_get (mq_tasks (mc_tasks (rw_coordinator w'))) (rt_ID race_task) = Some t' \<and> rt_Attempts t' = 2"
proof -
  let ?q = "Enqueue [race_task] (NewMemoryReplicationTaskQueue 7)"
  have "rt_Attempts race_task = 0" by (simp add: race_task_def)
  moreover have "wf_queue (mc_tasks (rw_coordinator (race_crew ?q)))"
    unfolding race_crew_facts by (intro wf_Enqueue wf_NewQueue)
  moreover have "Pending (mc_tasks (rw_coordinator (race_crew ?q))) = race_task # []" unfolding race_crew_facts by simp
  ultimately show ?thesis
    using crew_starts_twice [of "race_crew ?q" race_task "[]" MemoryMetadataBackend "\<lambda>_ s. (None, s)" 2]
    by (auto simp: numeral_2_eq_2 length_Suc_conv simp del: Enqueue.simps) blast
qed

end
