(* ===== verification/Manager_Runs.thy ===== *)
theory Manager_Runs
  imports Commands Concurrent_Workers
begin

text \<open>
  Runs of a whole manager: requests of any clients, ticks of the background loop, rounds of the
  replication worker, and the clock. Every call of a store runs under the lock of that store, and
  nothing larger is locked against the rest of the manager, so requests, ticks and rounds that are
  in progress at the same time interleave their calls in any order.

  The first part holds for every metadata backend, task queue and object store: a request or a
  tick reaches the metadata only through the writing methods of the interface, and the tasks only
  through those of the queue (\<open>backend_calls\<close>, \<open>queue_call\<close>); at most one of the calls of a request
  makes a new version of a file. The second part is about the in-memory stores: the invariants of
  \<open>Metadata\<close> and \<open>Replication\<close> hold in every state that a manager can reach, published versions stay
  as they are in every run, and a node that keeps sending heartbeats stays in use.
\<close>

section \<open>Calls of the interfaces\<close>

text \<open>One rule per writing method; the number says whether the call makes a new version of a file.\<close>

inductive backend_call :: "'m MetadataBackend \<Rightarrow> nat \<Rightarrow> 'm \<Rightarrow> 'm \<Rightarrow> bool" for B where
  upsert: "backend_call B 0 m (snd (mb_UpsertNode B nid addr m))"
| expire: "backend_call B 0 m (snd (mb_MarkExpiredNodes B nodeTTL m))"
| begin_version: "backend_call B 1 m (snd (mb_BeginFileVersion B key sz checksum chunks primary replicas m))"
| mark: "backend_call B 0 m (snd (mb_MarkReplica B key nid state m))"
| tombstone: "backend_call B 1 m (snd (mb_Tombstone B key m))"
| add: "backend_call B 0 m (snd (mb_AddReplica B key nid state m))"

inductive backend_calls :: "'m MetadataBackend \<Rightarrow> nat \<Rightarrow> 'm \<Rightarrow> 'm \<Rightarrow> bool" for B where
  none: "backend_calls B 0 m m"
| more: "backend_calls B n m m1 \<Longrightarrow> backend_call B v m1 m2 \<Longrightarrow> backend_calls B (n + v) m m2"

text \<open>Only new tasks are put into the queue, and only tasks that the queue offers are started.\<close>

inductive queue_call :: "'q ReplicationTaskQueue \<Rightarrow> 'q \<Rightarrow> 'q \<Rightarrow> bool" for Q where
  enqueue: "list_all fresh_task ts \<Longrightarrow> queue_call Q q (snd (tq_Enqueue Q ts q))"
| start: "tq_Pending Q q = Inr ts \<Longrightarrow> t \<in> set ts \<Longrightarrow> queue_call Q q (snd (tq_MarkRunning Q (rt_ID t) q))"
| finish: "queue_call Q q (snd (tq_MarkDone Q tid q))"
| fail: "queue_call Q q (snd (tq_MarkFailed Q tid cause q))"
| requeue: "queue_call Q q (snd (tq_RequeueExpiredRunning Q q))"

lemma backend_calls_append: "backend_calls B n' m1 m2 \<Longrightarrow> backend_calls B n m m1 \<Longrightarrow> backend_calls B (n + n') m m2"
  by (induction rule: backend_calls.induct) (auto simp: add.assoc [symmetric] intro: backend_calls.intros)

lemma backend_calls_one: "backend_call B v m m' \<Longrightarrow> backend_calls B v m m'"
  using backend_calls.more [OF backend_calls.none] by fastforce

text \<open>What a coordinator does, seen from its backend and its queue.\<close>

definition coord_calls ::
  "'m MetadataBackend \<Rightarrow> 'q ReplicationTaskQueue \<Rightarrow> nat \<Rightarrow> ('m, 'q) MetadataCoordinator \<Rightarrow> ('m, 'q) MetadataCoordinator \<Rightarrow> bool" where
  "coord_calls B Q n c c' \<longleftrightarrow> backend_calls B n (mc_metadata c) (mc_metadata c') \<and>
     (queue_call Q)\<^sup>*\<^sup>* (mc_tasks c) (mc_tasks c') \<and> mc_planner c' = mc_planner c"

lemma coord_calls_refl [intro, simp]: "coord_calls B Q 0 c c"
  by (simp add: coord_calls_def backend_calls.none)

lemma coord_calls_trans [trans]:
  "coord_calls B Q n c c1 \<Longrightarrow> coord_calls B Q n' c1 c2 \<Longrightarrow> coord_calls B Q (n + n') c c2"
  by (auto simp: coord_calls_def intro: backend_calls_append)

lemma coord_calls_metadata: "backend_call B v (mc_metadata c) m \<Longrightarrow> coord_calls B Q v c (c\<lparr>mc_metadata := m\<rparr>)"
  by (simp add: coord_calls_def backend_calls_one)

lemma coord_calls_tasks: "queue_call Q (mc_tasks c) q \<Longrightarrow> coord_calls B Q 0 c (c\<lparr>mc_tasks := q\<rparr>)"
  by (simp add: coord_calls_def backend_calls.none)

section \<open>The coordinator\<close>

lemma RegisterNode_calls: "coord_calls B Q 0 c (snd (RegisterNode B nid addr c))"
  by (simp add: RegisterNode_def case_prod_beta Let_def coord_calls_metadata backend_call.upsert)

lemma DeleteFile_calls: "coord_calls B Q 1 c (snd (DeleteFile B key c))"
  using backend_call.tombstone [of B "mc_metadata c" key]
  by (simp add: DeleteFile_def case_prod_beta Let_def coord_calls_metadata)

lemma TasksForFile_fresh: "TasksForFile f now = Inr ts \<Longrightarrow> list_all fresh_task ts"
  by (auto simp: TasksForFile_eq fresh_task_def list_all_iff split: if_splits)

lemma CommitWrite_calls: "coord_calls B Q 1 c (snd (CommitWrite B Q pw c))"
proof -
  let ?r = "mb_BeginFileVersion B (pw_Key pw) (pw_Size pw) (pw_Checksum pw) (pw_Chunks pw) (nm_ID (pw_Primary pw))
    (map nm_ID (pw_Replicas pw)) (mc_metadata c)"
  let ?c1 = "c\<lparr>mc_metadata := snd ?r\<rparr>"
  have c1: "coord_calls B Q 1 c ?c1" by (intro coord_calls_metadata backend_call.begin_version)
  have "coord_calls B Q 0 ?c1 (?c1\<lparr>mc_tasks := snd (tq_Enqueue Q ts (mc_tasks ?c1))\<rparr>)"
    if "TasksForFile f (mb_Now B (snd ?r)) = Inr ts" for f ts
    using TasksForFile_fresh [OF that] by (intro coord_calls_tasks queue_call.enqueue)
  from coord_calls_trans [OF c1 this] c1 show ?thesis
    by (auto simp: CommitWrite_def Let_def case_prod_beta split: sum.split)
qed

lemma FinishReplication_calls: "coord_calls B Q 0 c (snd (FinishReplication B Q tid c))"
proof -
  let ?c1 = "c\<lparr>mc_tasks := snd (tq_MarkDone Q tid (mc_tasks c))\<rparr>"
  have c1: "coord_calls B Q 0 c ?c1" by (intro coord_calls_tasks queue_call.finish)
  have "coord_calls B Q 0 ?c1 (?c1\<lparr>mc_metadata := snd (mb_MarkReplica B k n st (mc_metadata ?c1))\<rparr>)" for k n st
    by (intro coord_calls_metadata backend_call.mark)
  from coord_calls_trans [OF c1 this] c1 show ?thesis
    by (auto simp: FinishReplication_def Let_def case_prod_beta split: sum.split)
qed

lemma FailReplication_calls: "coord_calls B Q 0 c (snd (FailReplication B Q tid cause c))"
proof -
  let ?c1 = "c\<lparr>mc_tasks := snd (tq_MarkFailed Q tid cause (mc_tasks c))\<rparr>"
  have c1: "coord_calls B Q 0 c ?c1" by (intro coord_calls_tasks queue_call.fail)
  have "coord_calls B Q 0 ?c1 (?c1\<lparr>mc_metadata := snd (mb_MarkReplica B k n st (mc_metadata ?c1))\<rparr>)" for k n st
    by (intro coord_calls_metadata backend_call.mark)
  from coord_calls_trans [OF c1 this] c1 show ?thesis
    by (auto simp: FailReplication_def Let_def case_prod_beta split: sum.split)
qed

lemma fresh_newReplicationTask [simp]: "fresh_task (newReplicationTask f source target created updated)"
  by (simp add: fresh_task_def)

lemma repairMissingLoop_calls:
  "list_all fresh_task tasks \<Longrightarrow> list_all fresh_task (fst (repairMissingLoop B meta source nodes tasks c)) \<and>
    coord_calls B Q 0 c (snd (repairMissingLoop B meta source nodes tasks c))"
proof (induction nodes arbitrary: tasks c)
  case Nil
  then show ?case by simp
next
  case (Cons node nodes)
  let ?c1 = "c\<lparr>mc_metadata := snd (mb_AddReplica B (fm_Key meta) (nm_ID node) ReplicaPending (mc_metadata c))\<rparr>"
  have add: "coord_calls B Q 0 c ?c1" by (intro coord_calls_metadata backend_call.add)
  have "list_all fresh_task (fst (repairMissingLoop B meta source nodes ts ?c1)) \<and>
      coord_calls B Q 0 c (snd (repairMissingLoop B meta source nodes ts ?c1))" if "list_all fresh_task ts" for ts
    using Cons.IH [OF that, of ?c1] coord_calls_trans [OF add] by fastforce
  with Cons show ?case by (auto simp: case_prod_beta Let_def split: sum.split)
qed

lemma repairFiles_calls:
  "list_all fresh_task tasks \<Longrightarrow> list_all fresh_task (fst (repairFiles B nodes files tasks c)) \<and>
    coord_calls B Q 0 c (snd (repairFiles B nodes files tasks c))"
proof (induction files arbitrary: tasks c)
  case Nil
  then show ?case by simp
next
  case (Cons meta files)
  let ?source = "firstHealthyReplica meta"
  have old: "list_all fresh_task (repairExistingReplicas B meta ?source c)"
    by (auto simp: repairExistingReplicas_def list_all_iff fresh_task_def)
  obtain added c1 where r: "repairMissingReplicas B meta ?source nodes c = (added, c1)" by fastforce
  then have new: "list_all fresh_task added" "coord_calls B Q 0 c c1"
    using repairMissingLoop_calls [of "[]" B meta ?source nodes c Q]
    by (auto simp: repairMissingReplicas_def split: if_splits)
  have "list_all fresh_task (tasks @ repairExistingReplicas B meta ?source c @ added)" using Cons.prems old new(1) by simp
  from Cons.IH [OF this, of c1] Cons.IH [OF Cons.prems, of c] coord_calls_trans [OF new(2)] show ?case
    by (auto simp: r Let_def)
qed

lemma PlanRepair_calls: "coord_calls B Q 0 c (snd (PlanRepair B Q c))"
proof -
  have "coord_calls B Q 0 c (c1\<lparr>mc_tasks := snd (tq_Enqueue Q ts (mc_tasks c1))\<rparr>)"
    if "repairFiles B nodes files [] c = (ts, c1)" for nodes files ts c1
    using repairFiles_calls [of "[]" B nodes files c Q] that
      coord_calls_trans [OF _ coord_calls_tasks [OF queue_call.enqueue], of B Q 0 c c1 ts] by simp
  then show ?thesis by (auto simp: PlanRepair_def Let_def case_prod_beta split: sum.split)
qed

lemma Requeue_calls: "coord_calls B Q 0 c (snd (RequeueExpiredReplicationTasks Q c))"
  by (simp add: RequeueExpiredReplicationTasks_def case_prod_beta Let_def coord_calls_tasks queue_call.requeue)

lemma StartReplication_calls:
  "PendingTasks Q c = Inr ts \<Longrightarrow> t \<in> set ts \<Longrightarrow> coord_calls B Q 0 c (snd (StartReplication Q (rt_ID t) c))"
  by (simp add: StartReplication_def PendingTasks_def case_prod_beta Let_def coord_calls_tasks queue_call.start)

lemma WorkOnce_calls: "coord_calls B Q 0 (rw_coordinator w) (rw_coordinator (snd (WorkOnce B Q rep w)))"
proof (cases "PendingTasks Q (rw_coordinator w)")
  case (Inr ts)
  show ?thesis
  proof (cases ts)
    case (Cons t ts')
    let ?c1 = "snd (StartReplication Q (rt_ID t) (rw_coordinator w))"
    have "coord_calls B Q 0 (rw_coordinator w) ?c1" using StartReplication_calls [OF Inr, of t] Cons by simp
    from this coord_calls_trans [OF this FailReplication_calls] coord_calls_trans [OF this FinishReplication_calls]
    show ?thesis by (simp add: WorkOnce_def Inr Cons case_prod_beta Let_def split: sum.split option.split)
  qed (simp add: WorkOnce_def Inr)
qed (simp add: WorkOnce_def)

section \<open>Requests and ticks\<close>

abbreviation service_calls ::
  "'m MetadataBackend \<Rightarrow> 'q ReplicationTaskQueue \<Rightarrow> nat \<Rightarrow> ('m, 'q, 's) ManagedFileService \<Rightarrow> ('m, 'q, 's) ManagedFileService \<Rightarrow> bool" where
  "service_calls B Q n sv sv' \<equiv> coord_calls B Q n (sv_coordinator sv) (sv_coordinator sv')"

lemma Put_calls: "\<exists>n \<le> 1. service_calls B Q n sv (snd (Put H te B Q OS key r sv))"
  using CommitWrite_calls [of B Q "sv_coordinator sv"]
  by (auto simp: Put_def case_prod_beta Let_def split: sum.split option.split intro: exI [of _ 0] exI [of _ 1])

lemma getLoop_calls: "service_calls B Q 0 sv (snd (getLoop H te B OS key meta replicas sv))"
proof (induction replicas arbitrary: sv)
  case Nil
  then show ?case by simp
next
  case (Cons x replicas)
  have "service_calls B Q 0 sv (snd (getLoop H te B OS key meta replicas
      (sv\<lparr>sv_coordinator := (sv_coordinator sv)\<lparr>mc_metadata := snd (mb_MarkReplica B key n st (mc_metadata (sv_coordinator sv)))\<rparr>\<rparr>)))"
    (is "service_calls B Q 0 sv (snd (getLoop H te B OS key meta replicas ?sv1))") for n st
  proof -
    have "service_calls B Q 0 sv ?sv1" by (simp add: coord_calls_metadata backend_call.mark)
    from coord_calls_trans [OF this Cons.IH] show ?thesis by simp
  qed
  then show ?case by (auto simp: case_prod_beta Let_def split: sum.split option.split)
qed

lemma Get_calls: "service_calls B Q 0 sv (snd (Get H te B OS key sv))"
  by (auto simp: Get_def getLoop_calls split: sum.split)

lemma Delete_calls: "\<exists>n \<le> 1. service_calls B Q n sv (snd (Service_Delete B OS key sv))"
  using DeleteFile_calls [of B Q "sv_coordinator sv" key]
  by (auto simp: Service_Delete_def case_prod_beta Let_def split: sum.split option.split intro: exI [of _ 0] exI [of _ 1])

lemma RunReplicationOnce_calls: "service_calls B Q 0 sv (snd (RunReplicationOnce H B Q OS sv))"
  using WorkOnce_calls [of B Q "\<lparr>rw_coordinator = sv_coordinator sv, rw_objects = sv_objects sv\<rparr>"]
  by (simp add: RunReplicationOnce_def case_prod_beta Let_def)

lemma replicationLoop_calls: "replicationLoop H B Q OS sv = Some (err, sv') \<Longrightarrow> service_calls B Q 0 sv sv'"
proof -
  assume run: "replicationLoop H B Q OS sv = Some (err, sv')"
  have "service_calls B Q 0 sv (snd (err, sv'))"
  proof (rule replicationLoop.raw_induct [where P = "\<lambda>H B Q OS sv y. service_calls B Q 0 sv (snd y)", OF _ run], goal_cases)
    case (1 loop H B Q OS sv y)
    obtain r e sv1 where once: "RunReplicationOnce H B Q OS sv = ((r, e), sv1)" by (metis surj_pair)
    then have step: "service_calls B Q 0 sv sv1" using RunReplicationOnce_calls [of B Q sv H OS] by simp
    show ?case
    proof (cases e)
      case None
      with 1(2) once have "loop H B Q OS sv1 = Some y" by simp
      from coord_calls_trans [OF step 1(1) [OF this]] show ?thesis by simp
    qed (use 1(2) once step in auto)
  qed
  then show ?thesis by simp
qed

lemma managerTick_calls: "managerTick H B Q OS sv = Some sv' \<Longrightarrow> service_calls B Q 0 sv sv'"
proof -
  assume tick: "managerTick H B Q OS sv = Some sv'"
  let ?sv1 = "snd (Service_MarkExpiredNodes B nodeTTL sv)" let ?sv2 = "snd (Service_RequeueExpired Q ?sv1)"
  let ?sv3 = "snd (Service_PlanRepair B Q ?sv2)"
  have "service_calls B Q 0 sv ?sv1"
    by (simp add: Service_MarkExpiredNodes_def case_prod_beta Let_def coord_calls_metadata backend_call.expire)
  also have "service_calls B Q 0 ?sv1 ?sv2"
    by (simp add: Service_RequeueExpired_def case_prod_beta Let_def Requeue_calls)
  also have "service_calls B Q 0 ?sv2 ?sv3"
    by (simp add: Service_PlanRepair_def case_prod_beta Let_def PlanRepair_calls)
  also have "service_calls B Q 0 ?sv3 sv'"
    using tick replicationLoop_calls by (auto simp: managerTick_def case_prod_beta Let_def)
  finally show ?thesis by simp
qed

lemma request_calls:
  "\<exists>n \<le> 1. service_calls B Q n (mh_service h) (mh_service (snd (ManagerServeHTTP H te B Q OS r h)))"
proof -
  have none: "\<exists>n \<le> 1. service_calls B Q n sv sv'" if "service_calls B Q 0 sv sv'" for sv sv' :: "('a, 'b, 'c) ManagedFileService"
    using that by auto
  have here: "\<exists>n \<le> 1. service_calls B Q n (mh_service h) (mh_service h)" by (rule none) simp
  have meta: "service_calls B Q 0 (mh_service h) (mh_service (snd (handleMetadata B r key h)))" for key
    by (simp add: handleMetadata_def split: sum.split option.split)
  have files: "\<exists>n \<le> 1. service_calls B Q n (mh_service h) (mh_service (snd (handleFile H te B Q OS r h)))"
  proof (cases "fileKeyFromPath (rq_Path r)")
    case (Inl e)
    then show ?thesis using here by (simp add: handleFile_def)
  next
    case (Inr p)
    obtain key metadataOnly where p: "p = (key, metadataOnly)" by fastforce
    have put: "mh_service (snd (case Put H te B Q OS key (rq_Body r) (mh_service h) of
        (Inl err, sv) \<Rightarrow> (answerError 503 err, h\<lparr>mh_service := sv\<rparr>)
      | (Inr meta, sv) \<Rightarrow> (Some (writeAPIJSON 201 (enc_FileMetadata meta)), h\<lparr>mh_service := sv\<rparr>))) =
        snd (Put H te B Q OS key (rq_Body r) (mh_service h))"
      by (simp add: case_prod_beta split: sum.split)
    show ?thesis
    proof (cases "rq_Method r")
      case MethodPut
      then show ?thesis using Put_calls [of B Q "mh_service h" H te OS key "rq_Body r"] none [OF meta] put
        by (simp add: handleFile_def Inr p)
    next
      case MethodGet
      then show ?thesis using none [OF Get_calls [of B Q "mh_service h" H te OS key]] none [OF meta]
        by (simp add: handleFile_def Inr p case_prod_beta split: sum.split)
    next
      case MethodDelete
      then show ?thesis using Delete_calls [of B Q "mh_service h" OS key] none [OF meta]
        by (simp add: handleFile_def Inr p case_prod_beta split: sum.split)
    qed (use none [OF meta] here in \<open>simp_all add: handleFile_def Inr p\<close>)
  qed
  have run: "service_calls B Q 0 (mh_service h) (mh_service (snd (handleReplicationRun H B Q OS r h)))"
    using RunReplicationOnce_calls [of B Q "mh_service h" H OS]
    by (auto simp: handleReplicationRun_def split: prod.split option.split)
  have beat: "service_calls B Q 0 (mh_service h) (mh_service (snd (handleNodeHeartbeat B r h)))"
    using RegisterNode_calls [of B Q "sv_coordinator (mh_service h)"]
    by (auto simp: handleNodeHeartbeat_def Service_RegisterNode_def Let_def case_prod_beta split: sum.split option.split)
  show ?thesis
    using files none [OF run] none [OF beat] here
    by (simp add: ManagerServeHTTP_def handleNodes_def handleMetrics_def split: sum.split)
qed

section \<open>Managers with the in-memory stores\<close>

lemma memory_backend_call: "backend_call MemoryMetadataBackend v m m' \<Longrightarrow> metadata_step m m'"
  by (induction rule: backend_call.induct) (simp_all add: metadata_step.intros)

lemma memory_calls_wf: "backend_calls MemoryMetadataBackend n m m' \<Longrightarrow> wf_metadata m \<Longrightarrow> wf_metadata m'"
  by (induction rule: backend_calls.induct) (auto intro: metadata_step_wf memory_backend_call)

text \<open>The version of a file moves by at most the number of calls that make a version.\<close>

lemma memory_call_file:
  assumes "backend_call MemoryMetadataBackend v m m'" and "gm_get (ms_files m) k = Some f"
  shows "\<exists>f' j. gm_get (ms_files m') k = Some f' \<and> fm_CreatedAt f' = fm_CreatedAt f \<and>
          j \<le> v \<and> fm_Version f' = fm_Version f + of_nat j \<and> (j = 0 \<longrightarrow> published f' = published f)"
proof -
  have v: "v \<le> 1 \<and> (v = 0 \<longrightarrow> (\<forall>f'. gm_get (ms_files m') k = Some f' \<longrightarrow> fm_Version f' = fm_Version f))"
    using assms by (cases rule: backend_call.cases)
      (auto simp: UpsertNode_def MarkExpiredNodes_def MarkReplica_def AddReplica_def Let_def split: option.splits)
  from metadata_step_file [OF memory_backend_call [OF assms(1)] assms(2)]
  obtain f' where f': "gm_get (ms_files m') k = Some f'" "fm_CreatedAt f' = fm_CreatedAt f"
      "fm_Version f' = fm_Version f \<and> published f' = published f \<or> fm_Version f' = fm_Version f + 1" by blast
  from f'(3) show ?thesis
  proof
    assume "fm_Version f' = fm_Version f \<and> published f' = published f"
    with f' show ?thesis by (intro exI [of _ f'] exI [of _ 0]) simp
  next
    assume "fm_Version f' = fm_Version f + 1"
    with f' v show ?thesis by (intro exI [of _ f'] exI [of _ 1]) auto
  qed
qed

lemma memory_calls_file:
  assumes "backend_calls MemoryMetadataBackend n m m'" and "gm_get (ms_files m) k = Some f"
  shows "\<exists>f' j. gm_get (ms_files m') k = Some f' \<and> fm_CreatedAt f' = fm_CreatedAt f \<and>
          j \<le> n \<and> fm_Version f' = fm_Version f + of_nat j \<and> (j = 0 \<longrightarrow> published f' = published f)"
  using assms
proof (induction rule: backend_calls.induct)
  case (none m)
  then show ?case by auto
next
  case (more n m m1 v m2)
  from more.IH [OF more.prems] obtain f1 j where f1: "gm_get (ms_files m1) k = Some f1" "fm_CreatedAt f1 = fm_CreatedAt f"
      "j \<le> n" "fm_Version f1 = fm_Version f + of_nat j" "j = 0 \<longrightarrow> published f1 = published f" by blast
  from memory_call_file [OF more.hyps(2) f1(1)] obtain f2 i where f2: "gm_get (ms_files m2) k = Some f2"
      "fm_CreatedAt f2 = fm_CreatedAt f1" "i \<le> v" "fm_Version f2 = fm_Version f1 + of_nat i" "i = 0 \<longrightarrow> published f2 = published f1"
    by blast
  with f1 show ?case by (intro exI [of _ f2] exI [of _ "j + i"]) (auto simp: add.assoc)
qed

text \<open>A node on record as healthy, with a heartbeat that is not older than the loop allows.\<close>

definition node_in_time :: "string \<Rightarrow> MetadataStore \<Rightarrow> bool" where
  "node_in_time nid m \<longleftrightarrow>
     (case gm_get (ms_nodes m) nid of None \<Rightarrow> False | Some n \<Rightarrow> ms_now m - nm_LastHeartbeat n \<le> nodeTTL)"

definition node_alive :: "string \<Rightarrow> MetadataStore \<Rightarrow> bool" where
  "node_alive nid m \<longleftrightarrow> node_in_time nid m \<and>
     (case gm_get (ms_nodes m) nid of None \<Rightarrow> False | Some n \<Rightarrow> nm_State n = NodeHealthy)"

lemma node_alive_calls: "backend_calls MemoryMetadataBackend n m m' \<Longrightarrow> node_alive nid m \<Longrightarrow> node_alive nid m'"
proof (induction rule: backend_calls.induct)
  case (more n m m1 v m2)
  have ttl: "0 \<le> nodeTTL" by (simp add: nodeTTL_def nanosecondsPerSecond_def)
  from more.hyps(2) more.IH [OF more.prems] ttl show ?case
    by (cases rule: backend_call.cases)
      (auto simp: node_alive_def node_in_time_def UpsertNode_def MarkExpiredNodes_def BeginFileVersion_def MarkReplica_def
        Tombstone_def AddReplica_def Let_def split: option.splits prod.splits)
qed

lemma node_alive_listed: "wf_metadata m \<Longrightarrow> node_alive nid m \<Longrightarrow> nid \<in> nm_ID ` set (HealthyNodes m)"
proof -
  assume wf: "wf_metadata m" and alive: "node_alive nid m"
  then obtain n where n: "gm_get (ms_nodes m) nid = Some n" "nm_State n = NodeHealthy"
    by (auto simp: node_alive_def split: option.splits)
  with wf have "nm_ID n = nid" by (auto simp: wf_metadata_def dest: gm_allD)
  with n HealthyNodes_mem [OF wf, of n] show ?thesis by force
qed

text \<open>
  The steps of a manager, on its handler and the rounds of the worker that are in progress. What is
  not disturbed by anything else is one step: a request, with its staging directory in any
  condition, or a tick of the loop. What is in progress beside other work takes its calls one by
  one: a round of the worker makes its next call, copies with any outcome while the objects change,
  or begins anew when it has returned; and any other request or tick that is in progress makes a
  writing call of the metadata store, or one of the queue that does not start a task. (The last two
  calls of a round, one of the queue and one of the metadata, may also come apart in this way; the
  round is then \<open>left\<close>.) The clock, which both stores read, moves to any instant after the zero
  time, and objects change behind the manager's back, as storage nodes lose or regain them.
\<close>

type_synonym 's memory_manager = "(MetadataStore, MemoryReplicationTaskQueue, 's) ManagerHTTPHandler"

abbreviation manager_metadata :: "'s memory_manager \<Rightarrow> MetadataStore" where
  "manager_metadata h \<equiv> mc_metadata (sv_coordinator (mh_service h))"

abbreviation manager_tasks :: "'s memory_manager \<Rightarrow> MemoryReplicationTaskQueue" where
  "manager_tasks h \<equiv> mc_tasks (sv_coordinator (mh_service h))"

definition manager_clock :: "instant \<Rightarrow> 's memory_manager \<Rightarrow> 's memory_manager" where
  "manager_clock t h =
     (let sv = mh_service h; c = sv_coordinator sv
      in h\<lparr>mh_service := sv\<lparr>sv_coordinator := c\<lparr>mc_metadata := (mc_metadata c)\<lparr>ms_now := t\<rparr>,
             mc_tasks := (mc_tasks c)\<lparr>mq_now := t\<rparr>\<rparr>\<rparr>\<rparr>)"

abbreviation manager_with ::
  "('s memory_manager) \<Rightarrow> (MetadataStore, MemoryReplicationTaskQueue) MetadataCoordinator \<Rightarrow> 's \<Rightarrow> 's memory_manager" where
  "manager_with h c s \<equiv> h\<lparr>mh_service := \<lparr>sv_coordinator = c, sv_objects = s\<rparr>\<rparr>"

abbreviation manager_worker :: "'s memory_manager \<Rightarrow> (MetadataStore, MemoryReplicationTaskQueue, 's) ReplicationWorker" where
  "manager_worker h \<equiv> \<lparr>rw_coordinator = sv_coordinator (mh_service h), rw_objects = sv_objects (mh_service h)\<rparr>"

inductive side_call :: "MemoryReplicationTaskQueue \<Rightarrow> MemoryReplicationTaskQueue \<Rightarrow> bool" where
  enqueue: "list_all fresh_task ts \<Longrightarrow> side_call q (Enqueue ts q)"
| finish: "side_call q (snd (MarkDone tid q))"
| fail: "side_call q (snd (MarkFailed tid cause q))"
| requeue: "side_call q (snd (RequeueExpiredRunning q))"

inductive manager_step ::
  "(byte list \<Rightarrow> string) \<Rightarrow> 's ObjectStore \<Rightarrow> worker_at list \<times> 's memory_manager \<Rightarrow> worker_at list \<times> 's memory_manager \<Rightarrow> bool"
  for H OS where
  request: "manager_step H OS (ws, h) (ws, snd (ManagerServeHTTP H te MemoryMetadataBackend MemoryTaskQueue OS r h))"
| tick: "managerTick H MemoryMetadataBackend MemoryTaskQueue OS (mh_service h) = Some sv \<Longrightarrow>
    manager_step H OS (ws, h) (ws, h\<lparr>mh_service := sv\<rparr>)"
| round: "i < length ws \<Longrightarrow>
    worker_step MemoryMetadataBackend MemoryTaskQueue (Replicate H OS) (ws ! i, manager_worker h) = (x, w) \<Longrightarrow>
    manager_step H OS (ws, h) (ws[i := x], manager_with h (rw_coordinator w) (rw_objects w))"
| copied: "i < length ws \<Longrightarrow> ws ! i = HasStarted t \<Longrightarrow>
    manager_step H OS (ws, h) (ws[i := HasCopied t e], manager_with h (sv_coordinator (mh_service h)) s)"
| again: "i < length ws \<Longrightarrow> ws ! i = Returned r \<Longrightarrow> manager_step H OS (ws, h) (ws[i := AtStart], h)"
| left: "i < length ws \<Longrightarrow> ws ! i = HasCopied t e \<Longrightarrow> manager_step H OS (ws, h) (ws[i := AtStart], h)"
| metadata_call: "backend_call MemoryMetadataBackend v (manager_metadata h) m \<Longrightarrow>
    manager_step H OS (ws, h) (ws, manager_with h ((sv_coordinator (mh_service h))\<lparr>mc_metadata := m\<rparr>) (sv_objects (mh_service h)))"
| task_call: "side_call (manager_tasks h) q \<Longrightarrow>
    manager_step H OS (ws, h) (ws, manager_with h ((sv_coordinator (mh_service h))\<lparr>mc_tasks := q\<rparr>) (sv_objects (mh_service h)))"
| clock: "0 < t \<Longrightarrow> manager_step H OS (ws, h) (ws, manager_clock t h)"
| objects: "manager_step H OS (ws, h) (ws, h\<lparr>mh_service := (mh_service h)\<lparr>sv_objects := s\<rparr>\<rparr>)"

inductive manager_reachable ::
  "(byte list \<Rightarrow> string) \<Rightarrow> 's ObjectStore \<Rightarrow> nat \<Rightarrow> worker_at list \<times> 's memory_manager \<Rightarrow> bool" for H OS n where
  start: "0 < t \<Longrightarrow>
    manager_reachable H OS n (replicate n AtStart, NewManagerHTTPHandler (NewManagedFileService t replicaCount objects) stores)"
| step: "manager_reachable H OS n st \<Longrightarrow> manager_step H OS st st' \<Longrightarrow> manager_reachable H OS n st'"

text \<open>What a call of a round does to the metadata.\<close>

lemma worker_step_metadata:
  assumes "worker_step B Q replicator (a, w) = (x, w')"
  shows "backend_calls B 0 (mc_metadata (rw_coordinator w)) (mc_metadata (rw_coordinator w'))"
proof (cases a)
  case (HasPicked tid)
  then show ?thesis using assms by (auto simp: StartReplication_def Let_def backend_calls.none split: prod.splits)
next
  case (HasCopied t e)
  then show ?thesis
    using assms FailReplication_calls [of B Q "rw_coordinator w" "rt_ID t" e]
      FinishReplication_calls [of B Q "rw_coordinator w" "rt_ID t"]
    by (cases e) (auto simp: coord_calls_def Let_def split: prod.splits)
qed (use assms in \<open>auto simp: backend_calls.none Let_def split: prod.splits sum.splits list.splits\<close>)

text \<open>On the metadata every step but the clock is a run of calls, at most one of which makes a version.\<close>

lemma manager_clock_sel [simp]:
  "manager_metadata (manager_clock t h) = (manager_metadata h)\<lparr>ms_now := t\<rparr>"
  "manager_tasks (manager_clock t h) = (manager_tasks h)\<lparr>mq_now := t\<rparr>"
  by (simp_all add: manager_clock_def Let_def)

lemma backend_call_versions: "backend_call B v m m' \<Longrightarrow> v \<le> 1"
  by (induction rule: backend_call.induct) simp_all

lemma manager_step_metadata:
  assumes "manager_step H OS (ws, h) (ws', h')"
  obtains (calls) n where "n \<le> 1" and "backend_calls MemoryMetadataBackend n (manager_metadata h) (manager_metadata h')"
  | (clock) t where "0 < t" and "manager_metadata h' = (manager_metadata h)\<lparr>ms_now := t\<rparr>"
  using assms
proof (cases rule: manager_step.cases)
  case (request te r)
  then show thesis using request_calls [of MemoryMetadataBackend MemoryTaskQueue h H te OS r] calls by (auto simp: coord_calls_def)
next
  case (tick sv)
  then show thesis using managerTick_calls [OF tick(3)] calls [of 0] by (simp add: coord_calls_def)
next
  case (round i x w)
  then show thesis using worker_step_metadata [OF round(4)] calls [of 0] by simp
next
  case (metadata_call v m)
  then show thesis using backend_calls_one backend_call_versions calls [of v] by fastforce
next
  case (clock t)
  then show thesis using that(2) by simp
qed (use calls [of 0] in \<open>auto intro: backend_calls.none\<close>)

section \<open>The queue of a manager\<close>

text \<open>
  What every call keeps true of a task, a start of any task included, be it dead or done; only a
  bound on the attempts needs to know how many rounds are about to start the task.
\<close>

definition task_typed :: "ReplicationTask \<Rightarrow> bool" where
  "task_typed t \<longleftrightarrow> 0 \<le> rt_Attempts t \<and>
     (rt_State t = ReplicationTaskRunning \<longrightarrow> 1 \<le> rt_Attempts t \<and> 0 < rt_LeaseUntil t) \<and>
     (rt_State t = ReplicationTaskDead \<longrightarrow> 5 \<le> rt_Attempts t) \<and> rt_State t \<noteq> ReplicationTaskFailed"

definition queue_typed :: "MemoryReplicationTaskQueue \<Rightarrow> bool" where
  "queue_typed q \<longleftrightarrow> wf_queue q \<and> 0 < mq_now q \<and> gm_all (\<lambda>_. task_typed) (mq_tasks q)"

lemma queue_typed_put:
  "queue_typed q \<Longrightarrow> rt_ID t = k \<Longrightarrow> task_typed t \<Longrightarrow> queue_typed (q\<lparr>mq_tasks := gm_put k t (mq_tasks q)\<rparr>)"
  by (simp add: queue_typed_def wf_queue_put) (simp add: wf_queue_def gm_all_put)

lemma queue_typed_task: "queue_typed q \<Longrightarrow> gm_get (mq_tasks q) k = Some t \<Longrightarrow> task_typed t \<and> rt_ID t = k"
  by (auto simp: queue_typed_def dest: gm_allD wf_queue_ID)

lemma task_typed_fresh: "fresh_task t \<Longrightarrow> task_typed t"
  by (simp add: fresh_task_def task_typed_def)

lemma queue_typed_Enqueue: "queue_typed q \<Longrightarrow> list_all fresh_task ts \<Longrightarrow> queue_typed (Enqueue ts q)"
  by (induction ts q rule: Enqueue.induct) (auto intro: queue_typed_put task_typed_fresh)

lemma queue_typed_calls:
  assumes "queue_typed q"
  shows "queue_typed (snd (MarkRunning tid q))" and "queue_typed (snd (MarkDone tid q))"
    and "queue_typed (snd (MarkFailed tid cause q))" and "queue_typed (snd (RequeueExpiredRunning q))"
    and "0 < now \<Longrightarrow> queue_typed (q\<lparr>mq_now := now\<rparr>)"
proof -
  have now: "0 < mq_now q" using assms by (simp add: queue_typed_def)
  note at = queue_typed_task [OF assms] queue_typed_put [OF assms]
  show "queue_typed (snd (MarkRunning tid q))"
    using assms now
    by (auto simp: MarkRunning_def Let_def task_typed_def defaultReplicationTaskLease_def nanosecondsPerSecond_def
        split: option.split intro!: at(2) dest: at(1))
  show "queue_typed (snd (MarkDone tid q))"
    using assms by (auto simp: MarkDone_def Let_def task_typed_def split: option.split intro!: at(2) dest: at(1))
  show "queue_typed (snd (MarkFailed tid cause q))"
    using assms
    by (auto simp: MarkFailed_def Let_def task_typed_def defaultReplicationTaskMaxAttempts_def
        split: option.split intro!: at(2) dest: at(1))
  show "queue_typed (snd (RequeueExpiredRunning q))"
    using assms wf_Requeue [of q]
    by (auto simp: queue_typed_def) (auto simp: RequeueExpiredRunning_def Let_def task_typed_def
        defaultReplicationTaskMaxAttempts_def intro!: gm_all_update_all)
  show "queue_typed (q\<lparr>mq_now := now\<rparr>)" if "0 < now"
    using assms that by (simp add: queue_typed_def wf_queue_def)
qed

text \<open>
  With \<open>n\<close> rounds in progress, the starts of a task and the rounds that are about to start it are
  together at most \<open>5 + n\<close>.
\<close>

definition rounds_inv :: "worker_at list \<Rightarrow> MemoryReplicationTaskQueue \<Rightarrow> bool" where
  "rounds_inv ws q \<longleftrightarrow> queue_typed q \<and> queue_bounded (\<lambda>k. int (picked k ws)) (5 + int (length ws)) q"

lemma queue_call_rounds:
  assumes "queue_call MemoryTaskQueue q q'" and "rounds_inv ws q"
  shows "rounds_inv ws q'"
proof -
  from assms(2) have t: "queue_typed q" and b: "queue_bounded (\<lambda>k. int (picked k ws)) (5 + int (length ws)) q"
    by (simp_all add: rounds_inv_def)
  have le: "int (picked k ws) \<le> 5 + int (length ws)" for k using picked_le [of k ws] by simp
  from assms(1) show ?thesis
  proof (cases rule: queue_call.cases)
    case (enqueue ts)
    with t b le show ?thesis by (simp add: rounds_inv_def queue_typed_Enqueue queue_bounded_Enqueue)
  next
    case (start ts u)
    then have "gm_get (mq_tasks q) (rt_ID u) = Some u" "rt_State u = ReplicationTaskPending"
      using t Pending_mem [of q u] by (auto simp: queue_typed_def)
    moreover from this b have "rt_Attempts u + 1 + int (picked (rt_ID u) ws) \<le> 5 + int (length ws)"
      using picked_le [of "rt_ID u" ws] by (force simp: queue_bounded_def)
    ultimately have "queue_bounded (\<lambda>k. int (picked k ws)) (5 + int (length ws)) (snd (MarkRunning (rt_ID u) q))"
      using b by (auto simp: MarkRunning_def Let_def intro!: queue_bounded_put)
    with start queue_typed_calls(1) [OF t] show ?thesis by (simp add: rounds_inv_def)
  qed (use queue_typed_calls [OF t] queue_bounded_calls [OF b] in \<open>simp_all add: rounds_inv_def\<close>)
qed

lemma queue_calls_rounds: "(queue_call MemoryTaskQueue)\<^sup>*\<^sup>* q q' \<Longrightarrow> rounds_inv ws q \<Longrightarrow> rounds_inv ws q'"
  by (induction rule: rtranclp_induct) (auto intro: queue_call_rounds)

lemma side_call_queue_call: "side_call q q' \<Longrightarrow> queue_call MemoryTaskQueue q q'"
proof (induction rule: side_call.induct)
  case (enqueue ts q)
  then show ?case using queue_call.enqueue [of ts MemoryTaskQueue q] by simp
next
  case (finish q tid)
  then show ?case using queue_call.finish [of MemoryTaskQueue q tid] by simp
next
  case (fail q tid cause)
  then show ?case using queue_call.fail [of MemoryTaskQueue q tid cause] by simp
next
  case (requeue q)
  then show ?case using queue_call.requeue [of MemoryTaskQueue q] by simp
qed

lemma worker_step_rounds:
  assumes "i < length ws" and "rounds_inv ws (mc_tasks (rw_coordinator w))"
    and step: "worker_step B MemoryTaskQueue replicator (ws ! i, w) = (x, w')"
  shows "rounds_inv (ws[i := x]) (mc_tasks (rw_coordinator w'))"
proof -
  from assms(2) have t: "queue_typed (mc_tasks (rw_coordinator w))"
    and b: "queue_bounded (\<lambda>k. int (picked k ws)) (5 + int (length ws)) (mc_tasks (rw_coordinator w))"
    by (simp_all add: rounds_inv_def)
  from worker_step_tasks [OF step] queue_typed_calls [OF t] t
  have "queue_typed (mc_tasks (rw_coordinator w'))" by (auto split: worker_at.splits option.splits)
  moreover from round_bounded [OF b _ assms(1) step]
  have "queue_bounded (\<lambda>k. int (picked k (ws[i := x]))) (5 + int (length ws)) (mc_tasks (rw_coordinator w'))" by simp
  ultimately show ?thesis by (simp add: rounds_inv_def)
qed

lemma rounds_inv_mono:
  "rounds_inv ws q \<Longrightarrow> length ws' = length ws \<Longrightarrow> (\<And>k. int (picked k ws') \<le> int (picked k ws)) \<Longrightarrow> rounds_inv ws' q"
  unfolding rounds_inv_def using queue_bounded_mono by fastforce

section \<open>What every step keeps\<close>

definition manager_ok :: "worker_at list \<times> 's memory_manager \<Rightarrow> bool" where
  "manager_ok st \<longleftrightarrow> wf_metadata (manager_metadata (snd st)) \<and> rounds_inv (fst st) (manager_tasks (snd st))"

lemma manager_step_wf:
  assumes "manager_step H OS (ws, h) (ws', h')" and "wf_metadata (manager_metadata h)"
  shows "wf_metadata (manager_metadata h')"
  using assms(1) by (cases rule: manager_step_metadata) (use assms(2) memory_calls_wf in auto)

lemma manager_step_rounds:
  assumes "manager_step H OS (ws, h) (ws', h')" and "rounds_inv ws (manager_tasks h)"
  shows "rounds_inv ws' (manager_tasks h')"
  using assms(1)
proof (cases rule: manager_step.cases)
  case (request te r)
  then show ?thesis using request_calls [of MemoryMetadataBackend MemoryTaskQueue h H te OS r] queue_calls_rounds assms(2)
    by (auto simp: coord_calls_def)
next
  case (tick sv)
  then show ?thesis using managerTick_calls [OF tick(3)] queue_calls_rounds assms(2) by (auto simp: coord_calls_def)
next
  case (round i x w)
  then show ?thesis using worker_step_rounds [OF round(3) _ round(4)] assms(2) by simp
next
  case (copied i t e s)
  then have "picked k (ws[i := HasCopied t e]) \<le> picked k ws" for k using picked_update [OF copied(3), of k "HasCopied t e"] by simp
  with copied assms(2) rounds_inv_mono [of ws _ ws'] show ?thesis by simp
next
  case (again i r)
  with assms(2) rounds_inv_mono [of ws _ ws'] picked_again [OF again(3)] show ?thesis by simp
next
  case (left i t e)
  with assms(2) rounds_inv_mono [of ws _ ws'] picked_again [OF left(3)] show ?thesis by simp
next
  case (task_call q)
  then show ?thesis using queue_call_rounds [OF side_call_queue_call] assms(2) by simp
next
  case (clock t)
  with assms(2) queue_typed_calls(5) queue_bounded_calls(5) show ?thesis by (simp add: rounds_inv_def)
qed (use assms(2) in simp_all)

lemma manager_step_ok: "manager_step H OS st st' \<Longrightarrow> manager_ok st \<Longrightarrow> manager_ok st'"
  using manager_step_wf [of H OS "fst st" "snd st" "fst st'" "snd st'"] manager_step_rounds [of H OS "fst st" "snd st" "fst st'" "snd st'"]
  by (simp add: manager_ok_def)

lemma manager_step_length: "manager_step H OS st st' \<Longrightarrow> length (fst st') = length (fst st)"
  by (induction rule: manager_step.induct) simp_all

lemma manager_new_sel:
  "manager_metadata (NewManagerHTTPHandler (NewManagedFileService t replicaCount objects) stores) = NewMetadataStore t"
  "manager_tasks (NewManagerHTTPHandler (NewManagedFileService t replicaCount objects) stores) = NewMemoryReplicationTaskQueue t"
  by (simp_all add: NewManagerHTTPHandler_def NewManagedFileService_def NewManagedFileServiceWithMetadata_def
      NewManagedFileServiceWithMetadataAndQueue_def NewMetadataCoordinatorWithBackendAndQueue_def)

lemma manager_reachable_ok: "manager_reachable H OS n st \<Longrightarrow> manager_ok st \<and> length (fst st) = n"
proof (induction rule: manager_reachable.induct)
  case (start t replicaCount objects stores)
  have "picked k (replicate n AtStart) = 0" for k by (simp add: picked_def)
  with start show ?case
    by (simp add: manager_ok_def manager_new_sel rounds_inv_def queue_typed_def queue_bounded_def)
      (simp add: NewMemoryReplicationTaskQueue_def)
next
  case (step st st')
  then show ?case using manager_step_ok manager_step_length by metis
qed

lemma manager_step_file:
  assumes "manager_step H OS (ws, h) (ws', h')" and "gm_get (ms_files (manager_metadata h)) k = Some f"
  shows "\<exists>f' j. gm_get (ms_files (manager_metadata h')) k = Some f' \<and> fm_CreatedAt f' = fm_CreatedAt f \<and>
          j \<le> 1 \<and> fm_Version f' = fm_Version f + of_nat j \<and> (j = 0 \<longrightarrow> published f' = published f)"
  using assms(1)
proof (cases rule: manager_step_metadata)
  case (calls n)
  from memory_calls_file [OF calls(2) assms(2)] calls(1) show ?thesis by (meson order_trans)
next
  case (clock t)
  then show ?thesis using assms(2) by (intro exI [of _ f] exI [of _ 0]) simp
qed

lemma manager_run_file:
  assumes "(manager_step H OS ^^ n) (ws, h) (ws', h')" and "gm_get (ms_files (manager_metadata h)) k = Some f"
  shows "\<exists>f' j. gm_get (ms_files (manager_metadata h')) k = Some f' \<and> fm_CreatedAt f' = fm_CreatedAt f \<and>
          j \<le> n \<and> fm_Version f' = fm_Version f + of_nat j \<and> (j = 0 \<longrightarrow> published f' = published f)"
  using assms(1)
proof (induction n arbitrary: ws' h')
  case 0
  then show ?case using assms(2) by auto
next
  case (Suc n)
  then obtain ws1 h1 where run: "(manager_step H OS ^^ n) (ws, h) (ws1, h1)" and step: "manager_step H OS (ws1, h1) (ws', h')" by auto
  from Suc.IH [OF run] obtain f1 j where f1: "gm_get (ms_files (manager_metadata h1)) k = Some f1"
      "fm_CreatedAt f1 = fm_CreatedAt f" "j \<le> n" "fm_Version f1 = fm_Version f + of_nat j"
      "j = 0 \<longrightarrow> published f1 = published f" by blast
  from manager_step_file [OF step f1(1)] obtain f2 i where f2: "gm_get (ms_files (manager_metadata h')) k = Some f2"
      "fm_CreatedAt f2 = fm_CreatedAt f1" "i \<le> 1" "fm_Version f2 = fm_Version f1 + of_nat i"
      "i = 0 \<longrightarrow> published f2 = published f1" by blast
  with f1 show ?case by (intro exI [of _ f2] exI [of _ "j + i"]) (auto simp: add.assoc)
qed

section \<open>Properties of all runs\<close>

text \<open>
  C15. Every state that a manager can reach is well typed, however its work interleaves. Requests
  of clients and nodes and ticks of the background loop may run undisturbed or at the same time,
  call by call, up to \<open>n\<close> rounds of the replication worker may be in progress beside them, objects
  and the clock may change in between: always metadata and task queue are well formed (entries
  under their own identifiers, each file and task once), a task that still waits has been started
  fewer than five times, no task more than \<open>5 + n\<close> times, a running task has been started and holds
  a lease, a task is dead only after its fifth start, and no task is ever in the state \<open>failed\<close>,
  which the code declares but never assigns. When requests and ticks follow one another, \<open>n = 0\<close>,
  no task is started more than five times.
\<close>

theorem manager_states_ok:
  assumes "manager_reachable H OS n (ws, h)"
  shows "wf_metadata (manager_metadata h) \<and> wf_queue (manager_tasks h) \<and>
    (\<forall>i t. gm_get (mq_tasks (manager_tasks h)) i = Some t \<longrightarrow>
       rt_ID t = i \<and> 0 \<le> rt_Attempts t \<and> rt_Attempts t \<le> 5 + int n \<and>
       (rt_State t = ReplicationTaskPending \<longrightarrow> rt_Attempts t < 5) \<and>
       (rt_State t = ReplicationTaskRunning \<longrightarrow> 1 \<le> rt_Attempts t \<and> 0 < rt_LeaseUntil t) \<and>
       (rt_State t = ReplicationTaskDead \<longrightarrow> 5 \<le> rt_Attempts t) \<and>
       rt_State t \<noteq> ReplicationTaskFailed)"
proof -
  from manager_reachable_ok [OF assms] have wf: "wf_metadata (manager_metadata h)" and len: "length ws = n"
    and t: "queue_typed (manager_tasks h)"
    and b: "queue_bounded (\<lambda>k. int (picked k ws)) (5 + int n) (manager_tasks h)"
    by (auto simp: manager_ok_def rounds_inv_def)
  have "rt_ID t' = i \<and> task_typed t' \<and> rt_Attempts t' \<le> 5 + int n \<and>
      (rt_State t' = ReplicationTaskPending \<longrightarrow> rt_Attempts t' < 5)"
    if "gm_get (mq_tasks (manager_tasks h)) i = Some t'" for i t'
    using queue_typed_task [OF t that] b that unfolding queue_bounded_def by fastforce
  with wf t show ?thesis by (auto simp: queue_typed_def task_typed_def)
qed

text \<open>
  C8. A published version of a file is immutable, whatever the manager goes through. After any
  number of steps (requests and ticks, undisturbed or interleaved with each other and with any
  number of rounds of the worker, changes of the objects and of the clock), a file that the manager
  knew is still known, with the creation time it had; its version number has moved by at most one
  for each of these steps; and if it is the same number, after fewer than \<open>2 ^ 64\<close> steps, then size,
  checksum, chunk manifest, primary and deletion mark are the same.
\<close>

theorem manager_versions_immutable:
  assumes "(manager_step H OS ^^ n) (ws, h) (ws', h')" and "gm_get (ms_files (manager_metadata h)) k = Some f"
  shows "\<exists>f' j. gm_get (ms_files (manager_metadata h')) k = Some f' \<and> fm_CreatedAt f' = fm_CreatedAt f \<and>
    j \<le> n \<and> fm_Version f' = fm_Version f + of_nat j \<and>
    (n < 2 ^ 64 \<and> fm_Version f' = fm_Version f \<longrightarrow> published f' = published f)"
proof -
  from manager_run_file [OF assms] obtain f' j where f': "gm_get (ms_files (manager_metadata h')) k = Some f'"
      "fm_CreatedAt f' = fm_CreatedAt f" "j \<le> n" "fm_Version f' = fm_Version f + of_nat j"
    and same: "j = 0 \<longrightarrow> published f' = published f" by blast
  have "published f' = published f" if less: "n < 2 ^ 64" and eq: "fm_Version f' = fm_Version f"
  proof -
    from eq f'(4) have "(of_nat j :: uint64) = 0" by simp
    then have "2 ^ 64 dvd j" by (simp add: word_of_nat_eq_0_iff)
    with f'(3) less have "j = 0" by (auto dest: nat_dvd_not_less)
    with same show ?thesis by simp
  qed
  with f' show ?thesis by blast
qed

text \<open>A manager with one file, for the demonstrations.\<close>

definition demo_with_file :: "file_system HTTPObjectStore memory_manager" where
  "demo_with_file = demo_manager\<lparr>mh_service := (mh_service demo_manager)\<lparr>sv_coordinator :=
     (sv_coordinator (mh_service demo_manager))\<lparr>mc_metadata :=
        snd (BeginFileVersion ''k'' 3 ''c'' [] ''n1'' [''n1'', ''n2''] (NewMetadataStore 5))\<rparr>\<rparr>\<rparr>"

definition demo_heartbeat :: "string \<Rightarrow> string \<Rightarrow> api_request" where
  "demo_heartbeat nid addr = \<lparr>rq_Method = MethodPut, rq_Path = ''/internal/nodes/'' @ nid, rq_Query = '''',
     rq_Body = no_body, rq_Json = Inr (JObj [(''addr'', enc_str addr)])\<rparr>"

definition demo_request :: "http_method \<Rightarrow> string \<Rightarrow> api_request" where
  "demo_request meth key = \<lparr>rq_Method = meth, rq_Path = ''/files/'' @ key, rq_Query = '''', rq_Body = bytes_reader [1, 2, 3],
     rq_Json = Inl (ErrOther ''EOF'')\<rparr>"

abbreviation demo_serve :: "api_request \<Rightarrow> file_system HTTPObjectStore memory_manager \<Rightarrow> file_system HTTPObjectStore memory_manager" where
  "demo_serve r h \<equiv> snd (ManagerServeHTTP (\<lambda>b. ''h'') demo_temp MemoryMetadataBackend MemoryTaskQueue HttpObjects r h)"

text \<open>
  The states of the demonstration: a task is queued, and two rounds of the worker pick it before
  either of them has started it.
\<close>

abbreviation demo_fresh_manager :: "file_system HTTPObjectStore memory_manager" where
  "demo_fresh_manager \<equiv> NewManagerHTTPHandler (NewManagedFileService 5 2 demo_http) [SetNode]"

definition demo_racing_manager :: "file_system HTTPObjectStore memory_manager" where
  "demo_racing_manager = manager_with demo_fresh_manager
     ((sv_coordinator (mh_service demo_fresh_manager))\<lparr>mc_tasks := Enqueue [race_task] (NewMemoryReplicationTaskQueue 5)\<rparr>)
     (sv_objects (mh_service demo_fresh_manager))"

abbreviation demo_start_round :: "file_system HTTPObjectStore memory_manager \<Rightarrow> file_system HTTPObjectStore memory_manager" where
  "demo_start_round h \<equiv> manager_with h
     ((sv_coordinator (mh_service h))\<lparr>mc_tasks := snd (MarkRunning (rt_ID race_task) (manager_tasks h))\<rparr>) (sv_objects (mh_service h))"

lemma demo_racing_reachable:
  "\<exists>ws. manager_reachable (\<lambda>b. ''h'') HttpObjects 2 (ws, demo_start_round (demo_start_round demo_racing_manager))"
proof -
  let ?reach = "manager_reachable (\<lambda>b. ''h'') HttpObjects 2" let ?tid = "rt_ID race_task"
  let ?go = "manager_step (\<lambda>b. ''h'') HttpObjects"
  have tasks: "manager_tasks demo_racing_manager = Enqueue [race_task] (NewMemoryReplicationTaskQueue 5)"
    by (simp add: demo_racing_manager_def)
  have pend: "Pending (manager_tasks demo_racing_manager) = [race_task]"
    by (simp add: tasks NewMemoryReplicationTaskQueue_def Pending_def sortReplicationTasks_def readyToRun_def gm_vals_def race_task_def)
  have "?reach ([AtStart, AtStart], demo_fresh_manager)"
    using manager_reachable.start [of 5 _ _ 2] by (simp add: numeral_2_eq_2)
  then have "?reach ([AtStart, AtStart], demo_racing_manager)"
    unfolding demo_racing_manager_def
    by (rule manager_reachable.step, intro manager_step.task_call)
      (simp add: manager_new_sel side_call.enqueue race_crew_facts(3) del: Enqueue.simps)
  moreover have same: "manager_with h (sv_coordinator (mh_service h)) (sv_objects (mh_service h)) = h"
    for h :: "file_system HTTPObjectStore memory_manager" by simp
  have pick: "?go (ws, demo_racing_manager) (ws[i := HasPicked ?tid], demo_racing_manager)"
    if "i < length ws" "ws ! i = AtStart" for ws i
    using manager_step.round [OF that(1), of _ HttpObjects demo_racing_manager "HasPicked ?tid" "manager_worker demo_racing_manager"] that(2)
    by (simp add: PendingTasks_def pend same)
  moreover have start: "\<exists>x. ?go (ws, h) (ws[i := x], demo_start_round h)"
    if "i < length ws" "ws ! i = HasPicked ?tid" for ws i h
    using manager_step.round [OF that(1), of "\<lambda>b. ''h''" HttpObjects h] that(2)
    by (simp add: StartReplication_def case_prod_beta Let_def) blast
  ultimately have picked_both: "?reach ([HasPicked ?tid, HasPicked ?tid], demo_racing_manager)"
    using pick [of 0 "[AtStart, AtStart]"] pick [of 1 "[HasPicked ?tid, AtStart]"] by (auto intro: manager_reachable.step)
  from start [of 0 "[HasPicked ?tid, HasPicked ?tid]" demo_racing_manager] obtain x where
    one: "?go ([HasPicked ?tid, HasPicked ?tid], demo_racing_manager) ([x, HasPicked ?tid], demo_start_round demo_racing_manager)"
    by auto
  from start [of 1 "[x, HasPicked ?tid]" "demo_start_round demo_racing_manager"] obtain y where
    two: "?go ([x, HasPicked ?tid], demo_start_round demo_racing_manager) ([x, y], demo_start_round (demo_start_round demo_racing_manager))"
    by auto
  from manager_reachable.step [OF manager_reachable.step [OF picked_both one] two] show ?thesis by blast
qed

theorem manager_states_ok_witness:
  "\<exists>t. gm_get (mq_tasks (manager_tasks (demo_start_round (demo_start_round demo_racing_manager)))) (rt_ID race_task) = Some t \<and>
     rt_State t = ReplicationTaskRunning \<and> rt_Attempts t = 2 \<and> rt_Attempts t \<le> 5 + int 2 \<and> 0 < rt_LeaseUntil t"
proof -
  obtain ws where reach: "manager_reachable (\<lambda>b. ''h'') HttpObjects 2 (ws, demo_start_round (demo_start_round demo_racing_manager))"
    using demo_racing_reachable by blast
  have "gm_get (mq_tasks (manager_tasks demo_racing_manager)) (rt_ID race_task) = Some race_task"
    by (simp add: demo_racing_manager_def NewMemoryReplicationTaskQueue_def)
  then obtain t where t: "gm_get (mq_tasks (manager_tasks (demo_start_round (demo_start_round demo_racing_manager)))) (rt_ID race_task) = Some t"
      "rt_State t = ReplicationTaskRunning" "rt_Attempts t = 2"
    by (simp add: MarkRunning_def Let_def) (simp add: race_task_def)
  with manager_states_ok [OF reach] show ?thesis by blast
qed

theorem manager_versions_immutable_witness:
  "\<exists>f f' j. gm_get (ms_files (manager_metadata demo_with_file)) ''k'' = Some f \<and>
    gm_get (ms_files (manager_metadata (demo_serve (demo_request MethodDelete ''k'') (manager_clock 9 demo_with_file)))) ''k'' = Some f' \<and>
    fm_CreatedAt f' = 5 \<and> j \<le> 2 \<and> fm_Version f' = 1 + of_nat j \<and> (fm_Version f' = 1 \<longrightarrow> published f' = published f)"
proof -
  let ?h' = "demo_serve (demo_request MethodDelete ''k'') (manager_clock 9 demo_with_file)"
  let ?f = "the (gm_get (ms_files (manager_metadata demo_with_file)) ''k'')"
  have md: "manager_metadata demo_with_file = snd (BeginFileVersion ''k'' 3 ''c'' [] ''n1'' [''n1'', ''n2''] (NewMetadataStore 5))"
    by (simp add: demo_with_file_def)
  have f: "gm_get (ms_files (manager_metadata demo_with_file)) ''k'' = Some ?f" "fm_CreatedAt ?f = 5" "fm_Version ?f = 1"
    by (simp_all add: md BeginFileVersion_def NewMetadataStore_def nextVersionLocked_def Let_def)
  have "manager_step (\<lambda>b. ''h'') HttpObjects ([AtStart], demo_with_file) ([AtStart], manager_clock 9 demo_with_file)"
    by (rule manager_step.clock) simp
  moreover have "manager_step (\<lambda>b. ''h'') HttpObjects ([AtStart], manager_clock 9 demo_with_file) ([AtStart], ?h')"
    by (rule manager_step.request)
  ultimately have "(manager_step (\<lambda>b. ''h'') HttpObjects ^^ 2) ([AtStart], demo_with_file) ([AtStart], ?h')"
    by (auto simp: numeral_2_eq_2 relcompp.simps)
  from manager_versions_immutable [OF this f(1)] f show ?thesis by fastforce
qed

section \<open>The heartbeat loop\<close>

text \<open>
  \<open>storageHeartbeatLoop\<close>: a heartbeat at once, whose error is only logged, and another one at
  every tick, until the process is told to stop. What happens to the manager and the network
  between a heartbeat and the next tick is the relation \<open>wait\<close>; the loop relates the site that it
  starts with to the sites it leaves behind after each of its heartbeats.
\<close>

inductive storageHeartbeatLoop ::
  "(byte list \<Rightarrow> string) \<Rightarrow> tempEnv \<Rightarrow> 'm MetadataBackend \<Rightarrow> 'q ReplicationTaskQueue \<Rightarrow> 's ObjectStore \<Rightarrow> string \<Rightarrow> string \<Rightarrow> string
    \<Rightarrow> (('m, 'q, 's) site \<Rightarrow> ('m, 'q, 's) site \<Rightarrow> bool) \<Rightarrow> ('m, 'q, 's) site \<Rightarrow> ('m, 'q, 's) site \<Rightarrow> bool"
  for H te B Q OS manager nodeID addr wait where
  first: "sendHeartbeat H te B Q OS manager nodeID addr site = (err, site') \<Longrightarrow>
    storageHeartbeatLoop H te B Q OS manager nodeID addr wait site site'"
| ticker: "storageHeartbeatLoop H te B Q OS manager nodeID addr wait site site1 \<Longrightarrow> wait site1 site2 \<Longrightarrow>
    sendHeartbeat H te B Q OS manager nodeID addr site2 = (err, site') \<Longrightarrow>
    storageHeartbeatLoop H te B Q OS manager nodeID addr wait site site'"

text \<open>A heartbeat is at most one request at the manager.\<close>

lemma manager_Do_site:
  assumes "manager_Do H te B Q OS meth u body doc site = (res, site')"
  shows "site' = site \<or> (\<exists>r. site' = site\<lparr>si_handler := snd (ManagerServeHTTP H te B Q OS r (si_handler site))\<rparr>)"
proof (cases "parse_url u")
  case (Inr p)
  obtain origin path query where p: "p = (origin, path, query)" by (cases p) auto
  have "\<exists>r. site' = site\<lparr>si_handler := snd (ManagerServeHTTP H te B Q OS r (si_handler site))\<rparr>"
    if "origin = si_origin site" "\<forall>msg. si_fault site meth u \<noteq> Some (Unreachable msg)"
    using assms that
    by (auto simp: manager_Do_def Inr p Let_def case_prod_beta split: option.splits net_fault.splits)
  then show ?thesis using assms
    by (auto simp: manager_Do_def Inr p split: if_splits option.splits net_fault.splits)
qed (use assms in \<open>simp add: manager_Do_def\<close>)

lemma sendHeartbeat_site:
  assumes "sendHeartbeat H te B Q OS manager nodeID addr site = (err, site')"
  shows "site' = site \<or> (\<exists>r. site' = site\<lparr>si_handler := snd (ManagerServeHTTP H te B Q OS r (si_handler site))\<rparr>)"
  using assms manager_Do_site
  by (fastforce simp: sendHeartbeat_def Let_def split: sum.splits prod.splits if_splits)

text \<open>Steps during which the clock never leaves the last heartbeat of the node on record ten seconds behind.\<close>

definition paced_step ::
  "(byte list \<Rightarrow> string) \<Rightarrow> 's ObjectStore \<Rightarrow> string \<Rightarrow> worker_at list \<times> 's memory_manager \<Rightarrow> worker_at list \<times> 's memory_manager \<Rightarrow> bool" where
  "paced_step H OS nid st st' \<longleftrightarrow> manager_step H OS st st' \<and> node_in_time nid (manager_metadata (snd st'))"

text \<open>What happens between two heartbeats: such steps, beside any number of rounds in any position.\<close>

abbreviation paced_wait where
  "paced_wait H OS nid site site' \<equiv>
     \<exists>ws ws'. (paced_step H OS nid)\<^sup>*\<^sup>* (ws, si_handler site) (ws', si_handler site')"

definition manager_lists :: "string \<Rightarrow> 's memory_manager \<Rightarrow> bool" where
  "manager_lists nid h \<longleftrightarrow> wf_metadata (manager_metadata h) \<and> node_alive nid (manager_metadata h)"

lemma manager_lists_paced:
  assumes "paced_step H OS nid st st'" and "manager_lists nid (snd st)"
  shows "manager_lists nid (snd st')"
proof -
  obtain ws h ws' h' where st: "st = (ws, h)" "st' = (ws', h')" by (metis surj_pair)
  with assms have step: "manager_step H OS (ws, h) (ws', h')" and soon: "node_in_time nid (manager_metadata h')"
    and wf: "wf_metadata (manager_metadata h)" and alive: "node_alive nid (manager_metadata h)"
    by (simp_all add: paced_step_def manager_lists_def)
  from step have "node_alive nid (manager_metadata h')"
  proof (cases rule: manager_step_metadata)
    case (calls n)
    then show ?thesis using node_alive_calls alive by auto
  next
    case (clock t)
    then show ?thesis using alive soon by (simp add: node_alive_def)
  qed
  with manager_step_wf [OF step wf] show ?thesis by (simp add: manager_lists_def st)
qed

lemma manager_lists_run: "(paced_step H OS nid)\<^sup>*\<^sup>* st st' \<Longrightarrow> manager_lists nid (snd st) \<Longrightarrow> manager_lists nid (snd st')"
  by (induction rule: rtranclp_induct) (auto intro: manager_lists_paced)

lemma manager_lists_wait: "paced_wait H OS nid site site' \<Longrightarrow> manager_lists nid (si_handler site) \<Longrightarrow> manager_lists nid (si_handler site')"
  using manager_lists_run by fastforce

lemma manager_lists_request:
  "manager_lists nid h \<Longrightarrow> manager_lists nid (snd (ManagerServeHTTP H te MemoryMetadataBackend MemoryTaskQueue OS r h))"
  using request_calls [of MemoryMetadataBackend MemoryTaskQueue h H te OS r] node_alive_calls memory_calls_wf
  by (fastforce simp: manager_lists_def coord_calls_def)

lemma manager_lists_heartbeat:
  "sendHeartbeat H te MemoryMetadataBackend MemoryTaskQueue OS mgr nodeID addr site = (err, site') \<Longrightarrow>
    manager_lists nid (si_handler site) \<Longrightarrow> manager_lists nid (si_handler site')"
  using sendHeartbeat_site [of H te MemoryMetadataBackend MemoryTaskQueue OS mgr nodeID addr site err site']
    manager_lists_request by auto

lemma manager_lists_registered:
  assumes "wf_metadata (manager_metadata h)" and "manager_metadata h' = snd (UpsertNode nid addr (manager_metadata h))"
  shows "manager_lists nid h'"
proof -
  have "0 \<le> nodeTTL" by (simp add: nodeTTL_def nanosecondsPerSecond_def)
  with assms wf_UpsertNode show ?thesis
    by (auto simp: manager_lists_def node_alive_def node_in_time_def UpsertNode_def Let_def)
qed

text \<open>
  C16. A storage node that runs its heartbeat loop stays in use. Once its first heartbeat has
  reached the manager, the node is among the healthy nodes, at which files are placed and from
  which repairs copy, at every moment of the run: while other clients and nodes send any requests,
  the background loop ticks, rounds of the worker are in progress, all of them undisturbed or
  interleaved call by call, and later heartbeats arrive, fail or get lost, as long as the clock
  never runs more than ten seconds ahead of the last heartbeat that the manager has recorded.
\<close>

theorem heartbeats_keep_node:
  fixes site :: "(MetadataStore, MemoryReplicationTaskQueue, 's HTTPObjectStore) site"
  assumes "manager_reachable H HttpObjects n (ws, si_handler site)"
    and "nid \<noteq> ''''" and "CHR ''%'' \<notin> set nid" and "addr \<noteq> ''''" and "safe_str addr"
    and "manager_address mgr" and "si_origin site = TrimRightSlash mgr" and "mh_httpStore (si_handler site) = Some SetNode"
    and "si_fault site MethodPut (heartbeatURL mgr nid) = None"
    and "storageHeartbeatLoop H te MemoryMetadataBackend MemoryTaskQueue HttpObjects mgr nid addr
      (paced_wait H HttpObjects nid) site site1"
    and "paced_wait H HttpObjects nid site1 site2"
  shows "nid \<in> nm_ID ` set (HealthyNodes (site_metadata site2))"
proof -
  have wf: "wf_metadata (site_metadata site)" using manager_reachable_ok [OF assms(1)] by (simp add: manager_ok_def)
  from assms(10) wf assms(7-9) have "manager_lists nid (si_handler site1)"
  proof (induction rule: storageHeartbeatLoop.induct)
    case (first site err site')
    then show ?case using sendHeartbeat_arrives [OF assms(2-6), of site H te] manager_lists_registered [of "si_handler site" "si_handler site'" nid addr]
      by auto
  next
    case (ticker site site1 site2 err site')
    then show ?case using manager_lists_heartbeat manager_lists_wait by metis
  qed
  from manager_lists_wait [OF assms(11) this] show ?thesis
    by (simp add: manager_lists_def node_alive_listed)
qed

text \<open>The second heartbeat of the demonstration is lost, and the clock moves on to ten seconds after the first.\<close>

abbreviation demo_beat where
  "demo_beat site \<equiv> snd (sendHeartbeat (\<lambda>b. ''h'') demo_temp MemoryMetadataBackend MemoryTaskQueue HttpObjects ''http://m'' ''n3'' ''http://c'' site)"

definition demo_new_site :: "(MetadataStore, MemoryReplicationTaskQueue, file_system HTTPObjectStore) site" where
  "demo_new_site = \<lparr>si_origin = ''http://m'',
     si_handler = NewManagerHTTPHandler (NewManagedFileService 5 2 demo_http) [SetNode], si_fault = (\<lambda>_ _. None)\<rparr>"

definition demo_wait :: "instant \<Rightarrow> (MetadataStore, MemoryReplicationTaskQueue, 's HTTPObjectStore) site \<Rightarrow>
    (MetadataStore, MemoryReplicationTaskQueue, 's HTTPObjectStore) site" where
  "demo_wait t site = site\<lparr>si_handler := manager_clock t (si_handler site), si_fault := (\<lambda>_ _. Some (Unreachable ''down''))\<rparr>"

theorem heartbeats_keep_node_witness:
  "''n3'' \<in> nm_ID ` set (HealthyNodes (site_metadata
     (demo_wait 10000000005 (demo_beat (demo_wait 2000000005 (demo_beat demo_new_site))))))"
proof -
  let ?H = "\<lambda>b :: byte list. ''h''" let ?s1 = "demo_beat demo_new_site" let ?s2 = "demo_wait 2000000005 ?s1"
  have "safe_str ''http://c''" by (intro ascii_safe) simp
  have s0: "si_origin demo_new_site = TrimRightSlash ''http://m''" "mh_httpStore (si_handler demo_new_site) = Some SetNode"
    "si_fault demo_new_site = (\<lambda>_ _. None)" by (simp_all add: demo_new_site_def demo_address NewManagerHTTPHandler_def)
  have md: "site_metadata demo_new_site = NewMetadataStore 5" by (simp add: demo_new_site_def manager_new_sel)
  have reach: "manager_reachable ?H HttpObjects 0 ([], si_handler demo_new_site)"
    using manager_reachable.start [of 5 ?H HttpObjects 0] by (simp add: demo_new_site_def)
  have s1: "site_metadata ?s1 = snd (UpsertNode ''n3'' ''http://c'' (NewMetadataStore 5))"
    "si_origin ?s1 = TrimRightSlash ''http://m''"
    using sendHeartbeat_arrives [OF _ _ _ \<open>safe_str ''http://c''\<close> demo_address(1) s0(1,2), of "''n3''" ?H demo_temp] s0(1,3) md
    by simp_all
  have lost: "demo_beat ?s2 = ?s2"
    using heartbeat_request [OF demo_address(1), of "''n3''"] s1(2)
    by (simp add: sendHeartbeat_def manager_Do_def demo_wait_def Let_def)
  have soon: "node_in_time ''n3'' ((site_metadata ?s1)\<lparr>ms_now := t\<rparr>)" if "t \<le> 10000000005" for t
    using that by (simp add: s1 node_in_time_def UpsertNode_def NewMetadataStore_def Let_def nodeTTL_def nanosecondsPerSecond_def)
  have wait1: "paced_wait ?H HttpObjects ''n3'' ?s1 ?s2"
    using soon [of 2000000005] manager_step.clock [of 2000000005 ?H HttpObjects "[]" "si_handler ?s1"]
    by (intro exI [of _ "[]"] r_into_rtranclp) (simp add: demo_wait_def paced_step_def)
  have wait2: "paced_wait ?H HttpObjects ''n3'' (demo_beat ?s2) (demo_wait 10000000005 (demo_beat ?s2))"
    unfolding lost using soon [of 10000000005] manager_step.clock [of 10000000005 ?H HttpObjects "[]" "si_handler ?s2"]
    by (intro exI [of _ "[]"] r_into_rtranclp) (simp add: demo_wait_def paced_step_def)
  have "storageHeartbeatLoop ?H demo_temp MemoryMetadataBackend MemoryTaskQueue HttpObjects ''http://m'' ''n3'' ''http://c''
      (paced_wait ?H HttpObjects ''n3'') demo_new_site (demo_beat ?s2)"
    by (rule storageHeartbeatLoop.ticker [OF storageHeartbeatLoop.first], rule prod.collapse [symmetric], rule wait1,
        rule prod.collapse [symmetric])
  from heartbeats_keep_node [OF reach _ _ _ \<open>safe_str ''http://c''\<close> demo_address(1) s0(1,2) _ this wait2] s0(3)
  show ?thesis by simp
qed

end
