(* ===== verification/Command_Line.thy ===== *)
theory Command_Line
  imports Commands
begin

text \<open>
  The command line: \<open>main\<close> with its commands and flags (\<open>main.go\<close>), and what it uses of the
  packages \<open>flag\<close> and \<open>strconv\<close>.

  The parser of flags is shown to accept exactly a grammar: settings, each spelled with one or two
  dashes and with its value behind an equals sign or as the next argument, then the end of the
  flags and the remaining arguments. From this follows what \<open>main\<close> makes of a command line.
\<close>

section \<open>Numbers\<close>

text \<open>
  \<open>strconv.ParseInt (s, 0, 64)\<close>, which \<open>Int\<close> flags use: an optional sign, a prefix that tells the
  base, digits, and underscores between them.
\<close>

datatype num_error = ErrSyntax | ErrRange

definition digit_of :: "char \<Rightarrow> nat option" where
  "digit_of c =
     (if is_digit c then Some (digit_val c)
      else if CHR ''a'' \<le> ascii_lower c \<and> ascii_lower c \<le> CHR ''z'' then Some (of_char (ascii_lower c) - 97 + 10)
      else None)"

fun parse_digits :: "nat \<Rightarrow> nat \<Rightarrow> string \<Rightarrow> num_error + nat" where
  "parse_digits bs n [] = Inr n"
| "parse_digits bs n (c # s) =
     (if c = CHR ''_'' then parse_digits bs n s
      else case digit_of c of
             None \<Rightarrow> Inl ErrSyntax
           | Some d \<Rightarrow>
               if bs \<le> d then Inl ErrSyntax
               else if 2 ^ 64 \<le> bs * n + d then Inl ErrRange
               else parse_digits bs (bs * n + d) s)"

definition base_prefix :: "string \<Rightarrow> nat \<times> string" where
  "base_prefix s =
     (case s of
        z # b # rest \<Rightarrow>
          if z \<noteq> CHR ''0'' then (10, s)
          else if rest \<noteq> [] \<and> ascii_lower b = CHR ''b'' then (2, rest)
          else if rest \<noteq> [] \<and> ascii_lower b = CHR ''o'' then (8, rest)
          else if rest \<noteq> [] \<and> ascii_lower b = CHR ''x'' then (16, rest)
          else (8, b # rest)
      | [z] \<Rightarrow> if z \<noteq> CHR ''0'' then (10, s) else (8, [])
      | [] \<Rightarrow> (10, []))"

text \<open>
  \<open>underscoreOK\<close>: an underscore stands between digits or behind the prefix. The state of its loop
  is the kind of the last character: a digit, an underscore, or another one (or none).
\<close>

datatype seen = SawDigit | SawUnderscore | SawOther

fun underscore_loop :: "bool \<Rightarrow> seen \<Rightarrow> string \<Rightarrow> bool" where
  "underscore_loop hex saw [] = (saw \<noteq> SawUnderscore)"
| "underscore_loop hex saw (c # s) =
     (if is_digit c \<or> hex \<and> CHR ''a'' \<le> ascii_lower c \<and> ascii_lower c \<le> CHR ''f'' then underscore_loop hex SawDigit s
      else if c = CHR ''_'' then saw = SawDigit \<and> underscore_loop hex SawUnderscore s
      else saw \<noteq> SawUnderscore \<and> underscore_loop hex SawOther s)"

definition underscoreOK :: "string \<Rightarrow> bool" where
  "underscoreOK s =
     (case s of
        z # b # rest \<Rightarrow>
          if z = CHR ''0'' \<and> ascii_lower b \<in> set ''box'' then underscore_loop (ascii_lower b = CHR ''x'') SawDigit rest
          else underscore_loop False SawOther s
      | _ \<Rightarrow> underscore_loop False SawOther s)"

definition ParseUint_base0 :: "string \<Rightarrow> num_error + nat" where
  "ParseUint_base0 s =
     (if s = [] then Inl ErrSyntax
      else let (bs, digits) = base_prefix s
           in case parse_digits bs 0 digits of
                Inl e \<Rightarrow> Inl e
              | Inr n \<Rightarrow> if CHR ''_'' \<in> set digits \<and> \<not> underscoreOK s then Inl ErrSyntax else Inr n)"

definition ParseInt :: "string \<Rightarrow> num_error + int" where
  "ParseInt s =
     (if s = [] then Inl ErrSyntax
      else let neg = (hd s = CHR ''-'');
               digits = (if hd s = CHR ''+'' \<or> neg then tl s else s)
           in case ParseUint_base0 digits of
                Inl e \<Rightarrow> Inl e
              | Inr un \<Rightarrow>
                  if \<not> neg \<and> 2 ^ 63 \<le> un then Inl ErrRange
                  else if neg \<and> 2 ^ 63 < un then Inl ErrRange
                  else Inr (if neg then - int un else int un))"

section \<open>Flags\<close>

text \<open>
  The values of the flags that the program declares (\<open>String\<close>, \<open>Int\<close> and \<open>Var\<close> of \<open>nodeFlags\<close>)
  and a set of flags with their current values, \<open>formal\<close>.
\<close>

datatype flag_value = StringValue string | IntValue int | NodesValue "string gomap"

type_synonym FlagSet = "flag_value gomap"

datatype flag_error =
    HelpRequested
  | BadFlagSyntax string
  | NotDefined string
  | NeedsArgument string
  | InvalidValue string string error

fun flag_Set :: "flag_value \<Rightarrow> string \<Rightarrow> flag_value result" where
  "flag_Set (StringValue _) v = Inr (StringValue v)"
| "flag_Set (IntValue _) v =
     (case ParseInt v of
        Inl ErrSyntax \<Rightarrow> Inl (ErrOther ''parse error'')
      | Inl ErrRange \<Rightarrow> Inl (ErrOther ''value out of range'')
      | Inr i \<Rightarrow> Inr (IntValue i))"
| "flag_Set (NodesValue nodes) v =
     (case nodeFlags_Set v nodes of
        (Inl err, _) \<Rightarrow> Inl err
      | (Inr _, nodes') \<Rightarrow> Inr (NodesValue nodes'))"

text \<open>
  \<open>parseOne\<close>: whether a flag was seen, the flags and the arguments that are left. None of the
  program's flags is boolean, so each of them takes a value.
\<close>

definition set_flag :: "FlagSet \<Rightarrow> string \<Rightarrow> flag_value \<Rightarrow> string \<Rightarrow> string list \<Rightarrow> flag_error + bool \<times> FlagSet \<times> string list" where
  "set_flag F name fl value rest =
     (case flag_Set fl value of
        Inl err \<Rightarrow> Inl (InvalidValue value name err)
      | Inr fl' \<Rightarrow> Inr (True, gm_put name fl' F, rest))"

definition parseOne :: "FlagSet \<Rightarrow> string list \<Rightarrow> flag_error + bool \<times> FlagSet \<times> string list" where
  "parseOne F args =
     (case args of
        [] \<Rightarrow> Inr (False, F, [])
      | s # rest \<Rightarrow>
          if length s < 2 \<or> hd s \<noteq> CHR ''-'' then Inr (False, F, args)
          else if s ! 1 = CHR ''-'' \<and> length s = 2 then Inr (False, F, rest)
          else
            let name = drop (if s ! 1 = CHR ''-'' then 2 else 1) s
            in if name = [] \<or> hd name = CHR ''-'' \<or> hd name = CHR ''='' then Inl (BadFlagSyntax s)
               else
                 let (name', value) = Cut (CHR ''='') name
                 in case gm_get F name' of
                      None \<Rightarrow> Inl (if name' = ''help'' \<or> name' = ''h'' then HelpRequested else NotDefined name')
                    | Some fl \<Rightarrow>
                        (case value of
                           Some v \<Rightarrow> set_flag F name' fl v rest
                         | None \<Rightarrow>
                             (case rest of
                                [] \<Rightarrow> Inl (NeedsArgument name')
                              | v # rest' \<Rightarrow> set_flag F name' fl v rest')))"

lemma parseOne_shorter: "parseOne F args = Inr (True, F', args') \<Longrightarrow> length args' < length args"
  by (cases args) (auto simp: parseOne_def set_flag_def Let_def split: if_splits option.splits list.splits sum.splits prod.splits)

function Parse :: "FlagSet \<Rightarrow> string list \<Rightarrow> flag_error + FlagSet \<times> string list" where
  "Parse F args =
     (case parseOne F args of
        Inl err \<Rightarrow> Inl err
      | Inr (seen, F', args') \<Rightarrow> if seen then Parse F' args' else Inr (F', args'))"
  by pat_completeness auto
termination
  by (relation "measure (\<lambda>(F, args). length args)") (auto dest: parseOne_shorter)

declare Parse.simps [simp del]

section \<open>The grammar\<close>

text \<open>A setting: with two dashes or one, with an equals sign or the value as the next argument.\<close>

record setting =
  se_dashes :: bool
  se_equals :: bool
  se_name :: string
  se_value :: string

definition spell :: "setting \<Rightarrow> string list" where
  "spell x =
     (let name = (if se_dashes x then ''--'' else ''-'') @ se_name x
      in if se_equals x then [name @ ''='' @ se_value x] else [name, se_value x])"

definition flag_name :: "string \<Rightarrow> bool" where
  "flag_name s \<longleftrightarrow> s \<noteq> '''' \<and> hd s \<noteq> CHR ''-'' \<and> CHR ''='' \<notin> set s"

text \<open>The effect of a setting on the flags, if it has one.\<close>

definition apply_setting :: "setting \<Rightarrow> FlagSet \<Rightarrow> FlagSet option" where
  "apply_setting x F =
     (if \<not> flag_name (se_name x) then None
      else case gm_get F (se_name x) of
             None \<Rightarrow> None
           | Some fl \<Rightarrow> (case flag_Set fl (se_value x) of Inl _ \<Rightarrow> None | Inr fl' \<Rightarrow> Some (gm_put (se_name x) fl' F)))"

fun apply_settings :: "setting list \<Rightarrow> FlagSet \<Rightarrow> FlagSet option" where
  "apply_settings [] F = Some F"
| "apply_settings (x # xs) F = (case apply_setting x F of None \<Rightarrow> None | Some F' \<Rightarrow> apply_settings xs F')"

text \<open>Arguments that end the flags: two dashes, or something that does not look like a flag.\<close>

definition ends_flags :: "string list \<Rightarrow> string list \<Rightarrow> bool" where
  "ends_flags args rest \<longleftrightarrow>
     args = ''--'' # rest \<or> args = rest \<and> (case args of [] \<Rightarrow> True | s # _ \<Rightarrow> length s < 2 \<or> hd s \<noteq> CHR ''-'')"

lemma parseOne_spell:
  assumes "apply_setting x F = Some F'"
  shows "parseOne F (spell x @ rest) = Inr (True, F', rest)"
proof -
  from assms obtain fl fl' where name: "flag_name (se_name x)" and get: "gm_get F (se_name x) = Some fl"
    and set: "flag_Set fl (se_value x) = Inr fl'" and F': "F' = gm_put (se_name x) fl' F"
    by (auto simp: apply_setting_def split: if_splits option.splits sum.splits)
  from name obtain c s where cs: "se_name x = c # s" "c \<noteq> CHR ''-''" "CHR ''='' \<notin> set (c # s)"
    by (cases "se_name x") (auto simp: flag_name_def)
  have "Cut (CHR ''='') (c # s @ CHR ''='' # se_value x) = (c # s, Some (se_value x))"
    using Cut_append [OF cs(3), of "se_value x"] by simp
  with cs get set F' Cut_none [OF cs(3)] show ?thesis
    by (auto simp: parseOne_def spell_def set_flag_def Let_def)
qed

lemma parseOne_end: "ends_flags args rest \<Longrightarrow> parseOne F args = Inr (False, F, rest)"
  by (auto simp: ends_flags_def parseOne_def split: list.splits)

lemma Cut_parts:
  assumes "Cut c s = (a, v)"
  shows "c \<notin> set a" and "s = a @ (case v of None \<Rightarrow> [] | Some w \<Rightarrow> c # w)"
proof -
  from assms show "c \<notin> set a" by (auto simp: Cut_def dest: set_takeWhileD)
  from assms show "s = a @ (case v of None \<Rightarrow> [] | Some w \<Rightarrow> c # w)"
    by (induction s arbitrary: a) (auto simp: Cut_def split: if_splits)
qed

lemma parseOne_cases:
  assumes "parseOne F args = Inr (b, F', rest)"
  shows "if b then \<exists>x. args = spell x @ rest \<and> apply_setting x F = Some F' else F' = F \<and> ends_flags args rest"
proof (cases args)
  case Nil
  with assms show ?thesis by (auto simp: parseOne_def ends_flags_def)
next
  case (Cons s args')
  show ?thesis
  proof (cases "length s < 2 \<or> hd s \<noteq> CHR ''-'' \<or> s = ''--''")
    case True
    with assms Cons show ?thesis
      by (cases s rule: list.exhaust) (auto simp: parseOne_def ends_flags_def split: if_splits)
  next
    case False
    then obtain c t where s: "s = CHR ''-'' # c # t" "c # t \<noteq> ''-''"
      by (cases s; cases "tl s") auto
    let ?two = "c = CHR ''-''" let ?name = "if ?two then t else c # t"
    have drop: "drop (if s ! 1 = CHR ''-'' then 2 else 1) s = ?name" and s': "s = (if ?two then ''--'' else ''-'') @ ?name"
      by (simp_all add: s)
    obtain name val where cut: "Cut (CHR ''='') ?name = (name, val)" by fastforce
    note parts = Cut_parts [OF cut]
    from assms Cons False s drop have ok: "?name \<noteq> []" "hd ?name \<noteq> CHR ''-''" "hd ?name \<noteq> CHR ''=''"
      by (auto simp: parseOne_def Let_def split: if_splits)
    have name: "flag_name name" using ok parts by (cases name) (auto simp: flag_name_def split: option.splits)
    have one: "parseOne F args = (case gm_get F name of
          None \<Rightarrow> Inl (if name = ''help'' \<or> name = ''h'' then HelpRequested else NotDefined name)
        | Some fl \<Rightarrow> (case val of
              Some v \<Rightarrow> set_flag F name fl v args'
            | None \<Rightarrow> (case args' of [] \<Rightarrow> Inl (NeedsArgument name) | v # rest' \<Rightarrow> set_flag F name fl v rest')))"
      using ok drop cut s by (cases ?two) (simp_all add: parseOne_def Cons Let_def)
    from one assms obtain v where v: "b" "(case val of Some u \<Rightarrow> v = u \<and> rest = args' | None \<Rightarrow> args' = v # rest)"
        "apply_setting \<lparr>se_dashes = ?two, se_equals = (val \<noteq> None), se_name = name, se_value = v\<rparr> F = Some F'"
      by (auto simp: apply_setting_def set_flag_def name split: option.splits list.splits sum.splits)
    moreover from v(2) have "args = spell \<lparr>se_dashes = ?two, se_equals = (val \<noteq> None), se_name = name, se_value = v\<rparr> @ rest"
      using s' parts(2) by (auto simp: Cons spell_def Let_def split: option.splits)
    ultimately show ?thesis by auto
  qed
qed

lemma Parse_accepts:
  "Parse F args = Inr (F', rest) \<Longrightarrow>
    \<exists>xs stop. args = concat (map spell xs) @ stop \<and> ends_flags stop rest \<and> apply_settings xs F = Some F'"
proof (induction F args rule: Parse.induct)
  case (1 F args)
  then obtain b F1 args1 where one: "parseOne F args = Inr (b, F1, args1)"
    by (subst (asm) (2) Parse.simps) (auto split: sum.splits)
  show ?case
  proof (cases b)
    case True
    with 1(2) one have "Parse F1 args1 = Inr (F', rest)" by (subst (asm) Parse.simps) simp
    from 1(1) [OF one refl refl True this] obtain xs stop where xs: "args1 = concat (map spell xs) @ stop"
        "ends_flags stop rest" "apply_settings xs F1 = Some F'" by blast
    from parseOne_cases [OF one] True obtain x where "args = spell x @ args1" "apply_setting x F = Some F1" by auto
    with xs show ?thesis by (intro exI [of _ "x # xs"] exI [of _ stop]) simp
  next
    case False
    with 1(2) one parseOne_cases [OF one] show ?thesis
      by (subst (asm) Parse.simps) (auto intro!: exI [of _ "[]"] exI [of _ args])
  qed
qed

lemma Parse_spelled:
  assumes "ends_flags stop rest"
  shows "apply_settings xs F = Some F' \<Longrightarrow> Parse F (concat (map spell xs) @ stop) = Inr (F', rest)"
proof (induction xs arbitrary: F)
  case Nil
  then show ?case using parseOne_end [OF assms] by (simp add: Parse.simps)
next
  case (Cons x xs)
  then obtain F1 where F1: "apply_setting x F = Some F1" "apply_settings xs F1 = Some F'" by (auto split: option.splits)
  from Cons.IH [OF F1(2)] parseOne_spell [OF F1(1)] show ?case by (subst Parse.simps) simp
qed

text \<open>
  The parser of flags accepts exactly its grammar: settings of declared flags with values that the
  flags accept, and the end of the flags. The settings are applied in their order, so that the
  last one counts, and the remaining arguments stay as they are.
\<close>

lemma Parse_exact:
  "Parse F args = Inr (F', rest) \<longleftrightarrow>
    (\<exists>xs stop. args = concat (map spell xs) @ stop \<and> ends_flags stop rest \<and> apply_settings xs F = Some F')"
  using Parse_accepts Parse_spelled by blast

section \<open>The commands\<close>

text \<open>
  A process ends with an exit code or goes on. Flag sets are made with \<open>ExitOnError\<close>: a request for
  help ends the process with code 0, any other error of the parser with code 2.
\<close>

datatype 'a process = Exit nat | Run 'a

definition parse_or_exit :: "FlagSet \<Rightarrow> string list \<Rightarrow> (FlagSet \<times> string list \<Rightarrow> 'a process) \<Rightarrow> 'a process" where
  "parse_or_exit F args k =
     (case Parse F args of
        Inl HelpRequested \<Rightarrow> Exit 0
      | Inl _ \<Rightarrow> Exit 2
      | Inr r \<Rightarrow> k r)"

definition string_flag :: "FlagSet \<Rightarrow> string \<Rightarrow> string" where
  "string_flag F name = (case gm_get F name of Some (StringValue v) \<Rightarrow> v | _ \<Rightarrow> '''')"

definition int_flag :: "FlagSet \<Rightarrow> string \<Rightarrow> int" where
  "int_flag F name = (case gm_get F name of Some (IntValue i) \<Rightarrow> i | _ \<Rightarrow> 0)"

definition nodes_flag :: "FlagSet \<Rightarrow> string \<Rightarrow> string gomap" where
  "nodes_flag F name = (case gm_get F name of Some (NodesValue n) \<Rightarrow> n | _ \<Rightarrow> [])"

definition managerFlags :: FlagSet where
  "managerFlags =
     [(''addr'', StringValue '':9000''), (''metadata-db'', StringValue ''data/manager/metadata.db''),
      (''replicas'', IntValue defaultReplicaCount), (''node'', NodesValue [])]"

definition storageFlags :: FlagSet where
  "storageFlags =
     [(''id'', StringValue ''''), (''addr'', StringValue '':9101''), (''advertise'', StringValue ''''),
      (''manager'', StringValue ''''), (''root'', StringValue ''data/storage'')]"

definition clientFlags :: FlagSet where
  "clientFlags = [(''manager'', StringValue ''http://127.0.0.1:9000'')]"

text \<open>What \<open>main\<close> runs: the function of a command with the values of its flags and its arguments.\<close>

datatype command =
    ManagerCommand string string int "string gomap"
  | StorageCommand string string string string string
  | PutCommand string "string list"
  | GetCommand string "string list"
  | DeleteCommand string "string list"
  | StatCommand string "string list"
  | NodesCommand string "string list"
  | P2PDemoCommand

definition clientCommand :: "(string \<Rightarrow> string list \<Rightarrow> command) \<Rightarrow> string list \<Rightarrow> command process" where
  "clientCommand c args = parse_or_exit clientFlags args (\<lambda>(F, rest). Run (c (string_flag F ''manager'') rest))"

definition main :: "string list \<Rightarrow> command process" where
  "main osArgs =
     (if length osArgs < 2 then Exit 2
      else
        let name = osArgs ! 1; args = drop 2 osArgs
        in if name = ''manager'' then
             parse_or_exit managerFlags args (\<lambda>(F, _).
               Run (ManagerCommand (string_flag F ''addr'') (string_flag F ''metadata-db'') (int_flag F ''replicas'')
                      (nodes_flag F ''node'')))
           else if name = ''storage'' then
             parse_or_exit storageFlags args (\<lambda>(F, _).
               Run (StorageCommand (string_flag F ''id'') (string_flag F ''addr'') (string_flag F ''advertise'')
                      (string_flag F ''manager'') (string_flag F ''root'')))
           else if name = ''put'' then clientCommand PutCommand args
           else if name = ''get'' then clientCommand GetCommand args
           else if name = ''delete'' then clientCommand DeleteCommand args
           else if name = ''stat'' then clientCommand StatCommand args
           else if name = ''nodes'' then clientCommand NodesCommand args
           else if name = ''p2p-demo'' then Run P2PDemoCommand
           else Exit 2)"

text \<open>
  A client process to its end: the exit code, what it has printed, its files and the site. An error
  goes to \<open>log.Fatal\<close>, which exits with code 1; a panic ends the process with code 2. Servers are
  not clients: \<open>runManager\<close>, \<open>runStorage\<close> and \<open>runP2PDemo\<close> say what becomes of them.
\<close>

datatype printed = Nothing | Line string | Document json

definition finish :: "('a \<Rightarrow> printed) \<Rightarrow> 'a result \<Rightarrow> nat \<times> printed" where
  "finish out r = (case r of Inl (Panic _) \<Rightarrow> (2, Nothing) | Inl _ \<Rightarrow> (1, Nothing) | Inr x \<Rightarrow> (0, out x))"

fun run_client ::
  "(byte list \<Rightarrow> string) \<Rightarrow> tempEnv \<Rightarrow> 'm MetadataBackend \<Rightarrow> 'q ReplicationTaskQueue \<Rightarrow> 's ObjectStore
    \<Rightarrow> command process \<Rightarrow> file_system \<Rightarrow> ('m, 'q, 's) site \<Rightarrow> ((nat \<times> printed) \<times> file_system \<times> ('m, 'q, 's) site) option" where
  "run_client H te B Q OS (Exit n) fs site = Some ((n, Nothing), fs, site)"
| "run_client H te B Q OS (Run (PutCommand mgr args)) fs site =
     (let (r, site') = runPut H te B Q OS mgr args fs site in Some (finish Line r, fs, site'))"
| "run_client H te B Q OS (Run (GetCommand mgr args)) fs site =
     (let (r, fs', site') = runGet H te B Q OS mgr args fs site in Some (finish Line r, fs', site'))"
| "run_client H te B Q OS (Run (DeleteCommand mgr args)) fs site =
     (let (r, site') = runDelete H te B Q OS mgr args site in Some (finish Line r, fs, site'))"
| "run_client H te B Q OS (Run (StatCommand mgr args)) fs site =
     (let (r, site') = runStat H te B Q OS mgr args site in Some (finish Document r, fs, site'))"
| "run_client H te B Q OS (Run (NodesCommand mgr args)) fs site =
     (let (r, site') = runNodes H te B Q OS mgr args site in Some (finish Document r, fs, site'))"
| "run_client H te B Q OS (Run _) fs site = None"

section \<open>Command lines that are understood\<close>

text \<open>Numbers that \<open>fmt_d\<close> writes are read back.\<close>

lemma fold_digits_mono: "n \<le> fold (\<lambda>c n. 10 * n + digit_val c) s n"
proof (induction s arbitrary: n)
  case (Cons c s)
  have "n \<le> 10 * n + digit_val c" by simp
  also have "\<dots> \<le> fold (\<lambda>c n. 10 * n + digit_val c) s (10 * n + digit_val c)" by (rule Cons.IH)
  finally show ?case by simp
qed simp

lemma parse_digits_decimal:
  "list_all is_digit s \<Longrightarrow> fold (\<lambda>c n. 10 * n + digit_val c) s n < 2 ^ 64 \<Longrightarrow>
    parse_digits 10 n s = Inr (fold (\<lambda>c n. 10 * n + digit_val c) s n)"
proof (induction s arbitrary: n)
  case (Cons c s)
  have "10 * n + digit_val c < 2 ^ 64"
    using fold_digits_mono [of "10 * n + digit_val c" s] Cons.prems(2) by simp
  moreover have "c \<noteq> CHR ''_''" "digit_of c = Some (digit_val c)" "digit_val c < 10"
    using Cons.prems(1) by (auto simp: is_digit_def digit_of_def digit_val_def)
  ultimately show ?case using Cons by simp
qed simp

lemma dec_hd: "n \<noteq> 0 \<Longrightarrow> hd (dec n) \<noteq> CHR ''0''"
proof (induction n rule: dec.induct)
  case (1 n)
  show ?case
  proof (cases "n < 10")
    case True
    have "(of_char (digit_char n) :: nat) \<noteq> of_char (CHR ''0'')" using True 1(2) by simp
    then have "digit_char n \<noteq> CHR ''0''" by metis
    with True show ?thesis by (subst dec.simps) simp
  next
    case False
    with 1(1) have "hd (dec (n div 10)) \<noteq> CHR ''0''" by simp
    with False show ?thesis by (subst dec.simps) (simp add: hd_append)
  qed
qed

lemma ParseUint_base0_dec: "n < 2 ^ 64 \<Longrightarrow> ParseUint_base0 (dec n) = Inr n"
proof (cases "n = 0")
  case True
  have "dec 0 = ''0''" by code_simp
  with True show ?thesis by (simp add: ParseUint_base0_def base_prefix_def)
next
  case False
  assume n: "n < 2 ^ 64"
  obtain c s where cs: "dec n = c # s" by (cases "dec n") auto
  with dec_hd [OF False] have "base_prefix (dec n) = (10, dec n)" by (simp add: base_prefix_def split: list.split)
  moreover have "parse_digits 10 0 (dec n) = Inr n"
    using parse_digits_decimal [of "dec n" 0] n undec_dec [of n] by (simp add: undec_def list_all_iff dec_digits)
  moreover have "CHR ''_'' \<notin> set (dec n)" using not_digit_in_dec by (simp add: is_digit_def)
  ultimately show ?thesis by (simp add: ParseUint_base0_def)
qed

lemma ParseInt_fmt_d:
  assumes "- (2 ^ 63) \<le> i" and "i < 2 ^ 63"
  shows "ParseInt (fmt_d i) = Inr i"
proof -
  have "hd (dec n) \<noteq> CHR ''+'' \<and> hd (dec n) \<noteq> CHR ''-''" for n
    using dec_digits [of "hd (dec n)" n] by (auto simp: is_digit_def)
  then show ?thesis using assms ParseUint_base0_dec [of "nat i"] ParseUint_base0_dec [of "nat (- i)"]
    by (auto simp: ParseInt_def fmt_d_def Let_def nat_le_iff nat_less_iff le_nat_iff zless_nat_eq_int_zless)
qed

text \<open>The settings of a manager, of which nodes add up and of the others the last one counts.\<close>

datatype manager_option = AddrOption string | DatabaseOption string | ReplicasOption int | NodeOption string string

fun option_setting :: "bool \<times> bool \<times> manager_option \<Rightarrow> setting" where
  "option_setting (two, eq, AddrOption a) = \<lparr>se_dashes = two, se_equals = eq, se_name = ''addr'', se_value = a\<rparr>"
| "option_setting (two, eq, DatabaseOption d) = \<lparr>se_dashes = two, se_equals = eq, se_name = ''metadata-db'', se_value = d\<rparr>"
| "option_setting (two, eq, ReplicasOption i) = \<lparr>se_dashes = two, se_equals = eq, se_name = ''replicas'', se_value = fmt_d i\<rparr>"
| "option_setting (two, eq, NodeOption n u) = \<lparr>se_dashes = two, se_equals = eq, se_name = ''node'', se_value = n @ ''='' @ u\<rparr>"

fun option_ok :: "manager_option \<Rightarrow> bool" where
  "option_ok (ReplicasOption i) = (- (2 ^ 63) \<le> i \<and> i < 2 ^ 63)"
| "option_ok (NodeOption n u) = (n \<noteq> '''' \<and> CHR ''='' \<notin> set n \<and> u \<noteq> '''')"
| "option_ok _ = True"

definition last_or :: "'a \<Rightarrow> 'a list \<Rightarrow> 'a" where
  "last_or d xs = last (d # xs)"

definition managerFlags_with :: "string \<Rightarrow> string \<Rightarrow> int \<Rightarrow> string gomap \<Rightarrow> FlagSet" where
  "managerFlags_with a d r ns =
     [(''addr'', StringValue a), (''metadata-db'', StringValue d), (''replicas'', IntValue r), (''node'', NodesValue ns)]"

lemma last_or_simps [simp]: "last_or d [] = d" "last_or d (x # xs) = last_or x xs"
  by (simp_all add: last_or_def)

lemma nodeFlags_Set_node: "option_ok (NodeOption n u) \<Longrightarrow> nodeFlags_Set (n @ CHR ''='' # u) ns = (Inr (), gm_put n u ns)"
  by (simp add: nodeFlags_Set_def)

lemma apply_manager_settings:
  assumes "list_all (\<lambda>(_, _, x). option_ok x) xs"
  shows "apply_settings (map option_setting xs) (managerFlags_with a d r ns) = Some (managerFlags_with
    (last_or a [v. (_, _, AddrOption v) \<leftarrow> xs]) (last_or d [v. (_, _, DatabaseOption v) \<leftarrow> xs])
    (last_or r [i. (_, _, ReplicasOption i) \<leftarrow> xs]) (fold (\<lambda>(n, u). gm_put n u) [(n, u). (_, _, NodeOption n u) \<leftarrow> xs] ns))"
  using assms
proof (induction xs arbitrary: a d r ns)
  case Nil
  then show ?case by simp
next
  case (Cons x xs)
  obtain two eq opt where x: "x = (two, eq, opt)" by (cases x)
  show ?case
  proof (cases opt)
    case (NodeOption n u)
    with Cons.prems x have "nodeFlags_Set (n @ CHR ''='' # u) ns = (Inr (), gm_put n u ns)"
      by (intro nodeFlags_Set_node) simp
    with Cons x NodeOption show ?thesis
      by (simp add: apply_setting_def managerFlags_with_def flag_name_def)
  qed (use Cons x in \<open>simp_all add: apply_setting_def managerFlags_with_def flag_name_def ParseInt_fmt_d\<close>)
qed

lemma apply_client_settings:
  "apply_settings xs [(''manager'', StringValue m)] = Some F \<longleftrightarrow>
    list_all (\<lambda>x. se_name x = ''manager'') xs \<and> F = [(''manager'', StringValue (last_or m (map se_value xs)))]"
  by (induction xs arbitrary: m) (auto simp: apply_setting_def flag_name_def split: if_splits)

lemma manager_parsed:
  assumes "list_all (\<lambda>(_, _, x). option_ok x) xs" and "ends_flags stop rest"
  shows "main (prog # ''manager'' # concat (map (\<lambda>x. spell (option_setting x)) xs) @ stop) = Run (ManagerCommand
      (last_or '':9000'' [v. (_, _, AddrOption v) \<leftarrow> xs])
      (last_or ''data/manager/metadata.db'' [v. (_, _, DatabaseOption v) \<leftarrow> xs])
      (last_or 3 [i. (_, _, ReplicasOption i) \<leftarrow> xs])
      (fold (\<lambda>(n, u). gm_put n u) [(n, u). (_, _, NodeOption n u) \<leftarrow> xs] []))"
proof -
  have defaults: "managerFlags = managerFlags_with '':9000'' ''data/manager/metadata.db'' 3 []"
    by (simp add: managerFlags_def managerFlags_with_def defaultReplicaCount_def)
  have "Parse managerFlags (concat (map (\<lambda>x. spell (option_setting x)) xs) @ stop) = Inr (managerFlags_with
      (last_or '':9000'' [v. (_, _, AddrOption v) \<leftarrow> xs])
      (last_or ''data/manager/metadata.db'' [v. (_, _, DatabaseOption v) \<leftarrow> xs])
      (last_or 3 [i. (_, _, ReplicasOption i) \<leftarrow> xs])
      (fold (\<lambda>(n, u). gm_put n u) [(n, u). (_, _, NodeOption n u) \<leftarrow> xs] []), rest)"
    unfolding defaults
    using Parse_spelled [OF assms(2) apply_manager_settings [OF assms(1), of "'':9000''" "''data/manager/metadata.db''" 3 "[]"]]
    by (simp add: comp_def)
  then show ?thesis
    by (simp add: main_def parse_or_exit_def) (simp add: managerFlags_with_def string_flag_def int_flag_def nodes_flag_def)
qed

lemma client_parsed_iff:
  "clientCommand c args = Run cmd \<longleftrightarrow>
    (\<exists>ms stop rest. args = concat (map spell ms) @ stop \<and> list_all (\<lambda>x. se_name x = ''manager'') ms \<and> ends_flags stop rest \<and>
      cmd = c (last_or ''http://127.0.0.1:9000'' (map se_value ms)) rest)"
proof -
  have "clientCommand c args = Run cmd \<longleftrightarrow>
      (\<exists>F rest. Parse clientFlags args = Inr (F, rest) \<and> cmd = c (string_flag F ''manager'') rest)"
    by (auto simp: clientCommand_def parse_or_exit_def split: sum.splits flag_error.splits)
  then show ?thesis
    unfolding Parse_exact clientFlags_def apply_client_settings by (fastforce simp: string_flag_def)
qed

lemma client_parsed:
  assumes "list_all (\<lambda>x. se_name x = ''manager'') ms" and "ends_flags stop rest"
  shows "clientCommand c (concat (map spell ms) @ stop) = Run (c (last_or ''http://127.0.0.1:9000'' (map se_value ms)) rest)"
  unfolding client_parsed_iff using assms by blast

text \<open>
  C34. The command line says what it seems to say. The settings of a manager, in any order and
  spelling, reach \<open>runManager\<close> as they were written: of address, database and number of replicas
  the last one, or the default if there is none, and of the nodes all, with the last address of
  each; a number is read back from its decimal notation. A command of the client gets the address
  that was set last, or the default, and exactly the arguments behind the flags. Without a command,
  or with an unknown one, the process exits with code 2.
\<close>

theorem command_lines_understood:
  assumes "list_all (\<lambda>(_, _, x). option_ok x) xs" and "list_all (\<lambda>x. se_name x = ''manager'') ms"
    and "ends_flags stop rest"
  shows "main (prog # ''manager'' # concat (map (\<lambda>x. spell (option_setting x)) xs) @ stop) = Run (ManagerCommand
      (last_or '':9000'' [v. (_, _, AddrOption v) \<leftarrow> xs])
      (last_or ''data/manager/metadata.db'' [v. (_, _, DatabaseOption v) \<leftarrow> xs])
      (last_or 3 [i. (_, _, ReplicasOption i) \<leftarrow> xs])
      (fold (\<lambda>(n, u). gm_put n u) [(n, u). (_, _, NodeOption n u) \<leftarrow> xs] [])) \<and>
    (\<forall>(name, c) \<in> set [(''put'', PutCommand), (''get'', GetCommand), (''delete'', DeleteCommand), (''stat'', StatCommand),
        (''nodes'', NodesCommand)].
      main (prog # name # concat (map spell ms) @ stop) = Run (c (last_or ''http://127.0.0.1:9000'' (map se_value ms)) rest)) \<and>
    main [] = Exit 2 \<and> main [prog] = Exit 2 \<and>
    (\<forall>name. name \<notin> set [''manager'', ''storage'', ''put'', ''get'', ''delete'', ''stat'', ''nodes'', ''p2p-demo''] \<longrightarrow>
      main (prog # name # args) = Exit 2)"
  using manager_parsed [OF assms(1,3)] client_parsed [OF assms(2,3)] by (simp add: main_def)

text \<open>\<open>fs manager -node a=http://x --replicas=2 -node a=http://y\<close> and \<open>fs put -manager http://m -- -k f\<close>.\<close>

theorem command_lines_understood_witness:
  "main [''fs'', ''manager'', ''-node'', ''a=http://x'', ''--replicas=2'', ''-node'', ''a=http://y'', ''--'', ''-k'', ''f''] =
     Run (ManagerCommand '':9000'' ''data/manager/metadata.db'' 2 [(''a'', ''http://y'')]) \<and>
   main [''fs'', ''put'', ''-manager'', ''http://m'', ''--'', ''-k'', ''f''] = Run (PutCommand ''http://m'' [''-k'', ''f'']) \<and>
   main [''fs'', ''list''] = Exit 2"
proof -
  let ?xs = "[(False, False, NodeOption ''a'' ''http://x''), (True, True, ReplicasOption 2), (False, False, NodeOption ''a'' ''http://y'')]"
  let ?ms = "[\<lparr>se_dashes = False, se_equals = False, se_name = ''manager'', se_value = ''http://m''\<rparr>]"
  have two: "fmt_d 2 = ''2''" by code_simp
  have "list_all (\<lambda>(_, _, x). option_ok x) ?xs" "list_all (\<lambda>x. se_name x = ''manager'') ?ms" by simp_all
  moreover have "ends_flags [''--'', ''-k'', ''f''] [''-k'', ''f'']" by (simp add: ends_flags_def)
  ultimately show ?thesis
    using command_lines_understood [of ?xs ?ms "[''--'', ''-k'', ''f'']" "[''-k'', ''f'']" "''fs''" "[]"] two
    by (simp add: spell_def)
qed

text \<open>
  C35. Which command lines a client accepts. A command of the client runs if and only if its
  arguments are settings of the flag \<open>manager\<close>, the only one it has, in one of the four spellings,
  followed by two dashes and any arguments, or by arguments the first of which does not look like a
  flag; the command gets the last address, or the default, and these arguments. In every other
  case the process exits before it does anything, with code 0 or 2.
\<close>

theorem client_command_lines_exact:
  assumes "(name, c) \<in> set [(''put'', PutCommand), (''get'', GetCommand), (''delete'', DeleteCommand), (''stat'', StatCommand),
      (''nodes'', NodesCommand)]"
  shows "(main (prog # name # args) = Run cmd \<longleftrightarrow>
      (\<exists>ms stop rest. args = concat (map spell ms) @ stop \<and> list_all (\<lambda>x. se_name x = ''manager'') ms \<and> ends_flags stop rest \<and>
        cmd = c (last_or ''http://127.0.0.1:9000'' (map se_value ms)) rest)) \<and>
    ((\<exists>cmd. main (prog # name # args) = Run cmd) \<or> main (prog # name # args) \<in> {Exit 0, Exit 2})"
proof -
  have "main (prog # name # args) = clientCommand c args" using assms by (auto simp: main_def)
  moreover have "(\<exists>cmd. clientCommand c args = Run cmd) \<or> clientCommand c args \<in> {Exit 0, Exit 2}"
    by (auto simp: clientCommand_def parse_or_exit_def split: sum.splits flag_error.splits)
  ultimately show ?thesis using client_parsed_iff by simp
qed

text \<open>A key that looks like a flag needs the two dashes; without them it is a flag that nobody declared.\<close>

theorem client_command_lines_exact_witness:
  "main [''fs'', ''delete'', ''--'', ''-k''] = Run (DeleteCommand ''http://127.0.0.1:9000'' [''-k'']) \<and>
   main [''fs'', ''delete'', ''-k''] = Exit 2"
proof -
  note exact = client_command_lines_exact [of "''delete''" DeleteCommand "''fs''"]
  have "ends_flags [''--'', ''-k''] [''-k'']" by (simp add: ends_flags_def)
  then have "\<exists>ms stop rest. [''--'', ''-k''] = concat (map spell ms) @ stop \<and> list_all (\<lambda>x. se_name x = ''manager'') ms \<and>
      ends_flags stop rest \<and> DeleteCommand ''http://127.0.0.1:9000'' [''-k''] =
        DeleteCommand (last_or ''http://127.0.0.1:9000'' (map se_value ms)) rest"
    by (intro exI [of _ "[]"] exI [of _ "[''--'', ''-k'']"] exI [of _ "[''-k'']"]) simp
  then have "main [''fs'', ''delete'', ''--'', ''-k''] = Run (DeleteCommand ''http://127.0.0.1:9000'' [''-k''])"
    using exact [of "[''--'', ''-k'']" "DeleteCommand ''http://127.0.0.1:9000'' [''-k'']"] by simp
  moreover have "Parse clientFlags [''-k''] = Inl (NotDefined ''k'')"
    by (simp add: Parse.simps parseOne_def clientFlags_def Cut_def)
  then have "main [''fs'', ''delete'', ''-k''] = Exit 2" by (simp add: main_def clientCommand_def parse_or_exit_def)
  ultimately show ?thesis by simp
qed

section \<open>Client processes\<close>

text \<open>
  C2. \<open>fs get\<close> writes what \<open>fs put\<close> read. For a manager at an address without faults, over a
  storage cluster without faults and with a healthy node, and a key that the interface can
  express: the process \<open>fs put\<close>, with flags in any spelling that leave the address of the manager
  and with key and file as arguments, exits with code 0 and prints key, next version, size and
  checksum; the process \<open>fs get\<close> directly after it, on any machine where the output file can be
  created and has room, exits with code 0, prints the number of bytes and leaves exactly the bytes
  of the first file in the second.
\<close>

theorem processes_put_get:
  fixes site :: "(MetadataStore, MemoryReplicationTaskQueue, file_system HTTPObjectStore) site"
  assumes "wf_metadata (site_metadata site)"
    and "0 < rp_ReplicaCount (mc_planner (sv_coordinator (mh_service (si_handler site))))"
    and "HealthyNodes (site_metadata site) \<noteq> []"
    and "storage_cluster N D st Dg K (site_objects site)"
    and "cluster_fault_free (site_objects site)"
    and "temp_ok te"
    and "put_names_ok (cluster_ok N D st Dg K) (site_metadata site) key (chunk_manifest H data)"
    and "api_key key" and "answer_encodes H data key (site_metadata site)"
    and "manager_address mgr" and "si_origin site = TrimRightSlash mgr" and "si_fault site = (\<lambda>_ _. None)"
    and "fs_fault fs OpOpen (filepath_Clean src) = None" and "fs_lookup fs (filepath_Clean src) = Inr (File data)"
    and "os_Create (filepath_Clean out) fs2 = (Inr (), fs3)"
    and "case fs_room fs3 (filepath_Clean out) of None \<Rightarrow> True | Some n \<Rightarrow> length data \<le> n"
    and "list_all (\<lambda>x. se_name x = ''manager'') ps" and "last_or ''http://127.0.0.1:9000'' (map se_value ps) = mgr"
    and "list_all (\<lambda>x. se_name x = ''manager'') gs" and "last_or ''http://127.0.0.1:9000'' (map se_value gs) = mgr"
    and "ends_flags stop [key, src]" and "ends_flags stop' [key, out]"
  shows "\<exists>site'. run_client H te MemoryMetadataBackend MemoryTaskQueue HttpObjects
      (main (prog # ''put'' # concat (map spell ps) @ stop)) fs site =
      Some ((0, Line (''stored key='' @ key @ '' version='' @ dec (unat (NextVersion key (site_metadata site))) @
            '' size='' @ dec (length data) @ '' checksum='' @ H data)), fs, site') \<and>
    run_client H te MemoryMetadataBackend MemoryTaskQueue HttpObjects
      (main (prog # ''get'' # concat (map spell gs) @ stop')) fs2 site' =
      Some ((0, Line (''fetched key='' @ key @ '' bytes='' @ dec (length data))),
        fs_set (filepath_Clean out) (File data) fs3, site')"
proof -
  have "main (prog # ''put'' # concat (map spell ps) @ stop) = Run (PutCommand mgr [key, src])"
    using client_parsed [OF assms(17,21)] assms(18) by (simp add: main_def)
  moreover have "main (prog # ''get'' # concat (map spell gs) @ stop') = Run (GetCommand mgr [key, out])"
    using client_parsed [OF assms(19,22)] assms(20) by (simp add: main_def)
  ultimately show ?thesis using client_put_get [OF assms(1-16)] by (auto simp: finish_def)
qed

theorem processes_put_get_witness:
  "\<exists>site'. run_client (\<lambda>b. ''h'') demo_temp MemoryMetadataBackend MemoryTaskQueue HttpObjects
      (main [''fs'', ''put'', ''-manager'', ''http://m'', ''k'', ''in'']) demo_client demo_site =
      Some ((0, Line ''stored key=k version=1 size=3 checksum=h''), demo_client, site') \<and>
    run_client (\<lambda>b. ''h'') demo_temp MemoryMetadataBackend MemoryTaskQueue HttpObjects
      (main [''fs'', ''get'', ''--manager=http://m'', ''k'', ''out'']) demo_client site' =
      Some ((0, Line ''fetched key=k bytes=3''),
        fs_set (filepath_Clean ''out'') (File [1, 2, 3]) (fs_set (filepath_Clean ''out'') (File []) demo_client), site')"
proof -
  note h = demo_site_facts(1-3) and cl = demo_cluster [folded demo_manager_facts(4), folded demo_site_facts(1)]
  let ?ps = "[\<lparr>se_dashes = False, se_equals = False, se_name = ''manager'', se_value = ''http://m''\<rparr>]"
  let ?gs = "[\<lparr>se_dashes = True, se_equals = True, se_name = ''manager'', se_value = ''http://m''\<rparr>]"
  have "\<exists>site'. run_client (\<lambda>b. ''h'') demo_temp MemoryMetadataBackend MemoryTaskQueue HttpObjects
      (main (''fs'' # ''put'' # concat (map spell ?ps) @ [''k'', ''in''])) demo_client demo_site =
      Some ((0, Line (''stored key='' @ ''k'' @ '' version='' @ dec (unat (1 :: uint64)) @ '' size='' @
          dec (length [1, 2, 3 :: byte]) @ '' checksum='' @ ''h'')), demo_client, site') \<and>
    run_client (\<lambda>b. ''h'') demo_temp MemoryMetadataBackend MemoryTaskQueue HttpObjects
      (main (''fs'' # ''get'' # concat (map spell ?gs) @ [''k'', ''out''])) demo_client site' =
      Some ((0, Line (''fetched key='' @ ''k'' @ '' bytes='' @ dec (length [1, 2, 3 :: byte]))),
        fs_set (filepath_Clean ''out'') (File [1, 2, 3]) (fs_set (filepath_Clean ''out'') (File []) demo_client), site')"
    using processes_put_get [OF demo_manager_facts(1-3) [folded h(1)] cl demo_service_facts(6)
        demo_manager_facts(5) [folded h(1)] demo_put_facts demo_address(1) h(2,3) demo_client_facts(1,3,4), of ?ps ?gs
        "[''k'', ''in'']" "[''k'', ''out'']" "''fs''"]
      demo_client_facts(2) demo_healthy(2) by (simp add: demo_site_facts(4) ends_flags_def del: run_client.simps)
  with demo_dec show ?thesis by (simp add: spell_def del: run_client.simps)
qed

end
