(* ===== verification/Stream_Cipher.thy ===== *)
theory Stream_Cipher
  imports Disk_Store
begin

text \<open>
  The stream cipher of the peer-to-peer server, \<open>src/distributed-fs/crypto.go\<close>, and
  \<open>Store.WriteDecrypt\<close> of \<open>store.go\<close>, which writes what it decrypts to disk.

  AES and MD5 are parameters: \<open>AES\<close> maps a key and a block to a block, and the properties assume
  no more of it than that a block has sixteen bytes; \<open>MD5\<close> maps bytes to a digest. Random bytes
  are an argument. The counter mode is written out, with its counter in big-endian order.
  Names and contents: a writer is a function that takes bytes and answers how many it took and
  whether it failed.
\<close>

unbundle bit_operations_syntax

section \<open>Bytes and numbers\<close>

text \<open>\<open>hex.EncodeToString\<close>, and the bytes of a string.\<close>

definition hex_digit :: "nat \<Rightarrow> char" where
  "hex_digit n = (if n < 10 then char_of (48 + n) else char_of (87 + n))"

definition hex_encode :: "byte list \<Rightarrow> string" where
  "hex_encode b = concat (map (\<lambda>x. [hex_digit (unat x div 16), hex_digit (unat x mod 16)]) b)"

definition string_bytes :: "string \<Rightarrow> byte list" where
  "string_bytes s = map (\<lambda>c. word_of_nat (of_char c)) s"

fun le_val :: "byte list \<Rightarrow> nat" where
  "le_val [] = 0"
| "le_val (b # bs) = unat b + 256 * le_val bs"

fun le_bytes :: "nat \<Rightarrow> nat \<Rightarrow> byte list" where
  "le_bytes 0 v = []"
| "le_bytes (Suc n) v = word_of_nat (v mod 256) # le_bytes n (v div 256)"

definition be_val :: "byte list \<Rightarrow> nat" where
  "be_val b = le_val (rev b)"

definition be_bytes :: "nat \<Rightarrow> nat \<Rightarrow> byte list" where
  "be_bytes n v = rev (le_bytes n v)"

section \<open>Keys and names\<close>

text \<open>\<open>io.ReadFull(rand.Reader, buf)\<close> with its error ignored: what is missing stays zero.\<close>

definition random_buf :: "nat \<Rightarrow> byte list \<Rightarrow> byte list" where
  "random_buf n rnd = take n (rnd @ replicate n 0)"

definition generateID :: "byte list \<Rightarrow> string" where
  "generateID rnd = hex_encode (random_buf 32 rnd)"

definition hashKey :: "(byte list \<Rightarrow> byte list) \<Rightarrow> string \<Rightarrow> string" where
  "hashKey MD5 key = hex_encode (MD5 (string_bytes key))"

definition newEncryptionKey :: "byte list \<Rightarrow> byte list" where
  "newEncryptionKey rnd = random_buf 32 rnd"

section \<open>The counter mode\<close>

definition BlockSize :: nat where
  "BlockSize = 16"

definition NewCipher :: "(byte list \<Rightarrow> byte list \<Rightarrow> byte list) \<Rightarrow> byte list \<Rightarrow> (byte list \<Rightarrow> byte list) result" where
  "NewCipher AES key =
     (if length key \<in> {16, 24, 32} then Inr (AES key)
      else Inl (ErrOther (''crypto/aes: invalid key size '' @ dec (length key))))"

text \<open>\<open>cipher.NewCTR\<close>: the next counter and the rest of the current block of key stream.\<close>

record ctr =
  ct_counter :: "byte list"
  ct_out :: "byte list"

definition NewCTR :: "byte list \<Rightarrow> ctr" where
  "NewCTR iv = \<lparr>ct_counter = iv, ct_out = []\<rparr>"

fun incr_le :: "byte list \<Rightarrow> byte list" where
  "incr_le [] = []"
| "incr_le (b # bs) = (if b + 1 = 0 then 0 # incr_le bs else (b + 1) # bs)"

definition incr_counter :: "byte list \<Rightarrow> byte list" where
  "incr_counter c = rev (incr_le (rev c))"

definition next_key :: "(byte list \<Rightarrow> byte list) \<Rightarrow> ctr \<Rightarrow> byte \<times> ctr" where
  "next_key E c =
     (case ct_out c of
        k # ks \<Rightarrow> (k, c\<lparr>ct_out := ks\<rparr>)
      | [] \<Rightarrow>
          (case E (ct_counter c) of
             [] \<Rightarrow> (0, c)
           | k # ks \<Rightarrow> (k, \<lparr>ct_counter = incr_counter (ct_counter c), ct_out = ks\<rparr>)))"

fun XORKeyStream :: "(byte list \<Rightarrow> byte list) \<Rightarrow> byte list \<Rightarrow> ctr \<Rightarrow> byte list \<times> ctr" where
  "XORKeyStream E [] c = ([], c)"
| "XORKeyStream E (b # bs) c =
     (let (k, c1) = next_key E c; (out, c2) = XORKeyStream E bs c1 in ((b XOR k) # out, c2))"

section \<open>Copying through the cipher\<close>

type_synonym 'w writer = "byte list \<Rightarrow> 'w \<Rightarrow> (nat \<times> error option) \<times> 'w"

definition file_writer :: "nat option \<Rightarrow> byte list writer" where
  "file_writer lim d acc =
     (let (acc', failed) = write_piece lim d acc
      in ((length acc' - length acc, if failed then Some (ErrOther ''no space left on device'') else None), acc'))"

text \<open>
  \<open>copyStream\<close>: the answer, the bytes taken from the source, and the destination. \<open>nw\<close> is the
  count so far, which starts at the block size.
\<close>

fun copyStream ::
  "(byte list \<Rightarrow> byte list) \<Rightarrow> 'w writer \<Rightarrow> read_event list \<Rightarrow> ctr \<Rightarrow> nat \<Rightarrow> 'w \<Rightarrow> int result \<times> byte list \<times> 'w" where
  "copyStream E write_to [] c nw w = (Inr (int nw), [], w)"
| "copyStream E write_to ((d, st) # es) c nw w =
     (let (buf, c') = XORKeyStream E d c;
          ((nn, werr), w') = (if d = [] then ((0, None), w) else write_to buf w)
      in case werr of
           Some e \<Rightarrow> (Inl e, d, w')
         | None \<Rightarrow>
             if nn \<noteq> length d then (Inl (ErrOther ''short write''), d, w')
             else case st of
                    ReadEOF \<Rightarrow> (Inr (int (nw + nn)), d, w')
                  | ReadFailed e \<Rightarrow> (Inl e, d, w')
                  | ReadMore \<Rightarrow>
                      (let (r, taken, w'') = copyStream E write_to es c' (nw + nn) w' in (r, d @ taken, w'')))"

text \<open>
  \<open>io.ReadFull\<close>: the bytes, the error if there are fewer, and the rest of the stream. Of a piece
  that is longer than what is missing, the rest stays.
\<close>

fun ReadFull :: "nat \<Rightarrow> read_event list \<Rightarrow> byte list \<times> error option \<times> read_event list" where
  "ReadFull n [] = ([], if n = 0 then None else Some (ErrOther ''EOF''), [])"
| "ReadFull n ((d, st) # es) =
     (if n = 0 then ([], None, (d, st) # es)
      else if n \<le> length d then (take n d, None, (drop n d, st) # es)
      else case st of
             ReadEOF \<Rightarrow> (d, Some (ErrOther (if d = [] then ''EOF'' else ''unexpected EOF'')), [])
           | ReadFailed e \<Rightarrow> (d, Some e, [])
           | ReadMore \<Rightarrow>
               (let (b, err, rest) = ReadFull (n - length d) es
                in (d @ b, if err = Some (ErrOther ''EOF'') \<and> d \<noteq> [] then Some (ErrOther ''unexpected EOF'') else err, rest)))"

text \<open>\<open>rnd\<close> is what the random generator delivers.\<close>

definition copyEncrypt ::
  "(byte list \<Rightarrow> byte list \<Rightarrow> byte list) \<Rightarrow> byte list \<Rightarrow> byte list \<Rightarrow> read_event list \<Rightarrow> 'w writer \<Rightarrow> 'w
    \<Rightarrow> int result \<times> byte list \<times> 'w" where
  "copyEncrypt AES rnd key src write_to w =
     (case NewCipher AES key of
        Inl err \<Rightarrow> (Inl err, [], w)
      | Inr block \<Rightarrow>
          if length rnd < BlockSize then (Inl (ErrOther ''unexpected EOF''), [], w)
          else
            (let iv = take BlockSize rnd;
                 ((_, werr), w1) = write_to iv w
             in case werr of
                  Some e \<Rightarrow> (Inl e, [], w1)
                | None \<Rightarrow> copyStream block write_to src (NewCTR iv) BlockSize w1))"

definition copyDecrypt ::
  "(byte list \<Rightarrow> byte list \<Rightarrow> byte list) \<Rightarrow> byte list \<Rightarrow> read_event list \<Rightarrow> 'w writer \<Rightarrow> 'w
    \<Rightarrow> int result \<times> byte list \<times> 'w" where
  "copyDecrypt AES key src write_to w =
     (case NewCipher AES key of
        Inl err \<Rightarrow> (Inl err, [], w)
      | Inr block \<Rightarrow>
          (case ReadFull BlockSize src of
             (iv, Some err, _) \<Rightarrow> (Inl err, iv, w)
           | (iv, None, rest) \<Rightarrow>
               (let (r, taken, w') = copyStream block write_to rest (NewCTR iv) BlockSize w in (r, iv @ taken, w'))))"

definition WriteDecrypt ::
  "(byte list \<Rightarrow> byte list \<Rightarrow> byte list) \<Rightarrow> Store \<Rightarrow> byte list \<Rightarrow> string \<Rightarrow> string \<Rightarrow> read_event list \<Rightarrow> file_system
    \<Rightarrow> int result \<times> byte list \<times> file_system" where
  "WriteDecrypt AES st encKey nid key r fs =
     (case openFileForWriting st nid key fs of
        (Inl err, fs1) \<Rightarrow> (Inl err, [], fs1)
      | (Inr f, fs1) \<Rightarrow>
          (let (n, taken, out) = copyDecrypt AES encKey r (file_writer (fs_room fs1 f)) []
           in (n, taken, fs_set f (File out) fs1)))"

section \<open>The counter\<close>

lemma le_val_bound: "le_val bs < 256 ^ length bs"
proof (induction bs)
  case (Cons b bs)
  have "unat b < 2 ^ LENGTH(8)" by (rule unsigned_less)
  then have b: "unat b < 256" by simp
  from Cons have "256 * (le_val bs + 1) \<le> 256 * 256 ^ length bs" by simp
  with b show ?case by simp
qed simp

lemma le_bytes_val [simp]: "le_bytes (length bs) (le_val bs) = bs"
proof (induction bs)
  case (Cons b bs)
  have "unat b < 2 ^ LENGTH(8)" by (rule unsigned_less)
  then have "unat b < 256" by simp
  then have "(unat b + 256 * le_val bs) mod 256 = unat b" "(unat b + 256 * le_val bs) div 256 = le_val bs" by simp_all
  with Cons show ?case by simp
qed simp

lemma le_val_bytes [simp]: "le_val (le_bytes n v) = v mod 256 ^ n"
proof (induction n arbitrary: v)
  case (Suc n)
  have "unat (word_of_nat (v mod 256) :: byte) = v mod 256" by (simp add: unat_of_nat)
  with Suc show ?case by (simp add: mod_mult2_eq)
qed simp

lemma length_le_bytes [simp]: "length (le_bytes n v) = n"
  by (induction n arbitrary: v) simp_all

lemma le_bytes_mod: "le_bytes n (v mod 256 ^ n) = le_bytes n v"
  using le_bytes_val [of "le_bytes n v"] by simp

lemma length_incr_le [simp]: "length (incr_le bs) = length bs"
  by (induction bs) simp_all

lemma le_val_incr: "le_val (incr_le bs) = (le_val bs + 1) mod 256 ^ length bs"
proof (induction bs)
  case (Cons b bs)
  have "unat b < 2 ^ LENGTH(8)" by (rule unsigned_less)
  then have b: "unat b < 256" by simp
  show ?case
  proof (cases "b + 1 = 0")
    case True
    then have "b = - 1" by (simp add: eq_neg_iff_add_eq_0)
    then have "unat b = 255" by (simp add: mask_eq_exp_minus_1 unsigned_minus_1_eq_mask)
    with True Cons show ?thesis by (simp add: mod_mult_mult1 [of 256, symmetric])
  next
    case False
    then have "unat (b + 1) = unat b + 1" using unatSuc [of b] by (simp add: add.commute)
    moreover have "unat b + 256 * le_val bs + 1 < 256 ^ length (b # bs)"
    proof -
      have "unat b + 1 < 256" using b False \<open>unat (b + 1) = unat b + 1\<close> unsigned_less [of "b + 1", where 'a = nat] by simp
      with le_val_bound [of bs] show ?thesis by simp
    qed
    ultimately show ?thesis using False by simp
  qed
qed simp

lemma incr_counter_be: "incr_counter c = be_bytes (length c) (be_val c + 1)"
proof -
  have "incr_le (rev c) = le_bytes (length (incr_le (rev c))) (le_val (incr_le (rev c)))" by (simp only: le_bytes_val)
  also have "\<dots> = le_bytes (length c) (le_val (rev c) + 1)" by (simp add: le_val_incr le_bytes_mod)
  finally show ?thesis by (simp add: incr_counter_def be_bytes_def be_val_def)
qed

lemma incr_counter_iterate: "(incr_counter ^^ j) c = be_bytes (length c) (be_val c + j)"
proof (induction j)
  case 0
  show ?case using le_bytes_val [of "rev c"] by (simp add: be_bytes_def be_val_def)
next
  case (Suc j)
  then show ?case
    using le_bytes_mod [of "length c" "le_val (rev c) + Suc j"] le_bytes_mod [of "length c" "(le_val (rev c) + j) mod 256 ^ length c + 1"]
    by (simp add: incr_counter_be) (simp add: be_bytes_def be_val_def mod_Suc_eq)
qed

section \<open>The key stream\<close>

text \<open>
  The reference: byte \<open>i\<close> of the key stream is byte \<open>i mod 16\<close> of the encrypted block of the
  number that the initial vector stands for plus \<open>i div 16\<close>, modulo \<open>2 ^ 128\<close>.
\<close>

definition ctr_block :: "(byte list \<Rightarrow> byte list) \<Rightarrow> byte list \<Rightarrow> nat \<Rightarrow> byte list" where
  "ctr_block E iv j = E (be_bytes 16 ((be_val iv + j) mod 2 ^ 128))"

definition ctr_key :: "(byte list \<Rightarrow> byte list) \<Rightarrow> byte list \<Rightarrow> nat \<Rightarrow> byte" where
  "ctr_key E iv i = ctr_block E iv (i div 16) ! (i mod 16)"

fun ctr_xor :: "(byte list \<Rightarrow> byte list) \<Rightarrow> byte list \<Rightarrow> nat \<Rightarrow> byte list \<Rightarrow> byte list" where
  "ctr_xor E iv i [] = []"
| "ctr_xor E iv i (b # bs) = (b XOR ctr_key E iv i) # ctr_xor E iv (Suc i) bs"

lemma length_ctr_xor [simp]: "length (ctr_xor E iv i d) = length d"
  by (induction d arbitrary: i) simp_all

lemma ctr_xor_append: "ctr_xor E iv i (a @ b) = ctr_xor E iv i a @ ctr_xor E iv (i + length a) b"
  by (induction a arbitrary: i) simp_all

lemma ctr_xor_twice [simp]: "ctr_xor E iv i (ctr_xor E iv i d) = d"
  by (induction d arbitrary: i) (simp_all add: xor.assoc)

definition block_function :: "(byte list \<Rightarrow> byte list) \<Rightarrow> bool" where
  "block_function E \<longleftrightarrow> (\<forall>b. length b = 16 \<longrightarrow> length (E b) = 16)"

text \<open>The state of the stream after \<open>i\<close> bytes.\<close>

definition ctr_at :: "(byte list \<Rightarrow> byte list) \<Rightarrow> byte list \<Rightarrow> nat \<Rightarrow> ctr \<Rightarrow> bool" where
  "ctr_at E iv i c \<longleftrightarrow>
     (if i mod 16 = 0 then ct_out c = [] \<and> ct_counter c = (incr_counter ^^ (i div 16)) iv
      else ct_out c = drop (i mod 16) (ctr_block E iv (i div 16)) \<and> ct_counter c = (incr_counter ^^ Suc (i div 16)) iv)"

lemma ctr_at_start: "ctr_at E iv 0 (NewCTR iv)"
  by (simp add: ctr_at_def NewCTR_def)

lemma counter_block:
  assumes "length iv = 16"
  shows "E ((incr_counter ^^ j) iv) = ctr_block E iv j"
proof -
  have "be_bytes 16 (v mod 2 ^ 128) = be_bytes 16 v" for v using le_bytes_mod [of 16 v] by (simp add: be_bytes_def)
  with assms show ?thesis by (simp add: incr_counter_iterate ctr_block_def)
qed

lemma length_ctr_block: "block_function E \<Longrightarrow> length (ctr_block E iv j) = 16"
  by (simp add: block_function_def ctr_block_def be_bytes_def)

lemma next_key_at:
  assumes "block_function E" and "length iv = 16" and "ctr_at E iv i c"
  shows "fst (next_key E c) = ctr_key E iv i" and "ctr_at E iv (Suc i) (snd (next_key E c))"
proof -
  let ?blk = "ctr_block E iv (i div 16)"
  note len = length_ctr_block [OF assms(1), of iv "i div 16"]
  have "fst (next_key E c) = ctr_key E iv i \<and> ctr_at E iv (Suc i) (snd (next_key E c))"
  proof (cases "i mod 16 = 0")
    case True
    with assms(3) have c: "ct_out c = []" "E (ct_counter c) = ?blk" "ct_counter c = (incr_counter ^^ (i div 16)) iv"
      by (simp_all add: ctr_at_def counter_block [OF assms(2)])
    from len obtain k ks where "?blk = k # ks" by (cases ?blk) auto
    moreover from True have "Suc i mod 16 = 1" "Suc i div 16 = i div 16" by (simp_all add: mod_Suc div_Suc)
    ultimately show ?thesis using c True by (simp add: next_key_def ctr_key_def ctr_at_def)
  next
    case False
    with assms(3) have c: "ct_out c = drop (i mod 16) ?blk" "ct_counter c = (incr_counter ^^ Suc (i div 16)) iv"
      by (simp_all add: ctr_at_def)
    have "drop (i mod 16) ?blk = ?blk ! (i mod 16) # drop (Suc (i mod 16)) ?blk"
      using len by (simp add: Cons_nth_drop_Suc)
    moreover have "Suc (i mod 16) = 16 \<and> Suc i mod 16 = 0 \<and> Suc i div 16 = Suc (i div 16) \<or>
        Suc (i mod 16) < 16 \<and> Suc i mod 16 = Suc (i mod 16) \<and> Suc i div 16 = i div 16"
      by (auto simp: mod_Suc div_Suc)
    ultimately show ?thesis using c len by (auto simp: next_key_def ctr_key_def ctr_at_def)
  qed
  then show "fst (next_key E c) = ctr_key E iv i" "ctr_at E iv (Suc i) (snd (next_key E c))" by simp_all
qed

lemma XORKeyStream_at:
  assumes "block_function E" and "length iv = 16" and "ctr_at E iv i c"
  shows "\<exists>c'. XORKeyStream E d c = (ctr_xor E iv i d, c') \<and> ctr_at E iv (i + length d) c'"
  using assms(3)
proof (induction d arbitrary: i c)
  case (Cons b d)
  note k = next_key_at [OF assms(1,2) Cons.prems]
  from Cons.IH [OF k(2)] obtain c' where
    "XORKeyStream E d (snd (next_key E c)) = (ctr_xor E iv (Suc i) d, c')" "ctr_at E iv (Suc i + length d) c'" by blast
  with k(1) show ?case by (simp add: case_prod_beta Let_def)
qed simp

section \<open>Sinks\<close>

text \<open>
  A sink takes bytes one after the other, as long as there is room: \<open>holds w b n\<close> is that \<open>w\<close> has
  taken the bytes \<open>b\<close> and can take \<open>n\<close> more.
\<close>

locale byte_sink =
  fixes put :: "'w writer" and holds :: "'w \<Rightarrow> byte list \<Rightarrow> nat \<Rightarrow> bool"
  assumes put: "holds w b n \<Longrightarrow> length d \<le> n \<Longrightarrow> \<exists>w'. put d w = ((length d, None), w') \<and> holds w' (b @ d) (n - length d)"
begin

lemma copyStream_puts:
  assumes "block_function E" and "length iv = 16" and "ctr_at E iv i c" and "holds w b n"
    and "drain es = (d, err)" and "length d \<le> n"
  shows "\<exists>w'. copyStream E put es c nw w = (case err of None \<Rightarrow> Inr (int (nw + length d)) | Some e \<Rightarrow> Inl e, d, w') \<and>
    holds w' (b @ ctr_xor E iv i d) (n - length d)"
  using assms(3-6)
proof (induction es arbitrary: i c w b n d nw)
  case Nil
  then show ?case by auto
next
  case (Cons x es)
  obtain p st where x: "x = (p, st)" by fastforce
  obtain c' where xor: "XORKeyStream E p c = (ctr_xor E iv i p, c')" and c': "ctr_at E iv (i + length p) c'"
    using XORKeyStream_at [OF assms(1,2) Cons.prems(1)] by blast
  have p: "length p \<le> n" using Cons.prems(3,4) by (cases st) (auto simp: x)
  then obtain w1 where w1: "(if p = [] then ((0, None), w) else put (ctr_xor E iv i p) w) = ((length p, None), w1)"
    "holds w1 (b @ ctr_xor E iv i p) (n - length p)"
    using put [OF Cons.prems(2), of "ctr_xor E iv i p"] Cons.prems(2) by (cases "p = []") auto
  show ?case
  proof (cases "st = ReadMore")
    case True
    with Cons.prems(3) obtain q where q: "drain es = (q, err)" "d = p @ q" by (cases "drain es") (auto simp: x)
    from q p Cons.prems(4) have "length q \<le> n - length p" by simp
    from Cons.IH [OF c' w1(2) q(1) this, of "nw + length p"] xor w1(1) True q
    show ?thesis by (auto simp: x ctr_xor_append add.assoc split: option.split)
  next
    case False
    with Cons.prems(3) xor w1 show ?thesis by (cases st) (auto simp: x)
  qed
qed

lemma copyEncrypt_puts:
  assumes "block_function (AES key)" and "length key \<in> {16, 24, 32}" and "16 \<le> length rnd" and "holds w b n"
    and "drain es = (d, err)" and "16 + length d \<le> n"
  shows "\<exists>w'. copyEncrypt AES rnd key es put w =
      (case err of None \<Rightarrow> Inr (int (16 + length d)) | Some e \<Rightarrow> Inl e, d, w') \<and>
    holds w' (b @ take 16 rnd @ ctr_xor (AES key) (take 16 rnd) 0 d) (n - (16 + length d))"
proof -
  let ?iv = "take 16 rnd"
  have iv: "length ?iv = 16" using assms(3) by simp
  obtain w1 where w1: "put ?iv w = ((16, None), w1)" "holds w1 (b @ ?iv) (n - 16)"
    using put [OF assms(4), of ?iv] assms(6) iv by auto
  from assms(6) have "length d \<le> n - 16" by simp
  from copyStream_puts [OF assms(1) iv ctr_at_start w1(2) assms(5) this, of 16] w1(1) assms(2,3)
  show ?thesis by (auto simp: copyEncrypt_def NewCipher_def BlockSize_def diff_diff_left)
qed

end

lemma ReadFull_enough:
  assumes "drain es = (d, err)" and "n \<le> length d"
  shows "\<exists>rest. ReadFull n es = (take n d, None, rest) \<and> drain rest = (drop n d, err)"
  using assms
proof (induction n es arbitrary: d rule: ReadFull.induct)
  case (2 n p st es)
  show ?case
  proof (cases "n \<le> length p")
    case True
    with "2.prems" show ?thesis by (cases st) auto
  next
    case False
    with "2.prems" have st: "st = ReadMore" by (cases st) auto
    with "2.prems"(1) obtain q where q: "drain es = (q, err)" "d = p @ q" by (cases "drain es") auto
    with False "2.prems"(2) have "n - length p \<le> length q" by simp
    with "2.IH" [OF _ _ st q(1)] False obtain rest where
      "ReadFull (n - length p) es = (take (n - length p) q, None, rest)" "drain rest = (drop (n - length p) q, err)" by auto
    with False st q(2) show ?thesis by simp
  qed
qed simp

lemma ReadFull_short:
  assumes "drain es = (d, None)" and "length d < n"
  shows "\<exists>rest. ReadFull n es =
    (d, Some (ErrOther (if d = [] then ''EOF'' else ''unexpected EOF'')), rest)"
  using assms
proof (induction n es arbitrary: d rule: ReadFull.induct)
  case (2 n p st es)
  show ?case
  proof (cases "st = ReadMore")
    case True
    with "2.prems"(1) obtain q where q: "drain es = (q, None)" "d = p @ q" by (cases "drain es") auto
    with "2.prems"(2) have p: "\<not> n \<le> length p" "length q < n - length p" by simp_all
    with "2.IH" [OF _ _ True q(1)] obtain rest where
      "ReadFull (n - length p) es = (q, Some (ErrOther (if q = [] then ''EOF'' else ''unexpected EOF'')), rest)" by auto
    with True q(2) p(1) show ?thesis by (cases "p = []"; cases "q = []") simp_all
  next
    case False
    with "2.prems" show ?thesis by (cases st) auto
  qed
qed simp

context byte_sink begin

lemma copyDecrypt_puts:
  assumes "block_function (AES key)" and "length key \<in> {16, 24, 32}" and "holds w b n"
    and "drain es = (iv @ d, err)" and "length iv = 16" and "length d \<le> n"
  shows "\<exists>w'. copyDecrypt AES key es put w =
      (case err of None \<Rightarrow> Inr (int (16 + length d)) | Some e \<Rightarrow> Inl e, iv @ d, w') \<and>
    holds w' (b @ ctr_xor (AES key) iv 0 d) (n - length d)"
proof -
  obtain rest where "ReadFull 16 es = (iv, None, rest)" "drain rest = (d, err)"
    using ReadFull_enough [OF assms(4), of 16] assms(5) by auto
  with copyStream_puts [OF assms(1,5) ctr_at_start assms(3) _ assms(6), of rest err 16] assms(2)
  show ?thesis by (auto simp: copyDecrypt_def NewCipher_def BlockSize_def)
qed

end

interpretation file_sink: byte_sink "file_writer lim"
  "\<lambda>acc b n. acc = b \<and> (case lim of None \<Rightarrow> True | Some m \<Rightarrow> length acc + n \<le> m)" for lim
  by unfold_locales (auto simp: file_writer_def write_piece_def split: option.splits)

text \<open>
  C31. Decryption is the inverse of encryption, and both are the counter mode. For a key of one of
  the three sizes and a source that ends without an error, however it is split over its reads:
  encryption writes the initial vector and the content in exclusive or with the key stream of
  the reference, and answers with sixteen more than the length of the content; decryption of
  what it wrote, again however split, writes exactly the content and answers the same. An input
  too short for an initial vector is refused and nothing is written, and a key of another size
  is refused by both.
\<close>

theorem encrypt_decrypt:
  assumes "block_function (AES key)" and "drain src = (data, None)" and "16 \<le> length rnd"
    and "copyEncrypt AES rnd key src (file_writer None) [] = (r, taken, out)"
  shows "(length key \<in> {16, 24, 32} \<longrightarrow> r = Inr (16 + int (length data)) \<and>
      out = take 16 rnd @ ctr_xor (AES key) (take 16 rnd) 0 data \<and>
      (\<forall>es. drain es = (out, None) \<longrightarrow>
        copyDecrypt AES key es (file_writer None) [] = (Inr (16 + int (length data)), out, data)) \<and>
      (\<forall>es b. drain es = (b, None) \<and> length b < 16 \<longrightarrow>
        (\<exists>e. copyDecrypt AES key es (file_writer None) [] = (Inl e, b, [])))) \<and>
    (length key \<notin> {16, 24, 32} \<longrightarrow> (\<exists>e. r = Inl e \<and> out = [] \<and>
      (\<forall>es. copyDecrypt AES key es (file_writer None) [] = (Inl e, [], []))))"
proof (intro conjI impI)
  let ?iv = "take 16 rnd"
  assume key: "length key \<in> {16, 24, 32}"
  from file_sink.copyEncrypt_puts [where lim = None and w = "[]" and b = "[]" and n = "16 + length data" and AES = AES, OF assms(1) key assms(3) _ assms(2)] assms(4)
  have enc: "r = Inr (16 + int (length data))" "out = ?iv @ ctr_xor (AES key) ?iv 0 data" by auto
  then show "r = Inr (16 + int (length data))" "out = ?iv @ ctr_xor (AES key) ?iv 0 data" by simp_all
  show "\<forall>es. drain es = (out, None) \<longrightarrow>
      copyDecrypt AES key es (file_writer None) [] = (Inr (16 + int (length data)), out, data)"
    using file_sink.copyDecrypt_puts [where lim = None and w = "[]" and b = "[]" and n = "length data" and AES = AES and iv = ?iv
        and d = "ctr_xor (AES key) ?iv 0 data" and err = None, OF assms(1) key] assms(3) by (auto simp: enc(2))
  show "\<forall>es b. drain es = (b, None) \<and> length b < 16 \<longrightarrow> (\<exists>e. copyDecrypt AES key es (file_writer None) [] = (Inl e, b, []))"
    using key ReadFull_short by (fastforce simp: copyDecrypt_def NewCipher_def BlockSize_def)
next
  assume "length key \<notin> {16, 24, 32}"
  with assms(4) show "\<exists>e. r = Inl e \<and> out = [] \<and> (\<forall>es. copyDecrypt AES key es (file_writer None) [] = (Inl e, [], []))"
    by (auto simp: copyEncrypt_def copyDecrypt_def NewCipher_def)
qed

text \<open>A concrete function of the right shape in the place of AES.\<close>

definition demo_aes :: "byte list \<Rightarrow> byte list \<Rightarrow> byte list" where
  "demo_aes key b = map2 (\<lambda>x y. x XOR y) (take 16 key) b"

theorem encrypt_decrypt_witness:
  "\<exists>out. copyEncrypt demo_aes (replicate 16 255) (replicate 16 7) [([1, 2], ReadMore), ([3], ReadEOF)] (file_writer None) [] =
       (Inr 19, [1, 2, 3], out) \<and>
     copyDecrypt demo_aes (replicate 16 7) [(take 5 out, ReadMore), (drop 5 out, ReadEOF)] (file_writer None) [] =
       (Inr 19, out, [1, 2, 3])"
proof -
  let ?src = "[([1, 2], ReadMore), ([3], ReadEOF)] :: read_event list"
  obtain r taken out where run: "copyEncrypt demo_aes (replicate 16 255) (replicate 16 7) ?src (file_writer None) [] = (r, taken, out)"
    by (metis prod_cases3)
  have block: "block_function (demo_aes (replicate 16 7))" by (simp add: block_function_def demo_aes_def)
  have "drain ?src = ([1, 2, 3], None)" by simp
  note R = encrypt_decrypt [OF block this _ run]
  have "taken = [1, 2, 3]"
    using file_sink.copyEncrypt_puts [where AES = demo_aes and key = "replicate 16 7" and lim = None and w = "[]" and b = "[]" and n = 19
        and rnd = "replicate 16 255" and es = ?src, OF block] run by auto
  moreover have "r = Inr 19" using R by simp
  moreover have "drain [(take 5 out, ReadMore), (drop 5 out, ReadEOF)] = (out, None)" by simp
  then have "copyDecrypt demo_aes (replicate 16 7) [(take 5 out, ReadMore), (drop 5 out, ReadEOF)] (file_writer None) [] =
      (Inr (16 + int (length [1, 2, 3 :: byte])), out, [1, 2, 3])" using R by (simp del: drain.simps)
  ultimately show ?thesis using run by simp
qed

section \<open>Files by plain keys\<close>

text \<open>
  The peer-to-peer server uses the store with keys that carry no version. A file under the key
  \<open>s\<close> lies where the object \<open>s\<close> of version 0 would lie if the hash left the version out, so what
  is shown of objects holds for it.
\<close>

definition unversioned :: "(string \<Rightarrow> string) \<Rightarrow> string \<Rightarrow> string" where
  "unversioned D x = D (take (length x - 3) x)"

definition as_objects :: "Store \<Rightarrow> (string \<Rightarrow> string) \<Rightarrow> Store" where
  "as_objects st D = st\<lparr>sto_PathTransformFunc := CASPathTransformFunc (unversioned D)\<rparr>"

definition file_ok :: "Store \<Rightarrow> (string \<Rightarrow> string) \<Rightarrow> string set \<Rightarrow> string \<times> string \<Rightarrow> bool" where
  "file_ok st D K x \<longleftrightarrow> cas_store st D \<and> (\<forall>key \<in> K. hex_digest (D key)) \<and> inj_on D K \<and> plain (fst x) \<and> snd x \<in> K"

definition file_inv :: "Store \<Rightarrow> (string \<Rightarrow> string) \<Rightarrow> string set \<Rightarrow> file_system \<Rightarrow> bool" where
  "file_inv st D K fs \<longleftrightarrow>
     local_inv (as_objects st D) (unversioned D) ((\<lambda>s. versionedObjectKey s 0) ` K) fs \<and> fault_free fs"

definition file_at :: "Store \<Rightarrow> (string \<Rightarrow> string) \<Rightarrow> file_system \<Rightarrow> string \<times> string \<Rightarrow> byte list option" where
  "file_at st D fs x = local_content (as_objects st D) (unversioned D) fs (fst x, snd x, 0)"

lemma unversioned_key [simp]: "unversioned D (versionedObjectKey s 0) = D s"
proof -
  have "dec 0 = ''0''" by code_simp
  then have "versionedObjectKey s 0 = s @ ''.v0''" by (simp add: versionedObjectKey_def)
  then show ?thesis by (simp add: unversioned_def)
qed

lemma file_ok_local:
  "file_ok st D K (n, s) \<Longrightarrow> local_ok (as_objects st D) (unversioned D) ((\<lambda>s. versionedObjectKey s 0) ` K) (n, s, 0)"
  by (auto simp: file_ok_def local_ok_def cas_store_def as_objects_def inj_on_def)

lemma store_as_objects:
  assumes "cas_store st D"
  shows "openFileForWriting (as_objects st D) n (versionedObjectKey s 0) fs = openFileForWriting st n s fs"
    and "Write (as_objects st D) n (versionedObjectKey s 0) rd fs = Write st n s rd fs"
    and "Read (as_objects st D) n (versionedObjectKey s 0) fs = Read st n s fs"
    and "Has (as_objects st D) n (versionedObjectKey s 0) fs = Has st n s fs"
    and "Delete (as_objects st D) n (versionedObjectKey s 0) fs = Delete st n s fs"
proof -
  have p: "sto_PathTransformFunc (as_objects st D) (versionedObjectKey s 0) = sto_PathTransformFunc st s"
    "sto_Root (as_objects st D) = sto_Root st"
    using assms by (simp_all add: as_objects_def cas_store_def CASPathTransformFunc_def)
  show opn: "openFileForWriting (as_objects st D) n (versionedObjectKey s 0) fs = openFileForWriting st n s fs"
    unfolding openFileForWriting_def Let_def p ..
  show "Write (as_objects st D) n (versionedObjectKey s 0) rd fs = Write st n s rd fs"
    by (simp add: Write_def writeStream_def opn)
  show "Read (as_objects st D) n (versionedObjectKey s 0) fs = Read st n s fs"
    "Has (as_objects st D) n (versionedObjectKey s 0) fs = Has st n s fs"
    "Delete (as_objects st D) n (versionedObjectKey s 0) fs = Delete st n s fs"
    unfolding Read_def Has_def Delete_def Let_def p by (rule refl)+
qed

text \<open>What the calls of the store do to its files, on a disk without faults.\<close>

definition file_written ::
  "Store \<Rightarrow> (string \<Rightarrow> string) \<Rightarrow> string set \<Rightarrow> string \<times> string \<Rightarrow> byte list option \<Rightarrow> file_system \<Rightarrow> file_system \<Rightarrow> bool" where
  "file_written st D K x c fs fs' \<longleftrightarrow> file_inv st D K fs' \<and>
     (\<forall>y. file_ok st D K y \<longrightarrow> file_at st D fs' y = (if y = x then c else file_at st D fs y))"

lemma Write_file:
  assumes "file_inv st D K fs" and "file_ok st D K (n, s)" and "drain (rd_reads rd) = (d, None)"
  obtains fs' where "Write st n s rd fs = (Inr (int (length d)), d, fs')" and "file_written st D K (n, s) (Some d) fs fs'"
proof -
  let ?st = "as_objects st D" and ?D = "unversioned D" and ?K = "(\<lambda>s. versionedObjectKey s 0) ` K"
  have inv: "local_inv ?st ?D ?K fs" "fault_free fs" using assms(1) by (simp_all add: file_inv_def)
  have cas: "cas_store st D" using assms(2) by (simp add: file_ok_def)
  note ok = file_ok_local [OF assms(2)]
  obtain fs' where w: "Write ?st n (versionedObjectKey s 0) rd fs = (Inr (int (length d)), d, fs')"
    using Write_succeeds [OF inv ok assms(3)] by blast
  note spec = Write_spec [OF inv(1) ok w]
  then have "file_written st D K (n, s) (Some d) fs fs'"
    using inv(2) file_ok_local [of st D K]
    by (auto simp: file_written_def file_inv_def file_at_def same_env_def fault_free_def)
  with w that show ?thesis by (simp add: store_as_objects [OF cas])
qed

lemma Read_file:
  assumes "file_inv st D K fs" and "file_ok st D K (n, s)"
  shows "Read st n s fs = (case file_at st D fs (n, s) of None \<Rightarrow> Inl ErrNotExist | Some d \<Rightarrow> Inr (int (length d), bytes_reader d))"
    and "Has st n s fs \<longleftrightarrow> file_at st D fs (n, s) \<noteq> None"
proof -
  have inv: "local_inv (as_objects st D) (unversioned D) ((\<lambda>s. versionedObjectKey s 0) ` K) fs" "fault_free fs"
    using assms(1) by (simp_all add: file_inv_def)
  have cas: "cas_store st D" using assms(2) by (simp add: file_ok_def)
  note ok = file_ok_local [OF assms(2)]
  show "Read st n s fs = (case file_at st D fs (n, s) of None \<Rightarrow> Inl ErrNotExist | Some d \<Rightarrow> Inr (int (length d), bytes_reader d))"
    using Read_spec(1) [OF inv(1) ok] inv(2) by (simp add: store_as_objects(3) [OF cas] file_at_def fault_free_def)
  show "Has st n s fs \<longleftrightarrow> file_at st D fs (n, s) \<noteq> None"
    using local_reliable.has_iff [of "as_objects st D" "unversioned D" "(\<lambda>s. versionedObjectKey s 0) ` K" fs n s 0] inv ok
    by (simp add: store_as_objects(4) [OF cas] file_at_def)
qed

lemma Delete_file:
  assumes "file_inv st D K fs" and "file_ok st D K (n, s)"
  obtains fs' where "Delete st n s fs = (Inr (), fs')" and "file_written st D K (n, s) None fs fs'"
proof -
  have inv: "local_inv (as_objects st D) (unversioned D) ((\<lambda>s. versionedObjectKey s 0) ` K) fs" "fault_free fs"
    using assms(1) by (simp_all add: file_inv_def)
  have cas: "cas_store st D" using assms(2) by (simp add: file_ok_def)
  note ok = file_ok_local [OF assms(2)]
  obtain r fs' where d: "Delete (as_objects st D) n (versionedObjectKey s 0) fs = (r, fs')" by fastforce
  note spec = Delete_spec [OF inv(1) ok d]
  then have "file_written st D K (n, s) None fs fs'"
    using inv(2) file_ok_local [of st D K]
    by (auto simp: file_written_def file_inv_def file_at_def same_env_def fault_free_def)
  with d spec inv(2) that show ?thesis by (simp add: store_as_objects(5) [OF cas])
qed

lemma WriteDecrypt_file:
  assumes "file_inv st D K fs" and "file_ok st D K (n, s)" and "block_function (AES key)" and "length key \<in> {16, 24, 32}"
    and "drain es = (iv @ d, None)" and "length iv = 16"
  obtains fs' where "WriteDecrypt AES st key n s es fs = (Inr (int (16 + length d)), iv @ d, fs')"
    and "file_written st D K (n, s) (Some (ctr_xor (AES key) iv 0 d)) fs fs'"
proof -
  let ?st = "as_objects st D" and ?D = "unversioned D" and ?K = "(\<lambda>s. versionedObjectKey s 0) ` K"
  let ?x = "(n, s, 0 :: uint64)" and ?out = "ctr_xor (AES key) iv 0 d"
  have inv: "local_inv ?st ?D ?K fs" "fault_free fs" using assms(1) by (simp_all add: file_inv_def)
  have cas: "cas_store st D" using assms(2) by (simp add: file_ok_def)
  note ok = file_ok_local [OF assms(2)]
  obtain w where "Write st n s (bytes_reader []) fs = (Inr 0, [], w)"
    using Write_file [OF assms(1,2) bytes_reader_sel(1)] by (metis int_ops(1) list.size(3))
  then obtain f fs1 where opn: "openFileForWriting st n s fs = (Inr f, fs1)"
    by (auto simp: Write_def writeStream_def split: sum.splits prod.splits)
  have o: "local_inv ?st ?D ?K fs1" "same_env fs fs1" "f = object_path ?st ?D ?x"
      "fs_node fs1 (object_dir ?st ?D ?x) = Some Dir"
      "\<And>y. local_ok ?st ?D ?K y \<Longrightarrow> y \<noteq> ?x \<Longrightarrow> local_content ?st ?D fs1 y = local_content ?st ?D fs y"
    using openFileForWriting_spec [OF inv(1) ok opn [folded store_as_objects(1) [OF cas]]] by blast+
  have "fs_room fs1 f = None" using o(2) inv(2) by (simp add: same_env_def fault_free_def)
  moreover have "copyDecrypt AES key es (file_writer None) [] = (Inr (int (16 + length d)), iv @ d, ?out)"
    using file_sink.copyDecrypt_puts [where lim = None and w = "[]" and b = "[]" and n = "length d" and AES = AES,
        OF assms(3,4) _ assms(5,6)] by auto
  ultimately have "WriteDecrypt AES st key n s es fs = (Inr (int (16 + length d)), iv @ d, fs_set f (File ?out) fs1)"
    by (simp add: WriteDecrypt_def opn)
  moreover have "file_written st D K (n, s) (Some ?out) fs (fs_set f (File ?out) fs1)"
    using local_set [OF o(1) ok o(4), where d = ?out] o(2,5) inv(2) file_ok_local [of st D K]
    by (auto simp: file_written_def file_inv_def file_at_def same_env_def fault_free_def o(3))
  ultimately show ?thesis by (rule that)
qed

end
