(* ===== verification/Peer_Transport.thy ===== *)
theory Peer_Transport
  imports Stream_Cipher
begin

text \<open>
  The transport of the peer-to-peer server, \<open>src/distributed-fs/p2p\<close>.

  A connection is modelled at one of its ends: the segments that have arrived and are not read
  yet, the segments that were written, and when it ends or breaks. A segment is what one \<open>Read\<close>
  with a large buffer returns; TCP keeps the order of the bytes, not the boundaries of the
  writes, so where a property needs a boundary it says so. A \<open>Read\<close> with nothing to read blocks,
  which is the value \<open>None\<close>. Between two steps of a goroutine others may run; a step (a decoded
  frame, a handled message) runs from beginning to end.
\<close>

section \<open>Connections\<close>

record conn =
  cn_remote :: string
  cn_in :: "byte list list"
  cn_end :: "error option option"
  cn_out :: "byte list list"
  cn_room :: "(nat \<times> error) option"

text \<open>How it ends, once it does: closed by the other side, or with an error.\<close>

definition end_status :: "error option \<Rightarrow> read_status" where
  "end_status x = (case x of None \<Rightarrow> ReadEOF | Some e \<Rightarrow> ReadFailed e)"

definition conn_Read :: "nat \<Rightarrow> conn \<Rightarrow> ((byte list \<times> read_status) \<times> conn) option" where
  "conn_Read n c =
     (case cn_in c of
        [] \<Rightarrow> (case cn_end c of None \<Rightarrow> None | Some x \<Rightarrow> Some (([], end_status x), c))
      | seg # rest \<Rightarrow>
          Some ((take n seg, ReadMore), c\<lparr>cn_in := (if length seg \<le> n then rest else drop n seg # rest)\<rparr>))"

text \<open>\<open>cn_room\<close> is how many bytes the connection still takes before it fails, if it ever does.\<close>

definition conn_Write :: "conn writer" where
  "conn_Write b c =
     (case cn_room c of
        None \<Rightarrow> ((length b, None), c\<lparr>cn_out := cn_out c @ [b]\<rparr>)
      | Some (n, e) \<Rightarrow>
          if length b \<le> n then ((length b, None), c\<lparr>cn_out := cn_out c @ [b], cn_room := Some (n - length b, e)\<rparr>)
          else ((n, Some e), c\<lparr>cn_out := cn_out c @ [take n b], cn_room := Some (0, e)\<rparr>))"

definition conn_Close :: "conn \<Rightarrow> conn" where
  "conn_Close c = c\<lparr>cn_in := [], cn_end := Some (Some (ErrOther ''use of closed network connection'')),
     cn_room := Some (0, ErrOther ''use of closed network connection'')\<rparr>"

section \<open>Messages and peers\<close>

definition IncomingMessage :: byte where
  "IncomingMessage = 0x1"

definition IncomingStream :: byte where
  "IncomingStream = 0x2"

record RPC =
  rpc_From :: string
  rpc_Payload :: "byte list"
  rpc_Stream :: bool

definition RPC_zero :: RPC where
  "RPC_zero = \<lparr>rpc_From = '''', rpc_Payload = [], rpc_Stream = False\<rparr>"

text \<open>\<open>tp_wg\<close> is the counter of the wait group; \<open>tp_reading\<close> that the read loop has not returned.\<close>

record TCPeer =
  tp_Conn :: conn
  tp_outbound :: bool
  tp_wg :: nat
  tp_reading :: bool

definition NewTCPeer :: "conn \<Rightarrow> bool \<Rightarrow> TCPeer" where
  "NewTCPeer c outbound = \<lparr>tp_Conn = c, tp_outbound = outbound, tp_wg = 0, tp_reading = True\<rparr>"

text \<open>\<open>wg.Done\<close> panics when the counter would become negative.\<close>

definition CloseStream :: "TCPeer \<Rightarrow> unit result \<times> TCPeer" where
  "CloseStream p =
     (if tp_wg p = 0 then (Inl (Panic ''sync: negative WaitGroup counter''), p) else (Inr (), p\<lparr>tp_wg := tp_wg p - 1\<rparr>))"

definition peer_Write :: "TCPeer writer" where
  "peer_Write b p = (let (r, c) = conn_Write b (tp_Conn p) in (r, p\<lparr>tp_Conn := c\<rparr>))"

definition Send :: "byte list \<Rightarrow> TCPeer \<Rightarrow> error option \<times> TCPeer" where
  "Send b p = (let ((_, err), p') = peer_Write b p in (err, p'))"

section \<open>Decoding frames\<close>

text \<open>The error of a \<open>Read\<close> that delivers nothing.\<close>

fun status_error :: "read_status \<Rightarrow> error option" where
  "status_error ReadMore = None"
| "status_error ReadEOF = Some (ErrOther ''EOF'')"
| "status_error (ReadFailed e) = Some e"

definition DefaultDecoder_Decode :: "conn \<Rightarrow> (RPC result \<times> conn) option" where
  "DefaultDecoder_Decode c =
     (case conn_Read 1 c of
        None \<Rightarrow> None
      | Some ((peekBuf, st), c1) \<Rightarrow>
          (case status_error st of
             Some err \<Rightarrow> Some (Inl err, c1)
           | None \<Rightarrow>
               if peekBuf = [IncomingStream] then Some (Inr (RPC_zero\<lparr>rpc_Stream := True\<rparr>), c1)
               else
                 (case conn_Read 1028 c1 of
                    None \<Rightarrow> None
                  | Some ((buf, st2), c2) \<Rightarrow>
                      (case status_error st2 of
                         Some err \<Rightarrow> Some (Inl err, c2)
                       | None \<Rightarrow> Some (Inr (RPC_zero\<lparr>rpc_Payload := buf\<rparr>), c2)))))"

definition NOPHandshakeFunc :: "TCPeer \<Rightarrow> unit result" where
  "NOPHandshakeFunc p = Inr ()"

text \<open>
  \<open>handleConn\<close>: first the handshake, which can refuse the connection; then its loop, one frame at
  a time. A stream marker makes the loop wait until the stream is closed. The step yields the
  peer and the message for the channel; \<open>None\<close> while it waits or has nothing to read.
\<close>

definition handleConn_start :: "(TCPeer \<Rightarrow> unit result) \<Rightarrow> conn \<Rightarrow> bool \<Rightarrow> TCPeer result" where
  "handleConn_start handshake c outbound =
     (let peer = NewTCPeer c outbound in bind_result (handshake peer) (\<lambda>_. Inr peer))"

definition handleConn_step :: "TCPeer \<Rightarrow> (TCPeer \<times> RPC option) option" where
  "handleConn_step peer =
     (if \<not> tp_reading peer \<or> 0 < tp_wg peer then None
      else
        (case DefaultDecoder_Decode (tp_Conn peer) of
           None \<Rightarrow> None
         | Some (Inl _, c) \<Rightarrow> Some (peer\<lparr>tp_Conn := conn_Close c, tp_reading := False\<rparr>, None)
         | Some (Inr rpc, c) \<Rightarrow>
             if rpc_Stream rpc then Some (peer\<lparr>tp_Conn := c, tp_wg := tp_wg peer + 1\<rparr>, None)
             else Some (peer\<lparr>tp_Conn := c\<rparr>, Some (rpc\<lparr>rpc_From := cn_remote c\<rparr>))))"

text \<open>The capacity of the channel between the read loops and the server.\<close>

definition rpcCh_capacity :: nat where
  "rpcCh_capacity = 1024"

text \<open>The loop until it blocks, with the messages it puts into the channel.\<close>

function handleConn_loop :: "TCPeer \<Rightarrow> RPC list \<Rightarrow> TCPeer \<times> RPC list" where
  "handleConn_loop peer ch =
     (if rpcCh_capacity \<le> length ch then (peer, ch)
      else
        (case handleConn_step peer of
           None \<Rightarrow> (peer, ch)
         | Some (peer', None) \<Rightarrow> handleConn_loop peer' ch
         | Some (peer', Some rpc) \<Rightarrow> handleConn_loop peer' (ch @ [rpc])))"
  by pat_completeness auto

definition unread :: "conn \<Rightarrow> nat" where
  "unread c = sum_list (map (\<lambda>seg. Suc (length seg)) (cn_in c))"

lemma conn_Read_unread:
  assumes "conn_Read n c = Some ((b, st), c')" and "0 < n"
  shows "unread c' < unread c \<or> (\<exists>err. status_error st = Some err)"
  using assms by (auto simp: conn_Read_def unread_def end_status_def split: list.splits option.splits if_splits)

lemma DefaultDecoder_unread:
  assumes "DefaultDecoder_Decode c = Some (Inr rpc, c')"
  shows "unread c' < unread c"
  using assms conn_Read_unread [of 1 c] conn_Read_unread [of 1028]
  by (fastforce simp: DefaultDecoder_Decode_def split: option.splits if_splits prod.splits)

termination handleConn_loop
proof (relation "measure (\<lambda>(peer, ch). unread (tp_Conn peer) + (if tp_reading peer then 1 else 0))", simp, goal_cases)
  case (1 peer ch x peer' r)
  then show ?case
    using DefaultDecoder_unread [of "tp_Conn peer"]
    by (auto simp: handleConn_step_def conn_Close_def unread_def split: if_splits option.splits sum.splits)
next
  case (2 peer ch x peer' r rpc)
  then show ?case
    using DefaultDecoder_unread [of "tp_Conn peer"]
    by (auto simp: handleConn_step_def split: if_splits option.splits sum.splits)
qed

declare handleConn_loop.simps [simp del]

section \<open>Reading streams from a connection\<close>

text \<open>
  A stream read through the peer: the segments that are there, and then its end, or that the
  next \<open>Read\<close> has to wait. A call that runs into \<open>would_block\<close> has not returned.
\<close>

definition would_block :: error where
  "would_block = Panic ''would block''"

definition conn_end :: "conn \<Rightarrow> read_status" where
  "conn_end c = (case cn_end c of None \<Rightarrow> ReadFailed would_block | Some x \<Rightarrow> end_status x)"

definition conn_reads :: "conn \<Rightarrow> read_event list" where
  "conn_reads c = map (\<lambda>seg. (seg, ReadMore)) (cn_in c) @ [([], conn_end c)]"

text \<open>\<open>io.LimitReader(peer, n)\<close>.\<close>

fun limit_segments :: "nat \<Rightarrow> byte list list \<Rightarrow> read_status \<Rightarrow> read_event list" where
  "limit_segments n [] st = (if n = 0 then [([], ReadEOF)] else [([], st)])"
| "limit_segments n (seg # rest) st =
     (if n = 0 then [([], ReadEOF)]
      else if n \<le> length seg then [(take n seg, ReadMore), ([], ReadEOF)]
      else (seg, ReadMore) # limit_segments (n - length seg) rest st)"

definition limit_reads :: "int \<Rightarrow> conn \<Rightarrow> read_event list" where
  "limit_reads n c = limit_segments (nat n) (cn_in c) (conn_end c)"

text \<open>The connection after \<open>n\<close> bytes were read from it.\<close>

fun drop_segments :: "nat \<Rightarrow> byte list list \<Rightarrow> byte list list" where
  "drop_segments n [] = []"
| "drop_segments n (seg # rest) =
     (if length seg \<le> n then drop_segments (n - length seg) rest else drop n seg # rest)"

definition conn_advance :: "nat \<Rightarrow> conn \<Rightarrow> conn" where
  "conn_advance n c = c\<lparr>cn_in := drop_segments n (cn_in c)\<rparr>"

lemma drain_limit_segments:
  "n \<le> length (concat segs) \<Longrightarrow> drain (limit_segments n segs st) = (take n (concat segs), None)"
  by (induction n segs st rule: limit_segments.induct) auto

lemma drain_limit_blocks:
  "length (concat segs) < n \<Longrightarrow> drain (limit_segments n segs (ReadFailed e)) = (concat segs, Some e)"
  by (induction n segs "ReadFailed e" rule: limit_segments.induct) auto

lemma concat_drop_segments [simp]: "concat (drop_segments n segs) = drop n (concat segs)"
  by (induction n segs rule: drop_segments.induct) auto

lemma drain_conn_reads: "cn_end c = None \<Longrightarrow> drain (conn_reads c) = (concat (cn_in c), Some would_block)"
proof -
  have "drain (map (\<lambda>seg. (seg, ReadMore)) segs @ [([], ReadFailed e)]) = (concat segs, Some e)" for segs e
    by (induction segs) auto
  then show "cn_end c = None \<Longrightarrow> ?thesis" by (simp add: conn_reads_def conn_end_def)
qed

end
