(* ===== verification/Peer_Server.thy ===== *)
theory Peer_Server
  imports Peer_Transport
begin

text \<open>
  The peer-to-peer file server, \<open>src/distributed-fs/server.go\<close>: it keeps files on its own disk
  and an encrypted copy of each on every peer.

  \<open>gob\<close> is a parameter: a record with an encoder and a decoder of messages, of which the
  properties use that what was encoded decodes to the same message. Files, connections and the
  channel of received messages are part of the state of a server. Where the code sleeps, the
  other goroutines and the peers go on: \<open>sleep\<close> is what happens to the server in that time. A
  call that waits for bytes that have not arrived has not returned, which is \<open>None\<close>. The order
  of the list of peers is the order in which the loops over the map meet them.
\<close>

section \<open>Data\<close>

record FileServerOpts =
  fo_ID :: string
  fo_EncKey :: "byte list"
  fo_StorageRoot :: string
  fo_PathTransformFunc :: "PathTransformFunc option"
  fo_ListenAddr :: string
  fo_BootstrapNodes :: "string list"

text \<open>
  The transport of a server, \<open>TCPTransport\<close>, is the part of its state with the address, the listener
  and the channel \<open>rpcCh\<close>; \<open>makeServer\<close> sets its callback to \<open>OnPeer\<close> of the same server.
\<close>

datatype listener = NoListener | Listening | ClosedListener

record FileServer =
  fv_ID :: string
  fv_EncKey :: "byte list"
  fv_ListenAddr :: string
  fv_BootstrapNodes :: "string list"
  fv_peers :: "TCPeer gomap"
  fv_store :: Store
  fv_disk :: file_system
  fv_rpcCh :: "RPC list"
  fv_listener :: listener
  fv_quit :: bool

definition NewFileServer :: "byte list \<Rightarrow> FileServerOpts \<Rightarrow> file_system \<Rightarrow> FileServer" where
  "NewFileServer rnd opts fs =
     (let storeOpts = \<lparr>so_Root = fo_StorageRoot opts, so_PathTransformFunc = fo_PathTransformFunc opts\<rparr>;
          nid = (if length (fo_ID opts) = 0 then generateID rnd else fo_ID opts)
      in \<lparr>fv_ID = nid, fv_EncKey = fo_EncKey opts, fv_ListenAddr = fo_ListenAddr opts,
          fv_BootstrapNodes = fo_BootstrapNodes opts, fv_peers = [], fv_store = NewStore storeOpts,
          fv_disk = fs, fv_rpcCh = [], fv_listener = NoListener, fv_quit = False\<rparr>)"

record MessageStoreFile =
  msf_ID :: string
  msf_Key :: string
  msf_Size :: int

record MessageGetFile =
  mgf_ID :: string
  mgf_Key :: string

datatype Payload = PayloadStoreFile MessageStoreFile | PayloadGetFile MessageGetFile

record Message =
  msg_Payload :: "Payload option"

record gob =
  gob_Encode :: "Message \<Rightarrow> byte list result"
  gob_Decode :: "byte list \<Rightarrow> Message result"

section \<open>Peers\<close>

definition OnPeer :: "TCPeer \<Rightarrow> FileServer \<Rightarrow> unit result \<times> FileServer" where
  "OnPeer p s = (Inr (), s\<lparr>fv_peers := gm_put (cn_remote (tp_Conn p)) p (fv_peers s)\<rparr>)"

definition Stop :: "FileServer \<Rightarrow> unit result \<times> FileServer" where
  "Stop s = (if fv_quit s then (Inl (Panic ''close of closed channel''), s) else (Inr (), s\<lparr>fv_quit := True\<rparr>))"

fun broadcast_loop :: "byte list \<Rightarrow> TCPeer gomap \<Rightarrow> error option \<times> TCPeer gomap" where
  "broadcast_loop buf [] = (None, [])"
| "broadcast_loop buf ((addr, peer) # peers) =
     (let (_, p1) = Send [IncomingMessage] peer;
          (err, p2) = Send buf p1
      in case err of
           Some e \<Rightarrow> (Some e, (addr, p2) # peers)
         | None \<Rightarrow> (let (r, peers') = broadcast_loop buf peers in (r, (addr, p2) # peers')))"

definition broadcast :: "gob \<Rightarrow> Message \<Rightarrow> FileServer \<Rightarrow> error option \<times> FileServer" where
  "broadcast g msg s =
     (case gob_Encode g msg of
        Inl err \<Rightarrow> (Some err, s)
      | Inr buf \<Rightarrow> (let (r, peers) = broadcast_loop buf (fv_peers s) in (r, s\<lparr>fv_peers := peers\<rparr>)))"

text \<open>\<open>io.MultiWriter\<close> over the peers: one after the other, until one fails.\<close>

fun MultiWriter :: "TCPeer gomap writer" where
  "MultiWriter b [] = ((length b, None), [])"
| "MultiWriter b ((addr, peer) # peers) =
     (let ((n, err), p') = peer_Write b peer
      in case err of
           Some e \<Rightarrow> ((n, Some e), (addr, p') # peers)
         | None \<Rightarrow>
             if n \<noteq> length b then ((n, Some (ErrOther ''short write'')), (addr, p') # peers)
             else (let (r, peers') = MultiWriter b peers in (r, (addr, p') # peers')))"

text \<open>Reads from a buffer, and the copy loop of \<open>io.Copy\<close> into a connection.\<close>

function pieces :: "nat \<Rightarrow> byte list \<Rightarrow> byte list list" where
  "pieces n b = (if b = [] then [] else if n = 0 then [b] else take n b # pieces n (drop n b))"
  by pat_completeness auto
termination by (relation "measure (\<lambda>(n, b). length b)") auto

declare pieces.simps [simp del]

definition buffer_reads :: "byte list \<Rightarrow> read_event list" where
  "buffer_reads b = map (\<lambda>p. (p, ReadMore)) (pieces (32 * 1024) b)"

fun copy_to :: "'w writer \<Rightarrow> read_event list \<Rightarrow> 'w \<Rightarrow> error option \<times> 'w" where
  "copy_to write_to [] w = (None, w)"
| "copy_to write_to ((d, st) # es) w =
     (let ((n, werr), w') = (if d = [] then ((0, None), w) else write_to d w)
      in case werr of
           Some e \<Rightarrow> (Some e, w')
         | None \<Rightarrow>
             if n \<noteq> length d then (Some (ErrOther ''short write''), w')
             else case st of ReadMore \<Rightarrow> copy_to write_to es w' | ReadEOF \<Rightarrow> (None, w') | ReadFailed e \<Rightarrow> (Some e, w'))"

section \<open>Storing\<close>

text \<open>
  \<open>Store\<close>: to disk, with a copy of what was read kept in a buffer; then the announcement; then the
  encrypted stream. The error of writing the marker is ignored.
\<close>

definition FileServer_Store ::
  "(byte list \<Rightarrow> byte list \<Rightarrow> byte list) \<Rightarrow> (byte list \<Rightarrow> byte list) \<Rightarrow> gob \<Rightarrow> byte list \<Rightarrow> (FileServer \<Rightarrow> FileServer)
    \<Rightarrow> string \<Rightarrow> reader \<Rightarrow> FileServer \<Rightarrow> unit result \<times> FileServer" where
  "FileServer_Store AES MD5 g rnd sleep key r s =
     (case Write (fv_store s) (fv_ID s) key r (fv_disk s) of
        (Inl err, _, fs) \<Rightarrow> (Inl err, s\<lparr>fv_disk := fs\<rparr>)
      | (Inr sz, fileBuffer, fs) \<Rightarrow>
          (let msg = \<lparr>msg_Payload = Some (PayloadStoreFile \<lparr>msf_ID = fv_ID s, msf_Key = hashKey MD5 key, msf_Size = sz + 16\<rparr>)\<rparr>
           in case broadcast g msg (s\<lparr>fv_disk := fs\<rparr>) of
                (Some err, s1) \<Rightarrow> (Inl err, s1)
              | (None, s1) \<Rightarrow>
                  (let s2 = sleep s1;
                       (_, peers1) = MultiWriter [IncomingStream] (fv_peers s2);
                       (n, _, peers2) = copyEncrypt AES rnd (fv_EncKey s2) (buffer_reads fileBuffer) MultiWriter peers1;
                       s3 = s2\<lparr>fv_peers := peers2\<rparr>
                   in case n of Inl err \<Rightarrow> (Inl err, s3) | Inr _ \<Rightarrow> (Inr (), s3))))"

definition handleMessageStoreFile ::
  "string \<Rightarrow> MessageStoreFile \<Rightarrow> FileServer \<Rightarrow> (unit result \<times> FileServer) option" where
  "handleMessageStoreFile from_addr msg s =
     (case gm_get (fv_peers s) from_addr of
        None \<Rightarrow> Some (Inl (ErrOther (''peer ('' @ from_addr @ '') could not be found in the peer list'')), s)
      | Some peer \<Rightarrow>
          (let stream = \<lparr>rd_reads = limit_reads (msf_Size msg) (tp_Conn peer), rd_close = None\<rparr>;
               (n, taken, fs) = Write (fv_store s) (msf_ID msg) (msf_Key msg) stream (fv_disk s);
               peer1 = peer\<lparr>tp_Conn := conn_advance (length taken) (tp_Conn peer)\<rparr>
           in case n of
                Inl err \<Rightarrow>
                  if err = would_block then None
                  else Some (Inl err, s\<lparr>fv_disk := fs, fv_peers := gm_put from_addr peer1 (fv_peers s)\<rparr>)
              | Inr _ \<Rightarrow>
                  (let (r, peer2) = CloseStream peer1
                   in Some (r, s\<lparr>fv_disk := fs, fv_peers := gm_put from_addr peer2 (fv_peers s)\<rparr>))))"

section \<open>Fetching\<close>

definition handleMessageGetFile :: "string \<Rightarrow> MessageGetFile \<Rightarrow> FileServer \<Rightarrow> unit result \<times> FileServer" where
  "handleMessageGetFile from_addr msg s =
     (if \<not> Has (fv_store s) (mgf_ID msg) (mgf_Key msg) (fv_disk s)
      then (Inl (ErrOther (''['' @ fv_ListenAddr s @ ''] need to serve file ('' @ mgf_Key msg @ '') but it does not exist on disk'')), s)
      else
        (case Read (fv_store s) (mgf_ID msg) (mgf_Key msg) (fv_disk s) of
           Inl err \<Rightarrow> (Inl err, s)
         | Inr (fileSize, r) \<Rightarrow>
             (case gm_get (fv_peers s) from_addr of
                None \<Rightarrow> (Inl (ErrOther (''peer '' @ from_addr @ '' not in map'')), s)
              | Some peer \<Rightarrow>
                  (let (_, p1) = Send [IncomingStream] peer;
                       (_, p2) = peer_Write (le_bytes 8 (unat (word_of_int fileSize :: 64 word))) p1;
                       (err, p3) = copy_to peer_Write (rd_reads r) p2;
                       s' = s\<lparr>fv_peers := gm_put from_addr p3 (fv_peers s)\<rparr>
                   in case err of Some e \<Rightarrow> (Inl e, s') | None \<Rightarrow> (Inr (), s')))))"

text \<open>
  The loop of \<open>Get\<close> over the peers. \<open>binary.Read\<close> reads eight bytes; its error is ignored, and
  then the size is zero.
\<close>

fun get_loop ::
  "(byte list \<Rightarrow> byte list \<Rightarrow> byte list) \<Rightarrow> string \<Rightarrow> string list \<Rightarrow> FileServer \<Rightarrow> (unit result \<times> FileServer) option" where
  "get_loop AES key [] s = Some (Inr (), s)"
| "get_loop AES key (addr # addrs) s =
     (case gm_get (fv_peers s) addr of
        None \<Rightarrow> get_loop AES key addrs s
      | Some peer \<Rightarrow>
          (let (b, err, _) = ReadFull 8 (conn_reads (tp_Conn peer));
               fileSize = (if err = None then sint (word_of_nat (le_val b) :: 64 word) else 0);
               c1 = conn_advance (length b) (tp_Conn peer);
               (n, taken, fs) = WriteDecrypt AES (fv_store s) (fv_EncKey s) (fv_ID s) key (limit_reads fileSize c1) (fv_disk s);
               peer1 = peer\<lparr>tp_Conn := conn_advance (length taken) c1\<rparr>
           in if err = Some would_block then None
              else case n of
                     Inl e \<Rightarrow>
                       if e = would_block then None
                       else Some (Inl e, s\<lparr>fv_disk := fs, fv_peers := gm_put addr peer1 (fv_peers s)\<rparr>)
                   | Inr _ \<Rightarrow>
                       (case CloseStream peer1 of
                          (Inl p, peer2) \<Rightarrow> Some (Inl p, s\<lparr>fv_disk := fs, fv_peers := gm_put addr peer2 (fv_peers s)\<rparr>)
                        | (Inr _, peer2) \<Rightarrow>
                            get_loop AES key addrs (s\<lparr>fv_disk := fs, fv_peers := gm_put addr peer2 (fv_peers s)\<rparr>))))"

definition FileServer_Get ::
  "(byte list \<Rightarrow> byte list \<Rightarrow> byte list) \<Rightarrow> (byte list \<Rightarrow> byte list) \<Rightarrow> gob \<Rightarrow> (FileServer \<Rightarrow> FileServer)
    \<Rightarrow> string \<Rightarrow> FileServer \<Rightarrow> (reader result \<times> FileServer) option" where
  "FileServer_Get AES MD5 g sleep key s =
     (if Has (fv_store s) (fv_ID s) key (fv_disk s)
      then Some (map_sum id snd (Read (fv_store s) (fv_ID s) key (fv_disk s)), s)
      else
        (case broadcast g \<lparr>msg_Payload = Some (PayloadGetFile \<lparr>mgf_ID = fv_ID s, mgf_Key = hashKey MD5 key\<rparr>)\<rparr> s of
           (Some err, s1) \<Rightarrow> Some (Inl err, s1)
         | (None, s1) \<Rightarrow>
             (let s2 = sleep s1
              in case get_loop AES key (gm_keys (fv_peers s2)) s2 of
                   None \<Rightarrow> None
                 | Some (Inl err, s3) \<Rightarrow> Some (Inl err, s3)
                 | Some (Inr _, s3) \<Rightarrow>
                     Some (map_sum id snd (Read (fv_store s3) (fv_ID s3) key (fv_disk s3)), s3))))"

section \<open>The loops\<close>

definition handleMessage :: "string \<Rightarrow> Message \<Rightarrow> FileServer \<Rightarrow> (unit result \<times> FileServer) option" where
  "handleMessage from_addr msg s =
     (case msg_Payload msg of
        Some (PayloadStoreFile v) \<Rightarrow> handleMessageStoreFile from_addr v s
      | Some (PayloadGetFile v) \<Rightarrow> Some (handleMessageGetFile from_addr v s)
      | None \<Rightarrow> Some (Inr (), s))"

text \<open>
  The two branches of \<open>loop\<close>. A message that does not decode has no payload. When the server is
  being stopped, the loop ends and closes the transport, which is closing its listener: a call
  through a \<open>nil\<close> interface if there is none. When there is a message too, \<open>select\<close> may take either.
\<close>

definition loop_step :: "gob \<Rightarrow> FileServer \<Rightarrow> (unit result \<times> FileServer) option" where
  "loop_step g s =
     (case fv_rpcCh s of
        [] \<Rightarrow> None
      | rpc # ch \<Rightarrow>
          (let msg = (case gob_Decode g (rpc_Payload rpc) of Inl _ \<Rightarrow> \<lparr>msg_Payload = None\<rparr> | Inr m \<Rightarrow> m)
           in handleMessage (rpc_From rpc) msg (s\<lparr>fv_rpcCh := ch\<rparr>)))"

definition TCPTransport_Close :: "FileServer \<Rightarrow> unit result \<times> FileServer" where
  "TCPTransport_Close s =
     (case fv_listener s of
        NoListener \<Rightarrow> (Inl (Panic ''nil pointer dereference''), s)
      | Listening \<Rightarrow> (Inr (), s\<lparr>fv_listener := ClosedListener\<rparr>)
      | ClosedListener \<Rightarrow> (Inl (ErrOther ''use of closed network connection''), s))"

definition loop_quit :: "FileServer \<Rightarrow> (unit result \<times> FileServer) option" where
  "loop_quit s = (if fv_quit s then Some (TCPTransport_Close s) else None)"

text \<open>The read loop of one connection, until it waits.\<close>

definition read_loop :: "string \<Rightarrow> FileServer \<Rightarrow> FileServer" where
  "read_loop addr s =
     (case gm_get (fv_peers s) addr of
        None \<Rightarrow> s
      | Some peer \<Rightarrow>
          (let (peer', ch) = handleConn_loop peer (fv_rpcCh s)
           in s\<lparr>fv_peers := gm_put addr peer' (fv_peers s), fv_rpcCh := ch\<rparr>))"

text \<open>
  The start of \<open>handleConn\<close> on this server. \<open>Dial\<close>, where \<open>dial\<close> is the network, which gives a
  connection or refuses it; and the loop that accepts connections, over what \<open>Accept\<close> answers. The
  loop calls \<open>handleConn\<close> after a failed \<open>Accept\<close> too: the connection is \<open>nil\<close> then, and
  \<open>OnPeer\<close> asks it for its address.
\<close>

definition handleConn_open :: "conn \<Rightarrow> bool \<Rightarrow> FileServer \<Rightarrow> FileServer" where
  "handleConn_open c outbound s =
     (case handleConn_start NOPHandshakeFunc c outbound of Inl _ \<Rightarrow> s | Inr peer \<Rightarrow> snd (OnPeer peer s))"

definition Dial :: "(string \<Rightarrow> conn result) \<Rightarrow> string \<Rightarrow> FileServer \<Rightarrow> unit result \<times> FileServer" where
  "Dial dial addr s = (case dial addr of Inl err \<Rightarrow> (Inl err, s) | Inr c \<Rightarrow> (Inr (), handleConn_open c True s))"

datatype accept_event = Accepted conn | ListenerClosed | AcceptFailed error

fun startAcceptLoop :: "accept_event list \<Rightarrow> FileServer \<Rightarrow> unit result \<times> FileServer" where
  "startAcceptLoop [] s = (Inr (), s)"
| "startAcceptLoop (Accepted c # evs) s = startAcceptLoop evs (handleConn_open c False s)"
| "startAcceptLoop (ListenerClosed # evs) s = (Inr (), s)"
| "startAcceptLoop (AcceptFailed e # evs) s = (Inl (Panic ''nil pointer dereference''), s)"

fun bootstrapNetwork :: "(string \<Rightarrow> conn result) \<Rightarrow> string list \<Rightarrow> FileServer \<Rightarrow> FileServer" where
  "bootstrapNetwork dial [] s = s"
| "bootstrapNetwork dial (addr # addrs) s =
     (if length addr = 0 then bootstrapNetwork dial addrs s else bootstrapNetwork dial addrs (snd (Dial dial addr s)))"

text \<open>
  \<open>Start\<close>, up to the loop: \<open>listen\<close> is the answer of the operating system, and connections are
  accepted from then on.
\<close>

definition ListenAndAccept :: "(string \<Rightarrow> unit result) \<Rightarrow> FileServer \<Rightarrow> unit result \<times> FileServer" where
  "ListenAndAccept listen s =
     (case listen (fv_ListenAddr s) of
        Inl err \<Rightarrow> (Inl err, s\<lparr>fv_listener := NoListener\<rparr>)
      | Inr _ \<Rightarrow> (Inr (), s\<lparr>fv_listener := Listening\<rparr>))"

definition Start :: "(string \<Rightarrow> unit result) \<Rightarrow> (string \<Rightarrow> conn result) \<Rightarrow> FileServer \<Rightarrow> unit result \<times> FileServer" where
  "Start listen dial s =
     (case ListenAndAccept listen s of
        (Inl err, s') \<Rightarrow> (Inl err, s')
      | (Inr _, s') \<Rightarrow> (Inr (), bootstrapNetwork dial (fv_BootstrapNodes s') s'))"

definition makeServer :: "(string \<Rightarrow> string) \<Rightarrow> byte list \<Rightarrow> byte list \<Rightarrow> string \<Rightarrow> string list \<Rightarrow> file_system \<Rightarrow> FileServer" where
  "makeServer D rnd1 rnd2 listenAddr nodes fs =
     NewFileServer rnd2 \<lparr>fo_ID = '''', fo_EncKey = newEncryptionKey rnd1, fo_StorageRoot = listenAddr @ ''_network'',
       fo_PathTransformFunc = Some (CASPathTransformFunc D), fo_ListenAddr = listenAddr, fo_BootstrapNodes = nodes\<rparr> fs"

section \<open>What is sent\<close>

definition sent :: "byte list list \<Rightarrow> TCPeer \<Rightarrow> TCPeer" where
  "sent segs p = p\<lparr>tp_Conn := (tp_Conn p)\<lparr>cn_out := cn_out (tp_Conn p) @ segs\<rparr>\<rparr>"

definition writable :: "TCPeer gomap \<Rightarrow> bool" where
  "writable ps \<longleftrightarrow> list_all (\<lambda>(_, p). cn_room (tp_Conn p) = None) ps"

lemma sent_sel [simp]:
  "sent [] p = p" "sent b (sent a p) = sent (a @ b) p" "cn_room (tp_Conn (sent a p)) = cn_room (tp_Conn p)"
  "cn_in (tp_Conn (sent a p)) = cn_in (tp_Conn p)" "cn_end (tp_Conn (sent a p)) = cn_end (tp_Conn p)"
  "cn_out (tp_Conn (sent a p)) = cn_out (tp_Conn p) @ a" "tp_wg (sent a p) = tp_wg p"
  "tp_reading (sent a p) = tp_reading p" "cn_remote (tp_Conn (sent a p)) = cn_remote (tp_Conn p)"
  by (simp_all add: sent_def)

lemma peer_Write_sent: "cn_room (tp_Conn p) = None \<Longrightarrow> peer_Write b p = ((length b, None), sent [b] p)"
  by (simp add: peer_Write_def conn_Write_def sent_def)

lemma broadcast_loop_sent:
  "writable ps \<Longrightarrow> broadcast_loop buf ps = (None, map (apsnd (sent [[IncomingMessage], buf])) ps)"
  by (induction ps) (auto simp: writable_def Send_def peer_Write_sent Let_def)

lemma MultiWriter_sent: "writable ps \<Longrightarrow> MultiWriter b ps = ((length b, None), map (apsnd (sent [b])) ps)"
  by (induction ps) (auto simp: writable_def peer_Write_sent Let_def)

lemma writable_sent [simp]: "writable (map (apsnd (sent segs)) ps) = writable ps"
  by (induction ps) (auto simp: writable_def)

lemma sent_sent [simp]: "apsnd (sent b) (apsnd (sent a) x) = apsnd (sent (a @ b)) x"
  by (cases x) simp

interpretation peers_sink: byte_sink MultiWriter
  "\<lambda>w b n. writable ps \<and> (\<exists>segs. w = map (apsnd (sent segs)) ps \<and> concat segs = b)" for ps
proof (unfold_locales, goal_cases)
  case (1 w b n d)
  then obtain segs where w: "w = map (apsnd (sent segs)) ps" "concat segs = b" by blast
  with 1 have "MultiWriter d w = ((length d, None), map (apsnd (sent (segs @ [d]))) ps)" by (simp add: MultiWriter_sent)
  with 1 w show ?case by (auto intro!: exI [of _ "segs @ [d]"])
qed

lemma concat_pieces [simp]: "concat (pieces n b) = b"
  by (induction n b rule: pieces.induct) (subst pieces.simps, auto)

lemma drain_map_more: "drain (map (\<lambda>p. (p, ReadMore)) ps) = (concat ps, None)"
  by (induction ps) auto

lemma drain_buffer_reads [simp]: "drain (buffer_reads b) = (b, None)"
  by (simp add: buffer_reads_def drain_map_more)

text \<open>What a server needs to store and fetch files: the store is in order and the key has a valid size.\<close>

definition server_ok :: "(byte list \<Rightarrow> byte list \<Rightarrow> byte list) \<Rightarrow> (string \<Rightarrow> string) \<Rightarrow> string set \<Rightarrow> FileServer \<Rightarrow> bool" where
  "server_ok AES D K s \<longleftrightarrow> file_inv (fv_store s) D K (fv_disk s) \<and> block_function (AES (fv_EncKey s)) \<and>
     length (fv_EncKey s) \<in> {16, 24, 32}"

lemma FileServer_Store_sends:
  assumes "server_ok AES D K s" and "file_ok (fv_store s) D K (fv_ID s, key)" and "writable (fv_peers s)"
    and "drain (rd_reads r) = (data, None)" and "16 \<le> length rnd"
    and "gob_Encode g \<lparr>msg_Payload = Some (PayloadStoreFile \<lparr>msf_ID = fv_ID s, msf_Key = hashKey MD5 key,
           msf_Size = int (length data) + 16\<rparr>)\<rparr> = Inr buf"
  obtains fs segs where "file_written (fv_store s) D K (fv_ID s, key) (Some data) (fv_disk s) fs"
    and "concat segs = take 16 rnd @ ctr_xor (AES (fv_EncKey s)) (take 16 rnd) 0 data"
    and "FileServer_Store AES MD5 g rnd (\<lambda>s. s) key r s =
      (Inr (), s\<lparr>fv_disk := fs, fv_peers := map (apsnd (sent ([[IncomingMessage], buf, [IncomingStream]] @ segs))) (fv_peers s)\<rparr>)"
proof -
  have ok: "file_inv (fv_store s) D K (fv_disk s)" "block_function (AES (fv_EncKey s))" "length (fv_EncKey s) \<in> {16, 24, 32}"
    using assms(1) by (simp_all add: server_ok_def)
  obtain fs where fs: "Write (fv_store s) (fv_ID s) key r (fv_disk s) = (Inr (int (length data)), data, fs)"
    and w: "file_written (fv_store s) D K (fv_ID s, key) (Some data) (fv_disk s) fs"
    using Write_file [OF ok(1) assms(2,4)] .
  let ?ps = "map (apsnd (sent [[IncomingMessage], buf, [IncomingStream]])) (fv_peers s)"
  have "\<exists>w'. copyEncrypt AES rnd (fv_EncKey s) (buffer_reads data) MultiWriter ?ps =
      (case None of None \<Rightarrow> Inr (int (16 + length data)) | Some e \<Rightarrow> Inl e, data, w') \<and>
      (writable ?ps \<and> (\<exists>segs. w' = map (apsnd (sent segs)) ?ps \<and>
         concat segs = [] @ take 16 rnd @ ctr_xor (AES (fv_EncKey s)) (take 16 rnd) 0 data))"
    by (rule peers_sink.copyEncrypt_puts [where AES = AES and key = "fv_EncKey s" and n = "16 + length data", OF ok(2,3) assms(5)])
      (auto simp: assms(3) intro!: exI [of _ "[]"] map_idI)
  then obtain segs where segs: "concat segs = take 16 rnd @ ctr_xor (AES (fv_EncKey s)) (take 16 rnd) 0 data"
    and enc: "copyEncrypt AES rnd (fv_EncKey s) (buffer_reads data) MultiWriter ?ps =
      (Inr (int (16 + length data)), data, map (apsnd (sent segs)) ?ps)" by auto
  have "FileServer_Store AES MD5 g rnd (\<lambda>s. s) key r s =
      (Inr (), s\<lparr>fv_disk := fs, fv_peers := map (apsnd (sent segs)) ?ps\<rparr>)"
    using enc assms(3)
    by (simp add: FileServer_Store_def fs broadcast_def assms(6) broadcast_loop_sent MultiWriter_sent comp_def Let_def)
  then show ?thesis using that [OF w segs] by (simp add: comp_def)
qed

section \<open>What is received\<close>

definition received :: "byte list list \<Rightarrow> TCPeer \<Rightarrow> TCPeer" where
  "received segs p = p\<lparr>tp_Conn := (tp_Conn p)\<lparr>cn_in := segs\<rparr>\<rparr>"

lemma received_sel [simp]:
  "cn_in (tp_Conn (received segs p)) = segs" "tp_wg (received segs p) = tp_wg p" "tp_reading (received segs p) = tp_reading p"
  "cn_remote (tp_Conn (received segs p)) = cn_remote (tp_Conn p)" "cn_end (tp_Conn (received segs p)) = cn_end (tp_Conn p)"
  "received segs' (received segs p) = received segs' p" "cn_out (tp_Conn (received segs p)) = cn_out (tp_Conn p)"
  "cn_room (tp_Conn (received segs p)) = cn_room (tp_Conn p)"
  by (simp_all add: received_def)

text \<open>A connection whose read loop waits for the next frame.\<close>

definition idle :: "string \<Rightarrow> TCPeer \<Rightarrow> bool" where
  "idle addr p \<longleftrightarrow> tp_reading p \<and> tp_wg p = 0 \<and> cn_in (tp_Conn p) = [] \<and> cn_end (tp_Conn p) = None \<and> cn_remote (tp_Conn p) = addr"

lemma read_control:
  assumes "tp_reading p" and "tp_wg p = 0" and "cn_in (tp_Conn p) = [IncomingMessage] # buf # rest"
    and "length buf \<le> 1028" and "length ch < rpcCh_capacity"
  shows "handleConn_loop p ch = handleConn_loop (received rest p)
    (ch @ [\<lparr>rpc_From = cn_remote (tp_Conn p), rpc_Payload = buf, rpc_Stream = False\<rparr>])"
  using assms
  by (subst handleConn_loop.simps)
    (simp add: handleConn_step_def DefaultDecoder_Decode_def conn_Read_def RPC_zero_def received_def
      IncomingMessage_def IncomingStream_def)

lemma read_nothing: "cn_in (tp_Conn p) = [] \<Longrightarrow> cn_end (tp_Conn p) = None \<Longrightarrow> handleConn_loop p ch = (p, ch)"
  by (subst handleConn_loop.simps) (simp add: handleConn_step_def DefaultDecoder_Decode_def conn_Read_def)

text \<open>
  Control messages arrive complete and in order. When the frames of any messages of at most
  1028 bytes have arrived, each marker and each message as it was sent, and the channel has room,
  the read loop puts exactly these messages into the channel, in order and with the address of
  the sender, and waits for more.
\<close>

theorem frames_in_order:
  assumes "idle addr (received [] p)" and "cn_in (tp_Conn p) = concat (map (\<lambda>b. [[IncomingMessage], b]) msgs)"
    and "\<forall>b \<in> set msgs. length b \<le> 1028" and "length ch + length msgs \<le> rpcCh_capacity"
  shows "handleConn_loop p ch =
    (received [] p, ch @ map (\<lambda>b. \<lparr>rpc_From = addr, rpc_Payload = b, rpc_Stream = False\<rparr>) msgs)"
  using assms
proof (induction msgs arbitrary: p ch)
  case Nil
  then have "received [] p = p" by (simp add: received_def)
  with Nil show ?case by (simp add: read_nothing idle_def)
next
  case (Cons b msgs)
  let ?rest = "concat (map (\<lambda>b. [[IncomingMessage], b]) msgs)"
  from Cons.prems have "handleConn_loop p ch =
      handleConn_loop (received ?rest p) (ch @ [\<lparr>rpc_From = addr, rpc_Payload = b, rpc_Stream = False\<rparr>])"
    using read_control [of p b ?rest ch] by (simp add: idle_def)
  with Cons.IH [of "received ?rest p" "ch @ [\<lparr>rpc_From = addr, rpc_Payload = b, rpc_Stream = False\<rparr>]"] Cons.prems
  show ?case by simp
qed

theorem frames_in_order_witness:
  "handleConn_loop (NewTCPeer \<lparr>cn_remote = ''b'', cn_in = [[IncomingMessage], [7, 8], [IncomingMessage], [9]], cn_end = None,
       cn_out = [], cn_room = None\<rparr> True) [] =
     (NewTCPeer \<lparr>cn_remote = ''b'', cn_in = [], cn_end = None, cn_out = [], cn_room = None\<rparr> True,
      [\<lparr>rpc_From = ''b'', rpc_Payload = [7, 8], rpc_Stream = False\<rparr>, \<lparr>rpc_From = ''b'', rpc_Payload = [9], rpc_Stream = False\<rparr>])"
  using frames_in_order [of "''b''" "NewTCPeer \<lparr>cn_remote = ''b'', cn_in = [[IncomingMessage], [7, 8], [IncomingMessage], [9]],
      cn_end = None, cn_out = [], cn_room = None\<rparr> True" "[[7, 8], [9]]" "[]"]
  by (simp add: idle_def received_def NewTCPeer_def rpcCh_capacity_def)

lemma read_waits: "0 < tp_wg p \<Longrightarrow> handleConn_loop p ch = (p, ch)"
  by (subst handleConn_loop.simps) (simp add: handleConn_step_def)

lemma read_stream:
  assumes "tp_reading p" and "tp_wg p = 0" and "cn_in (tp_Conn p) = [IncomingStream] # rest" and "length ch < rpcCh_capacity"
  shows "handleConn_loop p ch = ((received rest p)\<lparr>tp_wg := 1\<rparr>, ch)"
  using assms
  by (subst handleConn_loop.simps)
    (simp add: handleConn_step_def DefaultDecoder_Decode_def conn_Read_def RPC_zero_def received_def read_waits)

lemma drop_segments_all [simp]: "drop_segments (length (concat segs)) segs = []"
  by (induction segs) auto

text \<open>The announcement and the stream of a file, in the segments in which they were sent.\<close>

definition gob_frames :: "gob \<Rightarrow> Message \<Rightarrow> byte list \<Rightarrow> bool" where
  "gob_frames g msg buf \<longleftrightarrow> gob_Encode g msg = Inr buf \<and> gob_Decode g buf = Inr msg \<and> length buf \<le> 1028"

lemma peer_stores:
  assumes "file_inv (fv_store s) D K (fv_disk s)" and "file_ok (fv_store s) D K (nid, k)"
    and "\<not> fv_quit s" and "fv_rpcCh s = []" and "gm_get (fv_peers s) addr = Some p"
    and "idle addr (received [] p)" and "cn_in (tp_Conn p) = [[IncomingMessage], buf, [IncomingStream]] @ segs"
    and "gob_frames g \<lparr>msg_Payload = Some (PayloadStoreFile \<lparr>msf_ID = nid, msf_Key = k, msf_Size = int (length (concat segs))\<rparr>)\<rparr> buf"
  obtains fs where "file_written (fv_store s) D K (nid, k) (Some (concat segs)) (fv_disk s) fs"
    and "loop_step g (read_loop addr s) =
      Some (Inr (), s\<lparr>fv_disk := fs, fv_peers := gm_put addr (received [] p) (fv_peers s)\<rparr>)"
proof -
  have p: "tp_reading p" "tp_wg p = 0" "cn_remote (tp_Conn p) = addr" using assms(6) by (simp_all add: idle_def)
  let ?p1 = "(received segs p)\<lparr>tp_wg := 1\<rparr>"
  have "handleConn_loop p [] = (?p1, [\<lparr>rpc_From = addr, rpc_Payload = buf, rpc_Stream = False\<rparr>])"
    using p assms(7,8) read_control [of p buf "[IncomingStream] # segs" "[]"]
      read_stream [of "received ([IncomingStream] # segs) p" segs]
    by (simp add: gob_frames_def rpcCh_capacity_def)
  then have loop: "read_loop addr s = s\<lparr>fv_peers := gm_put addr ?p1 (fv_peers s),
      fv_rpcCh := [\<lparr>rpc_From = addr, rpc_Payload = buf, rpc_Stream = False\<rparr>]\<rparr>"
    by (simp add: read_loop_def assms(4,5))
  have "drain (limit_reads (int (length (concat segs))) (tp_Conn ?p1)) = (concat segs, None)"
    using drain_limit_segments [of "length (concat segs)" segs] by (simp add: limit_reads_def)
  then obtain fs where
    "Write (fv_store s) nid k \<lparr>rd_reads = limit_reads (int (length (concat segs))) (tp_Conn ?p1), rd_close = None\<rparr> (fv_disk s) =
      (Inr (int (length (concat segs))), concat segs, fs)"
    and w: "file_written (fv_store s) D K (nid, k) (Some (concat segs)) (fv_disk s) fs"
    using Write_file [OF assms(1,2), of "\<lparr>rd_reads = limit_reads (int (length (concat segs))) (tp_Conn ?p1), rd_close = None\<rparr>"]
    by auto
  moreover have "?p1\<lparr>tp_Conn := conn_advance (length (concat segs)) (tp_Conn ?p1), tp_wg := 0\<rparr> = received [] p"
    using p(2) by (simp add: received_def conn_advance_def)
  ultimately have "loop_step g (read_loop addr s) =
      Some (Inr (), s\<lparr>fv_disk := fs, fv_peers := gm_put addr (received [] p) (fv_peers s)\<rparr>)"
    using assms(3,4,8)
    by (simp add: loop loop_step_def gob_frames_def handleMessage_def handleMessageStoreFile_def CloseStream_def Let_def)
  with w that show ?thesis by blast
qed

lemma peer_serves:
  assumes "file_inv (fv_store s) D K (fv_disk s)" and "file_ok (fv_store s) D K (nid, k)"
    and "file_at (fv_store s) D (fv_disk s) (nid, k) = Some c" and "c \<noteq> []"
    and "\<not> fv_quit s" and "fv_rpcCh s = []" and "gm_get (fv_peers s) addr = Some p"
    and "idle addr (received [] p)" and "cn_room (tp_Conn p) = None" and "cn_in (tp_Conn p) = [[IncomingMessage], buf]"
    and "gob_frames g \<lparr>msg_Payload = Some (PayloadGetFile \<lparr>mgf_ID = nid, mgf_Key = k\<rparr>)\<rparr> buf"
  shows "loop_step g (read_loop addr s) = Some (Inr (), s\<lparr>fv_peers := gm_put addr
      (sent [[IncomingStream], le_bytes 8 (unat (word_of_int (int (length c)) :: 64 word)), c] (received [] p)) (fv_peers s)\<rparr>)"
proof -
  have p: "tp_reading p" "tp_wg p = 0" "cn_remote (tp_Conn p) = addr" "cn_end (tp_Conn p) = None"
    using assms(8) by (simp_all add: idle_def)
  have "handleConn_loop p [] = (received [] p, [\<lparr>rpc_From = addr, rpc_Payload = buf, rpc_Stream = False\<rparr>])"
    using p assms(10,11) read_control [of p buf "[]" "[]"] read_nothing [of "received [] p"]
    by (simp add: gob_frames_def rpcCh_capacity_def)
  then have loop: "read_loop addr s = s\<lparr>fv_peers := gm_put addr (received [] p) (fv_peers s),
      fv_rpcCh := [\<lparr>rpc_From = addr, rpc_Payload = buf, rpc_Stream = False\<rparr>]\<rparr>"
    by (simp add: read_loop_def assms(6,7))
  have "copy_to peer_Write [(c, ReadMore)] q = (None, sent [c] q)" if "cn_room (tp_Conn q) = None" for q
    using assms(4) that by (simp add: peer_Write_sent Let_def)
  with Read_file [OF assms(1,2)] assms show ?thesis
    by (simp add: loop loop_step_def gob_frames_def handleMessage_def handleMessageGetFile_def Send_def peer_Write_sent
        bytes_reader_def Let_def)
qed

text \<open>An answer that has arrived at a peer: its marker is read, and an encryption of the content follows.\<close>

definition answered :: "(byte list \<Rightarrow> byte list \<Rightarrow> byte list) \<Rightarrow> byte list \<Rightarrow> byte list \<Rightarrow> TCPeer \<Rightarrow> bool" where
  "answered AES key data p \<longleftrightarrow> 0 < tp_wg p \<and> cn_end (tp_Conn p) = None \<and> 16 + length data < 2 ^ 63 \<and>
     (\<exists>iv. length iv = 16 \<and>
       concat (cn_in (tp_Conn p)) = le_bytes 8 (16 + length data) @ iv @ ctr_xor (AES key) iv 0 data)"

lemma size_word: "n < 2 ^ 63 \<Longrightarrow> sint (word_of_nat n :: 64 word) = int n"
  by (simp add: signed_of_nat signed_take_bit_int_eq_self)

lemma size_unat:
  assumes "n < 2 ^ 63"
  shows "unat (word_of_int (int n) :: 64 word) = n"
  using assms by (simp add: unsigned_of_nat take_bit_nat_eq_self of_int_of_nat_eq)

text \<open>A connection after an answer was read from it: nothing is left, and the read loop may go on.\<close>

definition settled :: "TCPeer \<Rightarrow> TCPeer" where
  "settled p = (received [] p)\<lparr>tp_wg := tp_wg p - 1\<rparr>"

lemma gm_put_in_place:
  "gm_wf m \<Longrightarrow> gm_get m k = Some v \<Longrightarrow> gm_put k (f v) m = gm_update_all (\<lambda>k' v'. if k' = k then f v' else v') m"
  by (induction m) (auto simp: gm_wf_def gm_update_all_def rev_image_eqI intro!: map_idI [symmetric])

lemma gm_update_all_twice: "gm_update_all f (gm_update_all g m) = gm_update_all (\<lambda>k v. f k (g k v)) m"
  by (auto simp: gm_update_all_def)

lemma get_loop_answer:
  assumes "server_ok AES D K s" and "file_ok (fv_store s) D K (fv_ID s, key)"
    and "gm_get (fv_peers s) a = Some p" and "answered AES (fv_EncKey s) data p"
  obtains fs where "get_loop AES key (a # addrs) s =
      get_loop AES key addrs (s\<lparr>fv_disk := fs, fv_peers := gm_put a (settled p) (fv_peers s)\<rparr>)"
    and "file_written (fv_store s) D K (fv_ID s, key) (Some data) (fv_disk s) fs"
proof -
  from assms(4) obtain iv where p: "0 < tp_wg p" "cn_end (tp_Conn p) = None" "16 + length data < 2 ^ 63" "length iv = 16"
    "concat (cn_in (tp_Conn p)) = le_bytes 8 (16 + length data) @ iv @ ctr_xor (AES (fv_EncKey s)) iv 0 data"
    by (auto simp: answered_def)
  let ?cipher = "iv @ ctr_xor (AES (fv_EncKey s)) iv 0 data" and ?c1 = "conn_advance 8 (tp_Conn p)"
  have ok: "file_inv (fv_store s) D K (fv_disk s)" "block_function (AES (fv_EncKey s))" "length (fv_EncKey s) \<in> {16, 24, 32}"
    using assms(1) by (simp_all add: server_ok_def)
  obtain rest where rf: "ReadFull 8 (conn_reads (tp_Conn p)) = (le_bytes 8 (16 + length data), None, rest)"
    using ReadFull_enough [OF drain_conn_reads [OF p(2)], of 8] p(5) by auto
  have sz: "sint (word_of_nat (le_val (le_bytes 8 (16 + length data))) :: 64 word) = int (16 + length data)"
    using size_word [OF p(3)] p(3) by simp
  have "drain (limit_reads (int (16 + length data)) ?c1) = (?cipher, None)"
    using drain_limit_segments [of "16 + length data" "drop_segments 8 (cn_in (tp_Conn p))"] p(4,5)
    by (simp add: limit_reads_def conn_advance_def nat_add_distrib)
  then obtain fs where wd: "WriteDecrypt AES (fv_store s) (fv_EncKey s) (fv_ID s) key (limit_reads (int (16 + length data)) ?c1)
      (fv_disk s) = (Inr (int (16 + length data)), ?cipher, fs)"
    and w: "file_written (fv_store s) D K (fv_ID s, key) (Some data) (fv_disk s) fs"
    using WriteDecrypt_file [where AES = AES and key = "fv_EncKey s", OF ok(1) assms(2) ok(2,3) _ p(4)]
    by (metis ctr_xor_twice length_ctr_xor)
  let ?p' = "p\<lparr>tp_Conn := conn_advance (length ?cipher) ?c1, tp_wg := tp_wg p - 1\<rparr>"
  have "drop_segments (length ?cipher) (drop_segments 8 (cn_in (tp_Conn p))) = []"
    using drop_segments_all [of "drop_segments 8 (cn_in (tp_Conn p))"] p(5) by simp
  then have "?p' = settled p" by (simp add: settled_def received_def conn_advance_def)
  then have "get_loop AES key (a # addrs) s =
      get_loop AES key addrs (s\<lparr>fv_disk := fs, fv_peers := gm_put a (settled p) (fv_peers s)\<rparr>)"
    using assms(3) p(1) rf sz wd by (simp add: CloseStream_def Let_def del: of_nat_add)
  from this w show ?thesis by (rule that)
qed

text \<open>A peer that has not answered, and will not.\<close>

definition silent :: "TCPeer \<Rightarrow> bool" where
  "silent p \<longleftrightarrow> cn_in (tp_Conn p) = [] \<and> cn_end (tp_Conn p) = None"

lemma get_loop_silent:
  "gm_get (fv_peers s) a = Some p \<Longrightarrow> silent p \<Longrightarrow> get_loop AES key (a # addrs) s = None"
  by (simp add: silent_def conn_reads_def conn_end_def case_prod_beta Let_def)

lemma get_loop_peers:
  assumes "server_ok AES D K s" and "file_ok (fv_store s) D K (fv_ID s, key)" and "distinct addrs" and "gm_wf (fv_peers s)"
    and "\<And>a. a \<in> set addrs \<Longrightarrow> \<exists>p. gm_get (fv_peers s) a = Some p \<and> (answered AES (fv_EncKey s) data p \<or> silent p)"
  shows "(if \<exists>a \<in> set addrs. \<exists>p. gm_get (fv_peers s) a = Some p \<and> silent p then get_loop AES key addrs s = None
     else \<exists>fs. get_loop AES key addrs s = Some (Inr (), s\<lparr>fv_disk := fs,
         fv_peers := gm_update_all (\<lambda>a p. if a \<in> set addrs then settled p else p) (fv_peers s)\<rparr>) \<and>
       file_written (fv_store s) D K (fv_ID s, key)
         (if addrs = [] then file_at (fv_store s) D (fv_disk s) (fv_ID s, key) else Some data) (fv_disk s) fs)"
  using assms
proof (induction addrs arbitrary: s)
  case Nil
  then show ?case by (auto simp: server_ok_def file_written_def gm_update_all_def intro!: exI [of _ "fv_disk s"])
next
  case (Cons a addrs)
  from Cons.prems(5) [of a] obtain p where p: "gm_get (fv_peers s) a = Some p" "answered AES (fv_EncKey s) data p \<or> silent p"
    by auto
  show ?case
  proof (cases "silent p")
    case True
    with p(1) get_loop_silent show ?thesis by fastforce
  next
    case False
    with p have ans: "answered AES (fv_EncKey s) data p" by simp
    obtain fs where step: "get_loop AES key (a # addrs) s =
        get_loop AES key addrs (s\<lparr>fv_disk := fs, fv_peers := gm_put a (settled p) (fv_peers s)\<rparr>)"
      and w: "file_written (fv_store s) D K (fv_ID s, key) (Some data) (fv_disk s) fs"
      using get_loop_answer [OF Cons.prems(1,2) p(1) ans] .
    define s' where "s' = s\<lparr>fv_disk := fs, fv_peers := gm_put a (settled p) (fv_peers s)\<rparr>"
    have all: "gm_update_all (\<lambda>a p. if a \<in> set addrs then settled p else p) (fv_peers s') =
        gm_update_all (\<lambda>x p. if x \<in> set (a # addrs) then settled p else p) (fv_peers s)"
      using Cons.prems(3) gm_put_in_place [OF Cons.prems(4) p(1), of settled]
      by (auto simp: s'_def gm_update_all_twice fun_eq_iff intro!: arg_cong [where f = "\<lambda>f. gm_update_all f _"])
    have sel: "fv_store s' = fv_store s" "fv_ID s' = fv_ID s" "fv_disk s' = fs" "fv_EncKey s' = fv_EncKey s"
      "\<And>x. x \<in> set addrs \<Longrightarrow> gm_get (fv_peers s') x = gm_get (fv_peers s) x"
      "\<And>fs ps. s'\<lparr>fv_disk := fs, fv_peers := ps\<rparr> = s\<lparr>fv_disk := fs, fv_peers := ps\<rparr>"
      using Cons.prems(3) by (auto simp: s'_def)
    have "server_ok AES D K s'" using Cons.prems(1) w by (simp add: server_ok_def sel file_written_def)
    moreover have "file_ok (fv_store s') D K (fv_ID s', key)" "distinct addrs" "gm_wf (fv_peers s')"
      using Cons.prems(2-4) by (simp_all add: sel) (simp add: s'_def)
    moreover have "\<exists>p. gm_get (fv_peers s') x = Some p \<and> (answered AES (fv_EncKey s') data p \<or> silent p)" if "x \<in> set addrs" for x
      using Cons.prems(5) [of x] that by (simp add: sel)
    ultimately have IH: "(if \<exists>a \<in> set addrs. \<exists>p. gm_get (fv_peers s') a = Some p \<and> silent p then get_loop AES key addrs s' = None
        else \<exists>fs'. get_loop AES key addrs s' = Some (Inr (), s'\<lparr>fv_disk := fs',
            fv_peers := gm_update_all (\<lambda>a p. if a \<in> set addrs then settled p else p) (fv_peers s')\<rparr>) \<and>
          file_written (fv_store s') D K (fv_ID s', key)
            (if addrs = [] then file_at (fv_store s') D (fv_disk s') (fv_ID s', key) else Some data) (fv_disk s') fs')"
      by (rule Cons.IH)
    note IH = this [unfolded all sel(1-4) sel(6)]
    have written: "file_written (fv_store s) D K (fv_ID s, key) (Some data) (fv_disk s) fs'"
      if "file_written (fv_store s) D K (fv_ID s, key)
            (if addrs = [] then file_at (fv_store s) D fs (fv_ID s, key) else Some data) fs fs'" for fs'
      using that w Cons.prems(2) by (auto simp: file_written_def)
    show ?thesis
    proof (cases "\<exists>a \<in> set addrs. \<exists>p. gm_get (fv_peers s) a = Some p \<and> silent p")
      case True
      with IH sel(5) step show ?thesis by (auto simp: s'_def [symmetric])
    next
      case False
      with IH obtain fs' where "get_loop AES key addrs s' = Some (Inr (), s\<lparr>fv_disk := fs',
            fv_peers := gm_update_all (\<lambda>x p. if x \<in> set (a # addrs) then settled p else p) (fv_peers s)\<rparr>)"
        "file_written (fv_store s) D K (fv_ID s, key)
            (if addrs = [] then file_at (fv_store s) D fs (fv_ID s, key) else Some data) fs fs'"
        by (auto simp: sel(5) cong: bex_cong)
      with written False \<open>\<not> silent p\<close> p(1) step show ?thesis by (auto simp: s'_def [symmetric])
    qed
  qed
qed

section \<open>Correctness of fetching\<close>

lemma FileServer_Get_peers:
  assumes "server_ok AES D K s" and "file_ok (fv_store s) D K (fv_ID s, key)"
    and "file_at (fv_store s) D (fv_disk s) (fv_ID s, key) = None" and "writable (fv_peers s)"
    and "gob_Encode g \<lparr>msg_Payload = Some (PayloadGetFile \<lparr>mgf_ID = fv_ID s, mgf_Key = hashKey MD5 key\<rparr>)\<rparr> = Inr buf"
    and "sleep (s\<lparr>fv_peers := map (apsnd (sent [[IncomingMessage], buf])) (fv_peers s)\<rparr>) = s\<lparr>fv_peers := ps\<rparr>"
  shows "FileServer_Get AES MD5 g sleep key s =
      (case get_loop AES key (gm_keys ps) (s\<lparr>fv_peers := ps\<rparr>) of
         None \<Rightarrow> None
       | Some (Inl err, s') \<Rightarrow> Some (Inl err, s')
       | Some (Inr _, s') \<Rightarrow> Some (map_sum id snd (Read (fv_store s') (fv_ID s') key (fv_disk s')), s'))"
  using assms Read_file(2) [of "fv_store s" D K "fv_disk s" "fv_ID s" key]
  by (simp add: FileServer_Get_def server_ok_def broadcast_def broadcast_loop_sent Let_def)

lemma get_peers_cases:
  assumes "server_ok AES D K s" and "file_ok (fv_store s) D K (fv_ID s, key)"
    and "gm_wf ps" and "ps \<noteq> []" and "\<forall>(a, p) \<in> set ps. answered AES (fv_EncKey s) data p \<or> silent p"
  shows "(\<exists>(a, p) \<in> set ps. silent p) \<Longrightarrow> get_loop AES key (gm_keys ps) (s\<lparr>fv_peers := ps\<rparr>) = None"
    and "\<not> (\<exists>(a, p) \<in> set ps. silent p) \<Longrightarrow>
      \<exists>fs. get_loop AES key (gm_keys ps) (s\<lparr>fv_peers := ps\<rparr>) =
          Some (Inr (), s\<lparr>fv_disk := fs, fv_peers := map (apsnd settled) ps\<rparr>) \<and>
        file_written (fv_store s) D K (fv_ID s, key) (Some data) (fv_disk s) fs"
proof -
  let ?s = "s\<lparr>fv_peers := ps\<rparr>"
  have mem: "gm_get ps a = Some p \<longleftrightarrow> (a, p) \<in> set ps" for a p using gm_get_Some_iff [OF assms(3)] .
  have "server_ok AES D K ?s" "file_ok (fv_store ?s) D K (fv_ID ?s, key)" using assms(1,2) by (simp_all add: server_ok_def)
  moreover have "distinct (gm_keys ps)" "gm_keys ps \<noteq> []" "gm_wf (fv_peers ?s)" using assms(3,4) by (simp_all add: gm_wf_def gm_keys_def)
  moreover have "\<exists>p. gm_get (fv_peers ?s) a = Some p \<and> (answered AES (fv_EncKey ?s) data p \<or> silent p)" if "a \<in> set (gm_keys ps)" for a
    using that assms(5) mem by (fastforce simp: gm_keys_def)
  moreover have all: "gm_update_all (\<lambda>a p. if a \<in> set (gm_keys ps) then settled p else p) ps = map (apsnd settled) ps"
    by (auto simp: gm_update_all_def gm_keys_def rev_image_eqI)
  ultimately have loop: "(if \<exists>a \<in> set (gm_keys ps). \<exists>p. gm_get ps a = Some p \<and> silent p then get_loop AES key (gm_keys ps) ?s = None
     else \<exists>fs. get_loop AES key (gm_keys ps) ?s = Some (Inr (), s\<lparr>fv_disk := fs, fv_peers := map (apsnd settled) ps\<rparr>) \<and>
       file_written (fv_store s) D K (fv_ID s, key) (Some data) (fv_disk s) fs)"
    using get_loop_peers [of AES D K ?s key "gm_keys ps" data] all by (simp cong: if_cong)
  have "(\<exists>a \<in> set (gm_keys ps). \<exists>p. gm_get ps a = Some p \<and> silent p) \<longleftrightarrow> (\<exists>(a, p) \<in> set ps. silent p)"
    unfolding mem by (force simp: gm_keys_def)
  with loop show "(\<exists>(a, p) \<in> set ps. silent p) \<Longrightarrow> get_loop AES key (gm_keys ps) ?s = None"
    "\<not> (\<exists>(a, p) \<in> set ps. silent p) \<Longrightarrow>
      \<exists>fs. get_loop AES key (gm_keys ps) ?s = Some (Inr (), s\<lparr>fv_disk := fs, fv_peers := map (apsnd settled) ps\<rparr>) \<and>
        file_written (fv_store s) D K (fv_ID s, key) (Some data) (fv_disk s) fs"
    by (simp_all only: if_True if_False)
qed

lemma FileServer_Get_answered:
  assumes "server_ok AES D K s" and "file_ok (fv_store s) D K (fv_ID s, key)"
    and "file_at (fv_store s) D (fv_disk s) (fv_ID s, key) = None" and "writable (fv_peers s)"
    and "gob_Encode g \<lparr>msg_Payload = Some (PayloadGetFile \<lparr>mgf_ID = fv_ID s, mgf_Key = hashKey MD5 key\<rparr>)\<rparr> = Inr buf"
    and "sleep (s\<lparr>fv_peers := map (apsnd (sent [[IncomingMessage], buf])) (fv_peers s)\<rparr>) = s\<lparr>fv_peers := ps\<rparr>"
    and "gm_wf ps" and "ps \<noteq> []" and "\<forall>(a, p) \<in> set ps. answered AES (fv_EncKey s) data p"
    and "\<not> (\<exists>(a, p) \<in> set ps. silent p)"
  shows "\<exists>fs. FileServer_Get AES MD5 g sleep key s =
      Some (Inr (bytes_reader data), s\<lparr>fv_disk := fs, fv_peers := map (apsnd settled) ps\<rparr>) \<and>
    file_written (fv_store s) D K (fv_ID s, key) (Some data) (fv_disk s) fs"
proof -
  from get_peers_cases(2) [OF assms(1,2,7,8) _ assms(10), of data] assms(9) obtain fs where
    run: "get_loop AES key (gm_keys ps) (s\<lparr>fv_peers := ps\<rparr>) = Some (Inr (), s\<lparr>fv_disk := fs, fv_peers := map (apsnd settled) ps\<rparr>)"
    and w: "file_written (fv_store s) D K (fv_ID s, key) (Some data) (fv_disk s) fs" by blast
  then have "Read (fv_store s) (fv_ID s) key fs = Inr (int (length data), bytes_reader data)"
    using Read_file(1) [of "fv_store s" D K fs "fv_ID s" key] assms(2) by (auto simp: file_written_def)
  with FileServer_Get_peers [where sleep = sleep, OF assms(1-6)] run w show ?thesis by (intro exI [of _ fs]) simp
qed

text \<open>
  C32. Fetching from peers is exact, and waits for every one of them. A server without the file
  asks its peers; in the meantime its connections become \<open>ps\<close>. If every peer has answered with
  an encryption of the same content under the server's key, whatever the initial vectors and
  however the bytes are split, the answer of \<open>Get\<close> is exactly that content, which is now on the
  server's own disk, and no other file changed. If a single peer has not answered, \<open>Get\<close> does not
  return, even if all the others have. A peer that does not have the file does not answer.
\<close>

theorem get_from_peers:
  assumes "server_ok AES D K s" and "file_ok (fv_store s) D K (fv_ID s, key)"
    and "file_at (fv_store s) D (fv_disk s) (fv_ID s, key) = None" and "writable (fv_peers s)"
    and "gob_Encode g \<lparr>msg_Payload = Some (PayloadGetFile \<lparr>mgf_ID = fv_ID s, mgf_Key = hashKey MD5 key\<rparr>)\<rparr> = Inr buf"
    and "gm_wf ps" and "ps \<noteq> []"
    and "\<forall>(a, p) \<in> set ps. answered AES (fv_EncKey s) data p \<or> silent p"
  shows "((\<forall>(a, p) \<in> set ps. \<not> silent p) \<longrightarrow>
      (\<exists>s'. FileServer_Get AES MD5 g (\<lambda>s. s\<lparr>fv_peers := ps\<rparr>) key s = Some (Inr (bytes_reader data), s') \<and>
        file_written (fv_store s) D K (fv_ID s, key) (Some data) (fv_disk s) (fv_disk s'))) \<and>
    ((\<exists>(a, p) \<in> set ps. silent p) \<longrightarrow> FileServer_Get AES MD5 g (\<lambda>s. s\<lparr>fv_peers := ps\<rparr>) key s = None) \<and>
    (file_inv (fv_store b) D' K' (fv_disk b) \<and> file_ok (fv_store b) D' K' (fv_ID s, hashKey MD5 key) \<and>
       file_at (fv_store b) D' (fv_disk b) (fv_ID s, hashKey MD5 key) = None \<longrightarrow>
       (\<exists>e. handleMessageGetFile addr \<lparr>mgf_ID = fv_ID s, mgf_Key = hashKey MD5 key\<rparr> b = (Inl e, b)))"
proof (intro conjI impI)
  let ?sleep = "\<lambda>s. s\<lparr>fv_peers := ps\<rparr>" let ?get = "FileServer_Get AES MD5 g ?sleep key s"
  have sl: "?sleep (s\<lparr>fv_peers := map (apsnd (sent [[IncomingMessage], buf])) (fv_peers s)\<rparr>) = s\<lparr>fv_peers := ps\<rparr>" by simp
  show "\<exists>s'. ?get = Some (Inr (bytes_reader data), s') \<and>
      file_written (fv_store s) D K (fv_ID s, key) (Some data) (fv_disk s) (fv_disk s')"
    if "\<forall>(a, p) \<in> set ps. \<not> silent p"
    using FileServer_Get_answered [where sleep = ?sleep and data = data, OF assms(1-5) sl assms(6,7)] assms(8) that by fastforce
  show "?get = None" if "\<exists>(a, p) \<in> set ps. silent p"
    using FileServer_Get_peers [where sleep = ?sleep, OF assms(1-5) sl] get_peers_cases(1) [OF assms(1,2,6-8) that] by simp
next
  assume "file_inv (fv_store b) D' K' (fv_disk b) \<and> file_ok (fv_store b) D' K' (fv_ID s, hashKey MD5 key) \<and>
       file_at (fv_store b) D' (fv_disk b) (fv_ID s, hashKey MD5 key) = None"
  then show "\<exists>e. handleMessageGetFile addr \<lparr>mgf_ID = fv_ID s, mgf_Key = hashKey MD5 key\<rparr> b = (Inl e, b)"
    using Read_file(2) [of "fv_store b" D' K' "fv_disk b"] by (simp add: handleMessageGetFile_def)
qed

text \<open>A small server, a codec for two messages, and a digest, for the witnesses.\<close>

definition demo_peer :: "string \<Rightarrow> TCPeer" where
  "demo_peer addr = NewTCPeer \<lparr>cn_remote = addr, cn_in = [], cn_end = None, cn_out = [], cn_room = None\<rparr> True"

definition demo_server :: "string \<Rightarrow> string \<Rightarrow> FileServer" where
  "demo_server nid peer = \<lparr>fv_ID = nid, fv_EncKey = replicate 16 7, fv_ListenAddr = '''', fv_BootstrapNodes = [],
     fv_peers = [(peer, demo_peer peer)], fv_store = demo_store, fv_disk = demo_disk, fv_rpcCh = [], fv_listener = Listening,
     fv_quit = False\<rparr>"

definition demo_md5 :: "byte list \<Rightarrow> byte list" where
  "demo_md5 b = b"

definition demo_store_msg :: Message where
  "demo_store_msg = \<lparr>msg_Payload = Some (PayloadStoreFile \<lparr>msf_ID = ''n1'', msf_Key = hashKey demo_md5 ''k'', msf_Size = 19\<rparr>)\<rparr>"

definition demo_get_msg :: Message where
  "demo_get_msg = \<lparr>msg_Payload = Some (PayloadGetFile \<lparr>mgf_ID = ''n1'', mgf_Key = hashKey demo_md5 ''k''\<rparr>)\<rparr>"

definition demo_gob :: gob where
  "demo_gob =
     \<lparr>gob_Encode = (\<lambda>m. if m = demo_store_msg then Inr [1] else if m = demo_get_msg then Inr [2] else Inl (ErrOther ''gob'')),
      gob_Decode = (\<lambda>b. if b = [1] then Inr demo_store_msg else if b = [2] then Inr demo_get_msg else Inl (ErrOther ''gob''))\<rparr>"

lemma demo_gob_frames: "gob_frames demo_gob demo_store_msg [1]" "gob_frames demo_gob demo_get_msg [2]"
  by (simp_all add: gob_frames_def demo_gob_def) (simp add: demo_store_msg_def demo_get_msg_def)

lemma demo_file_ok: "plain n \<Longrightarrow> file_ok demo_store demo_digest {s} (n, s)"
  by (simp add: file_ok_def cas_store_def demo_store_def NewStore_def defaultRootFolderName_def hex_digest_def
      demo_digest_def list_all_iff)

lemma demo_file_inv: "file_inv demo_store demo_digest K demo_disk"
  by (simp add: file_inv_def local_inv_empty fault_free_def demo_disk_def)

lemma demo_block: "block_function (demo_aes (replicate 16 7))"
  by (simp add: block_function_def demo_aes_def)

lemma demo_server_ok: "server_ok demo_aes demo_digest K (demo_server nid peer)"
  by (simp add: server_ok_def demo_server_def demo_file_inv demo_block)

lemma demo_idle: "idle addr (demo_peer addr)" "cn_room (tp_Conn (demo_peer addr)) = None"
  by (simp_all add: idle_def demo_peer_def NewTCPeer_def)

theorem get_from_peers_witness:
  "\<exists>s'. FileServer_Get demo_aes demo_md5 demo_gob
       (\<lambda>s. s\<lparr>fv_peers := [(''b'', (received [le_bytes 8 19, replicate 16 0, ctr_xor (demo_aes (replicate 16 7)) (replicate 16 0) 0 [1, 2, 3]]
          (demo_peer ''b''))\<lparr>tp_wg := 1\<rparr>)]\<rparr>) ''k'' (demo_server ''n1'' ''b'') = Some (Inr (bytes_reader [1, 2, 3]), s') \<and>
     FileServer_Get demo_aes demo_md5 demo_gob (\<lambda>s. s\<lparr>fv_peers := [(''b'', demo_peer ''b'')]\<rparr>) ''k'' (demo_server ''n1'' ''b'') = None"
proof -
  let ?s = "demo_server ''n1'' ''b''"
  define p where "p = (received [le_bytes 8 19, replicate 16 0, ctr_xor (demo_aes (replicate 16 7)) (replicate 16 0) 0 [1, 2, 3]]
          (demo_peer ''b''))\<lparr>tp_wg := 1\<rparr>"
  have n1: "plain ''n1''" by (simp add: plain_def)
  have ok: "file_ok (fv_store ?s) demo_digest {''k''} (fv_ID ?s, ''k'')"
    using demo_file_ok [OF n1] by (simp add: demo_server_def)
  have none: "file_at (fv_store ?s) demo_digest (fv_disk ?s) (fv_ID ?s, ''k'') = None"
    by (simp add: demo_server_def file_at_def local_content_def fs_node_def demo_disk_def)
  have wr: "writable (fv_peers ?s)" by (simp add: demo_server_def writable_def demo_idle)
  have enc: "gob_Encode demo_gob \<lparr>msg_Payload = Some (PayloadGetFile \<lparr>mgf_ID = fv_ID ?s, mgf_Key = hashKey demo_md5 ''k''\<rparr>)\<rparr> = Inr [2]"
    using demo_gob_frames(2) by (simp add: gob_frames_def demo_get_msg_def demo_server_def)
  have ans: "answered demo_aes (fv_EncKey ?s) [1, 2, 3] p"
    by (simp add: p_def answered_def demo_server_def demo_peer_def NewTCPeer_def received_def del: le_bytes.simps ctr_xor.simps)
  have talks: "\<not> silent p" "silent (demo_peer ''b'')"
    by (simp_all add: silent_def p_def demo_peer_def NewTCPeer_def received_def)
  have wf: "gm_wf [(''b'', q)]" "[(''b'', q)] \<noteq> []" for q :: TCPeer by (simp_all add: gm_wf_def)
  have all: "\<forall>(a, q) \<in> set [(''b'', p)]. answered demo_aes (fv_EncKey ?s) [1, 2, 3] q \<or> silent q"
    "\<forall>(a, q) \<in> set [(''b'', demo_peer ''b'')]. answered demo_aes (fv_EncKey ?s) [1, 2, 3] q \<or> silent q"
    using ans talks(2) by simp_all
  have yes: "\<forall>(a, q) \<in> set [(''b'', p)]. \<not> silent q" and no: "\<exists>(a, q) \<in> set [(''b'', demo_peer ''b'')]. silent q"
    using talks by simp_all
  note G = get_from_peers [OF demo_server_ok ok none wr enc wf]
  have "\<exists>s'. FileServer_Get demo_aes demo_md5 demo_gob (\<lambda>s. s\<lparr>fv_peers := [(''b'', p)]\<rparr>) ''k'' ?s =
      Some (Inr (bytes_reader [1, 2, 3]), s')" using mp [OF conjunct1 [OF G [OF all(1)]] yes] by blast
  moreover have "FileServer_Get demo_aes demo_md5 demo_gob (\<lambda>s. s\<lparr>fv_peers := [(''b'', demo_peer ''b'')]\<rparr>) ''k'' ?s = None"
    using mp [OF conjunct1 [OF conjunct2 [OF G [OF all(2)]]] no] .
  ultimately show ?thesis unfolding p_def by blast
qed

section \<open>The marker of a stream\<close>

text \<open>
  C33. The handler of an announcement races with the read loop. Both read the same connection. If
  the handler runs before the read loop has taken the marker of the stream, the marker becomes
  the first byte of the stored file, whose last byte is left on the connection, and closing the
  stream panics, because nobody waits for it.
\<close>

theorem stream_marker_race:
  assumes "file_inv (fv_store s) D K (fv_disk s)" and "file_ok (fv_store s) D K (nid, k)"
    and "gm_get (fv_peers s) addr = Some p" and "tp_wg p = 0" and "cn_in (tp_Conn p) = [IncomingStream] # segs"
    and "concat segs = c @ [x]"
  shows "\<exists>s' p'. handleMessageStoreFile addr \<lparr>msf_ID = nid, msf_Key = k, msf_Size = int (length (concat segs))\<rparr> s =
      Some (Inl (Panic ''sync: negative WaitGroup counter''), s') \<and>
    file_at (fv_store s) D (fv_disk s') (nid, k) = Some (IncomingStream # c) \<and>
    gm_get (fv_peers s') addr = Some p' \<and> concat (cn_in (tp_Conn p')) = [x]"
proof -
  let ?n = "length (concat segs)" let ?rd = "\<lparr>rd_reads = limit_reads (int ?n) (tp_Conn p), rd_close = None\<rparr>"
  have n: "?n = Suc (length c)" by (simp add: assms(6))
  have "drain (rd_reads ?rd) = (IncomingStream # c, None)"
  proof -
    have "limit_reads (int ?n) (tp_Conn p) = limit_segments ?n ([IncomingStream] # segs) (conn_end (tp_Conn p))"
      by (simp only: limit_reads_def assms(5) nat_int)
    with drain_limit_segments [of ?n "[IncomingStream] # segs" "conn_end (tp_Conn p)"] show ?thesis
      by (simp add: assms(6) del: limit_segments.simps)
  qed
  then obtain fs where w: "Write (fv_store s) nid k ?rd (fv_disk s) = (Inr (int (length (IncomingStream # c))), IncomingStream # c, fs)"
    and fw: "file_written (fv_store s) D K (nid, k) (Some (IncomingStream # c)) (fv_disk s) fs"
    using Write_file [OF assms(1,2)] by blast
  let ?p' = "p\<lparr>tp_Conn := conn_advance (Suc (length c)) (tp_Conn p)\<rparr>"
  have "handleMessageStoreFile addr \<lparr>msf_ID = nid, msf_Key = k, msf_Size = int ?n\<rparr> s =
      Some (Inl (Panic ''sync: negative WaitGroup counter''), s\<lparr>fv_disk := fs, fv_peers := gm_put addr ?p' (fv_peers s)\<rparr>)"
    using w assms(3,4) by (simp add: handleMessageStoreFile_def CloseStream_def Let_def)
  moreover have "concat (cn_in (tp_Conn ?p')) = [x]" by (simp add: conn_advance_def assms(5,6))
  ultimately show ?thesis using fw assms(2) by (auto simp: file_written_def)
qed

theorem stream_marker_race_witness:
  "\<exists>s'. handleMessageStoreFile ''b'' \<lparr>msf_ID = ''n2'', msf_Key = ''k'', msf_Size = 2\<rparr>
      ((demo_server ''n1'' ''b'')\<lparr>fv_peers := [(''b'', received [[IncomingStream], [5, 6]] (demo_peer ''b''))]\<rparr>) =
      Some (Inl (Panic ''sync: negative WaitGroup counter''), s') \<and>
    file_at demo_store demo_digest (fv_disk s') (''n2'', ''k'') = Some [IncomingStream, 5]"
proof -
  let ?p = "received [[IncomingStream], [5, 6]] (demo_peer ''b'')"
  let ?s = "(demo_server ''n1'' ''b'')\<lparr>fv_peers := [(''b'', ?p)]\<rparr>"
  have "plain ''n2''" by (simp add: plain_def)
  then have "file_ok (fv_store ?s) demo_digest {''k''} (''n2'', ''k'')" using demo_file_ok by (simp add: demo_server_def)
  moreover have "file_inv (fv_store ?s) demo_digest {''k''} (fv_disk ?s)" by (simp add: demo_server_def demo_file_inv)
  moreover have "tp_wg ?p = 0" using demo_idle(1) [of "''b''"] by (simp add: idle_def)
  ultimately show ?thesis
    using stream_marker_race [of ?s demo_digest "{''k''}" "''n2''" "''k''" "''b''" ?p "[[5, 6]]" "[5]" 6]
    by (auto simp: demo_server_def)
qed

section \<open>Accepting connections\<close>

lemma startAcceptLoop_accepted:
  "startAcceptLoop (map Accepted cs @ evs) s = startAcceptLoop evs (fold (\<lambda>c. handleConn_open c False) cs s)"
  by (induction cs arbitrary: s) simp_all

text \<open>An error of \<open>Accept\<close> ends the process, whatever was accepted before.\<close>

lemma failed_accept_panics:
  "fst (startAcceptLoop (map Accepted cs @ AcceptFailed e # evs) s) = Inl (Panic ''nil pointer dereference'')"
  by (simp add: startAcceptLoop_accepted)

end
