(* ===== verification/Peer_Network.thy ===== *)
theory Peer_Network
  imports Peer_Server
begin

text \<open>
  Servers that are connected: one server with any number of peers, the sessions it has with
  them, and the demonstration of \<open>main.go\<close> (\<open>runP2PDemo\<close>), with servers made by \<open>makeServer\<close>.

  The segments that one side writes are taken to arrive at the other as they were written, and a
  peer handles what has arrived before the server goes on; what happens otherwise is shown in
  \<open>Peer_Server\<close>. Every server has a disk of its own.
\<close>

section \<open>A server and its peers\<close>

text \<open>Segments arrive on a connection; what was written on one; and a server that reads and handles a message.\<close>

definition arrive :: "string \<Rightarrow> byte list list \<Rightarrow> FileServer \<Rightarrow> FileServer" where
  "arrive addr segs s =
     (case gm_get (fv_peers s) addr of
        None \<Rightarrow> s
      | Some p \<Rightarrow> s\<lparr>fv_peers := gm_put addr (received (cn_in (tp_Conn p) @ segs) p) (fv_peers s)\<rparr>)"

definition outbox :: "string \<Rightarrow> FileServer \<Rightarrow> byte list list" where
  "outbox addr s = (case gm_get (fv_peers s) addr of None \<Rightarrow> [] | Some p \<Rightarrow> cn_out (tp_Conn p))"

definition serve :: "gob \<Rightarrow> string \<Rightarrow> byte list list \<Rightarrow> FileServer \<Rightarrow> (unit result \<times> FileServer) option" where
  "serve g addr segs s = loop_step g (read_loop addr (arrive addr segs s))"

text \<open>
  While \<open>s\<close>, which its peer \<open>B\<close> knows as \<open>a\<close>, sleeps: what it has written on the connection to \<open>b\<close>
  after the first \<open>n\<close> segments reaches \<open>B\<close>, and the answer reaches the read loop of \<open>s\<close>.
\<close>

definition ask_peer :: "gob \<Rightarrow> string \<Rightarrow> string \<Rightarrow> nat \<Rightarrow> FileServer \<Rightarrow> FileServer \<Rightarrow> FileServer" where
  "ask_peer g a b n B s =
     (case serve g a (drop n (outbox b s)) B of
        None \<Rightarrow> s
      | Some (_, B') \<Rightarrow> read_loop b (arrive b (drop (length (outbox a B)) (outbox a B')) s))"

lemma received_idle: "idle addr p \<Longrightarrow> received [] p = p"
  by (simp add: idle_def received_def)

lemma serve_announced:
  assumes "file_inv (fv_store s) D K (fv_disk s)" and "file_ok (fv_store s) D K (nid, k)" and "\<not> fv_quit s" and "fv_rpcCh s = []"
    and "gm_get (fv_peers s) addr = Some p" and "idle addr p"
    and "gob_frames g \<lparr>msg_Payload = Some (PayloadStoreFile \<lparr>msf_ID = nid, msf_Key = k, msf_Size = int (length (concat segs))\<rparr>)\<rparr> buf"
  obtains fs where "file_written (fv_store s) D K (nid, k) (Some (concat segs)) (fv_disk s) fs"
    and "serve g addr ([[IncomingMessage], buf, [IncomingStream]] @ segs) s =
      Some (Inr (), s\<lparr>fv_disk := fs, fv_peers := gm_put addr p (fv_peers s)\<rparr>)"
proof -
  let ?p = "received ([[IncomingMessage], buf, [IncomingStream]] @ segs) p"
  let ?s = "s\<lparr>fv_peers := gm_put addr ?p (fv_peers s)\<rparr>"
  have in_nil: "cn_in (tp_Conn p) = []" using assms(6) by (simp add: idle_def)
  have "idle addr (received [] ?p)" using assms(6) by (simp add: received_idle)
  from peer_stores [OF _ _ _ _ _ this _ assms(7), of ?s D K] assms(1-5) obtain fs where
    "file_written (fv_store s) D K (nid, k) (Some (concat segs)) (fv_disk s) fs"
    "loop_step g (read_loop addr ?s) = Some (Inr (), ?s\<lparr>fv_disk := fs, fv_peers := gm_put addr (received [] ?p) (fv_peers ?s)\<rparr>)"
    by auto
  with that show ?thesis using assms(5,6) in_nil by (simp add: serve_def arrive_def received_idle)
qed

lemma serve_fetch:
  assumes "file_inv (fv_store s) D K (fv_disk s)" and "file_ok (fv_store s) D K (nid, k)"
    and "file_at (fv_store s) D (fv_disk s) (nid, k) = Some c" and "c \<noteq> []" and "\<not> fv_quit s" and "fv_rpcCh s = []"
    and "gm_get (fv_peers s) addr = Some p" and "idle addr p" and "cn_room (tp_Conn p) = None"
    and "gob_frames g \<lparr>msg_Payload = Some (PayloadGetFile \<lparr>mgf_ID = nid, mgf_Key = k\<rparr>)\<rparr> buf"
  shows "serve g addr [[IncomingMessage], buf] s = Some (Inr (), s\<lparr>fv_peers := gm_put addr
      (sent [[IncomingStream], le_bytes 8 (unat (word_of_int (int (length c)) :: 64 word)), c] p) (fv_peers s)\<rparr>)"
proof -
  let ?p = "received [[IncomingMessage], buf] p"
  let ?s = "s\<lparr>fv_peers := gm_put addr ?p (fv_peers s)\<rparr>"
  have in_nil: "cn_in (tp_Conn p) = []" using assms(8) by (simp add: idle_def)
  have "idle addr (received [] ?p)" using assms(8) by (simp add: received_idle)
  from peer_serves [OF _ _ _ assms(4) _ _ _ this _ _ assms(10), of ?s D K] assms show ?thesis
    by (simp add: serve_def arrive_def received_idle in_nil)
qed

lemma ask_peer_answered:
  assumes "serve g a [[IncomingMessage], buf] B = Some (r, B')" and "outbox a B' = outbox a B @ [[IncomingStream], len, c]"
    and "gm_get (fv_peers s) b = Some q" and "idle b q" and "cn_out (tp_Conn q) = out @ [[IncomingMessage], buf]" and "fv_rpcCh s = []"
  shows "ask_peer g a b (length out) B s = s\<lparr>fv_peers := gm_put b ((received [len, c] q)\<lparr>tp_wg := 1\<rparr>) (fv_peers s)\<rparr>"
proof -
  have "handleConn_loop (received [[IncomingStream], len, c] q) [] = ((received [len, c] q)\<lparr>tp_wg := 1\<rparr>, [])"
    using read_stream [of "received [[IncomingStream], len, c] q" "[len, c]" "[]"] assms(4)
    by (simp add: idle_def rpcCh_capacity_def)
  moreover have "outbox b s = out @ [[IncomingMessage], buf]" using assms(3,5) by (simp add: outbox_def)
  ultimately show ?thesis
    using assms by (simp add: ask_peer_def arrive_def read_loop_def idle_def)
qed

text \<open>
  A peer: the address under which the server knows it, the address under which it knows the
  server, and its own state. \<open>remote_reads\<close>: it handles what the server has written between \<open>s\<close>
  and \<open>s'\<close>. \<open>ask_remotes\<close>: what happens to the server while it waits for the answers of all peers.
\<close>

record Remote =
  rm_addr :: string
  rm_self :: string
  rm_server :: FileServer

record p2p_net =
  pn_server :: FileServer
  pn_remotes :: "Remote list"

definition remote_reads :: "gob \<Rightarrow> FileServer \<Rightarrow> FileServer \<Rightarrow> Remote \<Rightarrow> Remote" where
  "remote_reads g s s' rm =
     (case serve g (rm_self rm) (drop (length (outbox (rm_addr rm) s)) (outbox (rm_addr rm) s')) (rm_server rm) of
        None \<Rightarrow> rm
      | Some (_, B) \<Rightarrow> rm\<lparr>rm_server := B\<rparr>)"

definition ask_remotes :: "gob \<Rightarrow> FileServer \<Rightarrow> Remote list \<Rightarrow> FileServer \<Rightarrow> FileServer" where
  "ask_remotes g s rms s' =
     fold (\<lambda>rm. ask_peer g (rm_self rm) (rm_addr rm) (length (outbox (rm_addr rm) s)) (rm_server rm)) rms s'"

section \<open>The demonstration\<close>

text \<open>One round of the loop of \<open>runP2PDemo\<close>: store, delete the local copy, get, and read all of it.\<close>

definition demo_round ::
  "(byte list \<Rightarrow> byte list \<Rightarrow> byte list) \<Rightarrow> (byte list \<Rightarrow> byte list) \<Rightarrow> gob \<Rightarrow> byte list \<Rightarrow> string \<Rightarrow> byte list
    \<Rightarrow> p2p_net \<Rightarrow> (byte list result \<times> p2p_net) option" where
  "demo_round AES MD5 g rnd key data net =
     (let s = pn_server net;
          (_, s1) = FileServer_Store AES MD5 g rnd (\<lambda>s. s) key (bytes_reader data) s;
          rms1 = map (remote_reads g s s1) (pn_remotes net)
      in case Delete (fv_store s1) (fv_ID s1) key (fv_disk s1) of
           (Inl err, fs) \<Rightarrow> Some (Inl err, \<lparr>pn_server = s1\<lparr>fv_disk := fs\<rparr>, pn_remotes = rms1\<rparr>)
         | (Inr _, fs) \<Rightarrow>
             (let s2 = s1\<lparr>fv_disk := fs\<rparr>
              in case FileServer_Get AES MD5 g (ask_remotes g s2 rms1) key s2 of
                   None \<Rightarrow> None
                 | Some (r, s3) \<Rightarrow>
                     Some (bind_result r (\<lambda>rd. case drain (rd_reads rd) of (b, None) \<Rightarrow> Inr b | (b, Some err) \<Rightarrow> Inl err),
                       \<lparr>pn_server = s3, pn_remotes = map (remote_reads g s2 s3) rms1\<rparr>)))"

text \<open>The loop, with the random bytes of every round; the lines it prints, or the error that ends the program.\<close>

fun demo_loop ::
  "(byte list \<Rightarrow> byte list \<Rightarrow> byte list) \<Rightarrow> (byte list \<Rightarrow> byte list) \<Rightarrow> gob \<Rightarrow> (string \<times> byte list \<times> byte list) list
    \<Rightarrow> p2p_net \<Rightarrow> (byte list list result \<times> p2p_net) option" where
  "demo_loop AES MD5 g [] net = Some (Inr [], net)"
| "demo_loop AES MD5 g ((key, data, rnd) # rounds) net =
     (case demo_round AES MD5 g rnd key data net of
        None \<Rightarrow> None
      | Some (Inl err, net') \<Rightarrow> Some (Inl err, net')
      | Some (Inr b, net') \<Rightarrow>
          map_option (\<lambda>(r, net''). (bind_result r (\<lambda>bs. Inr (b # bs)), net'')) (demo_loop AES MD5 g rounds net'))"

section \<open>Every peer answers\<close>

text \<open>A connection on which an answer has arrived, after the read loop has taken its marker.\<close>

definition with_answer :: "byte list list \<Rightarrow> TCPeer \<Rightarrow> TCPeer" where
  "with_answer segs q = (received segs q)\<lparr>tp_wg := 1\<rparr>"

lemma settled_answer: "idle b q \<Longrightarrow> settled (with_answer segs q) = q"
  by (simp add: settled_def with_answer_def received_def idle_def)

lemma ask_remotes_answered:
  assumes "gm_wf (fv_peers s')" and "fv_rpcCh s' = []" and "distinct (map rm_addr rms)"
    and "\<forall>rm \<in> set rms. \<exists>r B. serve g (rm_self rm) [[IncomingMessage], buf] (rm_server rm) = Some (r, B) \<and>
      outbox (rm_self rm) B = outbox (rm_self rm) (rm_server rm) @ [[IncomingStream], len, c]"
    and "\<forall>rm \<in> set rms. \<exists>q. gm_get (fv_peers s') (rm_addr rm) = Some q \<and> idle (rm_addr rm) q \<and>
      cn_out (tp_Conn q) = outbox (rm_addr rm) s @ [[IncomingMessage], buf]"
  shows "ask_remotes g s rms s' =
    s'\<lparr>fv_peers := gm_update_all (\<lambda>b q. if b \<in> rm_addr ` set rms then with_answer [len, c] q else q) (fv_peers s')\<rparr>"
  using assms
proof (induction rms arbitrary: s')
  case Nil
  then show ?case by (simp add: ask_remotes_def gm_update_all_def)
next
  case (Cons rm rms)
  let ?a = "rm_self rm" and ?b = "rm_addr rm"
  from Cons.prems(5) obtain q where q: "gm_get (fv_peers s') ?b = Some q" "idle ?b q"
    "cn_out (tp_Conn q) = outbox ?b s @ [[IncomingMessage], buf]" by auto
  from Cons.prems(4) obtain r B where "serve g ?a [[IncomingMessage], buf] (rm_server rm) = Some (r, B)"
    "outbox ?a B = outbox ?a (rm_server rm) @ [[IncomingStream], len, c]" by auto
  from ask_peer_answered [OF this q Cons.prems(2)] gm_put_in_place [OF Cons.prems(1) q(1), of "with_answer [len, c]"]
  have ask: "ask_peer g ?a ?b (length (outbox ?b s)) (rm_server rm) s' =
      s'\<lparr>fv_peers := gm_update_all (\<lambda>b q. if b = ?b then with_answer [len, c] q else q) (fv_peers s')\<rparr>" (is "_ = ?s1")
    by (simp add: with_answer_def)
  have other: "rm_addr x \<noteq> ?b" if "x \<in> set rms" for x using Cons.prems(3) that by (metis distinct.simps(2) imageI list.set_map list.simps(9))
  have "ask_remotes g s rms ?s1 = ?s1\<lparr>fv_peers := gm_update_all
      (\<lambda>b q. if b \<in> rm_addr ` set rms then with_answer [len, c] q else q) (fv_peers ?s1)\<rparr>"
    by (rule Cons.IH) (use Cons.prems other in \<open>auto simp: gm_wf_update_all\<close>)
  moreover have "(\<lambda>b q. if b \<in> rm_addr ` set rms then with_answer [len, c] (if b = ?b then with_answer [len, c] q else q)
      else if b = ?b then with_answer [len, c] q else q) =
    (\<lambda>b q. if b \<in> rm_addr ` set (rm # rms) then with_answer [len, c] q else q)"
    using other by (auto simp: fun_eq_iff with_answer_def received_def)
  ultimately show ?case by (simp add: ask_remotes_def ask gm_update_all_twice)
qed

section \<open>Networks in order\<close>

text \<open>The names of files have different digests; a peer is ready for messages; all of a network is.\<close>

definition names_ok :: "(string \<Rightarrow> string) \<Rightarrow> string set \<Rightarrow> bool" where
  "names_ok D K \<longleftrightarrow> (\<forall>key \<in> K. hex_digest (D key)) \<and> inj_on D K"

definition peer_ready :: "string \<Rightarrow> TCPeer \<Rightarrow> bool" where
  "peer_ready addr p \<longleftrightarrow> idle addr p \<and> cn_room (tp_Conn p) = None"

definition remote_ok :: "(string \<Rightarrow> string) \<Rightarrow> string set \<Rightarrow> Remote \<Rightarrow> bool" where
  "remote_ok D K rm \<longleftrightarrow>
     (let B = rm_server rm
      in file_inv (fv_store B) D K (fv_disk B) \<and> cas_store (fv_store B) D \<and> fv_rpcCh B = [] \<and> \<not> fv_quit B \<and>
         (\<exists>p. gm_get (fv_peers B) (rm_self rm) = Some p \<and> peer_ready (rm_self rm) p))"

definition net_ok ::
  "(byte list \<Rightarrow> byte list \<Rightarrow> byte list) \<Rightarrow> (string \<Rightarrow> string) \<Rightarrow> string set \<Rightarrow> string set \<Rightarrow> p2p_net \<Rightarrow> bool" where
  "net_ok AES D K K' net \<longleftrightarrow>
     (let s = pn_server net
      in server_ok AES D K s \<and> cas_store (fv_store s) D \<and> plain (fv_ID s) \<and> fv_rpcCh s = [] \<and> gm_wf (fv_peers s) \<and>
         gm_keys (fv_peers s) = map rm_addr (pn_remotes net) \<and> pn_remotes net \<noteq> [] \<and>
         gm_all peer_ready (fv_peers s) \<and> list_all (remote_ok D K') (pn_remotes net))"

lemma names_file_ok: "names_ok D K \<Longrightarrow> cas_store st D \<Longrightarrow> plain n \<Longrightarrow> k \<in> K \<Longrightarrow> file_ok st D K (n, k)"
  by (simp add: file_ok_def names_ok_def)

lemma remote_reads_store:
  assumes "remote_ok D K rm" and "names_ok D K" and "plain nid" and "k \<in> K"
    and "drop (length (outbox (rm_addr rm) s)) (outbox (rm_addr rm) s') = [[IncomingMessage], buf, [IncomingStream]] @ segs"
    and "gob_frames g \<lparr>msg_Payload = Some (PayloadStoreFile \<lparr>msf_ID = nid, msf_Key = k, msf_Size = int (length (concat segs))\<rparr>)\<rparr> buf"
  shows "\<exists>fs. remote_reads g s s' rm = rm\<lparr>rm_server := (rm_server rm)\<lparr>fv_disk := fs\<rparr>\<rparr> \<and>
    file_written (fv_store (rm_server rm)) D K (nid, k) (Some (concat segs)) (fv_disk (rm_server rm)) fs"
proof -
  let ?B = "rm_server rm"
  from assms(1) obtain p where B: "file_inv (fv_store ?B) D K (fv_disk ?B)" "cas_store (fv_store ?B) D" "fv_rpcCh ?B = []"
    "\<not> fv_quit ?B" "gm_get (fv_peers ?B) (rm_self rm) = Some p" "idle (rm_self rm) p"
    by (auto simp: remote_ok_def Let_def peer_ready_def)
  note ok = names_file_ok [OF assms(2) B(2) assms(3,4)]
  obtain fs where "file_written (fv_store ?B) D K (nid, k) (Some (concat segs)) (fv_disk ?B) fs"
    "serve g (rm_self rm) ([[IncomingMessage], buf, [IncomingStream]] @ segs) ?B =
      Some (Inr (), ?B\<lparr>fv_disk := fs, fv_peers := gm_put (rm_self rm) p (fv_peers ?B)\<rparr>)"
    using serve_announced [OF B(1) ok B(4,3,5,6) assms(6)] .
  with B(5) assms(5) show ?thesis by (auto simp: remote_reads_def update_triv)
qed

lemma remote_serves:
  assumes "remote_ok D K rm" and "names_ok D K" and "plain nid" and "k \<in> K"
    and "file_at (fv_store (rm_server rm)) D (fv_disk (rm_server rm)) (nid, k) = Some c" and "c \<noteq> []"
    and "gob_frames g \<lparr>msg_Payload = Some (PayloadGetFile \<lparr>mgf_ID = nid, mgf_Key = k\<rparr>)\<rparr> buf"
  shows "\<exists>B. serve g (rm_self rm) [[IncomingMessage], buf] (rm_server rm) = Some (Inr (), B) \<and>
    outbox (rm_self rm) B = outbox (rm_self rm) (rm_server rm) @
      [[IncomingStream], le_bytes 8 (unat (word_of_int (int (length c)) :: 64 word)), c] \<and>
    remote_ok D K (rm\<lparr>rm_server := B\<rparr>) \<and> fv_store B = fv_store (rm_server rm) \<and> fv_disk B = fv_disk (rm_server rm)"
proof -
  let ?B = "rm_server rm"
  from assms(1) obtain p where B: "file_inv (fv_store ?B) D K (fv_disk ?B)" "cas_store (fv_store ?B) D" "fv_rpcCh ?B = []"
    "\<not> fv_quit ?B" "gm_get (fv_peers ?B) (rm_self rm) = Some p" "idle (rm_self rm) p" "cn_room (tp_Conn p) = None"
    by (auto simp: remote_ok_def Let_def peer_ready_def)
  show ?thesis
    using serve_fetch [OF B(1) names_file_ok [OF assms(2) B(2) assms(3,4)] assms(5,6) B(4,3,5-7) assms(7)] B
    by (auto simp: outbox_def remote_ok_def Let_def peer_ready_def idle_def)
qed

text \<open>
  Storing into a network, and fetching from it: the server and all peers stay in order, and the
  files that change are the ones that should.
\<close>

definition same_server :: "FileServer \<Rightarrow> FileServer \<Rightarrow> bool" where
  "same_server s s' \<longleftrightarrow> fv_ID s' = fv_ID s \<and> fv_EncKey s' = fv_EncKey s \<and> fv_store s' = fv_store s"

lemma map_apsnd_update_all: "map (apsnd f) m = gm_update_all (\<lambda>_. f) m"
  by (induction m) (auto simp: gm_update_all_def)

lemma outbox_sent:
  "b \<in> set (gm_keys ps) \<Longrightarrow>
    outbox b (s\<lparr>fv_peers := map (apsnd (sent segs)) ps\<rparr>) = outbox b (s\<lparr>fv_peers := ps\<rparr>) @ segs"
  by (auto simp: outbox_def map_apsnd_update_all gm_get_keys)

lemma peer_ready_sent [simp]: "peer_ready b (sent segs p) = peer_ready b p"
  by (simp add: peer_ready_def idle_def)

lemma ready_sent: "gm_all peer_ready ps \<Longrightarrow> gm_all peer_ready (map (apsnd (sent segs)) ps)"
  unfolding map_apsnd_update_all by (rule gm_all_update_all) simp_all

lemma ready_writable: "gm_all peer_ready ps \<Longrightarrow> writable ps"
  by (auto simp: gm_all_def writable_def list_all_iff peer_ready_def)

lemma keys_sent [simp]: "gm_keys (map (apsnd f) ps) = gm_keys ps" "gm_wf (map (apsnd f) ps) = gm_wf ps"
  by (simp_all add: gm_keys_def gm_wf_def comp_def)

lemma net_okD:
  assumes "net_ok AES D K K' net"
  shows "server_ok AES D K (pn_server net)" and "cas_store (fv_store (pn_server net)) D" and "plain (fv_ID (pn_server net))"
    and "fv_rpcCh (pn_server net) = []" and "gm_wf (fv_peers (pn_server net))"
    and "gm_keys (fv_peers (pn_server net)) = map rm_addr (pn_remotes net)" and "pn_remotes net \<noteq> []"
    and "gm_all peer_ready (fv_peers (pn_server net))" and "\<And>rm. rm \<in> set (pn_remotes net) \<Longrightarrow> remote_ok D K' rm"
    and "\<And>rm. rm \<in> set (pn_remotes net) \<Longrightarrow> rm_addr rm \<in> set (gm_keys (fv_peers (pn_server net)))"
  using assms by (auto simp: net_ok_def Let_def list_all_iff)

lemma net_store:
  assumes "net_ok AES D K K' net" and "names_ok D K" and "names_ok D K'" and "key \<in> K" and "hashKey MD5 key \<in> K'"
    and "16 \<le> length rnd"
    and "gob_frames g \<lparr>msg_Payload = Some (PayloadStoreFile \<lparr>msf_ID = fv_ID (pn_server net), msf_Key = hashKey MD5 key,
           msf_Size = int (length data) + 16\<rparr>)\<rparr> buf"
  shows "\<exists>s'. FileServer_Store AES MD5 g rnd (\<lambda>s. s) key (bytes_reader data) (pn_server net) = (Inr (), s') \<and>
    same_server (pn_server net) s' \<and>
    file_written (fv_store s') D K (fv_ID s', key) (Some data) (fv_disk (pn_server net)) (fv_disk s') \<and>
    net_ok AES D K K' \<lparr>pn_server = s', pn_remotes = map (remote_reads g (pn_server net) s') (pn_remotes net)\<rparr> \<and>
    (\<forall>rm \<in> set (pn_remotes net). \<exists>fs. remote_reads g (pn_server net) s' rm = rm\<lparr>rm_server := (rm_server rm)\<lparr>fv_disk := fs\<rparr>\<rparr> \<and>
       file_written (fv_store (rm_server rm)) D K' (fv_ID s', hashKey MD5 key)
         (Some (take 16 rnd @ ctr_xor (AES (fv_EncKey s')) (take 16 rnd) 0 data)) (fv_disk (rm_server rm)) fs)"
proof -
  let ?s = "pn_server net" let ?c = "take 16 rnd @ ctr_xor (AES (fv_EncKey ?s)) (take 16 rnd) 0 data"
  note N = net_okD [OF assms(1)]
  have enc: "gob_Encode g \<lparr>msg_Payload = Some (PayloadStoreFile \<lparr>msf_ID = fv_ID ?s, msf_Key = hashKey MD5 key,
      msf_Size = int (length data) + 16\<rparr>)\<rparr> = Inr buf" using assms(7) by (simp add: gob_frames_def)
  obtain fs segs where fs: "file_written (fv_store ?s) D K (fv_ID ?s, key) (Some data) (fv_disk ?s) fs" and segs: "concat segs = ?c"
    and st: "FileServer_Store AES MD5 g rnd (\<lambda>s. s) key (bytes_reader data) ?s = (Inr (), ?s\<lparr>fv_disk := fs,
      fv_peers := map (apsnd (sent ([[IncomingMessage], buf, [IncomingStream]] @ segs))) (fv_peers ?s)\<rparr>)"
    using FileServer_Store_sends [OF N(1) names_file_ok [OF assms(2) N(2,3) assms(4)] ready_writable [OF N(8)] _ assms(6) enc]
    by (metis bytes_reader_sel(1))
  define s' where "s' = ?s\<lparr>fv_disk := fs,
      fv_peers := map (apsnd (sent ([[IncomingMessage], buf, [IncomingStream]] @ segs))) (fv_peers ?s)\<rparr>"
  have sel: "fv_store s' = fv_store ?s" "fv_ID s' = fv_ID ?s" "fv_EncKey s' = fv_EncKey ?s" "fv_disk s' = fs" by (simp_all add: s'_def)
  have out: "drop (length (outbox (rm_addr rm) ?s)) (outbox (rm_addr rm) s') = [[IncomingMessage], buf, [IncomingStream]] @ segs"
    if "rm \<in> set (pn_remotes net)" for rm
    using outbox_sent [OF N(10) [OF that], where s = "?s\<lparr>fv_disk := fs\<rparr>"] by (simp add: s'_def outbox_def)
  have len: "int (length (concat segs)) = int (length data) + 16" unfolding segs using assms(6) by simp
  have fr: "gob_frames g \<lparr>msg_Payload = Some (PayloadStoreFile \<lparr>msf_ID = fv_ID ?s, msf_Key = hashKey MD5 key,
      msf_Size = int (length (concat segs))\<rparr>)\<rparr> buf" unfolding len by (rule assms(7))
  have rms: "\<exists>fs. remote_reads g ?s s' rm = rm\<lparr>rm_server := (rm_server rm)\<lparr>fv_disk := fs\<rparr>\<rparr> \<and>
      file_written (fv_store (rm_server rm)) D K' (fv_ID ?s, hashKey MD5 key) (Some ?c) (fv_disk (rm_server rm)) fs"
    if "rm \<in> set (pn_remotes net)" for rm
    using remote_reads_store [OF N(9) [OF that] assms(3) N(3) assms(5) out [OF that] fr] unfolding segs .
  have "remote_ok D K' (remote_reads g ?s s' rm) \<and> rm_addr (remote_reads g ?s s' rm) = rm_addr rm" if "rm \<in> set (pn_remotes net)" for rm
    using rms [OF that] N(9) [OF that] by (auto simp: remote_ok_def file_written_def Let_def)
  then have "net_ok AES D K K' \<lparr>pn_server = s', pn_remotes = map (remote_reads g ?s s') (pn_remotes net)\<rparr>"
    using N fs by (auto simp: net_ok_def Let_def list_all_iff s'_def server_ok_def file_written_def intro!: ready_sent)
  with st rms fs show ?thesis unfolding s'_def [symmetric] by (simp add: same_server_def sel)
qed

lemma answered_copy:
  assumes "idle b q" and "length iv = 16" and "16 + length data < 2 ^ 63"
  shows "answered AES key data (with_answer
      [le_bytes 8 (unat (word_of_int (int (16 + length data)) :: 64 word)), iv @ ctr_xor (AES key) iv 0 data] q)"
    and "\<not> silent (with_answer [le_bytes 8 n, c] q)"
  using assms size_unat [OF assms(3)] by (auto simp: answered_def with_answer_def idle_def silent_def intro!: exI [of _ iv])

lemma in_map_apsnd: "(\<And>b q. (b, q) \<in> set ps \<Longrightarrow> P (f q)) \<Longrightarrow> \<forall>(b, q) \<in> set (map (apsnd f) ps). P q"
  by auto

lemma map_apsnd_id: "(\<And>b q. (b, q) \<in> set ps \<Longrightarrow> f (g q) = q) \<Longrightarrow> map (apsnd f) (map (apsnd g) ps) = ps"
  unfolding map_map by (rule map_idI) auto

lemma net_ask:
  assumes "net_ok AES D K K' net" and "names_ok D K'" and "k \<in> K'" and "c \<noteq> []"
    and "gob_frames g \<lparr>msg_Payload = Some (PayloadGetFile \<lparr>mgf_ID = fv_ID (pn_server net), mgf_Key = k\<rparr>)\<rparr> buf"
    and "\<forall>rm \<in> set (pn_remotes net).
      file_at (fv_store (rm_server rm)) D (fv_disk (rm_server rm)) (fv_ID (pn_server net), k) = Some c"
  shows "ask_remotes g (pn_server net) (pn_remotes net)
      ((pn_server net)\<lparr>fv_peers := map (apsnd (sent [[IncomingMessage], buf])) (fv_peers (pn_server net))\<rparr>) =
    (pn_server net)\<lparr>fv_peers := map (apsnd (with_answer [le_bytes 8 (unat (word_of_int (int (length c)) :: 64 word)), c]))
      (map (apsnd (sent [[IncomingMessage], buf])) (fv_peers (pn_server net)))\<rparr>"
proof -
  note N = net_okD [OF assms(1)]
  let ?s = "pn_server net" let ?ps = "map (apsnd (sent [[IncomingMessage], buf])) (fv_peers ?s)"
  let ?len = "le_bytes 8 (unat (word_of_int (int (length c)) :: 64 word))"
  have q: "\<exists>q. gm_get ?ps (rm_addr rm) = Some q \<and> idle (rm_addr rm) q \<and>
      cn_out (tp_Conn q) = outbox (rm_addr rm) ?s @ [[IncomingMessage], buf]" if "rm \<in> set (pn_remotes net)" for rm
    using N(10) [OF that] gm_allD [OF N(8)]
    by (auto simp: map_apsnd_update_all gm_get_keys outbox_def peer_ready_def idle_def)
  have srv: "\<exists>r B. serve g (rm_self rm) [[IncomingMessage], buf] (rm_server rm) = Some (r, B) \<and>
      outbox (rm_self rm) B = outbox (rm_self rm) (rm_server rm) @ [[IncomingStream], ?len, c]"
    if "rm \<in> set (pn_remotes net)" for rm
    using remote_serves [OF N(9) [OF that] assms(2) N(3) assms(3) _ assms(4,5)] assms(6) that by blast
  have "ask_remotes g ?s (pn_remotes net) (?s\<lparr>fv_peers := ?ps\<rparr>) = ?s\<lparr>fv_peers := gm_update_all
      (\<lambda>b q. if b \<in> rm_addr ` set (pn_remotes net) then with_answer [?len, c] q else q) ?ps\<rparr>"
    using N(4-6) q srv by (subst ask_remotes_answered [where len = ?len and c = c and buf = buf])
      (simp_all add: gm_wf_def gm_keys_def comp_def)
  also have "gm_update_all (\<lambda>b q. if b \<in> rm_addr ` set (pn_remotes net) then with_answer [?len, c] q else q) ?ps =
      map (apsnd (with_answer [?len, c])) ?ps"
    using arg_cong [OF N(6), of set, symmetric] by (auto simp: gm_update_all_def gm_keys_def rev_image_eqI)
  finally show ?thesis .
qed

lemma net_get:
  assumes "net_ok AES D K K' net" and "names_ok D K" and "names_ok D K'" and "key \<in> K" and "hashKey MD5 key \<in> K'"
    and "length iv = 16" and "16 + length data < 2 ^ 63"
    and "gob_frames g \<lparr>msg_Payload = Some (PayloadGetFile \<lparr>mgf_ID = fv_ID (pn_server net), mgf_Key = hashKey MD5 key\<rparr>)\<rparr> buf"
    and "file_at (fv_store (pn_server net)) D (fv_disk (pn_server net)) (fv_ID (pn_server net), key) = None"
    and "\<forall>rm \<in> set (pn_remotes net). file_at (fv_store (rm_server rm)) D (fv_disk (rm_server rm))
      (fv_ID (pn_server net), hashKey MD5 key) = Some (iv @ ctr_xor (AES (fv_EncKey (pn_server net))) iv 0 data)"
  shows "\<exists>s'. FileServer_Get AES MD5 g (ask_remotes g (pn_server net) (pn_remotes net)) key (pn_server net) =
      Some (Inr (bytes_reader data), s') \<and>
    same_server (pn_server net) s' \<and>
    file_written (fv_store s') D K (fv_ID s', key) (Some data) (fv_disk (pn_server net)) (fv_disk s') \<and>
    net_ok AES D K K' \<lparr>pn_server = s', pn_remotes = map (remote_reads g (pn_server net) s') (pn_remotes net)\<rparr> \<and>
    (\<forall>rm \<in> set (pn_remotes net). \<exists>B. remote_reads g (pn_server net) s' rm = rm\<lparr>rm_server := B\<rparr> \<and>
       fv_store B = fv_store (rm_server rm) \<and> fv_disk B = fv_disk (rm_server rm))"
proof -
  note N = net_okD [OF assms(1)]
  let ?s = "pn_server net" let ?ps = "map (apsnd (sent [[IncomingMessage], buf])) (fv_peers ?s)"
  define c where "c = iv @ ctr_xor (AES (fv_EncKey ?s)) iv 0 data"
  have len: "length c = 16 + length data" and ne: "c \<noteq> []" using assms(6) by (auto simp: c_def)
  define ans where "ans = with_answer [le_bytes 8 (unat (word_of_int (int (length c)) :: 64 word)), c]"
  have sleep: "ask_remotes g ?s (pn_remotes net) (?s\<lparr>fv_peers := ?ps\<rparr>) = ?s\<lparr>fv_peers := map (apsnd ans) ?ps\<rparr>"
    unfolding ans_def by (rule net_ask [OF assms(1,3,5) ne assms(8)]) (use assms(10) in \<open>simp add: c_def\<close>)
  have enc: "gob_Encode g \<lparr>msg_Payload = Some (PayloadGetFile \<lparr>mgf_ID = fv_ID ?s, mgf_Key = hashKey MD5 key\<rparr>)\<rparr> = Inr buf"
    using assms(8) by (simp add: gob_frames_def)
  have idle: "idle b q" if "(b, q) \<in> set ?ps" for b q
    using ready_sent [OF N(8), of "[[IncomingMessage], buf]"] that by (auto simp: gm_all_def peer_ready_def)
  have "answered AES (fv_EncKey ?s) data (ans q) \<and> \<not> silent (ans q)" if "(b, q) \<in> set ?ps" for b q
    using answered_copy(1) [OF idle [OF that] assms(6,7), of AES "fv_EncKey ?s"] answered_copy(2) [OF idle [OF that] assms(6,7)]
    unfolding c_def [symmetric] ans_def len by simp
  then have ans: "\<forall>(b, q) \<in> set (map (apsnd ans) ?ps). answered AES (fv_EncKey ?s) data q \<and> \<not> silent q"
    by (rule in_map_apsnd)
  have "gm_wf (map (apsnd ans) ?ps)" "map (apsnd ans) ?ps \<noteq> []" using N(5-7) by (auto simp: gm_keys_def gm_wf_def comp_def)
  from FileServer_Get_answered [where sleep = "ask_remotes g ?s (pn_remotes net)" and data = data,
      OF N(1) names_file_ok [OF assms(2) N(2,3) assms(4)] assms(9) ready_writable [OF N(8)] enc sleep this] ans
  obtain fs where get: "FileServer_Get AES MD5 g (ask_remotes g ?s (pn_remotes net)) key ?s =
      Some (Inr (bytes_reader data), ?s\<lparr>fv_disk := fs, fv_peers := map (apsnd settled) (map (apsnd ans) ?ps)\<rparr>)"
    and w: "file_written (fv_store ?s) D K (fv_ID ?s, key) (Some data) (fv_disk ?s) fs"
    by fast
  have "map (apsnd settled) (map (apsnd ans) ?ps) = ?ps"
    by (rule map_apsnd_id) (use settled_answer [OF idle] in \<open>simp add: ans_def\<close>)
  with get have get: "FileServer_Get AES MD5 g (ask_remotes g ?s (pn_remotes net)) key ?s =
      Some (Inr (bytes_reader data), ?s\<lparr>fv_disk := fs, fv_peers := ?ps\<rparr>)" by simp
  define s' where "s' = ?s\<lparr>fv_disk := fs, fv_peers := ?ps\<rparr>"
  have out: "drop (length (outbox (rm_addr rm) ?s)) (outbox (rm_addr rm) s') = [[IncomingMessage], buf]"
    if "rm \<in> set (pn_remotes net)" for rm
    using outbox_sent [OF N(10) [OF that], where s = "?s\<lparr>fv_disk := fs\<rparr>"] by (simp add: s'_def outbox_def)
  have rms: "\<exists>B. remote_reads g ?s s' rm = rm\<lparr>rm_server := B\<rparr> \<and> remote_ok D K' (rm\<lparr>rm_server := B\<rparr>) \<and>
      fv_store B = fv_store (rm_server rm) \<and> fv_disk B = fv_disk (rm_server rm)" if "rm \<in> set (pn_remotes net)" for rm
    using remote_serves [OF N(9) [OF that] assms(3) N(3) assms(5) _ ne assms(8)] assms(10) that out [OF that]
    by (fastforce simp: remote_reads_def c_def)
  then have "remote_ok D K' (remote_reads g ?s s' rm) \<and> rm_addr (remote_reads g ?s s' rm) = rm_addr rm" if "rm \<in> set (pn_remotes net)" for rm
    using that by fastforce
  then have "net_ok AES D K K' \<lparr>pn_server = s', pn_remotes = map (remote_reads g ?s s') (pn_remotes net)\<rparr>"
    using N w by (auto simp: net_ok_def Let_def list_all_iff s'_def server_ok_def file_written_def intro!: ready_sent)
  with get w rms show ?thesis unfolding s'_def [symmetric] by (fastforce simp: same_server_def s'_def)
qed

section \<open>Sessions\<close>

text \<open>
  What the disk of a server holds under a node after some files were stored there: the last
  content for each of the names, and what it held before for the others.
\<close>

definition holds_after ::
  "(string \<Rightarrow> string) \<Rightarrow> string set \<Rightarrow> string \<Rightarrow> (string \<times> byte list) list \<Rightarrow> FileServer \<Rightarrow> FileServer \<Rightarrow> bool" where
  "holds_after D K nid ws s s' \<longleftrightarrow> fv_store s' = fv_store s \<and>
     (\<forall>k \<in> K. file_at (fv_store s) D (fv_disk s') (nid, k) =
        (case map_of (rev ws) k of Some c \<Rightarrow> Some c | None \<Rightarrow> file_at (fv_store s) D (fv_disk s) (nid, k)))"

lemma holds_after_Nil: "holds_after D K nid [] s s"
  by (simp add: holds_after_def)

lemma holds_after_append:
  "holds_after D K nid ws s s1 \<Longrightarrow> holds_after D K nid ws' s1 s2 \<Longrightarrow> holds_after D K nid (ws @ ws') s s2"
  by (auto simp: holds_after_def map_add_def split: option.splits)

lemma holds_after_written:
  assumes "names_ok D K" and "cas_store (fv_store s) D" and "plain nid" and "fv_store s' = fv_store s"
    and "file_written (fv_store s) D K (nid, k) (Some c) (fv_disk s) (fv_disk s')"
  shows "holds_after D K nid [(k, c)] s s'"
  using assms names_file_ok [OF assms(1-3)] by (simp add: holds_after_def file_written_def)

text \<open>The content of a round as the peers store it.\<close>

definition encrypted :: "(byte list \<Rightarrow> byte list) \<Rightarrow> byte list \<Rightarrow> byte list \<Rightarrow> byte list" where
  "encrypted E rnd data = take 16 rnd @ ctr_xor E (take 16 rnd) 0 data"

text \<open>What a round needs: names with digests, enough random bytes, and messages that fit into one read.\<close>

definition round_ok ::
  "(byte list \<Rightarrow> byte list) \<Rightarrow> gob \<Rightarrow> string set \<Rightarrow> string set \<Rightarrow> string \<Rightarrow> string \<times> byte list \<times> byte list \<Rightarrow> bool" where
  "round_ok MD5 g K K' nid = (\<lambda>(key, data, rnd).
     key \<in> K \<and> hashKey MD5 key \<in> K' \<and> 16 \<le> length rnd \<and> 16 + length data < 2 ^ 63 \<and>
     (\<exists>buf. gob_frames g \<lparr>msg_Payload = Some (PayloadStoreFile \<lparr>msf_ID = nid, msf_Key = hashKey MD5 key,
        msf_Size = int (length data) + 16\<rparr>)\<rparr> buf) \<and>
     (\<exists>buf. gob_frames g \<lparr>msg_Payload = Some (PayloadGetFile \<lparr>mgf_ID = nid, mgf_Key = hashKey MD5 key\<rparr>)\<rparr> buf))"

text \<open>How a network has changed when the server has stored, deleted and fetched files.\<close>

definition net_after ::
  "(string \<Rightarrow> string) \<Rightarrow> string set \<Rightarrow> string set \<Rightarrow> (string \<times> byte list) list \<Rightarrow> (string \<times> byte list) list \<Rightarrow> p2p_net \<Rightarrow> p2p_net \<Rightarrow> bool" where
  "net_after D K K' ws ws' net net' \<longleftrightarrow> same_server (pn_server net) (pn_server net') \<and>
     holds_after D K (fv_ID (pn_server net)) ws (pn_server net) (pn_server net') \<and>
     list_all2 (\<lambda>rm rm'. rm_addr rm' = rm_addr rm \<and> holds_after D K' (fv_ID (pn_server net)) ws' (rm_server rm) (rm_server rm'))
       (pn_remotes net) (pn_remotes net')"

lemma net_after_Nil: "net_after D K K' [] [] net net"
  by (simp add: net_after_def same_server_def holds_after_Nil list_all2_refl)

lemma net_after_append:
  assumes "net_after D K K' ws ws' net net1" and "net_after D K K' vs vs' net1 net2"
  shows "net_after D K K' (ws @ vs) (ws' @ vs') net net2"
proof -
  let ?n = "fv_ID (pn_server net)"
  let ?P = "\<lambda>ws rm rm'. rm_addr rm' = rm_addr rm \<and> holds_after D K' ?n ws (rm_server rm) (rm_server rm')"
  have "list_all2 (?P ws') (pn_remotes net) (pn_remotes net1)" "list_all2 (?P vs') (pn_remotes net1) (pn_remotes net2)"
    using assms by (simp_all add: net_after_def same_server_def)
  then have "list_all2 (?P (ws' @ vs')) (pn_remotes net) (pn_remotes net2)"
    by (rule list_all2_trans [rotated]) (auto intro: holds_after_append)
  then show ?thesis using assms by (auto simp: net_after_def same_server_def intro: holds_after_append)
qed

lemma net_store_delete:
  assumes "net_ok AES D K K' net" and "names_ok D K" and "names_ok D K'" and "key \<in> K" and "hashKey MD5 key \<in> K'"
    and "16 \<le> length rnd"
    and "gob_frames g \<lparr>msg_Payload = Some (PayloadStoreFile \<lparr>msf_ID = fv_ID (pn_server net), msf_Key = hashKey MD5 key,
           msf_Size = int (length data) + 16\<rparr>)\<rparr> buf"
  obtains s1 fs where
    "FileServer_Store AES MD5 g rnd (\<lambda>s. s) key (bytes_reader data) (pn_server net) = (Inr (), s1)"
    and "Delete (fv_store s1) (fv_ID s1) key (fv_disk s1) = (Inr (), fs)" and "same_server (pn_server net) s1"
    and "net_ok AES D K K' \<lparr>pn_server = s1\<lparr>fv_disk := fs\<rparr>, pn_remotes = map (remote_reads g (pn_server net) s1) (pn_remotes net)\<rparr>"
    and "\<And>k. k \<in> K \<Longrightarrow> file_at (fv_store s1) D fs (fv_ID s1, k) =
      (if k = key then None else file_at (fv_store s1) D (fv_disk (pn_server net)) (fv_ID s1, k))"
    and "\<And>rm. rm \<in> set (pn_remotes net) \<Longrightarrow> rm_addr (remote_reads g (pn_server net) s1 rm) = rm_addr rm \<and>
      holds_after D K' (fv_ID s1) [(hashKey MD5 key, encrypted (AES (fv_EncKey s1)) rnd data)]
        (rm_server rm) (rm_server (remote_reads g (pn_server net) s1 rm))"
proof -
  let ?s = "pn_server net"
  note N = net_okD [OF assms(1)]
  from net_store [OF assms] obtain s1 where
    st: "FileServer_Store AES MD5 g rnd (\<lambda>s. s) key (bytes_reader data) ?s = (Inr (), s1)" "same_server ?s s1"
    and w1: "file_written (fv_store s1) D K (fv_ID s1, key) (Some data) (fv_disk ?s) (fv_disk s1)"
    and n1: "net_ok AES D K K' \<lparr>pn_server = s1, pn_remotes = map (remote_reads g ?s s1) (pn_remotes net)\<rparr>"
    and rm1: "\<And>rm. rm \<in> set (pn_remotes net) \<Longrightarrow> \<exists>fs. remote_reads g ?s s1 rm = rm\<lparr>rm_server := (rm_server rm)\<lparr>fv_disk := fs\<rparr>\<rparr> \<and>
       file_written (fv_store (rm_server rm)) D K' (fv_ID s1, hashKey MD5 key) (Some (encrypted (AES (fv_EncKey s1)) rnd data))
         (fv_disk (rm_server rm)) fs"
    unfolding encrypted_def by blast
  note N1 = net_okD [OF n1, simplified]
  note ok = names_file_ok [OF assms(2) N1(2,3)]
  have "file_inv (fv_store s1) D K (fv_disk s1)" using w1 by (simp add: file_written_def)
  then obtain fs where del: "Delete (fv_store s1) (fv_ID s1) key (fv_disk s1) = (Inr (), fs)"
    and w2: "file_written (fv_store s1) D K (fv_ID s1, key) None (fv_disk s1) fs" using Delete_file ok [OF assms(4)] by blast
  have n2: "net_ok AES D K K' \<lparr>pn_server = s1\<lparr>fv_disk := fs\<rparr>, pn_remotes = map (remote_reads g ?s s1) (pn_remotes net)\<rparr>"
    using n1 w2 by (simp add: net_ok_def Let_def server_ok_def file_written_def)
  have "rm_addr (remote_reads g ?s s1 rm) = rm_addr rm \<and>
      holds_after D K' (fv_ID s1) [(hashKey MD5 key, encrypted (AES (fv_EncKey s1)) rnd data)] (rm_server rm) (rm_server (remote_reads g ?s s1 rm))"
    if "rm \<in> set (pn_remotes net)" for rm
    using rm1 [OF that] N(9) [OF that] N1(3) assms(3) by (auto simp: remote_ok_def Let_def intro!: holds_after_written)
  with that [OF st(1) del st(2) n2] w1 w2 ok show ?thesis by (simp add: file_written_def)
qed

lemma demo_round_ok:
  assumes "net_ok AES D K K' net" and "names_ok D K" and "names_ok D K'"
    and "round_ok MD5 g K K' (fv_ID (pn_server net)) (key, data, rnd)"
  shows "\<exists>net'. demo_round AES MD5 g rnd key data net = Some (Inr data, net') \<and> net_ok AES D K K' net' \<and>
    net_after D K K' [(key, data)] [(hashKey MD5 key, encrypted (AES (fv_EncKey (pn_server net))) rnd data)] net net'"
proof -
  let ?s = "pn_server net"
  from assms(4) obtain buf1 buf2 where r: "key \<in> K" "hashKey MD5 key \<in> K'" "16 \<le> length rnd" "16 + length data < 2 ^ 63"
    and m1: "gob_frames g \<lparr>msg_Payload = Some (PayloadStoreFile \<lparr>msf_ID = fv_ID ?s, msf_Key = hashKey MD5 key,
        msf_Size = int (length data) + 16\<rparr>)\<rparr> buf1"
    and m2: "gob_frames g \<lparr>msg_Payload = Some (PayloadGetFile \<lparr>mgf_ID = fv_ID ?s, mgf_Key = hashKey MD5 key\<rparr>)\<rparr> buf2"
    unfolding round_ok_def by auto
  obtain s1 fs where st: "FileServer_Store AES MD5 g rnd (\<lambda>s. s) key (bytes_reader data) ?s = (Inr (), s1)"
    and del: "Delete (fv_store s1) (fv_ID s1) key (fv_disk s1) = (Inr (), fs)" and same1: "same_server ?s s1"
    and n2: "net_ok AES D K K' \<lparr>pn_server = s1\<lparr>fv_disk := fs\<rparr>, pn_remotes = map (remote_reads g ?s s1) (pn_remotes net)\<rparr>"
    and at: "\<And>k. k \<in> K \<Longrightarrow> file_at (fv_store s1) D fs (fv_ID s1, k) =
      (if k = key then None else file_at (fv_store s1) D (fv_disk ?s) (fv_ID s1, k))"
    and rm1: "\<And>rm. rm \<in> set (pn_remotes net) \<Longrightarrow> rm_addr (remote_reads g ?s s1 rm) = rm_addr rm \<and>
      holds_after D K' (fv_ID s1) [(hashKey MD5 key, encrypted (AES (fv_EncKey s1)) rnd data)]
        (rm_server rm) (rm_server (remote_reads g ?s s1 rm))"
    by (rule net_store_delete [OF assms(1-3) r(1-3) m1]) blast
  define s2 rms2 where "s2 = s1\<lparr>fv_disk := fs\<rparr>" and "rms2 = map (remote_reads g ?s s1) (pn_remotes net)"
  have sel: "fv_ID s2 = fv_ID ?s" "fv_EncKey s2 = fv_EncKey ?s" "fv_store s2 = fv_store ?s" "fv_disk s2 = fs"
    "fv_ID s1 = fv_ID ?s" "fv_EncKey s1 = fv_EncKey ?s" "fv_store s1 = fv_store ?s"
    using same1 by (simp_all add: same_server_def s2_def)
  have "\<forall>rm \<in> set rms2. file_at (fv_store (rm_server rm)) D (fv_disk (rm_server rm)) (fv_ID s2, hashKey MD5 key) =
      Some (take 16 rnd @ ctr_xor (AES (fv_EncKey s2)) (take 16 rnd) 0 data)"
    using rm1 r(2) by (auto simp: rms2_def holds_after_def sel encrypted_def)
  with net_get [OF n2 [folded s2_def rms2_def] assms(2,3) r(1,2), of "take 16 rnd" data g buf2] r(1,3,4) m2 at
  obtain s3 where get: "FileServer_Get AES MD5 g (ask_remotes g s2 rms2) key s2 = Some (Inr (bytes_reader data), s3)"
    and same: "same_server s2 s3" and w3: "file_written (fv_store s3) D K (fv_ID s3, key) (Some data) fs (fv_disk s3)"
    and n3: "net_ok AES D K K' \<lparr>pn_server = s3, pn_remotes = map (remote_reads g s2 s3) rms2\<rparr>" (is "net_ok _ _ _ _ ?net3")
    and rm3: "\<forall>rm \<in> set rms2. \<exists>B. remote_reads g s2 s3 rm = rm\<lparr>rm_server := B\<rparr> \<and>
       fv_store B = fv_store (rm_server rm) \<and> fv_disk B = fv_disk (rm_server rm)" by (auto simp: sel)
  have "demo_round AES MD5 g rnd key data net = Some (Inr data, ?net3)"
    using st del get by (simp add: demo_round_def s2_def rms2_def)
  moreover have "holds_after D K (fv_ID ?s) [(key, data)] ?s s3"
    using w3 same at names_file_ok [OF assms(2) net_okD(2,3) [OF assms(1)]]
    by (simp add: holds_after_def file_written_def same_server_def sel)
  moreover have "list_all2 (\<lambda>rm rm'. rm_addr rm' = rm_addr rm \<and> holds_after D K' (fv_ID ?s)
      [(hashKey MD5 key, encrypted (AES (fv_EncKey ?s)) rnd data)] (rm_server rm) (rm_server rm')) (pn_remotes net) (pn_remotes ?net3)"
  proof -
    have "rm_addr rm' = rm_addr rm \<and> holds_after D K' (fv_ID ?s)
        [(hashKey MD5 key, encrypted (AES (fv_EncKey ?s)) rnd data)] (rm_server rm) (rm_server rm')"
      if "rm \<in> set (pn_remotes net)" "rm' = remote_reads g s2 s3 (remote_reads g ?s s1 rm)" for rm rm'
      using rm1 [OF that(1)] rm3 that by (force simp: rms2_def sel holds_after_def)
    then show ?thesis by (simp add: rms2_def list.rel_map list_all2_same)
  qed
  ultimately show ?thesis using n3 same by (auto simp: net_after_def same_server_def sel)
qed

lemma demo_loop_ok:
  assumes "net_ok AES D K K' net" and "names_ok D K" and "names_ok D K'"
    and "\<forall>r \<in> set rounds. round_ok MD5 g K K' (fv_ID (pn_server net)) r"
  shows "\<exists>net'. demo_loop AES MD5 g rounds net = Some (Inr (map (\<lambda>(key, data, rnd). data) rounds), net') \<and> net_ok AES D K K' net' \<and>
    net_after D K K' (map (\<lambda>(key, data, rnd). (key, data)) rounds)
      (map (\<lambda>(key, data, rnd). (hashKey MD5 key, encrypted (AES (fv_EncKey (pn_server net))) rnd data)) rounds) net net'"
  using assms
proof (induction rounds arbitrary: net)
  case Nil
  then show ?case by (simp add: net_after_Nil)
next
  case (Cons r rounds)
  obtain key data rnd where r: "r = (key, data, rnd)" by (cases r)
  from demo_round_ok [OF Cons.prems(1-3), of MD5 g key data rnd] Cons.prems(4) obtain net1
    where run: "demo_round AES MD5 g rnd key data net = Some (Inr data, net1)" and n1: "net_ok AES D K K' net1"
    and a1: "net_after D K K' [(key, data)] [(hashKey MD5 key, encrypted (AES (fv_EncKey (pn_server net))) rnd data)] net net1"
    by (auto simp: r)
  have same: "fv_ID (pn_server net1) = fv_ID (pn_server net)" "fv_EncKey (pn_server net1) = fv_EncKey (pn_server net)"
    using a1 by (simp_all add: net_after_def same_server_def)
  from Cons.IH [OF n1 Cons.prems(2,3)] Cons.prems(4) obtain net'
    where "demo_loop AES MD5 g rounds net1 = Some (Inr (map (\<lambda>(key, data, rnd). data) rounds), net')" "net_ok AES D K K' net'"
    "net_after D K K' (map (\<lambda>(key, data, rnd). (key, data)) rounds)
      (map (\<lambda>(key, data, rnd). (hashKey MD5 key, encrypted (AES (fv_EncKey (pn_server net))) rnd data)) rounds) net1 net'"
    by (auto simp: same)
  with run net_after_append [OF a1] show ?case by (auto simp: r)
qed

lemma list_all2_right: "list_all2 P xs ys \<Longrightarrow> y \<in> set ys \<Longrightarrow> \<exists>x \<in> set xs. P x y"
  by (induction rule: list_all2_induct) auto

lemma map_of_rev_distinct: "distinct (map fst xs) \<Longrightarrow> (k, v) \<in> set xs \<Longrightarrow> map_of (rev xs) k = Some v"
  by (rule map_of_is_SomeI) (simp_all add: rev_map [symmetric])

text \<open>
  C29. Files survive the loss of the local copy, in any number of rounds and with any number of
  peers. A server in order with peers in order stores a file, deletes its own copy and gets the
  file, again and again: every \<open>Get\<close> returns exactly the content stored in its round, and the
  network is in order after every round. When the names are different, at the end the server has
  every file on its disk again, and every peer has every file under the hash of its key: the
  initial vector of that round followed by the encrypted content.
\<close>

theorem p2p_store_get:
  assumes "net_ok AES D K K' net" and "names_ok D K" and "names_ok D K'"
    and "\<forall>r \<in> set rounds. round_ok MD5 g K K' (fv_ID (pn_server net)) r"
    and "distinct (map (\<lambda>(key, data, rnd). hashKey MD5 key) rounds)"
  shows "\<exists>net'. demo_loop AES MD5 g rounds net = Some (Inr (map (\<lambda>(key, data, rnd). data) rounds), net') \<and>
    net_ok AES D K K' net' \<and>
    (\<forall>(key, data, rnd) \<in> set rounds.
       file_at (fv_store (pn_server net')) D (fv_disk (pn_server net')) (fv_ID (pn_server net), key) = Some data \<and>
       (\<forall>rm \<in> set (pn_remotes net'). file_at (fv_store (rm_server rm)) D (fv_disk (rm_server rm)) (fv_ID (pn_server net), hashKey MD5 key) =
          Some (encrypted (AES (fv_EncKey (pn_server net))) rnd data)))"
proof -
  let ?nid = "fv_ID (pn_server net)"
  let ?ws = "map (\<lambda>(key, data, rnd). (key, data)) rounds"
  let ?ws' = "map (\<lambda>(key, data, rnd). (hashKey MD5 key, encrypted (AES (fv_EncKey (pn_server net))) rnd data)) rounds"
  from demo_loop_ok [OF assms(1-4)] obtain net' where
    run: "demo_loop AES MD5 g rounds net = Some (Inr (map (\<lambda>(key, data, rnd). data) rounds), net')" "net_ok AES D K K' net'"
    and after: "net_after D K K' ?ws ?ws' net net'" by blast
  have d': "distinct (map fst ?ws')" using assms(5) by (simp add: comp_def split_def)
  have d: "distinct (map fst ?ws)"
    using distinct_map [THEN iffD1, of "hashKey MD5" "map fst rounds"] assms(5) by (simp add: comp_def split_def)
  have own: "file_at (fv_store (pn_server net')) D (fv_disk (pn_server net')) (?nid, key) = Some data"
    if "(key, data, rnd) \<in> set rounds" for key data rnd
  proof -
    have "map_of (rev ?ws) key = Some data" using map_of_rev_distinct [OF d, of key data] that by force
    with after assms(4) that show ?thesis by (auto simp: net_after_def holds_after_def round_ok_def)
  qed
  have copies: "file_at (fv_store (rm_server rm')) D (fv_disk (rm_server rm')) (?nid, hashKey MD5 key) =
      Some (encrypted (AES (fv_EncKey (pn_server net))) rnd data)"
    if r: "(key, data, rnd) \<in> set rounds" and rm: "rm' \<in> set (pn_remotes net')" for key data rnd rm'
  proof -
    obtain rm :: Remote where "holds_after D K' ?nid ?ws' (rm_server rm) (rm_server rm')"
      using list_all2_right [OF after [unfolded net_after_def, THEN conjunct2, THEN conjunct2] rm] by blast
    moreover have "map_of (rev ?ws') (hashKey MD5 key) = Some (encrypted (AES (fv_EncKey (pn_server net))) rnd data)"
      using map_of_rev_distinct [OF d'] r by force
    ultimately show ?thesis using assms(4) r by (auto simp: holds_after_def round_ok_def)
  qed
  from run own copies show ?thesis by blast
qed

section \<open>The demonstration from the start\<close>

text \<open>
  \<open>runP2PDemo\<close>: three servers are made and started, the third one connects to the other two, and
  the loop runs. \<open>listen\<close>, \<open>dial\<close> and \<open>accepts\<close> are what the operating system answers, \<open>self\<close> the
  address under which a server sees the third one, \<open>rnd\<close> the random bytes in the order in which
  they are read, and \<open>disk\<close> the disk of the server that listens at an address. The value is what
  is printed, or the error that ends the program.
\<close>

definition tcp_conn :: "string \<Rightarrow> conn" where
  "tcp_conn remote = \<lparr>cn_remote = remote, cn_in = [], cn_end = None, cn_out = [], cn_room = None\<rparr>"

definition server_started ::
  "(string \<Rightarrow> unit result) \<Rightarrow> (string \<Rightarrow> conn result) \<Rightarrow> (string \<Rightarrow> accept_event list) \<Rightarrow> FileServer \<Rightarrow> FileServer result" where
  "server_started listen dial accepts s =
     (case Start listen dial s of
        (Inl err, _) \<Rightarrow> Inl err
      | (Inr _, s') \<Rightarrow>
          (case startAcceptLoop (accepts (fv_ListenAddr s)) s' of (Inl err, _) \<Rightarrow> Inl err | (Inr _, s'') \<Rightarrow> Inr s''))"

definition demo_key :: "nat \<Rightarrow> string" where
  "demo_key i = ''picture_'' @ dec i @ ''.png''"

definition demo_data :: "byte list" where
  "demo_data = string_bytes ''my big data file here!''"

definition runP2PDemo ::
  "(byte list \<Rightarrow> byte list \<Rightarrow> byte list) \<Rightarrow> (byte list \<Rightarrow> byte list) \<Rightarrow> (string \<Rightarrow> string) \<Rightarrow> gob
    \<Rightarrow> (string \<Rightarrow> unit result) \<Rightarrow> (string \<Rightarrow> conn result) \<Rightarrow> (string \<Rightarrow> accept_event list) \<Rightarrow> (string \<Rightarrow> string)
    \<Rightarrow> (nat \<Rightarrow> byte list) \<Rightarrow> (string \<Rightarrow> file_system) \<Rightarrow> byte list list result option" where
  "runP2PDemo AES MD5 D g listen dial accepts self rnd disk =
     (let s1 = makeServer D (rnd 0) (rnd 1) '':3000'' [] (disk '':3000'');
          s2 = makeServer D (rnd 2) (rnd 3) '':7000'' [] (disk '':7000'');
          s3 = makeServer D (rnd 4) (rnd 5) '':5000'' ['':3000'', '':7000''] (disk '':5000'');
          remote = (\<lambda>addr s. \<lparr>rm_addr = (case dial addr of Inl _ \<Rightarrow> addr | Inr c \<Rightarrow> cn_remote c), rm_self = self addr, rm_server = s\<rparr>)
      in case bind_result (server_started listen dial accepts s1) (\<lambda>s1'.
              bind_result (server_started listen dial accepts s2) (\<lambda>s2'. Inr (s1', s2'))) of
           Inl err \<Rightarrow> Some (Inl err)
         | Inr (s1', s2') \<Rightarrow>
             (let s3' = snd (Start listen dial s3);
                  net = \<lparr>pn_server = s3', pn_remotes = [remote '':3000'' s1', remote '':7000'' s2']\<rparr>
              in map_option fst (demo_loop AES MD5 g (map (\<lambda>i. (demo_key i, demo_data, rnd (6 + i))) [0..<20]) net)))"

lemma hex_digit_char: "n < 16 \<Longrightarrow> hex_digit n \<in> set ''0123456789abcdef''"
proof -
  have "\<forall>n < 16. hex_digit n \<in> set ''0123456789abcdef''" by code_simp
  then show "n < 16 \<Longrightarrow> ?thesis" by blast
qed

lemma hex_encode_chars: "set (hex_encode b) \<subseteq> set ''0123456789abcdef''"
proof -
  have "unat x < 2 ^ LENGTH(8)" for x :: byte by (rule unsigned_less)
  then have "unat x div 16 < 16" for x :: byte by (simp add: div_less_iff_less_mult)
  then have "{hex_digit (unat x div 16), hex_digit (unat x mod 16)} \<subseteq> set ''0123456789abcdef''" for x :: byte
    using hex_digit_char by simp
  then show ?thesis unfolding hex_encode_def by auto
qed

lemma length_hex_encode: "length (hex_encode b) = 2 * length b"
  by (induction b) (simp_all add: hex_encode_def)

lemma generateID_plain: "plain (generateID rnd)"
proof -
  have "length (generateID rnd) = 64" by (simp add: generateID_def random_buf_def length_hex_encode)
  moreover have "CHR ''/'' \<notin> set (generateID rnd)" using hex_encode_chars unfolding generateID_def by fastforce
  ultimately show ?thesis by (auto simp: plain_def)
qed

lemma makeServer_sel:
  "fv_ListenAddr (makeServer D r1 r2 addr nodes fs) = addr" "fv_BootstrapNodes (makeServer D r1 r2 addr nodes fs) = nodes"
  "fv_ID (makeServer D r1 r2 addr nodes fs) = generateID r2" "fv_EncKey (makeServer D r1 r2 addr nodes fs) = newEncryptionKey r1"
  "fv_peers (makeServer D r1 r2 addr nodes fs) = []" "fv_disk (makeServer D r1 r2 addr nodes fs) = fs"
  "fv_rpcCh (makeServer D r1 r2 addr nodes fs) = []" "\<not> fv_quit (makeServer D r1 r2 addr nodes fs)"
  "cas_store (fv_store (makeServer D r1 r2 addr nodes fs)) D"
  by (simp_all add: makeServer_def NewFileServer_def Let_def cas_store_def NewStore_def)

lemma file_inv_empty: "fs_tree fs = [] \<Longrightarrow> fault_free fs \<Longrightarrow> file_inv st D K fs"
  by (simp add: file_inv_def local_inv_empty)

lemma peer_ready_new: "peer_ready addr (NewTCPeer (tcp_conn addr) outbound)"
  by (simp add: peer_ready_def idle_def NewTCPeer_def tcp_conn_def)

lemma open_tcp: "handleConn_open (tcp_conn addr) outbound s = s\<lparr>fv_peers := gm_put addr (NewTCPeer (tcp_conn addr) outbound) (fv_peers s)\<rparr>"
  by (simp add: handleConn_open_def handleConn_start_def NOPHandshakeFunc_def OnPeer_def) (simp add: NewTCPeer_def tcp_conn_def)

lemma started_remote:
  assumes "s = makeServer D r1 r2 addr [] fs" and "listen addr = Inr ()" and "accepts addr = [Accepted (tcp_conn (self addr))]"
    and "fs_tree fs = []" and "fault_free fs"
  shows "\<exists>s'. server_started listen dial accepts s = Inr s' \<and> remote_ok D K \<lparr>rm_addr = b, rm_self = self addr, rm_server = s'\<rparr>"
  using assms
  by (simp add: server_started_def Start_def ListenAndAccept_def makeServer_sel open_tcp remote_ok_def file_inv_empty peer_ready_new)

text \<open>
  C30. The demonstration does what it shows. If the ports are free and both connections are made,
  the disks are empty and without faults, AES maps blocks to blocks, the digests of the names are
  different, and the messages of the loop survive encoding, the program prints the content of the
  file twenty times.
\<close>

theorem runP2PDemo_prints:
  assumes "\<forall>addr. listen addr = Inr ()" and "dial '':3000'' = Inr (tcp_conn b1)" and "dial '':7000'' = Inr (tcp_conn b2)" and "b1 \<noteq> b2"
    and "\<forall>addr \<in> {'':3000'', '':7000''}. accepts addr = [Accepted (tcp_conn (self addr))]"
    and "\<forall>addr. fs_tree (disk addr) = [] \<and> fault_free (disk addr)" and "\<forall>i. 16 \<le> length (rnd i)"
    and "\<forall>key. length key = 32 \<longrightarrow> block_function (AES key)"
    and "names_ok D (demo_key ` {..<20})" and "names_ok D (hashKey MD5 ` demo_key ` {..<20})"
    and "\<forall>i < 20. \<exists>buf. gob_frames g \<lparr>msg_Payload = Some (PayloadStoreFile \<lparr>msf_ID = generateID (rnd 5),
      msf_Key = hashKey MD5 (demo_key i), msf_Size = 38\<rparr>)\<rparr> buf"
    and "\<forall>i < 20. \<exists>buf. gob_frames g \<lparr>msg_Payload = Some (PayloadGetFile \<lparr>mgf_ID = generateID (rnd 5),
      mgf_Key = hashKey MD5 (demo_key i)\<rparr>)\<rparr> buf"
  shows "runP2PDemo AES MD5 D g listen dial accepts self rnd disk =
    Some (Inr (replicate 20 (string_bytes ''my big data file here!'')))"
proof -
  let ?K = "demo_key ` {..<20}" let ?K' = "hashKey MD5 ` ?K"
  let ?rounds = "map (\<lambda>i. (demo_key i, demo_data, rnd (6 + i))) [0..<20]"
  have disks: "fs_tree (disk a) = []" "fault_free (disk a)" for a using assms(6) by simp_all
  obtain s1 where s1: "server_started listen dial accepts (makeServer D (rnd 0) (rnd 1) '':3000'' [] (disk '':3000'')) = Inr s1"
    "remote_ok D ?K' \<lparr>rm_addr = b1, rm_self = self '':3000'', rm_server = s1\<rparr>"
    using started_remote [OF refl _ _ disks] assms(1,5) by blast
  obtain s2 where s2: "server_started listen dial accepts (makeServer D (rnd 2) (rnd 3) '':7000'' [] (disk '':7000'')) = Inr s2"
    "remote_ok D ?K' \<lparr>rm_addr = b2, rm_self = self '':7000'', rm_server = s2\<rparr>"
    using started_remote [OF refl _ _ disks] assms(1,5) by blast
  define s3 where "s3 = snd (Start listen dial (makeServer D (rnd 4) (rnd 5) '':5000'' ['':3000'', '':7000''] (disk '':5000'')))"
  have s3: "s3 = (makeServer D (rnd 4) (rnd 5) '':5000'' ['':3000'', '':7000''] (disk '':5000''))\<lparr>fv_peers :=
      [(b1, NewTCPeer (tcp_conn b1) True), (b2, NewTCPeer (tcp_conn b2) True)], fv_listener := Listening\<rparr>"
    using assms(1-4) by (simp add: s3_def Start_def ListenAndAccept_def makeServer_sel Dial_def open_tcp)
  let ?net = "\<lparr>pn_server = s3, pn_remotes = [\<lparr>rm_addr = b1, rm_self = self '':3000'', rm_server = s1\<rparr>,
      \<lparr>rm_addr = b2, rm_self = self '':7000'', rm_server = s2\<rparr>]\<rparr>"
  have "length (newEncryptionKey (rnd 4)) = 32" by (simp add: newEncryptionKey_def random_buf_def)
  then have ok: "net_ok AES D ?K ?K' ?net"
    using assms(4,8) s1(2) s2(2) disks
    by (simp add: net_ok_def s3 makeServer_sel server_ok_def file_inv_empty generateID_plain gm_wf_def gm_keys_def gm_all_def peer_ready_new)
  have "\<forall>r \<in> set ?rounds. round_ok MD5 g ?K ?K' (fv_ID (pn_server ?net)) r"
    using assms(7,11,12) by (auto simp: round_ok_def s3 makeServer_sel demo_data_def string_bytes_def)
  from demo_loop_ok [OF ok assms(9,10) this] obtain net' where
    "demo_loop AES MD5 g ?rounds ?net = Some (Inr (map (\<lambda>(key, data, rnd). data) ?rounds), net')" by blast
  moreover have "map (\<lambda>(key, data, rnd). data) ?rounds = replicate 20 demo_data" by (simp add: comp_def map_replicate_const)
  ultimately show ?thesis
    using s1(1) s2(1) assms(2,3) unfolding runP2PDemo_def Let_def s3_def [symmetric] by (simp add: demo_data_def tcp_conn_def)
qed

text \<open>Digests and a codec that tell the names and the messages of the demonstration apart, for the witnesses.\<close>

definition name_digest :: "string \<Rightarrow> string" where
  "name_digest s =
     (case find (\<lambda>i. s = demo_key i \<or> s = hashKey demo_md5 (demo_key i)) [0..<20] of
        Some i \<Rightarrow> replicate i (CHR ''a'') @ replicate (40 - i) (CHR ''b'')
      | None \<Rightarrow> replicate 40 (CHR ''c''))"

definition demo_codec :: "string \<Rightarrow> gob" where
  "demo_codec nid =
     \<lparr>gob_Encode = (\<lambda>m. case msg_Payload m of
          Some (PayloadStoreFile v) \<Rightarrow> Inr (1 # string_bytes (msf_Key v))
        | Some (PayloadGetFile v) \<Rightarrow> Inr (2 # string_bytes (mgf_Key v))
        | None \<Rightarrow> Inl (ErrOther ''gob'')),
      gob_Decode = (\<lambda>b. case b of
          [] \<Rightarrow> Inl (ErrOther ''EOF'')
        | t # bs \<Rightarrow>
            (let k = map (\<lambda>x. char_of (unat x)) bs
             in if t = 1 then Inr \<lparr>msg_Payload = Some (PayloadStoreFile \<lparr>msf_ID = nid, msf_Key = k, msf_Size = 38\<rparr>)\<rparr>
                else Inr \<lparr>msg_Payload = Some (PayloadGetFile \<lparr>mgf_ID = nid, mgf_Key = k\<rparr>)\<rparr>))\<rparr>"

lemma string_bytes_back: "map (\<lambda>x. char_of (unat x)) (string_bytes s) = s"
proof -
  have "char_of (unat (word_of_nat (of_char c) :: byte)) = c" for c :: char
    by (simp add: unsigned_of_nat take_bit_eq_mod)
  then show ?thesis by (induction s) (simp_all add: string_bytes_def)
qed

lemma demo_codec_frames:
  assumes "length k \<le> 1000"
  shows "\<exists>buf. gob_frames (demo_codec nid) \<lparr>msg_Payload = Some (PayloadStoreFile \<lparr>msf_ID = nid, msf_Key = k, msf_Size = 38\<rparr>)\<rparr> buf"
    and "\<exists>buf. gob_frames (demo_codec nid) \<lparr>msg_Payload = Some (PayloadGetFile \<lparr>mgf_ID = nid, mgf_Key = k\<rparr>)\<rparr> buf"
  using assms by (simp_all add: gob_frames_def demo_codec_def string_bytes_back) (simp_all add: string_bytes_def)

lemma name_digest_found:
  assumes "i < 20" and "s = demo_key i \<or> s = hashKey demo_md5 (demo_key i)"
  obtains j where "j < 20" and "s = demo_key j \<or> s = hashKey demo_md5 (demo_key j)"
    and "name_digest s = replicate j (CHR ''a'') @ replicate (40 - j) (CHR ''b'')"
proof -
  let ?P = "\<lambda>i. s = demo_key i \<or> s = hashKey demo_md5 (demo_key i)"
  have "find ?P [0..<20] \<noteq> None" using assms by (auto simp: find_None_iff)
  then obtain j where j: "find ?P [0..<20] = Some j" by auto
  then have "j < 20" "?P j" by (auto simp: find_Some_iff)
  with j that show ?thesis by (simp add: name_digest_def)
qed

lemma digest_index:
  assumes "replicate i (CHR ''a'') @ replicate (40 - i) (CHR ''b'') = replicate j (CHR ''a'') @ replicate (40 - j) (CHR ''b'')"
  shows "i = j"
  using arg_cong [OF assms, of "\<lambda>s. length (takeWhile (\<lambda>c. c = CHR ''a'') s)"] by (simp add: takeWhile_append)

lemma demo_names:
  "names_ok name_digest (demo_key ` {..<20})" "names_ok name_digest (hashKey demo_md5 ` demo_key ` {..<20})"
proof -
  have apart: "demo_key i \<noteq> hashKey demo_md5 k" for i k
  proof
    assume "demo_key i = hashKey demo_md5 k"
    then have "CHR ''p'' \<in> set (hashKey demo_md5 k)" by (metis append_Cons demo_key_def list.set_intros(1))
    then show False using hex_encode_chars unfolding hashKey_def by fastforce
  qed
  have hex: "hex_digest (replicate j (CHR ''a'') @ replicate (40 - j) (CHR ''b''))" if "j < 20" for j
    using that by (auto simp: hex_digest_def list_all_iff)
  let ?R = "\<lambda>i s. s = demo_key i \<or> s = hashKey demo_md5 (demo_key i)"
  have ok: "names_ok name_digest K"
    if named: "\<And>s. s \<in> K \<Longrightarrow> \<exists>i < 20. ?R i s" and uniq: "\<And>s t i. s \<in> K \<Longrightarrow> t \<in> K \<Longrightarrow> ?R i s \<Longrightarrow> ?R i t \<Longrightarrow> s = t" for K
  proof -
    have found: "\<exists>j < 20. ?R j s \<and> name_digest s = replicate j (CHR ''a'') @ replicate (40 - j) (CHR ''b'')" if "s \<in> K" for s
      using named [OF that] name_digest_found by metis
    then have "inj_on name_digest K" by (intro inj_onI) (metis digest_index uniq)
    then show ?thesis unfolding names_ok_def using found hex by metis
  qed
  show "names_ok name_digest (demo_key ` {..<20})" by (rule ok) (use apart in auto)
  show "names_ok name_digest (hashKey demo_md5 ` demo_key ` {..<20})" by (rule ok) (use apart in \<open>auto simp: apart [symmetric]\<close>)
qed

lemma demo_key_hash: "i < 20 \<Longrightarrow> length (hashKey demo_md5 (demo_key i)) \<le> 1000"
proof -
  have "length (dec i) \<le> Suc i" by (induction i rule: dec.induct) (subst dec.simps, auto)
  then show "i < 20 \<Longrightarrow> ?thesis" by (simp add: hashKey_def demo_md5_def string_bytes_def demo_key_def length_hex_encode)
qed

theorem runP2PDemo_prints_witness:
  "runP2PDemo demo_aes demo_md5 name_digest (demo_codec (generateID (replicate 32 5))) (\<lambda>_. Inr ())
     (\<lambda>addr. if addr = '':3000'' then Inr (tcp_conn ''b1'') else Inr (tcp_conn ''b2''))
     (\<lambda>addr. [Accepted (tcp_conn ''a'')]) (\<lambda>_. ''a'') (\<lambda>_. replicate 32 5) (\<lambda>_. demo_disk) =
   Some (Inr (replicate 20 (string_bytes ''my big data file here!'')))"
proof (rule runP2PDemo_prints [where ?b1.0 = "''b1''" and ?b2.0 = "''b2''"], goal_cases)
  case 6
  then show ?case by (simp add: demo_disk_def fault_free_def)
next
  case 8
  then show ?case by (simp add: block_function_def demo_aes_def)
next
  case 11
  then show ?case using demo_codec_frames(1) demo_key_hash by simp
next
  case 12
  then show ?case using demo_codec_frames(2) demo_key_hash by simp
qed (simp_all add: demo_names)

theorem p2p_store_get_witness:
  "\<exists>net'. demo_loop demo_aes demo_md5 demo_gob [(''k'', [1, 2, 3], replicate 16 255)]
      \<lparr>pn_server = demo_server ''n1'' ''b'', pn_remotes = [\<lparr>rm_addr = ''b'', rm_self = ''a'', rm_server = demo_server ''n2'' ''a''\<rparr>]\<rparr> =
      Some (Inr [[1, 2, 3]], net') \<and>
    file_at (fv_store (pn_server net')) demo_digest (fv_disk (pn_server net')) (''n1'', ''k'') = Some [1, 2, 3]"
proof -
  let ?K = "{''k''}" and ?K' = "{hashKey demo_md5 ''k''}" and ?rounds = "[(''k'', [1, 2, 3], replicate 16 255)]"
  let ?net = "\<lparr>pn_server = demo_server ''n1'' ''b'',
      pn_remotes = [\<lparr>rm_addr = ''b'', rm_self = ''a'', rm_server = demo_server ''n2'' ''a''\<rparr>]\<rparr>"
  have cas: "cas_store demo_store demo_digest"
    by (simp add: cas_store_def demo_store_def NewStore_def defaultRootFolderName_def)
  have names: "names_ok demo_digest {k}" for k by (simp add: names_ok_def hex_digest_def demo_digest_def list_all_iff)
  have sel: "fv_store (demo_server n p) = demo_store" "fv_disk (demo_server n p) = demo_disk" "fv_rpcCh (demo_server n p) = []"
    "\<not> fv_quit (demo_server n p)" "fv_peers (demo_server n p) = [(p, demo_peer p)]" "fv_ID (demo_server n p) = n" for n p
    by (simp_all add: demo_server_def)
  have "net_ok demo_aes demo_digest ?K ?K' ?net"
    using cas by (simp add: net_ok_def remote_ok_def sel demo_server_ok demo_file_inv plain_def gm_wf_def gm_keys_def gm_all_def
        peer_ready_def demo_idle)
  moreover have "\<forall>r \<in> set ?rounds. round_ok demo_md5 demo_gob ?K ?K' (fv_ID (pn_server ?net)) r"
    using demo_gob_frames by (auto simp: round_ok_def sel demo_store_msg_def demo_get_msg_def)
  ultimately show ?thesis
    using p2p_store_get [OF _ names names, of demo_aes "''k''" "hashKey demo_md5 ''k''" ?net ?rounds demo_md5 demo_gob]
    by (auto simp: sel)
qed

end
