(* ===== verification/Spec2Isabelle.thy ===== *)
theory Spec2Isabelle
  imports Manager_Runs Command_Line Peer_Network
begin

text \<open>
  Verification of the distributed file store under \<open>src/distributed-fs\<close>.

  \<^bold>\<open>The program.\<close> A manager keeps metadata about files and nodes and a queue of replication tasks;
  storage nodes keep objects on disk. A client puts a file through the HTTP interface of the
  manager (\<open>http_api.go\<close>). The file service (\<open>managed_file_service.go\<close>) stages the stream in a
  temporary file, cuts it into chunks and computes checksums, asks the coordinator
  (\<open>coordinator.go\<close>) for nodes and a version, writes the chunks to the primary through an object
  store (\<open>object.go\<close>, over HTTP \<open>http_object_store.go\<close>) and commits: the metadata store publishes
  the version (\<open>metadata.go\<close>, on disk \<open>metadata_disk.go\<close>) and the queue gets a task for every copy
  that is missing (\<open>replication.go\<close>, on disk \<open>replication_disk.go\<close>). A background loop (\<open>main.go\<close>)
  expires nodes, frees abandoned tasks, plans repairs and runs copies with a worker (\<open>worker.go\<close>),
  which verifies every chunk. A read goes through the healthy replicas, the primary first, until
  one yields content with the recorded checksums.

  An older peer-to-peer server (\<open>server.go\<close>) shares the local store (\<open>store.go\<close>) with the above: it
  stores a file locally and sends an encrypted copy (\<open>crypto.go\<close>) to every peer, and fetches a file
  it does not have from its peers, over a transport (\<open>p2p\<close>) on whose connections a marker byte
  tells messages and streams apart.

  \<^bold>\<open>The theories.\<close>
  \<^item> \<open>DFS_Prelude\<close>: errors as values, results, Go maps as association lists with distinct keys,
    streams as lists of read events, sorting, decimal notation, tallies.
  \<^item> \<open>Metadata\<close>: \<open>MetadataStore\<close> with all its methods; well-formedness; runs of the store.
  \<^item> \<open>Replication\<close>: planner, task generation, backoff in 64-bit arithmetic, the in-memory queue
    and its reachable states.
  \<^item> \<open>Metadata_Backend\<close>, \<open>Task_Queue\<close>: the interfaces \<open>MetadataBackend\<close> and \<open>ReplicationTaskQueue\<close>
    as records of functions, and their contracts as locales over an abstraction to the in-memory
    stores; interpreted for the in-memory instances here and for the disk instances below.
  \<^item> \<open>Coordinator\<close>: \<open>MetadataCoordinator\<close> over any backend and queue; a locale that carries its
    behaviour over to every pair that meets the contracts.
  \<^item> \<open>Object_Store\<close>: names of objects, the interface \<open>ObjectStore\<close> with its contract (locales
    \<open>object_store\<close>, which allows every failure, and \<open>reliable_object_store\<close>), the replicator.
  \<^item> \<open>Disk_Store\<close>: paths, a file system with faults, \<open>store.go\<close>, and that the local object store
    meets both contracts.
  \<^item> \<open>Worker\<close>, \<open>Staging\<close>, \<open>File_Service\<close>: \<open>worker.go\<close> and \<open>managed_file_service.go\<close>.
  \<^item> \<open>Concurrent_Workers\<close>: rounds of the worker at the same time, call by call.
  \<^item> \<open>Json_Codec\<close>, \<open>Bolt_Tables\<close>, \<open>Metadata_Disk\<close>, \<open>Replication_Disk\<close>, \<open>Disk_Coordinator\<close>: records as
    JSON documents, the database as an interface with its documented laws, the disk stores, and
    the coordinator over both of them on one database.
  \<^item> \<open>Http_Paths\<close>, \<open>Http_Storage\<close>, \<open>Http_Api\<close>: URLs and escaping; the handler of a storage node, a
    network with faults and the client over it; the handler of the manager.
  \<^item> \<open>Manager_Loop\<close>, \<open>Commands\<close>: the background loop and the commands of \<open>main.go\<close>: how the processes
    are put together, heartbeats, and the client.
  \<^item> \<open>Manager_Runs\<close>: a manager as a state machine: what requests and ticks do to metadata and queue
    as runs of calls, for every backend; steps in which requests, ticks and rounds of the worker run
    undisturbed or interleave call by call; reachable states; the heartbeat loop of a node.
  \<^item> \<open>Command_Line\<close>: \<open>main\<close>, its commands and exit codes, and the packages \<open>flag\<close> and \<open>strconv\<close>
    as far as it uses them, with a grammar of command lines.
  \<^item> \<open>Stream_Cipher\<close>: \<open>crypto.go\<close> and \<open>WriteDecrypt\<close>; the writer a copy goes to is the locale
    \<open>byte_sink\<close>, interpreted for a file and for the writer to all peers.
  \<^item> \<open>Peer_Transport\<close>: connections, the default decoder and the read loop of \<open>p2p\<close>.
  \<^item> \<open>Peer_Server\<close>: the operations and message handlers of \<open>server.go\<close>; how a connection is made.
  \<^item> \<open>Peer_Network\<close>: a server with any number of peers, its sessions with them, and \<open>runP2PDemo\<close>.

  \<^bold>\<open>State and operations.\<close> A struct is a record with the names of the code and a prefix per type;
  an operation takes and returns the state. A method that can fail returns the sum of \<open>error\<close>
  and its value; where the code changes state before it fails, so does the model. The clock is
  a field of the stores. Versions are 64-bit words. SHA-256 is the parameter \<open>H\<close> of the
  operations, and the digest of the path transform the parameter \<open>D\<close>; no property assumes more
  of them than injectivity on the names in use, where objects would otherwise share a file. The
  database of the disk stores is third-party code: it is the record \<open>boltDB\<close>, and what is used of
  its documentation the predicate \<open>bolt_laws\<close>, which a concrete database satisfies
  (\<open>demo_bolt\<close>). Three methods (\<open>metadata_disk.go:75\<close>, \<open>replication_disk.go:43\<close> and \<open>134\<close>) put into the
  bucket they scan with \<open>ForEach\<close>, which the documentation leaves undefined: what follows the first
  put is a field of that record without any law, and the properties say of these methods only what
  holds whatever that field is. The AES block function, MD5, the random bytes and the text of gob messages are
  parameters of the peer-to-peer part. Faults of disks, temporary files, streams and the network are part of the
  states, and the safety properties hold for all of them.

  \<^bold>\<open>What is shown.\<close> Type and well-formedness invariants of the stores and the queue are kept by
  every operation, and hold in every state that a manager reaches through requests, ticks of its loop
  and rounds of its worker, one after the other or interleaved call by call, changes of the objects and
  the clock. In all these runs published versions are immutable and versions advance by one, and a node
  that keeps sending heartbeats stays in use. Staging
  computes the reference manifest however the stream is fragmented. What is put is what is got,
  over local disks and over HTTP; a read never yields wrong bytes, whatever backend and objects
  do; a failed put changes nothing that can be seen, unless the database fails halfway through the
  commit, and never an object of a published version. Copies that report success are verified,
  failed ones leave nothing new, and retries are bounded with backoff between two seconds and a
  minute. The repair scan plans exactly what is missing. The disk stores refine the in-memory
  ones, with the failures of the layers below made explicit; a manager that starts has the files of
  its database, and its tasks if none of them was interrupted.
  The background loop ends. Command lines are parsed exactly by their grammar, and a file that the
  process \<open>fs put\<close> has stored is written by the process \<open>fs get\<close>. The cipher inverts itself however a stream is cut into reads; a server
  gets back from its peers exactly what it stored, round after round, and the demonstration prints
  what it should. Several theorems show behaviour that the
  documentation does not promise: attempts beyond the bound with concurrent rounds of the worker, a
  version published by a \<open>Put\<close> that failed, deletions reported although they failed, keys that are accepted and cannot be stored, a \<open>Get\<close> that needs an answer
  from every peer, a stream whose marker becomes part of the file.

  \<^bold>\<open>Termination.\<close> Every function is total. The loop of the manager that runs until an error is a
  partial function in the option type, and is shown to return. No function has fuel.

  \<^bold>\<open>Not modelled.\<close> Locks as values: a call of a store, which the code runs under the lock of that
  store, is one step, and an operation made of several calls is their composition. Interleavings of
  operations at the same time are interleavings of their calls (\<open>Concurrent_Workers\<close>, \<open>Manager_Runs\<close>);
  the functional properties of single operations are about undisturbed runs. The text of JSON documents; a document is its tree. Removal of
  temporary files. Of \<open>main.go\<close>: signals and the shutdown
  of the HTTP servers, the text of \<open>usage\<close> and the layout of printed documents. Of
  \<open>p2p\<close>: \<open>GOBDecoder\<close>, which nothing uses. A call of the peer-to-peer server that
  would wait for bytes that never come has the value \<open>None\<close>. Where the code relies on a sleep, the
  other side is taken to have read by then; \<open>stream_marker_race\<close> shows what happens otherwise.
\<close>

end
